(* ===== verification/Agent_Prelude.thy ===== *)
theory Agent_Prelude
  imports Complex_Main
begin

text \<open>
  Shared vocabulary of the development: Python numbers and text as the agent
  uses them, bounded buffers, ordered dictionaries, the view of the file system
  the components read, and the interface of a deterministic state machine with
  an invariant.

  Conventions. Python integers are \<open>int\<close>. Python floats (seconds, fractions,
  percentages) are exact rationals \<open>rat\<close>: rounding errors of binary floating
  point are not modelled; where the code tells infinities or NaN apart they are
  constructors of their own. Text is a \<open>string\<close> whose characters are the code
  points U+0000 to U+00FF (Latin-1); the character classes below are Python's
  classes on that range.
\<close>

named_theorems py_simps \<open>unfolding rules for the small Python operations\<close>

type_synonym seconds = rat
type_synonym ns = int
type_synonym ms = int

section \<open>Numbers\<close>

text \<open>Python's \<open>round\<close>: to the nearest integer, ties to the even one.\<close>

definition round_half_even :: "rat \<Rightarrow> int" where
  "round_half_even x =
     (let f = \<lfloor>x\<rfloor>; d = x - of_int f
      in if d < 1 / 2 then f
         else if 1 / 2 < d then f + 1
         else if even f then f else f + 1)"

text \<open>\<open>round(x, n)\<close> keeps \<open>n\<close> decimals.\<close>

definition py_round :: "nat \<Rightarrow> rat \<Rightarrow> rat" where
  "py_round n x = of_int (round_half_even (x * 10 ^ n)) / 10 ^ n"

lemma round_half_even_of_int [simp]: "round_half_even (of_int k) = k"
  by (simp add: round_half_even_def)

lemma round_half_even_bounds:
  "\<lfloor>x\<rfloor> \<le> round_half_even x" "round_half_even x \<le> \<lfloor>x\<rfloor> + 1"
  by (auto simp: round_half_even_def Let_def)

lemma round_half_even_near: "\<bar>of_int (round_half_even x) - x\<bar> \<le> 1 / 2"
proof -
  have lo: "of_int \<lfloor>x\<rfloor> \<le> x" and hi: "x < of_int \<lfloor>x\<rfloor> + 1"
    by linarith+
  show ?thesis
    unfolding round_half_even_def Let_def abs_if using lo hi
    by (simp split: if_splits) linarith?
qed

lemma round_half_even_mono:
  assumes "x \<le> y"
  shows "round_half_even x \<le> round_half_even y"
proof (cases "\<lfloor>x\<rfloor> = \<lfloor>y\<rfloor>")
  case True
  with assms show ?thesis by (auto simp: round_half_even_def Let_def)
next
  case False
  with assms have "\<lfloor>x\<rfloor> + 1 \<le> \<lfloor>y\<rfloor>"
    using floor_mono [OF assms] by linarith
  then show ?thesis
    using round_half_even_bounds(2) [of x] round_half_even_bounds(1) [of y] by linarith
qed

lemma py_round_nonneg: "0 \<le> x \<Longrightarrow> 0 \<le> py_round n x"
  using round_half_even_mono [of 0 "x * 10 ^ n"] round_half_even_of_int [of 0]
  by (simp add: py_round_def)

lemma py_round_le_of_int:
  assumes "x \<le> of_int k"
  shows "py_round n x \<le> of_int k"
proof -
  have "x * 10 ^ n \<le> of_int (k * 10 ^ n)"
    using assms by (simp add: mult_right_mono)
  then have "round_half_even (x * 10 ^ n) \<le> k * 10 ^ n"
    using round_half_even_mono round_half_even_of_int by metis
  then have "(of_int (round_half_even (x * 10 ^ n)) :: rat) \<le> of_int (k * 10 ^ n)"
    by (simp only: of_int_le_iff)
  then show ?thesis by (simp add: py_round_def field_simps)
qed

section \<open>Optional values\<close>

text \<open>\<open>a or b\<close> where \<open>a\<close> is \<open>None\<close> or a value that is always truthy.\<close>

fun or_else :: "'a option \<Rightarrow> 'a \<Rightarrow> 'a" where
  "or_else None d = d"
| "or_else (Some a) d = a"

text \<open>\<open>xs[-1] if xs else None\<close>.\<close>

definition last_opt :: "'a list \<Rightarrow> 'a option" where
  "last_opt xs = (if xs = [] then None else Some (last xs))"

lemma last_opt_simps [simp]:
  "last_opt [] = None" "last_opt (xs @ [x]) = Some x"
  by (simp_all add: last_opt_def)

lemma last_opt_in_set: "last_opt xs = Some x \<Longrightarrow> x \<in> set xs"
  by (auto simp: last_opt_def split: if_splits)

section \<open>Bounded buffers\<close>

text \<open>\<open>collections.deque(maxlen=n).append(x)\<close>: the oldest element falls out.\<close>

definition deque_append :: "nat \<Rightarrow> 'a list \<Rightarrow> 'a \<Rightarrow> 'a list" where
  "deque_append n xs x = drop (length xs + 1 - n) (xs @ [x])"

lemma length_deque_append [simp]:
  "length (deque_append n xs x) = min n (length xs + 1)"
  by (auto simp: deque_append_def)

lemma set_deque_append: "set (deque_append n xs x) \<subseteq> insert x (set xs)"
  using set_drop_subset [of "length xs + 1 - n" "xs @ [x]"]
  by (auto simp: deque_append_def)

lemma last_deque_append: "0 < n \<Longrightarrow> last_opt (deque_append n xs x) = Some x"
  by (auto simp: deque_append_def last_opt_def)

text \<open>
  The interface of a bounded buffer: what its clients (cycle histories, the table
  of seen nonces) rely on, whatever the buffer holds.
\<close>

locale bounded_buffer =
  fixes push :: "'b \<Rightarrow> 'a \<Rightarrow> 'b"
    and held :: "'b \<Rightarrow> 'a list"
    and cap :: nat
  assumes push_bound: "length (held b) \<le> cap \<Longrightarrow> length (held (push b x)) \<le> cap"
    and push_keeps: "held (push b x) = drop (length (held b) + 1 - cap) (held b @ [x])"
begin

lemma pushes_bound:
  "length (held b) \<le> cap \<Longrightarrow> length (held (foldl push b xs)) \<le> cap"
  by (induction xs arbitrary: b) (auto intro: push_bound)

lemma pushes_suffix:
  "length (held b) \<le> cap \<Longrightarrow>
   held (foldl push b xs) = drop (length (held b) + length xs - cap) (held b @ xs)"
proof (induction xs arbitrary: b)
  case Nil
  then show ?case by simp
next
  case (Cons x xs)
  have bound: "length (held (push b x)) \<le> cap"
    using Cons.prems by (rule push_bound)
  have step: "drop (n - cap) (drop k (held b @ [x]) @ xs) =
      drop (length (held b) + length (x # xs) - cap) (held b @ x # xs)"
    if "k = length (held b) + 1 - cap" "n = length (drop k (held b @ [x])) + length xs" for k n
  proof -
    have "drop k (held b @ [x]) @ xs = drop k (held b @ x # xs)"
      using that(1) Cons.prems by (cases "cap = 0") auto
    moreover have "n - cap + k = length (held b) + length (x # xs) - cap"
      using that Cons.prems by (cases "cap = 0") auto
    ultimately show ?thesis by (simp only: drop_drop)
  qed
  show ?case
    using Cons.IH [OF bound] step [OF refl refl] by (simp add: push_keeps)
qed

end

interpretation dq: bounded_buffer "deque_append n" "\<lambda>xs. xs" n for n :: nat
  by unfold_locales (auto simp: deque_append_def)

section \<open>Text\<close>

text \<open>Python's whitespace (\<open>str.isspace\<close>, \<open>\s\<close>) and digits (\<open>\d\<close>) on U+0000 to U+00FF.\<close>

definition is_space :: "char \<Rightarrow> bool" where
  "is_space c \<longleftrightarrow> c \<in> set [CHR '' '', CHR 0x09, CHR 0x0A, CHR 0x0B, CHR 0x0C, CHR 0x0D,
     CHR 0x1C, CHR 0x1D, CHR 0x1E, CHR 0x1F, CHR 0x85, CHR 0xA0]"

definition is_digit :: "char \<Rightarrow> bool" where
  "is_digit c \<longleftrightarrow> c \<in> set ''0123456789''"

definition is_upper :: "char \<Rightarrow> bool" where
  "is_upper c \<longleftrightarrow> c \<in> set ''ABCDEFGHIJKLMNOPQRSTUVWXYZ''"

definition is_lower :: "char \<Rightarrow> bool" where
  "is_lower c \<longleftrightarrow> c \<in> set ''abcdefghijklmnopqrstuvwxyz''"

text \<open>\<open>[A-Z]\<close> under \<open>re.IGNORECASE\<close>.\<close>

definition is_alpha :: "char \<Rightarrow> bool" where
  "is_alpha c \<longleftrightarrow> is_upper c \<or> is_lower c"

lemmas char_class_defs = is_space_def is_digit_def is_upper_def is_lower_def is_alpha_def

definition lstrip :: "string \<Rightarrow> string" where
  "lstrip s = dropWhile is_space s"

definition rstrip :: "string \<Rightarrow> string" where
  "rstrip s = rev (dropWhile is_space (rev s))"

definition strip :: "string \<Rightarrow> string" where
  "strip s = rstrip (lstrip s)"

lemmas strip_defs = strip_def lstrip_def rstrip_def

text \<open>\<open>s.split(c, 1)[0]\<close>: the text before the first \<open>c\<close>.\<close>

definition before :: "char \<Rightarrow> string \<Rightarrow> string" where
  "before c s = takeWhile (\<lambda>x. x \<noteq> c) s"

text \<open>\<open>s.startswith(p)\<close>.\<close>

fun starts_with :: "string \<Rightarrow> string \<Rightarrow> bool" where
  "starts_with s [] = True"
| "starts_with [] (p # ps) = False"
| "starts_with (c # cs) (p # ps) = (c = p \<and> starts_with cs ps)"

lemma starts_with_iff: "starts_with s p \<longleftrightarrow> (\<exists>t. s = p @ t)"
  by (induction s p rule: starts_with.induct) auto

section \<open>Files\<close>

text \<open>
  What the agent sees of a file: \<open>os.stat\<close> (modification time, size) and its
  lines, or \<open>None\<close> when it can be stat'ed but not read. A path with no file
  view is one whose \<open>os.stat\<close> raises \<open>OSError\<close>.
\<close>

record file_view =
  fv_mtime :: rat
  fv_size :: int
  fv_lines :: "string list option"

type_synonym file_system = "string \<Rightarrow> file_view option"

section \<open>State machines with an invariant\<close>

text \<open>
  Most components are deterministic machines: a state, a step per call, an
  invariant every call keeps. The run over a list of calls keeps it too.
\<close>

locale invariant_machine =
  fixes step :: "'s \<Rightarrow> 'e \<Rightarrow> 's"
    and inv :: "'s \<Rightarrow> bool"
  assumes step_inv: "inv s \<Longrightarrow> inv (step s e)"
begin

lemma run_inv: "inv s \<Longrightarrow> inv (foldl step s es)"
  by (induction es arbitrary: s) (auto intro: step_inv)

lemma run_inv_prefix:
  "inv s \<Longrightarrow> es = pre @ post \<Longrightarrow> inv (foldl step s pre)"
  by (auto intro: run_inv)

end

end
