(* ===== verification/Program_File.thy ===== *)
theory Program_File
  imports Agent_Prelude
begin

text \<open>
  Which file is the program: \<open>subroutine_dirs\<close> (the folders named by the INI
  file) and \<open>ProgramFile\<close>, which keeps the loaded program while LinuxCNC shows a
  subroutine or remap file. \<open>os.path.realpath\<close> is the operating system's, so it
  is the parameter \<open>realpath\<close>.
\<close>

section \<open>subroutine\_dirs\<close>

fun split_on :: "char \<Rightarrow> string \<Rightarrow> string list" where
  "split_on sep [] = [[]]"
| "split_on sep (c # cs) =
     (if c = sep then [] # split_on sep cs
      else (case split_on sep cs of [] \<Rightarrow> [[c]] | w # ws \<Rightarrow> (c # w) # ws))"

text \<open>\<open>str.upper\<close>, compared below with ASCII words only; other characters stay.\<close>

definition ascii_upper :: "string \<Rightarrow> string" where
  "ascii_upper s = map (\<lambda>c. if is_lower c then char_of (of_char c - 32 :: nat) else c) s"

record ini_state =
  ini_section :: string
  ini_dirs :: "string list"

fun add_dirs :: "(string \<Rightarrow> string) \<Rightarrow> string list \<Rightarrow> string list \<Rightarrow> string list" where
  "add_dirs resolve [] dirs = dirs"
| "add_dirs resolve (d # ds) dirs =
     (let d1 = strip d
      in if d1 = '''' then add_dirs resolve ds dirs
         else
           (let d2 = resolve d1
            in add_dirs resolve ds (if d2 \<in> set dirs then dirs else dirs @ [d2])))"

text \<open>
  One INI line. \<open>resolve d\<close> is \<open>realpath(join(base, expanduser(d)))\<close> with the
  folder of the INI file as \<open>base\<close>.
\<close>

definition ini_line :: "(string \<Rightarrow> string) \<Rightarrow> ini_state \<Rightarrow> string \<Rightarrow> ini_state" where
  "ini_line resolve st raw =
     (let line = strip raw
      in if line = '''' \<or> hd line \<in> set ''#;'' then st
         else if starts_with line ''['' \<and> CHR '']'' \<in> set line then
           st\<lparr>ini_section := ascii_upper (strip (before (CHR '']'') (tl line)))\<rparr>
         else if ini_section st \<noteq> ''RS274NGC'' \<or> CHR ''='' \<notin> set line then st
         else
           (let key = strip (before (CHR ''='') line);
                value = strip (tl (dropWhile (\<lambda>c. c \<noteq> CHR ''='') line))
            in if ascii_upper key \<notin> {''SUBROUTINE_PATH'', ''USER_M_PATH''} then st
               else st\<lparr>ini_dirs := add_dirs resolve (split_on (CHR '':'') value) (ini_dirs st)\<rparr>))"

definition subroutine_dirs ::
  "(string \<Rightarrow> string) \<Rightarrow> string list option \<Rightarrow> string list" where
  "subroutine_dirs resolve content =
     (case content of
        None \<Rightarrow> []
      | Some lines \<Rightarrow>
          ini_dirs (foldl (ini_line resolve) \<lparr>ini_section = '''', ini_dirs = []\<rparr> lines))"

lemma add_dirs_distinct: "distinct dirs \<Longrightarrow> distinct (add_dirs resolve ds dirs)"
  by (induction ds arbitrary: dirs) (auto simp: Let_def)

lemma add_dirs_range:
  "set (add_dirs resolve ds dirs) \<subseteq> set dirs \<union> range resolve"
proof (induction ds arbitrary: dirs)
  case (Cons d ds)
  have "set (add_dirs resolve ds dirs) \<subseteq> set dirs \<union> range resolve"
    "set (add_dirs resolve ds (dirs @ [resolve (strip d)])) \<subseteq> set dirs \<union> range resolve"
    using Cons.IH [of dirs] Cons.IH [of "dirs @ [resolve (strip d)]"] by auto
  then show ?case by (simp add: Let_def)
qed simp

definition ini_ok :: "(string \<Rightarrow> string) \<Rightarrow> ini_state \<Rightarrow> bool" where
  "ini_ok resolve st \<longleftrightarrow> distinct (ini_dirs st) \<and> set (ini_dirs st) \<subseteq> range resolve"

interpretation ini: invariant_machine "ini_line resolve" "ini_ok resolve" for resolve
proof
  fix st raw
  assume "ini_ok resolve st"
  then show "ini_ok resolve (ini_line resolve st raw)"
    using add_dirs_distinct [of "ini_dirs st" resolve] add_dirs_range [of resolve _ "ini_dirs st"]
    by (fastforce simp: ini_ok_def ini_line_def Let_def)
qed

lemma subroutine_dirs_resolved:
  "distinct (subroutine_dirs resolve content) \<and>
   set (subroutine_dirs resolve content) \<subseteq> range resolve"
  using ini.run_inv [of resolve "\<lparr>ini_section = '''', ini_dirs = []\<rparr>"]
  by (auto simp: subroutine_dirs_def ini_ok_def split: option.splits)

section \<open>ProgramFile\<close>

record program_file =
  pf_dirs :: "string list"
  pf_program :: string

definition set_dirs :: "(string \<Rightarrow> string) \<Rightarrow> string list \<Rightarrow> program_file \<Rightarrow> program_file" where
  "set_dirs realpath sub_dirs pf =
     pf\<lparr>pf_dirs := map (\<lambda>d. realpath d @ ''/'') (filter (\<lambda>d. d \<noteq> '''') sub_dirs)\<rparr>"

definition program_file_init :: "(string \<Rightarrow> string) \<Rightarrow> string list \<Rightarrow> program_file" where
  "program_file_init realpath sub_dirs =
     set_dirs realpath sub_dirs \<lparr>pf_dirs = [], pf_program = ''''\<rparr>"

definition program_file_reset :: "program_file \<Rightarrow> program_file" where
  "program_file_reset pf = pf\<lparr>pf_program := ''''\<rparr>"

definition is_subroutine_file :: "(string \<Rightarrow> string) \<Rightarrow> program_file \<Rightarrow> string \<Rightarrow> bool" where
  "is_subroutine_file realpath pf path =
     (if pf_dirs pf \<noteq> []
      then path \<noteq> '''' \<and> list_ex (starts_with (realpath path)) (pf_dirs pf)
      else False)"

definition program_file_update ::
  "(string \<Rightarrow> string) \<Rightarrow> string \<Rightarrow> int \<Rightarrow> bool \<Rightarrow> program_file \<Rightarrow> program_file \<times> string \<times> bool"
where
  "program_file_update realpath file call_level busy pf =
     (let sub = call_level > 0 \<or> is_subroutine_file realpath pf file;
          pf1 =
            (if file = '''' then (if \<not> busy then pf\<lparr>pf_program := ''''\<rparr> else pf)
             else if \<not> sub \<or> file = pf_program pf then pf\<lparr>pf_program := file\<rparr>
             else if \<not> busy \<and> pf_program pf = '''' then pf\<lparr>pf_program := file\<rparr>
             else pf)
      in (pf1, pf_program pf1, sub \<and> file \<noteq> pf_program pf1))"

text \<open>One sample: the file shown, the call level, whether a run is in progress.\<close>

type_synonym file_sample = "string \<times> int \<times> bool"

definition file_step :: "(string \<Rightarrow> string) \<Rightarrow> program_file \<Rightarrow> file_sample \<Rightarrow> program_file" where
  "file_step realpath pf x =
     (case x of (file, call_level, busy) \<Rightarrow> fst (program_file_update realpath file call_level busy pf))"

definition in_sub_sample :: "(string \<Rightarrow> string) \<Rightarrow> program_file \<Rightarrow> file_sample \<Rightarrow> bool" where
  "in_sub_sample realpath pf x =
     (case x of (file, call_level, busy) \<Rightarrow>
        busy \<and> file \<noteq> '''' \<and> (call_level > 0 \<or> is_subroutine_file realpath pf file))"

lemma file_step_dirs [simp]: "pf_dirs (file_step realpath pf x) = pf_dirs pf"
  by (auto simp: file_step_def program_file_update_def Let_def split: prod.splits)

lemma file_step_sub: "in_sub_sample realpath pf x \<Longrightarrow> file_step realpath pf x = pf"
  by (cases x) (auto simp: file_step_def program_file_update_def in_sub_sample_def Let_def)

lemma file_steps_sub:
  "\<forall>x\<in>set xs. in_sub_sample realpath pf x \<Longrightarrow> foldl (file_step realpath) pf xs = pf"
  by (induction xs) (auto simp: file_step_sub)

section \<open>Properties\<close>

text \<open>
  A subroutine never becomes the program. While a run is in progress and every
  sample shows a subroutine file (or a call level above 0), the program kept is the
  one known before, and a sample showing another file than it is reported as inside
  a subroutine; back in a file outside the subroutine folders at call level 0, that
  file is the program again.
\<close>

theorem program_kept_through_subroutines:
  assumes "\<forall>x\<in>set xs. in_sub_sample realpath pf x"
    and "in_sub_sample realpath pf (file, level, busy)" "file \<noteq> pf_program pf"
    and "back \<noteq> ''''" "\<not> is_subroutine_file realpath pf back"
  defines "pf' \<equiv> foldl (file_step realpath) pf xs"
  shows "program_file_update realpath file level busy pf' = (pf', pf_program pf, True) \<and>
    snd (program_file_update realpath back 0 busy pf') = (back, False)"
proof -
  have "pf' = pf" unfolding pf'_def by (rule file_steps_sub [OF assms(1)])
  with assms(2-5) show ?thesis
    by (auto simp: program_file_update_def in_sub_sample_def Let_def)
qed

definition demo_file :: program_file where
  "demo_file = program_file_init (\<lambda>p. p) [''/nc/subs'']\<lparr>pf_program := ''/nc/a.ngc''\<rparr>"

lemma program_kept_through_subroutines_witness:
  "snd (program_file_update (\<lambda>p. p) ''/nc/subs/m6.ngc'' 0 True
      (foldl (file_step (\<lambda>p. p)) demo_file [(''/nc/subs/m6.ngc'', 0, True), (''/nc/b.ngc'', 1, True)]))
   = (''/nc/a.ngc'', True)"
  using program_kept_through_subroutines [of
      "[(''/nc/subs/m6.ngc'', 0, True), (''/nc/b.ngc'', 1, True)]" "\<lambda>p. p" demo_file
      "''/nc/subs/m6.ngc''" 0 True "''/nc/a.ngc''"]
  by (simp add: demo_file_def program_file_init_def set_dirs_def in_sub_sample_def
      is_subroutine_file_def)

end
