(* ===== verification/Py_Regex.thy ===== *)
theory Py_Regex
  imports Agent_Prelude
begin

text \<open>
  The part of Python's \<open>re\<close> that the agent's patterns use: character classes,
  sequences, alternatives, greedy repetition of a class, one-character look
  around and the anchors. A pattern is a value of \<open>rx\<close>; \<open>rx_run\<close> lists the
  positions a match can end at, in the order the backtracking matcher tries them.
\<close>

section \<open>Patterns\<close>

text \<open>A position: the character before it (none at the start) and the text after it.\<close>

type_synonym pos = "char option \<times> string"

datatype rx =
    Eps
  | Cls "char \<Rightarrow> bool"
  | Many "char \<Rightarrow> bool"
  | Sequ rx rx
  | Alt rx rx
  | NotBehind "char \<Rightarrow> bool"
  | NotAhead "char \<Rightarrow> bool"
  | AtStart
  | AtEnd

fun many_run :: "(char \<Rightarrow> bool) \<Rightarrow> char option \<Rightarrow> string \<Rightarrow> pos list" where
  "many_run P prev [] = [(prev, [])]"
| "many_run P prev (c # cs) =
     (if P c then many_run P (Some c) cs @ [(prev, c # cs)] else [(prev, c # cs)])"

primrec rx_run :: "rx \<Rightarrow> pos \<Rightarrow> pos list" where
  "rx_run Eps p = [p]"
| "rx_run (Cls P) p =
     (case snd p of [] \<Rightarrow> [] | c # cs \<Rightarrow> if P c then [(Some c, cs)] else [])"
| "rx_run (Many P) p = many_run P (fst p) (snd p)"
| "rx_run (Sequ r1 r2) p = concat (map (rx_run r2) (rx_run r1 p))"
| "rx_run (Alt r1 r2) p = rx_run r1 p @ rx_run r2 p"
| "rx_run (NotBehind P) p =
     (case fst p of None \<Rightarrow> [p] | Some c \<Rightarrow> if P c then [] else [p])"
| "rx_run (NotAhead P) p =
     (case snd p of [] \<Rightarrow> [p] | c # cs \<Rightarrow> if P c then [] else [p])"
| "rx_run AtStart p = (if fst p = None then [p] else [])"
| "rx_run AtEnd p = (if snd p = [] \<or> snd p = [CHR 0x0A] then [p] else [])"

text \<open>\<open>pattern.match(s)\<close> and \<open>pattern.search(s)\<close> as truth values.\<close>

definition rx_match :: "rx \<Rightarrow> string \<Rightarrow> bool" where
  "rx_match r s \<longleftrightarrow> rx_run r (None, s) \<noteq> []"

fun rx_search_from :: "rx \<Rightarrow> char option \<Rightarrow> string \<Rightarrow> bool" where
  "rx_search_from r prev s =
     (rx_run r (prev, s) \<noteq> [] \<or>
      (case s of [] \<Rightarrow> False | c # cs \<Rightarrow> rx_search_from r (Some c) cs))"

declare rx_search_from.simps [simp del]

lemma rx_search_from_Nil [simp]: "rx_search_from r prev [] \<longleftrightarrow> rx_run r (prev, []) \<noteq> []"
  by (simp add: rx_search_from.simps)

lemma rx_search_from_Cons [simp]:
  "rx_search_from r prev (c # cs) \<longleftrightarrow>
     rx_run r (prev, c # cs) \<noteq> [] \<or> rx_search_from r (Some c) cs"
  by (simp add: rx_search_from.simps)

definition rx_search :: "rx \<Rightarrow> string \<Rightarrow> bool" where
  "rx_search r s = rx_search_from r None s"

section \<open>Pattern notation\<close>

definition one_of :: "string \<Rightarrow> rx" where
  "one_of cs = Cls (\<lambda>c. c \<in> set cs)"

definition many_of :: "string \<Rightarrow> rx" where
  "many_of cs = Many (\<lambda>c. c \<in> set cs)"

fun lit :: "string \<Rightarrow> rx" where
  "lit [] = Eps"
| "lit (c # cs) = Sequ (Cls (\<lambda>x. x = c)) (lit cs)"

fun seqs :: "rx list \<Rightarrow> rx" where
  "seqs [] = Eps"
| "seqs [r] = r"
| "seqs (r # rs) = Sequ r (seqs rs)"

fun alts :: "rx list \<Rightarrow> rx" where
  "alts [] = Cls (\<lambda>_. False)"
| "alts [r] = r"
| "alts (r # rs) = Alt r (alts rs)"

text \<open>\<open>r{n}\<close>.\<close>

primrec times_rx :: "nat \<Rightarrow> rx \<Rightarrow> rx" where
  "times_rx 0 r = Eps"
| "times_rx (Suc n) r = Sequ r (times_rx n r)"

text \<open>\<open>r?\<close>, preferring a match.\<close>

definition opt_rx :: "rx \<Rightarrow> rx" where
  "opt_rx r = Alt r Eps"

lemmas rx_defs = rx_match_def rx_search_def one_of_def many_of_def opt_rx_def

text \<open>What a position that a match ends at looks like: a suffix of the text.\<close>

lemma many_run_suffix:
  "(q, t) \<in> set (many_run P prev s) \<Longrightarrow> \<exists>u. s = u @ t"
proof (induction P prev s rule: many_run.induct)
  case (2 P prev c cs)
  then show ?case
    by (auto split: if_splits)
qed auto

lemma rx_run_suffix:
  "(q, t) \<in> set (rx_run r (prev, s)) \<Longrightarrow> \<exists>u. s = u @ t"
proof (induction r arbitrary: prev s q t)
  case (Sequ r1 r2)
  from Sequ.prems obtain q1 t1 where
    "(q1, t1) \<in> set (rx_run r1 (prev, s))" "(q, t) \<in> set (rx_run r2 (q1, t1))"
    by auto
  with Sequ.IH obtain u1 u2 where "s = u1 @ t1" "t1 = u2 @ t" by metis
  then show ?case by (metis append.assoc)
qed (auto split: list.splits option.splits if_splits dest: many_run_suffix)

text \<open>A literal matches exactly itself; a fixed text is a match at the start.\<close>

lemma lit_run_append:
  "s \<noteq> [] \<Longrightarrow> rx_run (lit s) (prev, s @ t) = [(Some (last s), t)]"
proof (induction s arbitrary: prev)
  case (Cons c cs)
  then show ?case by (cases cs) auto
qed simp

lemma lit_run_cases:
  "rx_run (lit s) (prev, t) \<noteq> [] \<longleftrightarrow> starts_with t s"
proof (induction s arbitrary: prev t)
  case (Cons c cs)
  then show ?case by (cases t) (auto split: if_splits)
qed auto

end
