(* ===== verification/Program_Scan.thy ===== *)
theory Program_Scan
  imports Py_Regex
begin

text \<open>
  The file scan of \<open>program_tracker.py\<close>: the regular expressions that recognise
  moves and the program end, and \<open>ProgramInfo\<close> with its landmarks. \<open>from_lines\<close>
  is the code's loop; the lemmas show it equal to a declarative reading of the
  file, line by line.
\<close>

section \<open>Patterns of program\_tracker.py\<close>

definition skip_re :: rx where
  "skip_re = Sequ AtStart (alts
     [Sequ (Many is_space) AtEnd, lit '';'', lit ''%'', lit ''('',
      seqs [one_of ''oO'', Many is_space, Cls is_digit]])"

definition end_word_re :: rx where
  "end_word_re = seqs
     [NotBehind (\<lambda>c. is_alpha c \<or> is_digit c \<or> c = CHR ''.''), one_of ''mM'', Many is_space,
      many_of ''0'', Alt (lit ''2'') (lit ''30''), NotAhead (\<lambda>c. is_digit c \<or> c = CHR ''.'')]"

definition percent_re :: rx where
  "percent_re = seqs [AtStart, Many is_space, lit ''%'', Many is_space, AtEnd]"

definition not_number :: rx where
  "not_number = NotAhead (\<lambda>c. is_digit c \<or> c = CHR ''.'')"

definition motion_re :: rx where
  "motion_re = Sequ (NotBehind (\<lambda>c. is_alpha c \<or> c \<in> set ''#<_'')) (alts
     [seqs [one_of ''XYZABCUVWxyzabcuvw'', Many is_space,
            Cls (\<lambda>c. c \<in> set ''-+.'' \<or> is_digit c \<or> c \<in> set ''[#'')],
      seqs [one_of ''gG'', Many is_space, many_of ''0'', one_of ''0123'', not_number],
      seqs [one_of ''gG'', Many is_space, many_of ''0'', Alt (lit ''28'') (lit ''30''), not_number],
      seqs [one_of ''gG'', Many is_space, lit ''38.'', Cls is_digit],
      seqs [one_of ''gG'', Many is_space, lit ''7'', one_of ''3456'', not_number],
      seqs [one_of ''gG'', Many is_space, lit ''8'', one_of ''123456789'', not_number]])"

definition offset_only_re :: rx where
  "offset_only_re = seqs
     [one_of ''gG'', Many is_space, alts [lit ''10'', lit ''92'', lit ''28.1'', lit ''30.1''],
      NotAhead is_digit]"

lemmas scan_patterns = skip_re_def end_word_re_def percent_re_def not_number_def motion_re_def
  offset_only_re_def

text \<open>\<open>_COMMENT_RE.sub("", raw)\<close>: \<open>\(.*?\)\<close> stops at the first bracket on the same line.\<close>

fun find_close :: "string \<Rightarrow> string option" where
  "find_close [] = None"
| "find_close (c # cs) =
     (if c = CHR '')'' then Some cs else if c = CHR 0x0A then None else find_close cs)"

lemma find_close_length: "find_close s = Some t \<Longrightarrow> length t < length s"
  by (induction s) (auto split: if_splits)

function (sequential) remove_comments :: "string \<Rightarrow> string" where
  "remove_comments [] = []"
| "remove_comments (c # cs) =
     (if c = CHR ''('' then
        (case find_close cs of
           Some rest \<Rightarrow> remove_comments rest
         | None \<Rightarrow> c # remove_comments cs)
      else c # remove_comments cs)"
  by pat_completeness auto
termination
  by (relation "measure length") (auto dest: find_close_length)

definition code_part :: "string \<Rightarrow> string" where
  "code_part raw = strip (before (CHR '';'') (remove_comments raw))"

definition is_motion :: "string \<Rightarrow> bool" where
  "is_motion code \<longleftrightarrow>
     code \<noteq> [] \<and> rx_search motion_re code \<and> \<not> rx_search offset_only_re code"

section \<open>ProgramInfo\<close>

record program_info =
  pi_path :: string
  pi_first_exec_line :: int
  pi_first_motion_line :: int
  pi_tail_line :: int
  pi_end_line :: int
  pi_motion_mask :: "bool list"

definition program_info_init :: "string \<Rightarrow> program_info" where
  "program_info_init path =
     \<lparr>pi_path = path, pi_first_exec_line = 1, pi_first_motion_line = -1, pi_tail_line = -1,
      pi_end_line = -1, pi_motion_mask = []\<rparr>"

definition is_move_line :: "program_info \<Rightarrow> int \<Rightarrow> bool" where
  "is_move_line info line =
     (if pi_motion_mask info = [] then True
      else 0 < line \<and> line \<le> int (length (pi_motion_mask info)) \<and>
           pi_motion_mask info ! nat (line - 1))"

text \<open>The variables of the loop in \<open>from_lines\<close>.\<close>

record scan_state =
  sc_first_exec :: int
  sc_motion_lines :: "int list"
  sc_end_word :: int
  sc_last_percent :: int
  sc_mask :: "bool list"

definition scan_init :: scan_state where
  "scan_init = \<lparr>sc_first_exec = -1, sc_motion_lines = [], sc_end_word = -1,
                sc_last_percent = -1, sc_mask = []\<rparr>"

definition scan_line :: "int \<Rightarrow> string \<Rightarrow> scan_state \<Rightarrow> scan_state" where
  "scan_line lineno raw st0 =
     (let st1 = st0\<lparr>sc_mask := sc_mask st0 @ [False]\<rparr>;
          stripped = strip raw;
          st2 = (if sc_first_exec st1 = -1 \<and> \<not> rx_match skip_re stripped
                 then st1\<lparr>sc_first_exec := lineno\<rparr> else st1)
      in if rx_match percent_re stripped then st2\<lparr>sc_last_percent := lineno\<rparr>
         else
           (let code = code_part stripped;
                st3 = (if sc_end_word st2 = -1 \<and> code \<noteq> [] \<and> rx_search end_word_re code
                       then st2\<lparr>sc_end_word := lineno\<rparr> else st2)
            in if is_motion code then
                 (let st4 = st3\<lparr>sc_mask := (sc_mask st3)[length (sc_mask st3) - 1 := True]\<rparr>
                  in if sc_end_word st4 = -1
                     then st4\<lparr>sc_motion_lines := sc_motion_lines st4 @ [lineno]\<rparr> else st4)
               else st3))"

fun scan_from :: "int \<Rightarrow> string list \<Rightarrow> scan_state \<Rightarrow> scan_state" where
  "scan_from lineno [] st = st"
| "scan_from lineno (raw # rest) st = scan_from (lineno + 1) rest (scan_line lineno raw st)"

definition from_lines :: "string list \<Rightarrow> string \<Rightarrow> program_info" where
  "from_lines lines path =
     (let st = scan_from 1 lines scan_init;
          end_line = (if sc_end_word st \<noteq> -1 then sc_end_word st
                      else if sc_last_percent st > max (sc_first_exec st) 1
                           then sc_last_percent st else -1);
          moves = sc_motion_lines st
      in \<lparr>pi_path = path,
          pi_first_exec_line = (if sc_first_exec st \<noteq> -1 then sc_first_exec st else 1),
          pi_first_motion_line = (case moves of [] \<Rightarrow> -1 | m # _ \<Rightarrow> m),
          pi_tail_line = (if moves = [] then -1 else last moves),
          pi_end_line = end_line,
          pi_motion_mask = sc_mask st\<rparr>)"

definition start_tolerance :: "program_info \<Rightarrow> int" where
  "start_tolerance info =
     (let span = max (pi_tail_line info - pi_first_motion_line info) 0
      in max 5 (span div 50))"

definition is_near_start :: "program_info \<Rightarrow> int \<Rightarrow> bool" where
  "is_near_start info line =
     (if pi_first_motion_line info \<le> 0 then True
      else line \<le> pi_first_motion_line info + start_tolerance info)"

definition program_progress :: "program_info \<Rightarrow> int \<Rightarrow> rat" where
  "program_progress info line =
     (if pi_first_motion_line info \<le> 0 \<or> pi_tail_line info \<le> 0 then 0
      else
        (let span = pi_tail_line info - pi_first_motion_line info
         in if span \<le> 0 then (if line \<ge> pi_tail_line info then 1 else 0)
            else min 1 (max 0 (of_int (line - pi_first_motion_line info) / of_int span))))"

section \<open>Reading the file line by line\<close>

text \<open>
  The declarative meaning of one line, and of a numbered list of lines. These
  are the terms the landmarks are specified in.
\<close>

definition line_percent :: "string \<Rightarrow> bool" where
  "line_percent raw \<longleftrightarrow> rx_match percent_re (strip raw)"

definition line_ends :: "string \<Rightarrow> bool" where
  "line_ends raw \<longleftrightarrow>
     \<not> line_percent raw \<and> code_part (strip raw) \<noteq> [] \<and>
     rx_search end_word_re (code_part (strip raw))"

definition line_moves :: "string \<Rightarrow> bool" where
  "line_moves raw \<longleftrightarrow> \<not> line_percent raw \<and> is_motion (code_part (strip raw))"

definition line_exec :: "string \<Rightarrow> bool" where
  "line_exec raw \<longleftrightarrow> \<not> rx_match skip_re (strip raw)"

lemmas line_defs = line_percent_def line_ends_def line_moves_def line_exec_def

text \<open>Numbers of the lines with a property, counting from \<open>k\<close>.\<close>

fun lines_with :: "(string \<Rightarrow> bool) \<Rightarrow> int \<Rightarrow> string list \<Rightarrow> int list" where
  "lines_with P k [] = []"
| "lines_with P k (raw # rest) =
     (if P raw then k # lines_with P (k + 1) rest else lines_with P (k + 1) rest)"

definition first_or :: "int \<Rightarrow> int list \<Rightarrow> int" where
  "first_or d xs = (case xs of [] \<Rightarrow> d | x # _ \<Rightarrow> x)"

definition last_or :: "int \<Rightarrow> int list \<Rightarrow> int" where
  "last_or d xs = (if xs = [] then d else last xs)"

text \<open>The moves that can still execute: those on lines before the first M2 / M30.\<close>

definition live_moves :: "int \<Rightarrow> string list \<Rightarrow> int list" where
  "live_moves k lines = lines_with line_moves k (takeWhile (\<lambda>raw. \<not> line_ends raw) lines)"

lemma lines_with_range:
  "i \<in> set (lines_with P k lines) \<longleftrightarrow>
     k \<le> i \<and> i < k + int (length lines) \<and> P (lines ! nat (i - k))"
proof (induction lines arbitrary: k)
  case Nil
  then show ?case by simp
next
  case (Cons raw rest)
  show ?case
  proof (cases "k < i")
    case True
    then have "nat (i - k) = Suc (nat (i - (k + 1)))" by linarith
    with True Cons.IH [of "k + 1"] show ?thesis by auto
  next
    case False
    with Cons.IH [of "k + 1"] show ?thesis by auto
  qed
qed

lemma sorted_lines_with: "sorted_wrt (<) (lines_with P k lines)"
  by (induction lines arbitrary: k) (auto simp: lines_with_range)

lemma lines_with_append:
  "lines_with P k (xs @ ys) = lines_with P k xs @ lines_with P (k + int (length xs)) ys"
  by (induction xs arbitrary: k) (auto simp: algebra_simps)

lemma first_or_simps [simp]: "first_or d [] = d" "first_or d (x # xs) = x"
  by (simp_all add: first_or_def)

lemma last_or_simps [simp]: "last_or d [] = d" "last_or d (x # xs) = last_or x xs"
  by (simp_all add: last_or_def)

lemma last_or_in: "last_or d xs = d \<or> last_or d xs \<in> set xs"
  by (simp add: last_or_def)

subsection \<open>The loop computes exactly that\<close>

lemma scan_line_fields:
  "sc_mask (scan_line k raw st) = sc_mask st @ [line_moves raw]"
  "sc_first_exec (scan_line k raw st) =
     (if sc_first_exec st = -1 \<and> line_exec raw then k else sc_first_exec st)"
  "sc_last_percent (scan_line k raw st) = (if line_percent raw then k else sc_last_percent st)"
  "sc_end_word (scan_line k raw st) =
     (if sc_end_word st = -1 \<and> line_ends raw then k else sc_end_word st)"
  "k \<noteq> -1 \<Longrightarrow> sc_motion_lines (scan_line k raw st) =
     (if sc_end_word st = -1 \<and> \<not> line_ends raw \<and> line_moves raw
      then sc_motion_lines st @ [k] else sc_motion_lines st)"
  by (auto simp: scan_line_def line_defs Let_def list_update_append)

lemma scan_from_fields:
  assumes "1 \<le> k"
  shows
    "sc_mask (scan_from k lines st) = sc_mask st @ map line_moves lines \<and>
     sc_first_exec (scan_from k lines st) =
       (if sc_first_exec st \<noteq> -1 then sc_first_exec st
        else first_or (-1) (lines_with line_exec k lines)) \<and>
     sc_last_percent (scan_from k lines st) =
       last_or (sc_last_percent st) (lines_with line_percent k lines) \<and>
     sc_end_word (scan_from k lines st) =
       (if sc_end_word st \<noteq> -1 then sc_end_word st
        else first_or (-1) (lines_with line_ends k lines)) \<and>
     sc_motion_lines (scan_from k lines st) =
       sc_motion_lines st @ (if sc_end_word st \<noteq> -1 then [] else live_moves k lines)"
  using assms
proof (induction lines arbitrary: k st)
  case Nil
  then show ?case by (simp add: live_moves_def)
next
  case (Cons raw rest)
  have "1 \<le> k + 1" using Cons.prems by simp
  note IH = Cons.IH [OF this, of "scan_line k raw st"]
  show ?case
    using IH Cons.prems by (auto simp: scan_line_fields live_moves_def)
qed

lemmas scan_1_fields = scan_from_fields [of 1, simplified]

lemma from_lines_fields:
  "pi_path (from_lines lines path) = path"
  "pi_motion_mask (from_lines lines path) = map line_moves lines"
  "pi_first_motion_line (from_lines lines path) = first_or (-1) (live_moves 1 lines)"
  "pi_tail_line (from_lines lines path) = last_or (-1) (live_moves 1 lines)"
  "pi_first_exec_line (from_lines lines path) = first_or 1 (lines_with line_exec 1 lines)"
  "lines_with line_ends 1 lines \<noteq> [] \<Longrightarrow>
     pi_end_line (from_lines lines path) = hd (lines_with line_ends 1 lines)"
proof -
  note f = scan_1_fields [of lines scan_init]
  have pos: "i \<in> set (lines_with P 1 lines) \<Longrightarrow> 1 \<le> i" for i P
    by (simp add: lines_with_range)
  show "pi_path (from_lines lines path) = path"
    by (simp add: from_lines_def Let_def)
  show "pi_motion_mask (from_lines lines path) = map line_moves lines"
    using f by (simp add: from_lines_def Let_def scan_init_def)
  show "pi_first_motion_line (from_lines lines path) = first_or (-1) (live_moves 1 lines)"
    using f by (simp add: from_lines_def Let_def scan_init_def first_or_def)
  show "pi_tail_line (from_lines lines path) = last_or (-1) (live_moves 1 lines)"
    using f by (simp add: from_lines_def Let_def scan_init_def last_or_def)
  show "pi_first_exec_line (from_lines lines path) = first_or 1 (lines_with line_exec 1 lines)"
    using f pos [of "hd (lines_with line_exec 1 lines)" line_exec]
    by (cases "lines_with line_exec 1 lines") (auto simp: from_lines_def Let_def scan_init_def)
  show "pi_end_line (from_lines lines path) = hd (lines_with line_ends 1 lines)"
    if "lines_with line_ends 1 lines \<noteq> []"
    using f that pos [of "hd (lines_with line_ends 1 lines)" line_ends]
    by (cases "lines_with line_ends 1 lines") (auto simp: from_lines_def Let_def scan_init_def)
qed

section \<open>What the landmarks mean\<close>

text \<open>Line \<open>i\<close> is a move that can still execute: no M2 / M30 up to and including it.\<close>

definition live_line :: "string list \<Rightarrow> int \<Rightarrow> bool" where
  "live_line lines i \<longleftrightarrow>
     1 \<le> i \<and> i \<le> int (length lines) \<and> line_moves (lines ! nat (i - 1)) \<and>
     (\<forall>j\<in>{1..i}. \<not> line_ends (lines ! nat (j - 1)))"

lemma all_nat_split_Suc: "(\<forall>m\<le>Suc n. Q m) \<longleftrightarrow> Q 0 \<and> (\<forall>m\<le>n. Q (Suc m))"
  by (metis Suc_le_mono le0 not0_implies_Suc)

lemma length_takeWhile_not:
  "n < length (takeWhile (\<lambda>x. \<not> P x) xs) \<longleftrightarrow>
     n < length xs \<and> (\<forall>m\<le>n. \<not> P (xs ! m))"
proof (induction xs arbitrary: n)
  case (Cons x xs)
  show ?case
  proof (cases n)
    case (Suc n')
    have "(\<forall>m\<le>Suc n'. \<not> P ((x # xs) ! m)) \<longleftrightarrow> \<not> P x \<and> (\<forall>m\<le>n'. \<not> P (xs ! m))"
      by (simp add: all_nat_split_Suc)
    with Suc Cons.IH [of n'] show ?thesis by auto
  qed simp
qed simp

lemma live_moves_iff: "i \<in> set (live_moves 1 lines) \<longleftrightarrow> live_line lines i"
proof -
  let ?T = "takeWhile (\<lambda>raw. \<not> line_ends raw) lines"
  have pre: "(\<forall>m\<le>nat (i - 1). \<not> line_ends (lines ! m)) \<longleftrightarrow>
      (\<forall>j\<in>{1..i}. \<not> line_ends (lines ! nat (j - 1)))" if "1 \<le> i"
  proof
    assume all: "\<forall>m\<le>nat (i - 1). \<not> line_ends (lines ! m)"
    show "\<forall>j\<in>{1..i}. \<not> line_ends (lines ! nat (j - 1))"
      using all that by (auto intro!: nat_mono)
  next
    assume all: "\<forall>j\<in>{1..i}. \<not> line_ends (lines ! nat (j - 1))"
    show "\<forall>m\<le>nat (i - 1). \<not> line_ends (lines ! m)"
    proof (intro allI impI)
      fix m assume "m \<le> nat (i - 1)"
      then have "int m + 1 \<in> {1..i}" using that by auto
      with all show "\<not> line_ends (lines ! m)" by fastforce
    qed
  qed
  have "i \<in> set (live_moves 1 lines) \<longleftrightarrow>
      1 \<le> i \<and> nat (i - 1) < length ?T \<and> line_moves (?T ! nat (i - 1))"
    by (auto simp: live_moves_def lines_with_range)
  also have "\<dots> \<longleftrightarrow> live_line lines i"
  proof (cases "1 \<le> i")
    case True
    have "?T ! nat (i - 1) = lines ! nat (i - 1)" if "nat (i - 1) < length ?T"
      using that by (simp add: takeWhile_nth)
    with True show ?thesis
      by (auto simp only: length_takeWhile_not live_line_def pre [OF True]) auto
  qed (auto simp: live_line_def)
  finally show ?thesis .
qed

lemma sorted_live_moves: "sorted_wrt (<) (live_moves 1 lines)"
  by (simp add: live_moves_def sorted_lines_with)

lemma first_le_last:
  "sorted_wrt (<) (xs :: int list) \<Longrightarrow> x \<in> set xs \<Longrightarrow> first_or d xs \<le> x \<and> x \<le> last_or d xs"
proof (induction xs arbitrary: d)
  case (Cons y ys)
  show ?case
  proof (cases ys)
    case (Cons z zs)
    have "last_or y ys \<in> set ys" using Cons by (simp add: last_or_def)
    with \<open>sorted_wrt (<) (y # ys)\<close> have "y < last_or y ys" by simp
    with Cons.IH [of y] Cons.prems show ?thesis by (cases "x = y") auto
  qed (use Cons.prems in simp)
qed simp

lemma first_or_in: "xs \<noteq> [] \<Longrightarrow> first_or d xs \<in> set xs \<and> last_or d xs \<in> set xs"
  by (cases xs) (auto simp: last_or_def)

lemma end_line_is_first:
  assumes "i \<in> set (lines_with P 1 lines)"
  shows "hd (lines_with P 1 lines) \<le> i" and "hd (lines_with P 1 lines) \<in> set (lines_with P 1 lines)"
proof -
  from assms have ne: "lines_with P 1 lines \<noteq> []" by auto
  then have "first_or 0 (lines_with P 1 lines) = hd (lines_with P 1 lines)"
    by (cases "lines_with P 1 lines") auto
  with first_le_last [OF sorted_lines_with assms, of 0]
  show "hd (lines_with P 1 lines) \<le> i" by simp
  from ne show "hd (lines_with P 1 lines) \<in> set (lines_with P 1 lines)" by simp
qed

lemma lines_with_iff:
  "i \<in> set (lines_with P 1 lines) \<longleftrightarrow> 1 \<le> i \<and> i \<le> int (length lines) \<and> P (lines ! nat (i - 1))"
  by (auto simp: lines_with_range)

lemma live_moves_empty_iff: "live_moves 1 lines = [] \<longleftrightarrow> \<not> (\<exists>i. live_line lines i)"
  using live_moves_iff [of _ lines] by (metis last_in_set list.set(1) empty_iff)

lemma tail_line_live:
  "pi_tail_line (from_lines lines path) = -1 \<or>
   live_line lines (pi_tail_line (from_lines lines path))"
  using first_or_in [of "live_moves 1 lines" "-1"]
  by (cases "live_moves 1 lines = []") (simp_all add: from_lines_fields live_moves_iff)

section \<open>Progress and the start zone\<close>

lemma program_progress_range: "0 \<le> program_progress info line \<and> program_progress info line \<le> 1"
  by (auto simp: program_progress_def Let_def)

lemma program_progress_mono:
  assumes "a \<le> b"
  shows "program_progress info a \<le> program_progress info b"
proof -
  let ?f = "pi_first_motion_line info" and ?t = "pi_tail_line info"
  have "(of_int (a - ?f) :: rat) / of_int (?t - ?f) \<le> of_int (b - ?f) / of_int (?t - ?f)"
    if "?f < ?t" using assms that by (intro divide_right_mono) auto
  with assms show ?thesis
    by (auto simp: program_progress_def Let_def intro!: min.mono max.mono)
qed

lemma start_tolerance_ge: "5 \<le> start_tolerance info"
  by (simp add: start_tolerance_def Let_def)

lemma is_near_start_mono: "is_near_start info b \<Longrightarrow> a \<le> b \<Longrightarrow> is_near_start info a"
  by (auto simp: is_near_start_def split: if_splits)

section \<open>Properties\<close>

text \<open>
  C30: the landmarks are what they claim to be. A line is live when it holds a move
  and no line up to it holds M2 / M30. The scan reports first and tail line -1 when
  no line is live; otherwise both are live lines and every live line lies between
  them. If some line holds M2 / M30, the end line is the first such line. The mask
  says of every line whether it holds a move.
\<close>

theorem scan_landmarks:
  fixes lines :: "string list" and path :: string
  shows "let info = from_lines lines path in (if \<exists>i. live_line lines i
      then live_line lines (pi_first_motion_line info) \<and>
           live_line lines (pi_tail_line info) \<and>
           (\<forall>i. live_line lines i \<longrightarrow>
              pi_first_motion_line info \<le> i \<and> i \<le> pi_tail_line info)
      else pi_first_motion_line info = -1 \<and> pi_tail_line info = -1) \<and>
    (\<forall>i. 1 \<le> i \<longrightarrow> i \<le> int (length lines) \<longrightarrow> line_ends (lines ! nat (i - 1)) \<longrightarrow>
       1 \<le> pi_end_line info \<and> pi_end_line info \<le> i \<and>
       line_ends (lines ! nat (pi_end_line info - 1))) \<and>
    pi_motion_mask info = map line_moves lines"
proof (simp only: Let_def, intro conjI)
  show "pi_motion_mask (from_lines lines path) = map line_moves lines"
    by (simp add: from_lines_fields)
  show "\<forall>i. 1 \<le> i \<longrightarrow> i \<le> int (length lines) \<longrightarrow> line_ends (lines ! nat (i - 1)) \<longrightarrow>
       1 \<le> pi_end_line (from_lines lines path) \<and> pi_end_line (from_lines lines path) \<le> i \<and>
       line_ends (lines ! nat (pi_end_line (from_lines lines path) - 1))"
  proof (intro allI impI)
    fix i assume "1 \<le> i" "i \<le> int (length lines)" "line_ends (lines ! nat (i - 1))"
    then have i: "i \<in> set (lines_with line_ends 1 lines)" by (simp add: lines_with_iff)
    then have "lines_with line_ends 1 lines \<noteq> []" by auto
    with end_line_is_first [OF i] show "1 \<le> pi_end_line (from_lines lines path) \<and> pi_end_line (from_lines lines path) \<le> i \<and>
       line_ends (lines ! nat (pi_end_line (from_lines lines path) - 1))"
      by (simp add: from_lines_fields lines_with_iff)
  qed
  show "if \<exists>i. live_line lines i
      then live_line lines (pi_first_motion_line (from_lines lines path)) \<and>
           live_line lines (pi_tail_line (from_lines lines path)) \<and>
           (\<forall>i. live_line lines i \<longrightarrow>
              pi_first_motion_line (from_lines lines path) \<le> i \<and> i \<le> pi_tail_line (from_lines lines path))
      else pi_first_motion_line (from_lines lines path) = -1 \<and> pi_tail_line (from_lines lines path) = -1"
  proof (cases "live_moves 1 lines = []")
    case True
    then have "\<not> (\<exists>i. live_line lines i)" by (simp add: live_moves_empty_iff)
    then show ?thesis by (simp add: from_lines_fields True)
  next
    case False
    then have "\<exists>i. live_line lines i" by (simp add: live_moves_empty_iff)
    then show ?thesis
      using first_or_in [OF False, of "-1"] first_le_last [OF sorted_live_moves, of _ lines "-1"]
      by (simp add: from_lines_fields live_moves_iff)
  qed
qed

definition demo_program :: "string list" where
  "demo_program = [''%'', ''(first cut)'', ''G0 X1'', ''G1 X2 F100'', ''M30'', ''G0 X9'', ''%'']"

lemma scan_landmarks_witness:
  "live_line demo_program 3 \<and> line_ends (demo_program ! 4) \<and>
   pi_first_motion_line (from_lines demo_program '''') \<le> 3 \<and>
   pi_end_line (from_lines demo_program '''') \<le> 5"
proof -
  have "line_ends (demo_program ! 4)" "line_moves (demo_program ! 2)"
    "\<not> line_ends (demo_program ! 0)" "\<not> line_ends (demo_program ! 1)"
    "\<not> line_ends (demo_program ! 2)"
    by code_simp+
  moreover have "length demo_program = 7" by (simp add: demo_program_def)
  moreover have "{1..3::int} = {1, 2, 3}" by auto
  ultimately have l: "live_line demo_program 3" "line_ends (demo_program ! nat (5 - 1))"
    "5 \<le> int (length demo_program)"
    by (simp_all add: live_line_def)
  have "\<exists>i. live_line demo_program i" using l(1) by blast
  with scan_landmarks [of demo_program "''''"] l show ?thesis by (simp add: Let_def)
qed

end
