(* ===== verification/Program_Scanner.thy ===== *)
theory Program_Scanner
  imports Program_Scan "HOL-Library.AList"
begin

text \<open>
  \<open>ProgramScanner\<close> and \<open>MacroMoves\<close> of \<open>program_tracker.py\<close>: the scan of the
  loaded file, inline or on a background thread whose result may come late, and
  the bounded cache of subroutine move lines. Threads in flight are part of the
  state; a thread that finishes is a step of its own, so every interleaving of
  loads and late results is covered.
\<close>

section \<open>ProgramScanner\<close>

text \<open>Path, modification time and size: the version of a file.\<close>

type_synonym file_sig = "string \<times> rat \<times> int"

record scanner =
  psc_info :: program_info
  psc_sig :: file_sig
  psc_background :: int
  psc_done :: bool
  psc_threads :: "(string \<times> file_sig) list"

definition scanner_init :: "int \<Rightarrow> scanner" where
  "scanner_init background =
     \<lparr>psc_info = program_info_init '''', psc_sig = ('''', 0, 0), psc_background = background,
      psc_done = True, psc_threads = []\<rparr>"

definition scanner_pending :: "scanner \<Rightarrow> bool" where
  "scanner_pending s \<longleftrightarrow> \<not> psc_done s"

definition file_sig :: "file_system \<Rightarrow> string \<Rightarrow> file_sig" where
  "file_sig fs path =
     (case fs path of Some fv \<Rightarrow> (path, fv_mtime fv, fv_size fv) | None \<Rightarrow> (path, 0, 0))"

definition read_lines :: "file_system \<Rightarrow> string \<Rightarrow> string list option" where
  "read_lines fs path = (case fs path of Some fv \<Rightarrow> fv_lines fv | None \<Rightarrow> None)"

text \<open>\<open>_scan\<close>: read the file, keep the result only if its version is still the wanted one.\<close>

definition scan_file :: "file_system \<Rightarrow> string \<Rightarrow> file_sig \<Rightarrow> scanner \<Rightarrow> scanner" where
  "scan_file fs path sig s =
     (let info = (case read_lines fs path of
                    Some lines \<Rightarrow> from_lines lines path
                  | None \<Rightarrow> program_info_init path)
      in if sig \<noteq> psc_sig s then s else s\<lparr>psc_info := info, psc_done := True\<rparr>)"

definition scanner_load :: "file_system \<Rightarrow> string \<Rightarrow> scanner \<Rightarrow> scanner" where
  "scanner_load fs path s =
     (if path = '''' then
        (if fst (psc_sig s) \<noteq> '''' then
           s\<lparr>psc_info := program_info_init '''', psc_sig := ('''', 0, 0), psc_done := True\<rparr>
         else s)
      else
        (let sig = file_sig fs path
         in if sig = psc_sig s then s
            else
              (let s1 = s\<lparr>psc_sig := sig\<rparr>
               in if snd (snd sig) > psc_background s1 then
                    s1\<lparr>psc_info := program_info_init path, psc_done := False,
                       psc_threads := psc_threads s1 @ [(path, sig)]\<rparr>
                  else scan_file fs path sig s1)))"

text \<open>The \<open>n\<close>-th thread in flight ends, reading the files as they are by then.\<close>

definition scan_thread_ends :: "file_system \<Rightarrow> nat \<Rightarrow> scanner \<Rightarrow> scanner" where
  "scan_thread_ends fs n s =
     (if n < length (psc_threads s) then
        (let (path, sig) = psc_threads s ! n
         in scan_file fs path sig
              (s\<lparr>psc_threads := take n (psc_threads s) @ drop (Suc n) (psc_threads s)\<rparr>))
      else s)"

text \<open>
  \<open>wait(timeout)\<close> blocks until a scan sets the event. It returns with the state
  unchanged when nothing is pending or when the time is up; otherwise the thread
  of the wanted version has ended.
\<close>

fun index_of :: "'a \<Rightarrow> 'a list \<Rightarrow> nat" where
  "index_of x [] = 0"
| "index_of x (y # ys) = (if x = y then 0 else Suc (index_of x ys))"

definition scanner_wait :: "bool \<Rightarrow> file_system \<Rightarrow> scanner \<Rightarrow> scanner" where
  "scanner_wait timed_out fs s =
     (if psc_done s \<or> timed_out then s
      else scan_thread_ends fs (index_of (fst (psc_sig s), psc_sig s) (psc_threads s)) s)"

datatype scanner_event =
    LoadFile file_system string
  | ThreadEnds file_system nat
  | WaitScan bool file_system

fun scanner_step :: "scanner \<Rightarrow> scanner_event \<Rightarrow> scanner" where
  "scanner_step s (LoadFile fs path) = scanner_load fs path s"
| "scanner_step s (ThreadEnds fs n) = scan_thread_ends fs n s"
| "scanner_step s (WaitScan timed_out fs) = scanner_wait timed_out fs s"

subsection \<open>Invariant\<close>

text \<open>
  \<open>info\<close> always describes the loaded path; while a scan is pending it is blank
  and a thread for exactly the wanted version is in flight, so waiting ends.
\<close>

definition scanner_ok :: "scanner \<Rightarrow> bool" where
  "scanner_ok s \<longleftrightarrow>
     (\<forall>t \<in> set (psc_threads s). fst (snd t) = fst t) \<and>
     pi_path (psc_info s) = fst (psc_sig s) \<and>
     (scanner_pending s \<longrightarrow>
        psc_info s = program_info_init (fst (psc_sig s)) \<and>
        (fst (psc_sig s), psc_sig s) \<in> set (psc_threads s))"

lemma fst_file_sig [simp]: "fst (file_sig fs path) = path"
  by (simp add: file_sig_def split: option.splits)

lemma pi_path_init [simp]: "pi_path (program_info_init path) = path"
  by (simp add: program_info_init_def)

lemma scan_file_ok:
  assumes "\<forall>t \<in> set (psc_threads s). fst (snd t) = fst t"
    and "fst sig = path"
    and "sig \<noteq> psc_sig s \<Longrightarrow> scanner_ok s"
  shows "scanner_ok (scan_file fs path sig s)"
  using assms by (auto simp: scan_file_def scanner_ok_def scanner_pending_def from_lines_fields
      Let_def split: option.splits)

lemma scanner_load_ok: "scanner_ok s \<Longrightarrow> scanner_ok (scanner_load fs path s)"
  unfolding scanner_load_def Let_def
  by (auto simp: scanner_ok_def scanner_pending_def intro!: scan_file_ok)
    (auto simp: scanner_ok_def scanner_pending_def scan_file_def from_lines_fields Let_def
      split: option.splits)

lemma in_remove_nth:
  assumes "n < length xs" "x \<in> set xs" "x \<noteq> xs ! n"
  shows "x \<in> set (take n xs @ drop (Suc n) xs)"
proof -
  have "set xs = set (take n xs @ xs ! n # drop (Suc n) xs)"
    using assms(1) by (simp add: id_take_nth_drop [symmetric])
  with assms(2,3) show ?thesis by auto
qed

lemma scan_thread_ends_ok: "scanner_ok s \<Longrightarrow> scanner_ok (scan_thread_ends fs n s)"
proof (cases "n < length (psc_threads s)")
  case True
  assume ok: "scanner_ok s"
  obtain path sig where nth: "psc_threads s ! n = (path, sig)" by (cases "psc_threads s ! n")
  let ?s = "s\<lparr>psc_threads := take n (psc_threads s) @ drop (Suc n) (psc_threads s)\<rparr>"
  have sub: "set (take n (psc_threads s) @ drop (Suc n) (psc_threads s)) \<subseteq> set (psc_threads s)"
    by (auto dest: in_set_takeD in_set_dropD)
  have path: "fst sig = path"
    using ok nth True nth_mem [OF True] by (auto simp: scanner_ok_def)
  have threads: "\<forall>t \<in> set (psc_threads ?s). fst (snd t) = fst t"
    using ok sub by (auto simp: scanner_ok_def)
  have "scanner_ok ?s" if "sig \<noteq> psc_sig s"
    using ok threads that nth in_remove_nth [OF True, of "(fst (psc_sig s), psc_sig s)"]
    by (auto simp: scanner_ok_def scanner_pending_def)
  with scan_file_ok [OF threads path] True nth show ?thesis
    by (simp add: scan_thread_ends_def)
qed (simp add: scan_thread_ends_def)

lemma scanner_wait_ok: "scanner_ok s \<Longrightarrow> scanner_ok (scanner_wait timed_out fs s)"
  by (simp add: scanner_wait_def scan_thread_ends_ok)

interpretation scn: invariant_machine scanner_step scanner_ok
proof
  fix s e
  assume "scanner_ok s"
  then show "scanner_ok (scanner_step s e)"
    by (cases e) (auto intro: scanner_load_ok scan_thread_ends_ok scanner_wait_ok)
qed

lemma scanner_init_ok: "scanner_ok (scanner_init b)"
  by (simp add: scanner_init_def scanner_ok_def scanner_pending_def)

lemma index_of_nth: "x \<in> set xs \<Longrightarrow> index_of x xs < length xs \<and> xs ! index_of x xs = x"
  by (induction xs) auto

lemma scanner_wait_not_pending:
  assumes "scanner_ok s"
  shows "\<not> scanner_pending (scanner_wait False fs s)"
proof (cases "psc_done s")
  case False
  let ?t = "(fst (psc_sig s), psc_sig s)"
  from assms False have "?t \<in> set (psc_threads s)"
    by (simp add: scanner_ok_def scanner_pending_def)
  from index_of_nth [OF this] False show ?thesis
    by (simp add: scanner_wait_def scan_thread_ends_def scan_file_def scanner_pending_def)
qed (simp add: scanner_wait_def scanner_pending_def)

section \<open>MacroMoves\<close>

type_synonym macro_cache = "(string \<times> ((rat \<times> int) \<times> int set)) list"

definition macro_max_bytes :: int where "macro_max_bytes = 256 * 1024"
definition macro_max_files :: nat where "macro_max_files = 32"

text \<open>\<open>frozenset(i + 1 for i, b in enumerate(mask) if b)\<close>.\<close>

fun mask_lines :: "int \<Rightarrow> bool list \<Rightarrow> int list" where
  "mask_lines k [] = []"
| "mask_lines k (b # bs) = (if b then k # mask_lines (k + 1) bs else mask_lines (k + 1) bs)"

definition macro_moves_of :: "file_view \<Rightarrow> int set" where
  "macro_moves_of fv =
     (if fv_size fv \<le> macro_max_bytes then
        (case fv_lines fv of
           Some lines \<Rightarrow> set (mask_lines 1 (pi_motion_mask (from_lines lines '''')))
         | None \<Rightarrow> {})
      else {})"

definition macro_lines :: "file_system \<Rightarrow> string \<Rightarrow> macro_cache \<Rightarrow> int set \<times> macro_cache" where
  "macro_lines fs path cache =
     (if path = '''' then ({}, cache)
      else
        (case fs path of
           None \<Rightarrow> ({}, cache)
         | Some fv \<Rightarrow>
             (let sig = (fv_mtime fv, fv_size fv);
                  miss =
                    (let moves = macro_moves_of fv;
                         kept = (if length cache \<ge> macro_max_files then [] else cache)
                     in (moves, AList.update path (sig, moves) kept))
              in (case map_of cache path of
                    Some hit \<Rightarrow> if fst hit = sig then (snd hit, cache) else miss
                  | None \<Rightarrow> miss))))"

text \<open>What \<open>lines()\<close> promises: the move lines of the file as it is now.\<close>

definition macro_fresh :: "file_system \<Rightarrow> string \<Rightarrow> int set" where
  "macro_fresh fs path =
     (if path = '''' then {} else case fs path of None \<Rightarrow> {} | Some fv \<Rightarrow> macro_moves_of fv)"

text \<open>No cached entry claims the current version of a file with other moves than it has.\<close>

definition macro_consistent :: "file_system \<Rightarrow> macro_cache \<Rightarrow> bool" where
  "macro_consistent fs cache \<longleftrightarrow>
     (\<forall>path fv moves. fs path = Some fv \<longrightarrow>
        map_of cache path = Some ((fv_mtime fv, fv_size fv), moves) \<longrightarrow>
        moves = macro_moves_of fv)"

lemma mask_lines_lines_with: "mask_lines k (map P xs) = lines_with P k xs"
  by (induction xs arbitrary: k) auto

lemma macro_moves_of_lines:
  "fv_size fv \<le> macro_max_bytes \<Longrightarrow> fv_lines fv = Some lines \<Longrightarrow>
   macro_moves_of fv = set (lines_with line_moves 1 lines)"
  by (simp add: macro_moves_of_def from_lines_fields mask_lines_lines_with)

lemma macro_lines_fresh:
  "macro_consistent fs cache \<Longrightarrow> fst (macro_lines fs path cache) = macro_fresh fs path"
  by (auto simp: macro_lines_def macro_fresh_def macro_consistent_def Let_def
      split: option.splits)

lemma macro_lines_consistent:
  "macro_consistent fs cache \<Longrightarrow> macro_consistent fs (snd (macro_lines fs path cache))"
  by (auto simp: macro_lines_def macro_consistent_def Let_def update_conv'
      split: option.splits if_splits)

lemma length_alist_update: "length (AList.update k v xs) \<le> Suc (length xs)"
  by (induction xs) auto

lemma macro_lines_bounded:
  assumes "length cache \<le> macro_max_files"
  shows "length (snd (macro_lines fs path cache)) \<le> macro_max_files"
proof -
  let ?kept = "if length cache \<ge> macro_max_files then [] else cache"
  have "length ?kept < macro_max_files"
    by (simp add: macro_max_files_def)
  then have upd: "length (AList.update path v ?kept) \<le> macro_max_files" for v
    using length_alist_update [of path v ?kept] by linarith
  have "snd (macro_lines fs path cache) \<in>
      insert cache (range (\<lambda>v. AList.update path v ?kept))"
    by (auto simp: macro_lines_def Let_def split: option.split)
  with assms upd show ?thesis by auto
qed

section \<open>Properties\<close>

text \<open>
  A late scan never describes the wrong file. After any loads, background scans
  that end in any order (their file changed or gone by then) and waits, the program
  information is that of the file loaded last, a scan still pending shows blank
  information, and a wait that is not cut short leaves nothing pending.
\<close>

theorem scanner_describes_loaded_file:
  shows "let s = foldl scanner_step (scanner_init background) es in
    pi_path (psc_info s) = fst (psc_sig s) \<and>
    (scanner_pending s \<longrightarrow> psc_info s = program_info_init (fst (psc_sig s))) \<and>
    \<not> scanner_pending (scanner_wait False fs s) \<and>
    pi_path (psc_info (scanner_wait False fs s)) = fst (psc_sig s)"
proof -
  let ?s = "foldl scanner_step (scanner_init background) es"
  have ok: "scanner_ok ?s" by (rule scn.run_inv) (rule scanner_init_ok)
  have sig: "psc_sig (scanner_wait False fs ?s) = psc_sig ?s"
    by (simp add: scanner_wait_def scan_thread_ends_def scan_file_def Let_def split: prod.split)
  from ok scanner_wait_ok [OF ok, of False fs] scanner_wait_not_pending [OF ok, of fs] sig
  show ?thesis by (simp add: scanner_ok_def Let_def)
qed

definition demo_files :: file_system where
  "demo_files =
     [''a.ngc'' \<mapsto> \<lparr>fv_mtime = 1, fv_size = 9, fv_lines = Some [''G0 X1'', ''M2'']\<rparr>,
      ''b.ngc'' \<mapsto> \<lparr>fv_mtime = 1, fv_size = 9, fv_lines = Some [''G0 X1'', ''M2'']\<rparr>]"

lemma scanner_describes_loaded_file_witness:
  "psc_info (foldl scanner_step (scanner_init 5)
     [LoadFile demo_files ''a.ngc'', LoadFile demo_files ''b.ngc'', ThreadEnds demo_files 0]) =
   program_info_init ''b.ngc''"
  using scanner_describes_loaded_file [of 5 "[LoadFile demo_files ''a.ngc'',
      LoadFile demo_files ''b.ngc'', ThreadEnds demo_files 0]"]
  by (simp add: demo_files_def scanner_init_def scanner_load_def file_sig_def scan_thread_ends_def
      scan_file_def scanner_pending_def Let_def)

text \<open>
  A file version determines the content: what a cache keyed by modification time
  and size has to assume of the files it is asked for.
\<close>

definition versions_faithful :: "file_system set \<Rightarrow> bool" where
  "versions_faithful F \<longleftrightarrow>
     (\<forall>fs\<in>F. \<forall>fs'\<in>F. \<forall>path fv fv'. fs path = Some fv \<longrightarrow> fs' path = Some fv' \<longrightarrow>
        fv_mtime fv = fv_mtime fv' \<longrightarrow> fv_size fv = fv_size fv' \<longrightarrow> fv = fv')"

definition macro_calls :: "(file_system \<times> string) list \<Rightarrow> macro_cache" where
  "macro_calls calls = foldl (\<lambda>c (fs, path). snd (macro_lines fs path c)) [] calls"

definition macro_from :: "file_system set \<Rightarrow> macro_cache \<Rightarrow> bool" where
  "macro_from F cache \<longleftrightarrow>
     (\<forall>path sig moves. map_of cache path = Some (sig, moves) \<longrightarrow>
        (\<exists>fs\<in>F. \<exists>fv. fs path = Some fv \<and> sig = (fv_mtime fv, fv_size fv) \<and>
           moves = macro_moves_of fv))"

lemma macro_from_step:
  assumes "macro_from F cache" "fs \<in> F"
  shows "macro_from F (snd (macro_lines fs path cache))"
proof (cases "path = '''' \<or> fs path = None \<or> snd (macro_lines fs path cache) = cache")
  case True
  then have "snd (macro_lines fs path cache) = cache"
    by (elim disjE) (simp_all add: macro_lines_def)
  then show ?thesis using assms(1) by (simp only:)
next
  case False
  then obtain fv where fv: "fs path = Some fv" by auto
  let ?kept = "if length cache \<ge> macro_max_files then [] else cache"
  have new: "snd (macro_lines fs path cache) =
      AList.update path ((fv_mtime fv, fv_size fv), macro_moves_of fv) ?kept"
    using False fv by (auto simp: macro_lines_def Let_def split: option.splits if_splits)
  show ?thesis
    using assms fv unfolding new macro_from_def
    by (auto simp: update_conv')
qed

lemma macro_from_calls: "fst ` set calls \<subseteq> F \<Longrightarrow> macro_from F (macro_calls calls)"
proof (induction calls rule: rev_induct)
  case (snoc x xs)
  then show ?case by (cases x) (auto simp: macro_calls_def intro: macro_from_step)
qed (simp add: macro_calls_def macro_from_def)

lemma macro_calls_bounded: "length (macro_calls calls) \<le> macro_max_files"
proof (induction calls rule: rev_induct)
  case (snoc x xs)
  then show ?case by (cases x) (simp add: macro_calls_def macro_lines_bounded)
qed (simp add: macro_calls_def)

text \<open>
  The subroutine cache returns what a fresh read would. After any calls on file
  systems whose file versions determine their content, \<open>lines\<close> answers for the next
  path exactly the move lines of the file as it is now, and the cache never exceeds
  32 files.
\<close>

theorem macro_cache_is_transparent:
  assumes "versions_faithful (insert fs (fst ` set calls))"
  shows "fst (macro_lines fs path (macro_calls calls)) = macro_fresh fs path \<and>
    length (snd (macro_lines fs path (macro_calls calls))) \<le> macro_max_files"
proof
  have "macro_consistent fs (macro_calls calls)"
    unfolding macro_consistent_def
  proof (intro allI impI)
    fix path' fv moves
    assume fv: "fs path' = Some fv"
      and "map_of (macro_calls calls) path' = Some ((fv_mtime fv, fv_size fv), moves)"
    then obtain fs' fv' where fv': "fs' \<in> fst ` set calls" "fs' path' = Some fv'"
      "fv_mtime fv = fv_mtime fv'" "fv_size fv = fv_size fv'" "moves = macro_moves_of fv'"
      using macro_from_calls [of calls "fst ` set calls"] by (fastforce simp: macro_from_def)
    with assms fv have "fv = fv'" unfolding versions_faithful_def by blast
    with fv' show "moves = macro_moves_of fv" by simp
  qed
  then show "fst (macro_lines fs path (macro_calls calls)) = macro_fresh fs path"
    by (rule macro_lines_fresh)
  show "length (snd (macro_lines fs path (macro_calls calls))) \<le> macro_max_files"
    by (intro macro_lines_bounded macro_calls_bounded)
qed

definition demo_macro :: file_system where
  "demo_macro =
     [''m.ngc'' \<mapsto> \<lparr>fv_mtime = 1, fv_size = 9, fv_lines = Some [''G53 G0 Z0'', ''M5'', ''X1'']\<rparr>]"

lemma macro_cache_is_transparent_witness:
  "fst (macro_lines demo_macro ''m.ngc'' (macro_calls [(demo_macro, ''m.ngc'')])) = {1, 3}"
proof -
  have "versions_faithful (insert demo_macro (fst ` set [(demo_macro, ''m.ngc'')]))"
    by (simp add: versions_faithful_def)
  from macro_cache_is_transparent [OF this, of "''m.ngc''"]
  have "fst (macro_lines demo_macro ''m.ngc'' (macro_calls [(demo_macro, ''m.ngc'')])) =
      macro_fresh demo_macro ''m.ngc''" by simp
  also have "\<dots> = set (lines_with line_moves 1 [''G53 G0 Z0'', ''M5'', ''X1''])"
    by (simp add: macro_fresh_def demo_macro_def macro_moves_of_lines macro_max_bytes_def)
  also have "lines_with line_moves 1 [''G53 G0 Z0'', ''M5'', ''X1''] = [1, 3]" by code_simp
  finally show ?thesis by simp
qed

end
