(* ===== verification/Line_Tracker.thy ===== *)
theory Line_Tracker
  imports Program_Scan
begin

text \<open>
  \<open>CycleLineTracker\<close> of \<open>program_tracker.py\<close>: from sampled line numbers, where a
  cycle started, how far it got and whether it reached M2 / M30. \<open>line_sample\<close>
  and \<open>line_hold\<close> are one sample in the program and one inside a subroutine.
\<close>

section \<open>The tracker\<close>

definition sub_lines_max :: nat where "sub_lines_max = 5000"

record line_tracker =
  lt_stale_motion :: int
  lt_stale_current :: int
  lt_motion_live :: bool
  lt_current_live :: bool
  lt_start_line :: "int option"
  lt_last_motion_line :: "int option"
  lt_max_line :: int
  lt_end_seen :: bool
  lt_sub_lines :: "int set"
  lt_sub_moves :: "int set"
  lt_sub_last :: int
  lt_after_sub :: bool
  lt_from_sub :: bool
  lt_read_end :: bool

definition tracker_begin :: "int \<Rightarrow> int \<Rightarrow> line_tracker" where
  "tracker_begin idle_motion_line idle_current_line =
     \<lparr>lt_stale_motion = idle_motion_line, lt_stale_current = idle_current_line,
      lt_motion_live = False, lt_current_live = False, lt_start_line = None,
      lt_last_motion_line = None, lt_max_line = 0, lt_end_seen = False, lt_sub_lines = {},
      lt_sub_moves = {}, lt_sub_last = 0, lt_after_sub = False, lt_from_sub = False,
      lt_read_end = False\<rparr>"

definition add_sub_line :: "int \<Rightarrow> line_tracker \<Rightarrow> line_tracker" where
  "add_sub_line line t =
     (if line > 0 \<and> card (lt_sub_lines t) < sub_lines_max
      then t\<lparr>lt_sub_lines := insert line (lt_sub_lines t)\<rparr> else t)"

definition line_hold :: "int \<Rightarrow> int \<Rightarrow> int set \<Rightarrow> line_tracker \<Rightarrow> line_tracker" where
  "line_hold motion_line current_line sub_moves t0 =
     (let t1 = t0\<lparr>lt_stale_motion := motion_line, lt_motion_live := False,
                  lt_stale_current := current_line, lt_current_live := False\<rparr>;
          t2 = add_sub_line current_line (add_sub_line motion_line t1);
          t3 = (if sub_moves \<noteq> {} \<and> card (lt_sub_moves t2) < sub_lines_max
                then t2\<lparr>lt_sub_moves := lt_sub_moves t2 \<union> sub_moves\<rparr> else t2);
          t4 = (if motion_line \<in> lt_sub_moves t3 then t3\<lparr>lt_sub_last := motion_line\<rparr> else t3);
          t5 = t4\<lparr>lt_after_sub := True\<rparr>
      in if motion_line > 0 then t5\<lparr>lt_from_sub := True\<rparr> else t5)"

definition subs_line :: "int \<Rightarrow> program_info \<Rightarrow> line_tracker \<Rightarrow> bool" where
  "subs_line line prog t \<longleftrightarrow>
     lt_after_sub t \<and>
     (line \<in> lt_sub_lines t \<or>
      (line > lt_sub_last t \<and> line \<in> lt_sub_moves t) \<or>
      \<not> is_move_line prog line)"

text \<open>The first half of \<open>sample\<close>: which motion line counts (0 = none).\<close>

definition filter_motion ::
  "int \<Rightarrow> program_info \<Rightarrow> line_tracker \<Rightarrow> int \<times> line_tracker" where
  "filter_motion motion_line prog t =
     (if motion_line > 0 \<and> motion_line \<noteq> lt_stale_motion t \<and> subs_line motion_line prog t
      then (0, t\<lparr>lt_from_sub := True\<rparr>)
      else if motion_line > 0 \<and> \<not> is_move_line prog motion_line then (0, t)
      else if motion_line > 0 \<and> motion_line \<noteq> lt_stale_motion t
      then (motion_line, t\<lparr>lt_from_sub := False, lt_after_sub := False, lt_sub_last := 0\<rparr>)
      else (motion_line, t))"

definition take_motion :: "int \<Rightarrow> line_tracker \<Rightarrow> line_tracker" where
  "take_motion motion_line t0 =
     (let t1 = (if \<not> lt_motion_live t0 \<and> motion_line > 0 \<and> motion_line \<noteq> lt_stale_motion t0
                then t0\<lparr>lt_motion_live := True\<rparr> else t0)
      in if lt_motion_live t1 \<and> motion_line > 0 then
           (let t2 = (if lt_start_line t1 = None
                      then t1\<lparr>lt_start_line := Some motion_line\<rparr> else t1)
            in t2\<lparr>lt_last_motion_line := Some motion_line,
                  lt_max_line := max (lt_max_line t2) motion_line\<rparr>)
         else t1)"

definition take_current :: "int \<Rightarrow> program_info \<Rightarrow> line_tracker \<Rightarrow> line_tracker" where
  "take_current current_line0 prog t0 =
     (let current_line = (if current_line0 > 0 \<and> current_line0 \<in> lt_sub_lines t0
                          then 0 else current_line0);
          t1 = (if \<not> lt_current_live t0 \<and> current_line > 0 \<and> current_line \<noteq> lt_stale_current t0
                then t0\<lparr>lt_current_live := True\<rparr> else t0)
      in if lt_current_live t1 \<and> pi_end_line prog > 0 \<and> current_line \<ge> pi_end_line prog
         then t1\<lparr>lt_end_seen := True\<rparr> else t1)"

definition line_sample ::
  "int \<Rightarrow> int \<Rightarrow> program_info \<Rightarrow> int \<Rightarrow> line_tracker \<Rightarrow> line_tracker" where
  "line_sample motion_line current_line prog read_line t0 =
     (let t1 = (if pi_end_line prog > 0 \<and> read_line \<ge> pi_end_line prog
                then t0\<lparr>lt_read_end := True\<rparr> else t0);
          (ml, t2) = filter_motion motion_line prog t1
      in take_current current_line prog (take_motion ml t2))"

definition start_known :: "line_tracker \<Rightarrow> bool" where
  "start_known t \<longleftrightarrow> lt_start_line t \<noteq> None"

definition tracker_run_from_here :: "program_info \<Rightarrow> line_tracker \<Rightarrow> bool option" where
  "tracker_run_from_here prog t =
     (case lt_start_line t of None \<Rightarrow> None | Some s \<Rightarrow> Some (\<not> is_near_start prog s))"

definition tracker_progress :: "program_info \<Rightarrow> line_tracker \<Rightarrow> rat" where
  "tracker_progress prog t =
     (case lt_start_line t of None \<Rightarrow> 0 | Some _ \<Rightarrow> program_progress prog (lt_max_line t))"

definition reached_end :: "program_info \<Rightarrow> line_tracker \<Rightarrow> bool" where
  "reached_end prog t =
     (if lt_end_seen t then True
      else if lt_from_sub t then lt_read_end t
      else if pi_end_line prog \<le> 0 then False
      else if pi_tail_line prog \<le> 0 then True
      else (case lt_last_motion_line t of None \<Rightarrow> False | Some l \<Rightarrow> l \<ge> pi_tail_line prog))"

section \<open>Invariant\<close>

text \<open>
  What holds after any mix of samples and holds while the program stays the same:
  the recorded lines are moves of the program, and after a subroutine no motion
  is live until a move of the program is seen.
\<close>

definition tracker_ok :: "program_info \<Rightarrow> line_tracker \<Rightarrow> bool" where
  "tracker_ok prog t \<longleftrightarrow>
     (lt_start_line t = None \<longleftrightarrow> lt_last_motion_line t = None) \<and>
     (lt_start_line t = None \<longrightarrow> lt_max_line t = 0) \<and>
     (\<forall>s. lt_start_line t = Some s \<longrightarrow> 0 < s \<and> s \<le> lt_max_line t \<and> is_move_line prog s) \<and>
     (\<forall>l. lt_last_motion_line t = Some l \<longrightarrow> 0 < l \<and> l \<le> lt_max_line t \<and> is_move_line prog l) \<and>
     (lt_motion_live t \<longrightarrow> \<not> lt_after_sub t) \<and>
     (lt_end_seen t \<longrightarrow> 0 < pi_end_line prog) \<and>
     (lt_read_end t \<longrightarrow> 0 < pi_end_line prog) \<and>
     finite (lt_sub_lines t) \<and> card (lt_sub_lines t) \<le> sub_lines_max"

text \<open>What each half of \<open>sample\<close> does to each field.\<close>

definition takes_motion :: "int \<Rightarrow> line_tracker \<Rightarrow> bool" where
  "takes_motion m t \<longleftrightarrow> 0 < m \<and> (lt_motion_live t \<or> m \<noteq> lt_stale_motion t)"

lemma take_motion_fields [simp]:
  "lt_start_line (take_motion m t) =
     (if takes_motion m t \<and> lt_start_line t = None then Some m else lt_start_line t)"
  "lt_last_motion_line (take_motion m t) =
     (if takes_motion m t then Some m else lt_last_motion_line t)"
  "lt_max_line (take_motion m t) =
     (if takes_motion m t then max (lt_max_line t) m else lt_max_line t)"
  "lt_motion_live (take_motion m t) = (lt_motion_live t \<or> takes_motion m t)"
  "lt_stale_motion (take_motion m t) = lt_stale_motion t"
  "lt_stale_current (take_motion m t) = lt_stale_current t"
  "lt_current_live (take_motion m t) = lt_current_live t"
  "lt_end_seen (take_motion m t) = lt_end_seen t"
  "lt_sub_lines (take_motion m t) = lt_sub_lines t"
  "lt_sub_moves (take_motion m t) = lt_sub_moves t"
  "lt_sub_last (take_motion m t) = lt_sub_last t"
  "lt_after_sub (take_motion m t) = lt_after_sub t"
  "lt_from_sub (take_motion m t) = lt_from_sub t"
  "lt_read_end (take_motion m t) = lt_read_end t"
  by (auto simp: take_motion_def takes_motion_def Let_def)

definition own_current :: "int \<Rightarrow> line_tracker \<Rightarrow> int" where
  "own_current c t = (if c > 0 \<and> c \<in> lt_sub_lines t then 0 else c)"

lemma take_current_fields [simp]:
  "lt_current_live (take_current c prog t) =
     (lt_current_live t \<or> (0 < own_current c t \<and> own_current c t \<noteq> lt_stale_current t))"
  "lt_end_seen (take_current c prog t) =
     (lt_end_seen t \<or>
      (lt_current_live (take_current c prog t) \<and> 0 < pi_end_line prog \<and>
       pi_end_line prog \<le> own_current c t))"
  "lt_stale_motion (take_current c prog t) = lt_stale_motion t"
  "lt_stale_current (take_current c prog t) = lt_stale_current t"
  "lt_motion_live (take_current c prog t) = lt_motion_live t"
  "lt_start_line (take_current c prog t) = lt_start_line t"
  "lt_last_motion_line (take_current c prog t) = lt_last_motion_line t"
  "lt_max_line (take_current c prog t) = lt_max_line t"
  "lt_sub_lines (take_current c prog t) = lt_sub_lines t"
  "lt_sub_moves (take_current c prog t) = lt_sub_moves t"
  "lt_sub_last (take_current c prog t) = lt_sub_last t"
  "lt_after_sub (take_current c prog t) = lt_after_sub t"
  "lt_from_sub (take_current c prog t) = lt_from_sub t"
  "lt_read_end (take_current c prog t) = lt_read_end t"
  by (auto simp: take_current_def own_current_def Let_def)

lemma add_sub_line_fields [simp]:
  "lt_sub_lines (add_sub_line l t) =
     (if l > 0 \<and> card (lt_sub_lines t) < sub_lines_max
      then insert l (lt_sub_lines t) else lt_sub_lines t)"
  "lt_stale_motion (add_sub_line l t) = lt_stale_motion t"
  "lt_stale_current (add_sub_line l t) = lt_stale_current t"
  "lt_motion_live (add_sub_line l t) = lt_motion_live t"
  "lt_current_live (add_sub_line l t) = lt_current_live t"
  "lt_start_line (add_sub_line l t) = lt_start_line t"
  "lt_last_motion_line (add_sub_line l t) = lt_last_motion_line t"
  "lt_max_line (add_sub_line l t) = lt_max_line t"
  "lt_end_seen (add_sub_line l t) = lt_end_seen t"
  "lt_sub_moves (add_sub_line l t) = lt_sub_moves t"
  "lt_sub_last (add_sub_line l t) = lt_sub_last t"
  "lt_after_sub (add_sub_line l t) = lt_after_sub t"
  "lt_from_sub (add_sub_line l t) = lt_from_sub t"
  "lt_read_end (add_sub_line l t) = lt_read_end t"
  by (simp_all add: add_sub_line_def)

text \<open>The four outcomes of the filter on the motion line.\<close>

lemma filter_motion_cases:
  assumes "filter_motion ml prog t = (m, u)"
  obtains
    (sub) "0 < ml" "ml \<noteq> lt_stale_motion t" "subs_line ml prog t" "m = 0"
      "u = t\<lparr>lt_from_sub := True\<rparr>"
  | (other) "0 < ml" "ml = lt_stale_motion t \<or> \<not> subs_line ml prog t" "\<not> is_move_line prog ml"
      "m = 0" "u = t"
  | (own) "0 < ml" "ml \<noteq> lt_stale_motion t" "\<not> subs_line ml prog t" "is_move_line prog ml"
      "m = ml" "u = t\<lparr>lt_from_sub := False, lt_after_sub := False, lt_sub_last := 0\<rparr>"
  | (stale) "0 < ml" "ml = lt_stale_motion t" "is_move_line prog ml" "m = ml" "u = t"
  | (none) "ml \<le> 0" "m = ml" "u = t"
proof -
  consider (a) "\<not> 0 < ml" | (b) "0 < ml" "ml \<noteq> lt_stale_motion t" "subs_line ml prog t"
    | (c) "0 < ml" "ml = lt_stale_motion t \<or> \<not> subs_line ml prog t" "\<not> is_move_line prog ml"
    | (d) "0 < ml" "ml \<noteq> lt_stale_motion t" "\<not> subs_line ml prog t" "is_move_line prog ml"
    | (e) "0 < ml" "ml = lt_stale_motion t" "is_move_line prog ml"
    by blast
  then show thesis
  proof cases
    case a
    with assms have "m = ml" "u = t" by (simp_all add: filter_motion_def)
    with a none show ?thesis by simp
  next
    case b
    with assms have "m = 0" "u = t\<lparr>lt_from_sub := True\<rparr>" by (simp_all add: filter_motion_def)
    with b show ?thesis by (rule sub)
  next
    case c
    with assms have "m = 0" "u = t" by (auto simp: filter_motion_def split: if_splits)
    with c show ?thesis by (rule other)
  next
    case d
    with assms have "m = ml" "u = t\<lparr>lt_from_sub := False, lt_after_sub := False, lt_sub_last := 0\<rparr>"
      by (simp_all add: filter_motion_def)
    with d show ?thesis by (rule own)
  next
    case e
    with assms have "m = ml" "u = t" by (auto simp: filter_motion_def)
    with e show ?thesis by (rule stale)
  qed
qed

lemma tracker_begin_ok: "tracker_ok prog (tracker_begin a b)"
  by (simp add: tracker_ok_def tracker_begin_def)

lemma add_sub_line_ok: "tracker_ok prog t \<Longrightarrow> tracker_ok prog (add_sub_line l t)"
  by (simp add: tracker_ok_def card_insert_if)

lemma line_hold_fields:
  "lt_after_sub (line_hold ml cl subs t)" "\<not> lt_motion_live (line_hold ml cl subs t)"
  "0 < ml \<Longrightarrow> lt_from_sub (line_hold ml cl subs t)"
  "lt_start_line (line_hold ml cl subs t) = lt_start_line t"
  "lt_last_motion_line (line_hold ml cl subs t) = lt_last_motion_line t"
  "lt_max_line (line_hold ml cl subs t) = lt_max_line t"
  "lt_end_seen (line_hold ml cl subs t) = lt_end_seen t"
  "lt_read_end (line_hold ml cl subs t) = lt_read_end t"
  "lt_sub_lines (line_hold ml cl subs t) = lt_sub_lines (add_sub_line cl (add_sub_line ml t))"
  by (simp_all add: line_hold_def Let_def)

lemma line_hold_ok:
  assumes "tracker_ok prog t"
  shows "tracker_ok prog (line_hold ml cl subs t)"
proof -
  have "tracker_ok prog (add_sub_line cl (add_sub_line ml t))"
    using assms by (intro add_sub_line_ok)
  then show ?thesis
    unfolding tracker_ok_def line_hold_fields by (simp add: line_hold_fields)
qed

lemma filter_motion_ok:
  assumes "tracker_ok prog t" and "filter_motion ml prog t = (m, u)"
  shows "tracker_ok prog u"
    and "takes_motion m u \<longrightarrow> is_move_line prog m \<and> \<not> lt_after_sub u"
  using assms(2) by (cases rule: filter_motion_cases; use assms(1) in
      \<open>simp add: tracker_ok_def takes_motion_def\<close>)+

lemma take_motion_ok:
  assumes "tracker_ok prog u" "takes_motion m u \<longrightarrow> is_move_line prog m \<and> \<not> lt_after_sub u"
  shows "tracker_ok prog (take_motion m u)"
proof (cases "takes_motion m u")
  case True
  then have "0 < m" by (simp add: takes_motion_def)
  with True assms show ?thesis
    by (cases "lt_start_line u") (auto simp: tracker_ok_def)
next
  case False
  with assms(1) show ?thesis by (simp add: tracker_ok_def)
qed

lemma take_current_ok: "tracker_ok prog t \<Longrightarrow> tracker_ok prog (take_current cl prog t)"
  unfolding tracker_ok_def by simp

definition note_read :: "program_info \<Rightarrow> int \<Rightarrow> line_tracker \<Rightarrow> line_tracker" where
  "note_read prog rl t =
     (if pi_end_line prog > 0 \<and> rl \<ge> pi_end_line prog then t\<lparr>lt_read_end := True\<rparr> else t)"

lemma note_read_ok: "tracker_ok prog t \<Longrightarrow> tracker_ok prog (note_read prog rl t)"
  by (simp add: tracker_ok_def note_read_def)

lemma line_sample_eq:
  "line_sample ml cl prog rl t =
     (case filter_motion ml prog (note_read prog rl t) of
        (m, u) \<Rightarrow> take_current cl prog (take_motion m u))"
  by (simp add: line_sample_def note_read_def Let_def)

lemma line_sample_ok:
  assumes "tracker_ok prog t"
  shows "tracker_ok prog (line_sample ml cl prog rl t)"
proof -
  obtain m u where f: "filter_motion ml prog (note_read prog rl t) = (m, u)"
    by (cases "filter_motion ml prog (note_read prog rl t)")
  from take_current_ok [OF take_motion_ok [OF filter_motion_ok [OF note_read_ok [OF assms] f]]] f
  show ?thesis by (simp add: line_sample_eq)
qed

datatype line_event = Sample int int int | Hold int int "int set"

fun line_step :: "program_info \<Rightarrow> line_tracker \<Rightarrow> line_event \<Rightarrow> line_tracker" where
  "line_step prog t (Sample ml cl rl) = line_sample ml cl prog rl t"
| "line_step prog t (Hold ml cl subs) = line_hold ml cl subs t"

interpretation lt: invariant_machine "line_step prog" "tracker_ok prog" for prog
proof
  fix t e
  assume "tracker_ok prog t"
  then show "tracker_ok prog (line_step prog t e)"
    by (cases e) (auto intro: line_sample_ok line_hold_ok)
qed

section \<open>Cycles without subroutines: a reference reading\<close>

text \<open>
  Everything the tracker remembers of a cycle that never enters a subroutine, as
  a function of the whole list of samples: stale lines are those equal to the
  line seen while idle, up to the first different one.
\<close>

definition unstale :: "int \<Rightarrow> int list \<Rightarrow> int list" where
  "unstale x ys = dropWhile (\<lambda>y. y = x) ys"

definition live_motion :: "program_info \<Rightarrow> int \<Rightarrow> (int \<times> int \<times> int) list \<Rightarrow> int list" where
  "live_motion prog idle xs =
     unstale idle (filter (\<lambda>m. 0 < m \<and> is_move_line prog m) (map fst xs))"

definition live_current :: "int \<Rightarrow> (int \<times> int \<times> int) list \<Rightarrow> int list" where
  "live_current idle xs = unstale idle (filter (\<lambda>c. 0 < c) (map (fst \<circ> snd) xs))"

definition sample_run ::
  "program_info \<Rightarrow> line_tracker \<Rightarrow> (int \<times> int \<times> int) list \<Rightarrow> line_tracker" where
  "sample_run prog t xs = foldl (\<lambda>t (ml, cl, rl). line_sample ml cl prog rl t) t xs"

lemma unstale_snoc:
  "unstale x (ys @ [y]) =
     (if unstale x ys = [] \<and> y = x then [] else unstale x ys @ [y])"
  by (induction ys) (auto simp: unstale_def)

lemma unstale_Nil [simp]: "unstale x [] = []"
  by (simp add: unstale_def)

lemma sample_run_snoc:
  "sample_run prog t (xs @ [(ml, cl, rl)]) = line_sample ml cl prog rl (sample_run prog t xs)"
  by (simp add: sample_run_def)

lemma hd_snoc: "hd (xs @ [x]) = (if xs = [] then x else hd xs)"
  by (cases xs) auto

text \<open>The tracker state that a list of samples stands for.\<close>

definition motion_matches ::
  "program_info \<Rightarrow> int \<Rightarrow> (int \<times> int \<times> int) list \<Rightarrow> line_tracker \<Rightarrow> bool" where
  "motion_matches prog a xs t \<longleftrightarrow>
     (let ms = live_motion prog a xs
      in lt_stale_motion t = a \<and> lt_motion_live t = (ms \<noteq> []) \<and>
         lt_start_line t = (if ms = [] then None else Some (hd ms)) \<and>
         lt_last_motion_line t = last_opt ms \<and> lt_max_line t = foldl max 0 ms \<and>
         lt_sub_lines t = {} \<and> \<not> lt_after_sub t \<and> \<not> lt_from_sub t)"

definition current_matches ::
  "program_info \<Rightarrow> int \<Rightarrow> (int \<times> int \<times> int) list \<Rightarrow> line_tracker \<Rightarrow> bool" where
  "current_matches prog b xs t \<longleftrightarrow>
     (let cs = live_current b xs
      in lt_stale_current t = b \<and> lt_current_live t = (cs \<noteq> []) \<and>
         lt_end_seen t = (0 < pi_end_line prog \<and> (\<exists>c\<in>set cs. pi_end_line prog \<le> c)))"

definition tracker_matches ::
  "program_info \<Rightarrow> int \<Rightarrow> int \<Rightarrow> (int \<times> int \<times> int) list \<Rightarrow> line_tracker \<Rightarrow> bool" where
  "tracker_matches prog a b xs t \<longleftrightarrow> motion_matches prog a xs t \<and> current_matches prog b xs t"

lemmas matches_defs = tracker_matches_def motion_matches_def current_matches_def Let_def

lemma live_motion_snoc:
  "live_motion prog a (xs @ [(ml, cl, rl)]) =
     (if 0 < ml \<and> is_move_line prog ml \<and> (live_motion prog a xs \<noteq> [] \<or> ml \<noteq> a)
      then live_motion prog a xs @ [ml] else live_motion prog a xs)"
  by (simp add: live_motion_def unstale_snoc)

lemma live_current_snoc:
  "live_current b (xs @ [(ml, cl, rl)]) =
     (if 0 < cl \<and> (live_current b xs \<noteq> [] \<or> cl \<noteq> b)
      then live_current b xs @ [cl] else live_current b xs)"
  by (simp add: live_current_def unstale_snoc)

lemma foldl_snoc_max: "foldl max (0::int) (ms @ [m]) = max (foldl max 0 ms) m"
  by simp

lemma tracker_matches_read:
  "tracker_matches prog a b xs t \<Longrightarrow> tracker_matches prog a b xs (note_read prog rl t)"
  by (simp add: matches_defs note_read_def)

lemma tracker_matches_filter:
  assumes "tracker_matches prog a b xs t" and "filter_motion ml prog t = (m, u)"
  shows "tracker_matches prog a b xs u"
    and "takes_motion m u \<longleftrightarrow> 0 < ml \<and> is_move_line prog ml \<and> (live_motion prog a xs \<noteq> [] \<or> ml \<noteq> a)"
    and "takes_motion m u \<longrightarrow> m = ml"
  using assms(2) by (cases rule: filter_motion_cases; use assms(1) in
      \<open>simp add: matches_defs subs_line_def takes_motion_def\<close>)+

lemma motion_matches_snoc:
  assumes "motion_matches prog a xs u"
    and "takes_motion m u \<longleftrightarrow> 0 < ml \<and> is_move_line prog ml \<and> (live_motion prog a xs \<noteq> [] \<or> ml \<noteq> a)"
    and "takes_motion m u \<longrightarrow> m = ml"
  shows "motion_matches prog a (xs @ [(ml, cl, rl)]) (take_motion m u)"
proof (cases "takes_motion m u")
  case True
  with assms(2,3) have "live_motion prog a (xs @ [(ml, cl, rl)]) = live_motion prog a xs @ [ml]" "m = ml"
    by (simp_all add: live_motion_snoc)
  with True assms(1) show ?thesis
    by (simp add: motion_matches_def Let_def hd_snoc)
next
  case False
  with assms(2) have "live_motion prog a (xs @ [(ml, cl, rl)]) = live_motion prog a xs"
    by (auto simp: live_motion_snoc)
  with False assms(1) show ?thesis
    by (simp add: motion_matches_def Let_def)
qed

lemma current_matches_snoc:
  assumes "current_matches prog b xs t" "lt_sub_lines t = {}"
  shows "current_matches prog b (xs @ [(ml, cl, rl)]) (take_current cl prog t)"
proof -
  have own: "own_current cl t = cl" using assms(2) by (simp add: own_current_def)
  show ?thesis
  proof (cases "0 < cl \<and> (live_current b xs \<noteq> [] \<or> cl \<noteq> b)")
    case True
    then have "live_current b (xs @ [(ml, cl, rl)]) = live_current b xs @ [cl]"
      by (simp add: live_current_snoc)
    with True assms(1) own show ?thesis
      by (auto simp: current_matches_def Let_def)
  next
    case False
    then have "live_current b (xs @ [(ml, cl, rl)]) = live_current b xs"
      by (simp only: live_current_snoc if_False)
    moreover have "\<not> 0 < cl \<or> (live_current b xs = [] \<and> cl = b)"
      using False by blast
    ultimately show ?thesis
      using assms(1) own by (auto simp: current_matches_def Let_def)
  qed
qed

lemma tracker_matches_snoc:
  assumes "tracker_matches prog a b xs t"
  shows "tracker_matches prog a b (xs @ [(ml, cl, rl)]) (line_sample ml cl prog rl t)"
proof -
  obtain m u where f: "filter_motion ml prog (note_read prog rl t) = (m, u)"
    by (cases "filter_motion ml prog (note_read prog rl t)")
  note u = tracker_matches_filter [OF tracker_matches_read [OF assms] f]
  have "motion_matches prog a (xs @ [(ml, cl, rl)]) (take_motion m u)"
    using motion_matches_snoc u by (simp add: tracker_matches_def)
  moreover have "current_matches prog b (xs @ [(ml, cl, rl)]) (take_current cl prog (take_motion m u))"
    using u(1) by (intro current_matches_snoc) (simp_all add: matches_defs)
  ultimately show ?thesis
    using f by (simp add: line_sample_eq tracker_matches_def motion_matches_def Let_def)
qed

lemma sample_run_matches:
  "tracker_matches prog a b xs (sample_run prog (tracker_begin a b) xs)"
proof (induction xs rule: rev_induct)
  case Nil
  then show ?case
    by (simp add: matches_defs sample_run_def tracker_begin_def live_motion_def
        live_current_def)
next
  case (snoc x xs)
  then show ?case
    by (cases x) (simp add: sample_run_snoc tracker_matches_snoc)
qed

lemma sample_run_reached_end:
  "reached_end prog (sample_run prog (tracker_begin a b) xs) \<longleftrightarrow>
     0 < pi_end_line prog \<and>
     ((\<exists>c\<in>set (live_current b xs). pi_end_line prog \<le> c) \<or> pi_tail_line prog \<le> 0 \<or>
      (live_motion prog a xs \<noteq> [] \<and> pi_tail_line prog \<le> last (live_motion prog a xs)))"
  using sample_run_matches [of prog a b xs]
  by (auto simp: matches_defs reached_end_def last_opt_def split: option.splits)

section \<open>Subroutines never count as program lines\<close>

text \<open>
  Right after a subroutine, motion lines seen inside it (or that are not moves
  of the program) leave the cycle's record alone.
\<close>

definition same_record :: "line_tracker \<Rightarrow> line_tracker \<Rightarrow> bool" where
  "same_record t u \<longleftrightarrow>
     lt_start_line u = lt_start_line t \<and> lt_last_motion_line u = lt_last_motion_line t \<and>
     lt_max_line u = lt_max_line t \<and> lt_sub_lines u = lt_sub_lines t \<and>
     lt_sub_moves u = lt_sub_moves t \<and> lt_sub_last u = lt_sub_last t \<and>
     lt_after_sub u = lt_after_sub t \<and> lt_motion_live u = lt_motion_live t \<and>
     lt_stale_motion u = lt_stale_motion t \<and> (lt_from_sub t \<longrightarrow> lt_from_sub u)"

lemma line_sample_after_sub:
  assumes "lt_after_sub t" "\<not> lt_motion_live t" "subs_line ml prog t"
  shows "same_record t (line_sample ml cl prog rl t)"
proof -
  let ?t = "note_read prog rl t"
  have t: "same_record t ?t" "subs_line ml prog ?t" "\<not> lt_motion_live ?t"
    using assms by (simp_all add: same_record_def note_read_def subs_line_def)
  obtain m u where f: "filter_motion ml prog ?t = (m, u)"
    by (cases "filter_motion ml prog ?t")
  from f have "same_record t u \<and> \<not> takes_motion m u"
    by (cases rule: filter_motion_cases; use t in \<open>simp add: same_record_def takes_motion_def\<close>)
  with f show ?thesis by (simp add: line_sample_eq same_record_def)
qed

lemma same_record_trans: "same_record t u \<Longrightarrow> same_record u v \<Longrightarrow> same_record t v"
  by (auto simp: same_record_def)

lemma subs_line_same_record: "same_record t u \<Longrightarrow> subs_line m prog u = subs_line m prog t"
  by (simp add: same_record_def subs_line_def)

lemma sample_run_after_sub:
  assumes "lt_after_sub t" "\<not> lt_motion_live t"
    and "\<forall>x\<in>set xs. subs_line (fst x) prog t"
  shows "same_record t (sample_run prog t xs)"
  using assms(3)
proof (induction xs rule: rev_induct)
  case Nil
  then show ?case by (simp add: sample_run_def same_record_def)
next
  case (snoc x xs)
  obtain ml cl rl where x: "x = (ml, cl, rl)" by (cases x)
  let ?u = "sample_run prog t xs"
  have u: "same_record t ?u" using snoc by simp
  have "lt_after_sub ?u" "\<not> lt_motion_live ?u"
    using assms(1,2) u by (simp_all add: same_record_def)
  moreover have "subs_line ml prog ?u"
    using subs_line_same_record [OF u] snoc.prems x by simp
  ultimately have "same_record ?u (line_sample ml cl prog rl ?u)"
    by (rule line_sample_after_sub)
  from same_record_trans [OF u this] show ?case
    by (simp add: x sample_run_snoc)
qed

lemma line_sample_max_mono: "lt_max_line t \<le> lt_max_line (line_sample ml cl prog rl t)"
proof -
  obtain m u where f: "filter_motion ml prog (note_read prog rl t) = (m, u)"
    by (cases "filter_motion ml prog (note_read prog rl t)")
  then have "lt_max_line u = lt_max_line t"
    by (cases rule: filter_motion_cases) (simp_all add: note_read_def)
  with f show ?thesis by (simp add: line_sample_eq)
qed

lemma line_sample_start_kept:
  "lt_start_line t = Some s \<Longrightarrow> lt_start_line (line_sample ml cl prog rl t) = Some s"
proof -
  assume t: "lt_start_line t = Some s"
  obtain m u where f: "filter_motion ml prog (note_read prog rl t) = (m, u)"
    by (cases "filter_motion ml prog (note_read prog rl t)")
  then have "lt_start_line u = Some s"
    by (cases rule: filter_motion_cases) (simp_all add: note_read_def t)
  with f show ?thesis by (simp add: line_sample_eq)
qed

lemma line_step_mono:
  "lt_max_line t \<le> lt_max_line (line_step prog t e)"
  "lt_start_line t = Some s \<Longrightarrow> lt_start_line (line_step prog t e) = Some s"
  by (cases e; simp add: line_sample_max_mono line_sample_start_kept line_hold_fields)+

lemma line_steps_mono:
  "lt_max_line t \<le> lt_max_line (foldl (line_step prog) t es)"
  "lt_start_line t = Some s \<Longrightarrow> lt_start_line (foldl (line_step prog) t es) = Some s"
proof -
  show "lt_max_line t \<le> lt_max_line (foldl (line_step prog) t es)"
  proof (induction es arbitrary: t)
    case (Cons e es)
    show ?case using order_trans [OF line_step_mono(1) Cons.IH] by simp
  qed simp
  show "lt_start_line t = Some s \<Longrightarrow> lt_start_line (foldl (line_step prog) t es) = Some s"
    by (induction es arbitrary: t) (simp_all add: line_step_mono(2))
qed

section \<open>Properties\<close>

text \<open>
  C26: completion is what it should be. In a cycle that never enters a subroutine, a
  tracker begun on the idle line numbers says the program end was reached if and
  only if the file has an M2 / M30 (or closing %) line and, stale numbers left out,
  the current line was seen on or past it, or the last move seen is the tail move
  or later, or the file has no moves at all.
\<close>

theorem cycle_complete_iff:
  "reached_end prog (sample_run prog (tracker_begin a b) xs) \<longleftrightarrow>
     0 < pi_end_line prog \<and>
     ((\<exists>c\<in>set (live_current b xs). pi_end_line prog \<le> c) \<or> pi_tail_line prog \<le> 0 \<or>
      (live_motion prog a xs \<noteq> [] \<and> pi_tail_line prog \<le> last (live_motion prog a xs)))"
  by (rule sample_run_reached_end)

text \<open>
  The start is the first new move. Without subroutines, a cycle is unclassified
  until a move line different from the idle one was sampled; then it is Run From
  Here exactly when the first such line lies past the start zone of the program.
\<close>

theorem start_classified_by_first_move:
  "tracker_run_from_here prog (sample_run prog (tracker_begin a b) xs) =
     (case live_motion prog a xs of [] \<Rightarrow> None | m # _ \<Rightarrow> Some (\<not> is_near_start prog m))"
  using sample_run_matches [of prog a b xs]
  by (cases "live_motion prog a xs")
    (auto simp: matches_defs tracker_run_from_here_def split: option.splits)

text \<open>
  Subroutine lines are never program lines. After a sample inside a subroutine,
  samples whose motion line still belongs to the subroutine (seen inside it, a later
  move of its file, or no move of the program) change neither the start, the last
  line nor the furthest line of the cycle, and the run still counts as ending in the
  subroutine.
\<close>

theorem subroutine_lines_ignored:
  assumes "0 < held"
    and "\<forall>x\<in>set xs. subs_line (fst x) prog (line_hold held cl subs t)"
  defines "u \<equiv> sample_run prog (line_hold held cl subs t) xs"
  shows "lt_start_line u = lt_start_line t \<and> lt_last_motion_line u = lt_last_motion_line t \<and>
    lt_max_line u = lt_max_line t \<and> lt_from_sub u"
  using sample_run_after_sub [OF line_hold_fields(1,2) assms(2)] assms(1)
  by (simp add: u_def same_record_def line_hold_fields)

definition demo_prog :: program_info where
  "demo_prog =
     \<lparr>pi_path = ''a.ngc'', pi_first_exec_line = 1, pi_first_motion_line = 1, pi_tail_line = 3,
      pi_end_line = 4, pi_motion_mask = [True, False, True, False]\<rparr>"

lemma subroutine_lines_ignored_witness:
  "lt_max_line (sample_run demo_prog (line_hold 3 0 {3, 9} (tracker_begin 0 0))
     [(3, 0, 0), (9, 0, 0), (2, 0, 0)]) = 0"
proof -
  have "\<forall>x\<in>set [(3, 0, 0), (9, 0, 0), (2, 0, 0) :: int \<times> int \<times> int].
      subs_line (fst x) demo_prog (line_hold 3 0 {3, 9} (tracker_begin 0 0))"
    by (simp add: subs_line_def line_hold_def tracker_begin_def demo_prog_def is_move_line_def
        add_sub_line_def sub_lines_max_def Let_def)
  from subroutine_lines_ignored [OF _ this] show ?thesis
    by (simp add: tracker_begin_def)
qed

text \<open>
  Progress is a fraction that only grows. From any point of a cycle on, whatever
  samples and subroutine calls follow, the progress of the tracker stays between 0
  and 1 and never falls.
\<close>

theorem progress_monotone:
  "0 \<le> tracker_progress prog t \<and>
   tracker_progress prog t \<le> tracker_progress prog (foldl (line_step prog) t es) \<and>
   tracker_progress prog (foldl (line_step prog) t es) \<le> 1"
proof (cases "lt_start_line t")
  case None
  then show ?thesis
    using program_progress_range [of prog]
    by (simp add: tracker_progress_def split: option.split)
next
  case (Some s)
  then show ?thesis
    using program_progress_range [of prog] line_steps_mono(2) [OF Some, of prog es]
      program_progress_mono [OF line_steps_mono(1) [of t prog es]]
    by (simp add: tracker_progress_def)
qed

end
