(* ===== verification/Cycle_Calculator.thy ===== *)
theory Cycle_Calculator
  imports Agent_Prelude
begin

text \<open>
  \<open>CycleTimeCalculator\<close> of \<open>cycle_time_calculator.py\<close>: cycle timing and part
  accounting. Every method is a function on the calculator state; the clock
  reading of \<open>time.perf_counter_ns()\<close> is an argument. The lock serialises the
  methods, so a run of the object is a list of method calls. Log output is not
  modelled.
\<close>

section \<open>State\<close>

definition ms_per_ns :: int where "ms_per_ns = 1000000"
definition min_valid_cycle_ms :: int where "min_valid_cycle_ms = 1000"
definition max_history :: nat where "max_history = 500"

record cycle_state =
  cs_start_ns :: "ns option"
  cs_pause_start_ns :: "ns option"
  cs_total_paused_ns :: ns
  cs_running :: bool
  cs_paused :: bool
  cs_cycle_complete_signalled :: bool
  cs_program :: "string option"
  cs_is_run_from_here :: bool
  cs_classified :: bool
  cs_progress :: rat

definition cycle_state_init :: cycle_state where
  "cycle_state_init =
     \<lparr>cs_start_ns = None, cs_pause_start_ns = None, cs_total_paused_ns = 0, cs_running = False,
      cs_paused = False, cs_cycle_complete_signalled = False, cs_program = None,
      cs_is_run_from_here = False, cs_classified = False, cs_progress = 0\<rparr>"

record calculator =
  ct_state :: cycle_state
  ct_completed_durations_ms :: "ms list"
  ct_aborted_durations_ms :: "ms list"
  ct_parts_produced :: int
  ct_abort_count :: int
  ct_run_from_here_count :: int
  ct_carry_ms :: ms
  ct_part_open :: bool
  ct_open_progress :: rat
  ct_open_program :: "string option"
  ct_partial_parts :: int
  ct_partial_equiv :: rat
  ct_last_partial_pct :: "rat option"

definition calculator_init :: calculator where
  "calculator_init =
     \<lparr>ct_state = cycle_state_init, ct_completed_durations_ms = [], ct_aborted_durations_ms = [],
      ct_parts_produced = 0, ct_abort_count = 0, ct_run_from_here_count = 0, ct_carry_ms = 0,
      ct_part_open = False, ct_open_progress = 0, ct_open_program = None, ct_partial_parts = 0,
      ct_partial_equiv = 0, ct_last_partial_pct = None\<rparr>"

section \<open>Private methods\<close>

definition elapsed_ms :: "ns \<Rightarrow> calculator \<Rightarrow> ms" where
  "elapsed_ms now_ns c =
     (let st = ct_state c
      in (case cs_start_ns st of
            None \<Rightarrow> 0
          | Some start_ns \<Rightarrow>
              (let active_ns =
                 (case (cs_paused st, cs_pause_start_ns st) of
                    (True, Some pause_start_ns) \<Rightarrow>
                      pause_start_ns - start_ns - cs_total_paused_ns st
                  | _ \<Rightarrow> now_ns - start_ns - cs_total_paused_ns st)
               in max 0 (active_ns div ms_per_ns) + ct_carry_ms c)))"

definition leave_part_open :: "ms \<Rightarrow> rat \<Rightarrow> calculator \<Rightarrow> calculator" where
  "leave_part_open duration_ms progress c =
     c\<lparr>ct_carry_ms := duration_ms, ct_part_open := True, ct_open_progress := progress,
       ct_open_program := cs_program (ct_state c)\<rparr>"

definition close_part :: "calculator \<Rightarrow> calculator" where
  "close_part c =
     c\<lparr>ct_carry_ms := 0, ct_part_open := False, ct_open_progress := 0, ct_open_program := None\<rparr>"

definition finalize_partial :: "calculator \<Rightarrow> calculator" where
  "finalize_partial c =
     (let frac = ct_open_progress c
      in close_part
           (c\<lparr>ct_partial_parts := ct_partial_parts c + 1,
              ct_partial_equiv := ct_partial_equiv c + frac,
              ct_last_partial_pct := Some (py_round 1 (frac * 100))\<rparr>))"

definition classify :: "bool \<Rightarrow> calculator \<Rightarrow> calculator" where
  "classify run_from_here c =
     (let c1 = c\<lparr>ct_state := (ct_state c)\<lparr>cs_classified := True,
                                            cs_is_run_from_here := run_from_here\<rparr>\<rparr>
      in if run_from_here then c1\<lparr>ct_run_from_here_count := ct_run_from_here_count c1 + 1\<rparr>
         else
           (let c2 = (if ct_part_open c1 then finalize_partial c1 else c1)
            in c2\<lparr>ct_carry_ms := 0\<rparr>))"

definition resolved_rfh :: "calculator \<Rightarrow> bool" where
  "resolved_rfh c =
     (if cs_classified (ct_state c) then cs_is_run_from_here (ct_state c) else ct_part_open c)"

definition part_progress :: "calculator \<Rightarrow> rat" where
  "part_progress c =
     (let p = cs_progress (ct_state c)
      in if ct_part_open c \<and> resolved_rfh c then max p (ct_open_progress c) else p)"

section \<open>Control methods\<close>

definition start_cycle ::
  "ns \<Rightarrow> bool option \<Rightarrow> string option \<Rightarrow> calculator \<Rightarrow> calculator" where
  "start_cycle now_ns run_from_here program c =
     (if cs_running (ct_state c) then c
      else
        (let c1 = c\<lparr>ct_state := cycle_state_init\<lparr>cs_start_ns := Some now_ns, cs_running := True,
                                                   cs_paused := False, cs_program := program\<rparr>\<rparr>;
             c2 = (if ct_part_open c1 \<and> program \<noteq> None \<and> ct_open_program c1 \<noteq> None
                      \<and> program \<noteq> ct_open_program c1
                   then finalize_partial c1 else c1)
         in (case run_from_here of None \<Rightarrow> c2 | Some rfh \<Rightarrow> classify rfh c2)))"

definition set_program :: "string option \<Rightarrow> calculator \<Rightarrow> calculator" where
  "set_program program c =
     (if \<not> cs_running (ct_state c) \<or> program = None \<or> program = cs_program (ct_state c) then c
      else
        (let c1 = c\<lparr>ct_state := (ct_state c)\<lparr>cs_program := program\<rparr>\<rparr>
         in if ct_part_open c1 \<and> ct_open_program c1 \<noteq> None \<and> program \<noteq> ct_open_program c1
            then finalize_partial c1 else c1))"

definition classify_start :: "bool \<Rightarrow> calculator \<Rightarrow> calculator" where
  "classify_start run_from_here c =
     (if cs_running (ct_state c) \<and> \<not> cs_classified (ct_state c)
      then classify run_from_here c else c)"

definition set_progress :: "rat \<Rightarrow> calculator \<Rightarrow> calculator" where
  "set_progress fraction c =
     (if cs_running (ct_state c) then
        (let f = min 1 (max 0 fraction)
         in c\<lparr>ct_state := (ct_state c)\<lparr>cs_progress := max (cs_progress (ct_state c)) f\<rparr>\<rparr>)
      else c)"

definition pause_cycle :: "ns \<Rightarrow> calculator \<Rightarrow> calculator" where
  "pause_cycle now_ns c =
     (if \<not> cs_running (ct_state c) then c
      else if cs_paused (ct_state c) then c
      else c\<lparr>ct_state := (ct_state c)\<lparr>cs_pause_start_ns := Some now_ns, cs_paused := True\<rparr>\<rparr>)"

text \<open>
  Paused without a pause start would be a \<open>TypeError\<close> that changes nothing;
  the invariant below shows it cannot happen.
\<close>

definition resume_cycle :: "ns \<Rightarrow> calculator \<Rightarrow> calculator" where
  "resume_cycle now_ns c =
     (if \<not> cs_running (ct_state c) \<or> \<not> cs_paused (ct_state c) then c
      else
        (case cs_pause_start_ns (ct_state c) of
           None \<Rightarrow> c
         | Some pause_start_ns \<Rightarrow>
             (let paused_ns = now_ns - pause_start_ns
              in c\<lparr>ct_state := (ct_state c)
                     \<lparr>cs_total_paused_ns := cs_total_paused_ns (ct_state c) + paused_ns,
                      cs_pause_start_ns := None, cs_paused := False\<rparr>\<rparr>)))"

definition signal_cycle_complete :: "calculator \<Rightarrow> calculator" where
  "signal_cycle_complete c =
     (if \<not> cs_running (ct_state c) then c
      else if cs_cycle_complete_signalled (ct_state c) then c
      else c\<lparr>ct_state := (ct_state c)\<lparr>cs_cycle_complete_signalled := True\<rparr>\<rparr>)"

definition record_abort :: "ms \<Rightarrow> calculator \<Rightarrow> calculator" where
  "record_abort duration_ms c =
     (let c1 = c\<lparr>ct_abort_count := ct_abort_count c + 1\<rparr>
      in if duration_ms \<ge> min_valid_cycle_ms
         then c1\<lparr>ct_aborted_durations_ms :=
                   deque_append max_history (ct_aborted_durations_ms c1) duration_ms\<rparr>
         else c1)"

definition stop_cycle :: "ns \<Rightarrow> calculator \<Rightarrow> calculator" where
  "stop_cycle now_ns c =
     (if \<not> cs_running (ct_state c) then c
      else
        (let duration_ms = elapsed_ms now_ns c;
             complete = cs_cycle_complete_signalled (ct_state c);
             rfh = resolved_rfh c;
             progress = part_progress c;
             c1 = (if duration_ms < min_valid_cycle_ms \<and> ct_carry_ms c = 0 then c
                   else if complete then
                     close_part
                       (c\<lparr>ct_completed_durations_ms :=
                            deque_append max_history (ct_completed_durations_ms c) duration_ms,
                          ct_parts_produced := ct_parts_produced c + 1\<rparr>)
                   else if rfh then leave_part_open duration_ms progress c
                   else leave_part_open duration_ms progress (record_abort duration_ms c))
         in c1\<lparr>ct_state := cycle_state_init\<rparr>))"

definition drop_cycle :: "calculator \<Rightarrow> calculator" where
  "drop_cycle c = (if \<not> cs_running (ct_state c) then c else c\<lparr>ct_state := cycle_state_init\<rparr>)"

definition abort_cycle :: "ns \<Rightarrow> calculator \<Rightarrow> calculator" where
  "abort_cycle now_ns c =
     (if \<not> cs_running (ct_state c) then c
      else
        (let duration_ms = elapsed_ms now_ns c;
             progress = part_progress c
         in (leave_part_open duration_ms progress (record_abort duration_ms c))
              \<lparr>ct_state := cycle_state_init\<rparr>))"

definition reset_stats :: "calculator \<Rightarrow> calculator" where
  "reset_stats c =
     (if cs_running (ct_state c) then c
      else c\<lparr>ct_completed_durations_ms := [], ct_aborted_durations_ms := [],
             ct_parts_produced := 0, ct_abort_count := 0, ct_run_from_here_count := 0,
             ct_carry_ms := 0, ct_part_open := False, ct_open_progress := 0,
             ct_open_program := None, ct_partial_parts := 0, ct_partial_equiv := 0,
             ct_last_partial_pct := None\<rparr>)"

section \<open>Snapshot\<close>

record cycle_snapshot =
  sn_is_running :: bool
  sn_is_paused :: bool
  sn_current_cycle_ms :: ms
  sn_parts_produced :: int
  sn_abort_count :: int
  sn_run_from_here_count :: int
  sn_last_completed_ms :: "ms option"
  sn_average_cycle_ms :: "rat option"
  sn_total_completed_cycles :: int
  sn_cycle_complete_signalled :: bool
  sn_is_run_from_here :: bool
  sn_last_aborted_ms :: "ms option"
  sn_partial_parts :: int
  sn_partial_part_equiv :: rat
  sn_last_partial_pct :: "rat option"
  sn_progress_pct :: rat
  sn_part_in_progress :: bool

definition average :: "ms list \<Rightarrow> rat option" where
  "average xs = (if xs = [] then None else Some (of_int (sum_list xs) / of_nat (length xs)))"

definition snapshot :: "ns \<Rightarrow> calculator \<Rightarrow> cycle_snapshot" where
  "snapshot now_ns c =
     (let st = ct_state c
      in \<lparr>sn_is_running = cs_running st, sn_is_paused = cs_paused st,
          sn_current_cycle_ms = (if cs_running st then elapsed_ms now_ns c else 0),
          sn_parts_produced = ct_parts_produced c, sn_abort_count = ct_abort_count c,
          sn_run_from_here_count = ct_run_from_here_count c,
          sn_last_completed_ms = last_opt (ct_completed_durations_ms c),
          sn_average_cycle_ms = map_option (py_round 1) (average (ct_completed_durations_ms c)),
          sn_total_completed_cycles = int (length (ct_completed_durations_ms c)),
          sn_cycle_complete_signalled = cs_cycle_complete_signalled st,
          sn_is_run_from_here = cs_is_run_from_here st,
          sn_last_aborted_ms = last_opt (ct_aborted_durations_ms c),
          sn_partial_parts = ct_partial_parts c,
          sn_partial_part_equiv = py_round 2 (ct_partial_equiv c),
          sn_last_partial_pct = ct_last_partial_pct c,
          sn_progress_pct =
            py_round 1 (100 * (if cs_running st then part_progress c
                               else if ct_part_open c then ct_open_progress c else 0)),
          sn_part_in_progress = (cs_running st \<or> ct_part_open c)\<rparr>)"

lemmas calc_defs = start_cycle_def set_program_def classify_start_def classify_def set_progress_def
  pause_cycle_def resume_cycle_def signal_cycle_complete_def stop_cycle_def drop_cycle_def
  abort_cycle_def reset_stats_def record_abort_def leave_part_open_def close_part_def
  finalize_partial_def Let_def

section \<open>Method calls as steps\<close>

datatype calc_op =
    StartCycle ns "bool option" "string option"
  | SetProgram "string option"
  | ClassifyStart bool
  | SetProgress rat
  | PauseCycle ns
  | ResumeCycle ns
  | SignalCycleComplete
  | StopCycle ns
  | DropCycle
  | AbortCycle ns
  | ResetStats

fun calc_step :: "calculator \<Rightarrow> calc_op \<Rightarrow> calculator" where
  "calc_step c (StartCycle now rfh program) = start_cycle now rfh program c"
| "calc_step c (SetProgram program) = set_program program c"
| "calc_step c (ClassifyStart rfh) = classify_start rfh c"
| "calc_step c (SetProgress f) = set_progress f c"
| "calc_step c (PauseCycle now) = pause_cycle now c"
| "calc_step c (ResumeCycle now) = resume_cycle now c"
| "calc_step c SignalCycleComplete = signal_cycle_complete c"
| "calc_step c (StopCycle now) = stop_cycle now c"
| "calc_step c DropCycle = drop_cycle c"
| "calc_step c (AbortCycle now) = abort_cycle now c"
| "calc_step c ResetStats = reset_stats c"

end
