(* ===== verification/Cycle_Accounting.thy ===== *)
theory Cycle_Accounting
  imports Cycle_Calculator
begin

text \<open>
  What makes the calculator correct: the invariant of its state, the part ledger
  it implements (every physical part ends as a part or a partial part, once), and
  the pause-aware time of a cycle carried over interruptions.
\<close>

section \<open>Invariant of the calculator\<close>

definition state_ok :: "cycle_state \<Rightarrow> bool" where
  "state_ok st \<longleftrightarrow>
     (\<not> cs_running st \<longrightarrow> st = cycle_state_init) \<and>
     (cs_running st \<longrightarrow> cs_start_ns st \<noteq> None) \<and>
     (cs_paused st \<longleftrightarrow> cs_pause_start_ns st \<noteq> None) \<and>
     (cs_paused st \<longrightarrow> cs_running st) \<and>
     0 \<le> cs_progress st \<and> cs_progress st \<le> 1 \<and>
     (cs_is_run_from_here st \<longrightarrow> cs_classified st)"

definition part_ok :: "calculator \<Rightarrow> bool" where
  "part_ok c \<longleftrightarrow>
     0 \<le> ct_carry_ms c \<and> 0 \<le> ct_open_progress c \<and> ct_open_progress c \<le> 1 \<and>
     (\<not> ct_part_open c \<longrightarrow>
        ct_carry_ms c = 0 \<and> ct_open_progress c = 0 \<and> ct_open_program c = None) \<and>
     (cs_classified (ct_state c) \<and> \<not> cs_is_run_from_here (ct_state c) \<longrightarrow> \<not> ct_part_open c)"

definition counts_ok :: "calculator \<Rightarrow> bool" where
  "counts_ok c \<longleftrightarrow>
     length (ct_completed_durations_ms c) \<le> max_history \<and>
     length (ct_aborted_durations_ms c) \<le> max_history \<and>
     int (length (ct_completed_durations_ms c)) \<le> ct_parts_produced c \<and>
     int (length (ct_aborted_durations_ms c)) \<le> ct_abort_count c \<and>
     (\<forall>d\<in>set (ct_completed_durations_ms c). 0 \<le> d) \<and>
     (\<forall>d\<in>set (ct_aborted_durations_ms c). min_valid_cycle_ms \<le> d) \<and>
     0 \<le> ct_run_from_here_count c \<and>
     0 \<le> ct_partial_equiv c \<and> ct_partial_equiv c \<le> of_int (ct_partial_parts c)"

definition calc_ok :: "calculator \<Rightarrow> bool" where
  "calc_ok c \<longleftrightarrow> state_ok (ct_state c) \<and> part_ok c \<and> counts_ok c"

lemmas ok_defs = state_ok_def part_ok_def counts_ok_def calc_ok_def

lemma state_ok_init [simp]: "state_ok cycle_state_init"
  by (simp add: state_ok_def cycle_state_init_def)

lemma cycle_state_init_simps [simp]:
  "cs_start_ns cycle_state_init = None" "cs_pause_start_ns cycle_state_init = None"
  "cs_total_paused_ns cycle_state_init = 0" "\<not> cs_running cycle_state_init"
  "\<not> cs_paused cycle_state_init" "\<not> cs_cycle_complete_signalled cycle_state_init"
  "cs_program cycle_state_init = None" "\<not> cs_is_run_from_here cycle_state_init"
  "\<not> cs_classified cycle_state_init" "cs_progress cycle_state_init = 0"
  by (simp_all add: cycle_state_init_def)

lemma calculator_init_ok: "calc_ok calculator_init"
  by (simp add: ok_defs calculator_init_def)

lemma close_part_fields [simp]:
  "ct_state (close_part c) = ct_state c" "counts_ok (close_part c) = counts_ok c"
  "part_ok (close_part c)" "\<not> ct_part_open (close_part c)"
  by (simp_all add: close_part_def counts_ok_def part_ok_def)

lemma leave_part_open_fields [simp]:
  "ct_state (leave_part_open d p c) = ct_state c"
  "counts_ok (leave_part_open d p c) = counts_ok c"
  "ct_part_open (leave_part_open d p c)" "ct_carry_ms (leave_part_open d p c) = d"
  "ct_open_progress (leave_part_open d p c) = p"
  by (simp_all add: leave_part_open_def counts_ok_def)

lemma record_abort_fields [simp]:
  "ct_state (record_abort d c) = ct_state c" "ct_carry_ms (record_abort d c) = ct_carry_ms c"
  "ct_part_open (record_abort d c) = ct_part_open c"
  "ct_open_progress (record_abort d c) = ct_open_progress c"
  "ct_parts_produced (record_abort d c) = ct_parts_produced c"
  "ct_partial_parts (record_abort d c) = ct_partial_parts c"
  "ct_abort_count (record_abort d c) = ct_abort_count c + 1"
  by (simp_all add: record_abort_def Let_def)

lemma record_abort_counts:
  assumes "counts_ok c"
  shows "counts_ok (record_abort d c)"
  using assms set_deque_append [of max_history "ct_aborted_durations_ms c" d]
  by (auto simp: counts_ok_def record_abort_def Let_def)

lemma complete_counts:
  assumes "counts_ok c" "0 \<le> d"
  shows "counts_ok (c\<lparr>ct_completed_durations_ms :=
           deque_append max_history (ct_completed_durations_ms c) d,
           ct_parts_produced := ct_parts_produced c + 1\<rparr>)"
  using assms set_deque_append [of max_history "ct_completed_durations_ms c" d]
  by (auto simp: counts_ok_def)

lemma state_update_counts [simp]: "counts_ok (c\<lparr>ct_state := st\<rparr>) = counts_ok c"
  by (simp add: counts_ok_def)

lemma idle_part_ok [simp]:
  "part_ok (c\<lparr>ct_state := cycle_state_init\<rparr>) \<longleftrightarrow>
     0 \<le> ct_carry_ms c \<and> 0 \<le> ct_open_progress c \<and> ct_open_progress c \<le> 1 \<and>
     (\<not> ct_part_open c \<longrightarrow>
        ct_carry_ms c = 0 \<and> ct_open_progress c = 0 \<and> ct_open_program c = None)"
  by (simp add: part_ok_def)

lemma finalize_partial_fields [simp]:
  "ct_state (finalize_partial c) = ct_state c" "part_ok (finalize_partial c)"
  "\<not> ct_part_open (finalize_partial c)" "ct_carry_ms (finalize_partial c) = 0"
  by (simp_all add: finalize_partial_def Let_def) (simp add: close_part_def)

lemma finalize_partial_counts:
  "counts_ok c \<Longrightarrow> part_ok c \<Longrightarrow> counts_ok (finalize_partial c)"
  by (simp add: finalize_partial_def Let_def) (simp add: counts_ok_def part_ok_def)

lemma elapsed_ms_ge_carry:
  "state_ok (ct_state c) \<Longrightarrow> cs_running (ct_state c) \<Longrightarrow> ct_carry_ms c \<le> elapsed_ms now c"
  by (auto simp: elapsed_ms_def state_ok_def Let_def)

lemma part_progress_range:
  "state_ok (ct_state c) \<Longrightarrow> part_ok c \<Longrightarrow> 0 \<le> part_progress c \<and> part_progress c \<le> 1"
  by (auto simp: part_progress_def state_ok_def part_ok_def Let_def)

lemma classify_ok:
  assumes "calc_ok c" "cs_running (ct_state c)"
  shows "calc_ok (classify rfh c)"
proof (cases rfh)
  case True
  with assms show ?thesis by (simp add: ok_defs classify_def Let_def)
next
  case False
  let ?c = "c\<lparr>ct_state := (ct_state c)\<lparr>cs_classified := True, cs_is_run_from_here := False\<rparr>\<rparr>"
  have st: "state_ok (ct_state ?c)" "counts_ok ?c"
    using assms by (simp_all add: calc_ok_def state_ok_def)
  show ?thesis
  proof (cases "ct_part_open c")
    case True
    have "calc_ok (finalize_partial ?c)"
      using assms st by (simp add: calc_ok_def finalize_partial_def Let_def)
        (simp add: ok_defs)
    then show ?thesis using False True by (simp add: classify_def Let_def ok_defs)
  next
    case False
    with \<open>\<not> rfh\<close> assms st show ?thesis by (simp add: classify_def Let_def ok_defs)
  qed
qed

lemma start_cycle_ok: "calc_ok c \<Longrightarrow> calc_ok (start_cycle now rfh program c)"
proof -
  assume ok: "calc_ok c"
  show ?thesis
  proof (cases "cs_running (ct_state c)")
    case False
    let ?c1 = "c\<lparr>ct_state := cycle_state_init\<lparr>cs_start_ns := Some now, cs_running := True,
                                              cs_paused := False, cs_program := program\<rparr>\<rparr>"
    let ?c2 = "if ct_part_open ?c1 \<and> program \<noteq> None \<and> ct_open_program ?c1 \<noteq> None
                  \<and> program \<noteq> ct_open_program ?c1 then finalize_partial ?c1 else ?c1"
    have "calc_ok ?c1" using ok False by (simp add: ok_defs)
    then have "calc_ok ?c2"
      by (simp add: calc_ok_def finalize_partial_counts)
    moreover have "cs_running (ct_state ?c2)" by simp
    ultimately show ?thesis
      using False by (cases rfh) (simp_all only: start_cycle_def Let_def option.case classify_ok if_False)
  qed (simp add: start_cycle_def ok)
qed

lemma set_program_ok: "calc_ok c \<Longrightarrow> calc_ok (set_program program c)"
proof -
  assume ok: "calc_ok c"
  let ?c1 = "c\<lparr>ct_state := (ct_state c)\<lparr>cs_program := program\<rparr>\<rparr>"
  have "calc_ok ?c1" if "cs_running (ct_state c)"
    using ok that by (simp add: ok_defs)
  then show ?thesis
    using ok by (simp add: set_program_def Let_def) (simp add: calc_ok_def finalize_partial_counts)
qed

lemma set_progress_ok: "calc_ok c \<Longrightarrow> calc_ok (set_progress f c)"
  by (cases "cs_running (ct_state c)") (simp_all add: ok_defs set_progress_def Let_def)

lemma pause_cycle_ok: "calc_ok c \<Longrightarrow> calc_ok (pause_cycle now c)"
  by (simp add: ok_defs pause_cycle_def)

lemma resume_cycle_ok: "calc_ok c \<Longrightarrow> calc_ok (resume_cycle now c)"
  by (cases "cs_running (ct_state c)")
    (simp_all add: ok_defs resume_cycle_def Let_def split: option.split)

lemma stop_cycle_ok: "calc_ok c \<Longrightarrow> calc_ok (stop_cycle now c)"
proof (cases "cs_running (ct_state c)")
  case True
  assume ok: "calc_ok c"
  let ?d = "elapsed_ms now c"
  have d: "0 \<le> ?d" using ok True elapsed_ms_ge_carry [of c now] by (simp add: calc_ok_def part_ok_def)
  note p = part_progress_range [of c]
  have short: "calc_ok (c\<lparr>ct_state := cycle_state_init\<rparr>)"
    using ok by (simp add: calc_ok_def part_ok_def)
  have done_: "calc_ok (close_part (c\<lparr>ct_completed_durations_ms :=
           deque_append max_history (ct_completed_durations_ms c) ?d,
           ct_parts_produced := ct_parts_produced c + 1\<rparr>)\<lparr>ct_state := cycle_state_init\<rparr>)"
    using ok d by (simp add: calc_ok_def complete_counts) (simp add: close_part_def)
  have kept: "calc_ok ((leave_part_open ?d (part_progress c) c)\<lparr>ct_state := cycle_state_init\<rparr>)"
    using ok d p by (simp add: calc_ok_def)
  have aborted: "calc_ok ((leave_part_open ?d (part_progress c) (record_abort ?d c))
      \<lparr>ct_state := cycle_state_init\<rparr>)"
    using ok d p by (simp add: calc_ok_def record_abort_counts)
  show ?thesis
    using True short done_ kept aborted unfolding stop_cycle_def Let_def
    by (cases "?d < min_valid_cycle_ms \<and> ct_carry_ms c = 0";
        cases "cs_cycle_complete_signalled (ct_state c)"; cases "resolved_rfh c") simp_all
qed (simp add: stop_cycle_def)

lemma abort_cycle_ok: "calc_ok c \<Longrightarrow> calc_ok (abort_cycle now c)"
proof (cases "cs_running (ct_state c)")
  case True
  assume ok: "calc_ok c"
  have "0 \<le> elapsed_ms now c"
    using ok True elapsed_ms_ge_carry [of c now] by (simp add: calc_ok_def part_ok_def)
  with ok True part_progress_range [of c] record_abort_counts [of c "elapsed_ms now c"]
  show ?thesis by (simp add: abort_cycle_def Let_def calc_ok_def)
qed (simp add: abort_cycle_def)

lemma reset_stats_ok:
  assumes "calc_ok c"
  shows "calc_ok (reset_stats c)"
proof (cases "cs_running (ct_state c)")
  case False
  with assms have "ct_state c = cycle_state_init" by (simp add: calc_ok_def state_ok_def)
  with False show ?thesis
    by (simp add: reset_stats_def calc_ok_def part_ok_def counts_ok_def)
qed (simp add: reset_stats_def assms)

lemma drop_cycle_ok:
  assumes "calc_ok c"
  shows "calc_ok (drop_cycle c)"
proof (cases "cs_running (ct_state c)")
  case True
  have "calc_ok (c\<lparr>ct_state := cycle_state_init\<rparr>)"
    using assms by (simp add: calc_ok_def part_ok_def)
  with True show ?thesis by (simp add: drop_cycle_def)
qed (simp add: drop_cycle_def assms)

interpretation ct: invariant_machine calc_step calc_ok
proof
  fix c op
  assume ok: "calc_ok c"
  show "calc_ok (calc_step c op)"
  proof (cases op)
    case (ClassifyStart b)
    with ok show ?thesis by (simp add: classify_start_def classify_ok)
  next
    case SignalCycleComplete
    with ok show ?thesis
      by (cases "cs_running (ct_state c)") (simp_all add: ok_defs signal_cycle_complete_def)
  qed (use ok in \<open>simp_all add: start_cycle_ok set_program_ok set_progress_ok pause_cycle_ok
      resume_cycle_ok stop_cycle_ok abort_cycle_ok reset_stats_ok drop_cycle_ok\<close>)
qed

section \<open>The part ledger\<close>

text \<open>
  The contract of the accounting, without time or programs: parts, partial
  parts, and at most one unfinished part with how far it got.
\<close>

record ledger =
  lg_parts :: int
  lg_partials :: int
  lg_open :: "rat option"

datatype part_event = PartKept | PartAbandoned | PartFinished | PartLeft rat | LedgerCleared

fun ledger_step :: "ledger \<Rightarrow> part_event \<Rightarrow> ledger" where
  "ledger_step l PartKept = l"
| "ledger_step l PartAbandoned =
     (case lg_open l of None \<Rightarrow> l
      | Some _ \<Rightarrow> l\<lparr>lg_partials := lg_partials l + 1, lg_open := None\<rparr>)"
| "ledger_step l PartFinished = l\<lparr>lg_parts := lg_parts l + 1, lg_open := None\<rparr>"
| "ledger_step l (PartLeft p) = l\<lparr>lg_open := Some p\<rparr>"
| "ledger_step l LedgerCleared = l\<lparr>lg_parts := 0, lg_partials := 0, lg_open := None\<rparr>"

definition ledger_of :: "calculator \<Rightarrow> ledger" where
  "ledger_of c =
     \<lparr>lg_parts = ct_parts_produced c, lg_partials = ct_partial_parts c,
      lg_open = (if ct_part_open c then Some (ct_open_progress c) else None)\<rparr>"

text \<open>Which ledger event a method call is.\<close>

definition other_program :: "string option \<Rightarrow> calculator \<Rightarrow> bool" where
  "other_program program c \<longleftrightarrow>
     ct_part_open c \<and> program \<noteq> None \<and> ct_open_program c \<noteq> None \<and> program \<noteq> ct_open_program c"

definition too_short :: "ns \<Rightarrow> calculator \<Rightarrow> bool" where
  "too_short now c \<longleftrightarrow> elapsed_ms now c < min_valid_cycle_ms \<and> ct_carry_ms c = 0"

fun part_event_of :: "calculator \<Rightarrow> calc_op \<Rightarrow> part_event" where
  "part_event_of c (StartCycle now rfh program) =
     (if \<not> cs_running (ct_state c) \<and> (other_program program c \<or> rfh = Some False)
      then PartAbandoned else PartKept)"
| "part_event_of c (SetProgram program) =
     (if cs_running (ct_state c) \<and> program \<noteq> cs_program (ct_state c) \<and> other_program program c
      then PartAbandoned else PartKept)"
| "part_event_of c (ClassifyStart rfh) =
     (if cs_running (ct_state c) \<and> \<not> cs_classified (ct_state c) \<and> \<not> rfh
      then PartAbandoned else PartKept)"
| "part_event_of c (StopCycle now) =
     (if \<not> cs_running (ct_state c) \<or> too_short now c then PartKept
      else if cs_cycle_complete_signalled (ct_state c) then PartFinished
      else PartLeft (part_progress c))"
| "part_event_of c (AbortCycle now) =
     (if cs_running (ct_state c) then PartLeft (part_progress c) else PartKept)"
| "part_event_of c ResetStats = (if cs_running (ct_state c) then PartKept else LedgerCleared)"
| "part_event_of c _ = PartKept"

lemma ledger_of_state [simp]: "ledger_of (c\<lparr>ct_state := st\<rparr>) = ledger_of c"
  by (simp add: ledger_of_def)

lemma ledger_of_simps:
  "ledger_of (finalize_partial c) =
     (ledger_of c)\<lparr>lg_partials := ct_partial_parts c + 1, lg_open := None\<rparr>"
  "ledger_of (leave_part_open d p c) = (ledger_of c)\<lparr>lg_open := Some p\<rparr>"
  "ledger_of (record_abort d c) = ledger_of c"
  "ledger_of (close_part c) = (ledger_of c)\<lparr>lg_open := None\<rparr>"
  by (simp_all add: ledger_of_def finalize_partial_def leave_part_open_def record_abort_def
      close_part_def Let_def)

lemma ledger_classify:
  "ledger_of (classify rfh c) = ledger_step (ledger_of c) (if rfh then PartKept else PartAbandoned)"
  by (auto simp: ledger_of_def classify_def finalize_partial_def close_part_def Let_def)

lemma ledger_abandon:
  "ledger_of (if other_program program c then finalize_partial c else c) =
     ledger_step (ledger_of c) (if other_program program c then PartAbandoned else PartKept)"
  by (simp add: ledger_of_simps other_program_def) (simp add: ledger_of_def)

lemma ledger_step_abandon_twice:
  "ledger_step (ledger_step l PartAbandoned) PartAbandoned = ledger_step l PartAbandoned"
  by (cases "lg_open l") simp_all

lemma other_program_state [simp]:
  "other_program program (c\<lparr>ct_state := st\<rparr>) = other_program program c"
  by (simp add: other_program_def)

lemma start_cycle_idle:
  "\<not> cs_running (ct_state c) \<Longrightarrow>
   start_cycle now rfh program c =
     (let c1 = c\<lparr>ct_state := cycle_state_init\<lparr>cs_start_ns := Some now, cs_running := True,
                                                cs_paused := False, cs_program := program\<rparr>\<rparr>;
          c2 = (if other_program program c1 then finalize_partial c1 else c1)
      in case rfh of None \<Rightarrow> c2 | Some b \<Rightarrow> classify b c2)"
  by (simp only: start_cycle_def other_program_def if_False)

lemma ledger_start_cycle:
  assumes "\<not> cs_running (ct_state c)"
  shows "ledger_of (start_cycle now rfh program c) =
    ledger_step (ledger_of c)
      (if other_program program c \<or> rfh = Some False then PartAbandoned else PartKept)"
proof -
  let ?c1 = "c\<lparr>ct_state := cycle_state_init\<lparr>cs_start_ns := Some now, cs_running := True,
                                                cs_paused := False, cs_program := program\<rparr>\<rparr>"
  note a = ledger_abandon [of program ?c1]
  show ?thesis
    using assms a
    by (cases "other_program program c"; cases rfh)
      (simp_all add: start_cycle_idle Let_def ledger_classify ledger_step_abandon_twice
        del: ledger_step.simps(2))
qed

lemma ledger_set_program:
  "ledger_of (set_program program c) =
    ledger_step (ledger_of c)
      (if cs_running (ct_state c) \<and> program \<noteq> cs_program (ct_state c) \<and> other_program program c
       then PartAbandoned else PartKept)"
proof (cases "\<not> cs_running (ct_state c) \<or> program = None \<or> program = cs_program (ct_state c)")
  case True
  then have "set_program program c = c" by (simp only: set_program_def if_True)
  with True show ?thesis by (auto simp: other_program_def)
next
  case False
  let ?c1 = "c\<lparr>ct_state := (ct_state c)\<lparr>cs_program := program\<rparr>\<rparr>"
  from False have "set_program program c =
      (if other_program program ?c1 then finalize_partial ?c1 else ?c1)"
    by (cases program; cases "ct_open_program c")
      (simp_all add: set_program_def other_program_def Let_def)
  with False ledger_abandon [of program ?c1] show ?thesis by simp
qed

lemma stop_cycle_cases:
  assumes "cs_running (ct_state c)"
  obtains (short) "too_short now c" "stop_cycle now c = c\<lparr>ct_state := cycle_state_init\<rparr>"
  | (finished) "\<not> too_short now c" "cs_cycle_complete_signalled (ct_state c)"
      "stop_cycle now c =
         (close_part (c\<lparr>ct_completed_durations_ms :=
              deque_append max_history (ct_completed_durations_ms c) (elapsed_ms now c),
            ct_parts_produced := ct_parts_produced c + 1\<rparr>))\<lparr>ct_state := cycle_state_init\<rparr>"
  | (kept) "\<not> too_short now c" "\<not> cs_cycle_complete_signalled (ct_state c)" "resolved_rfh c"
      "stop_cycle now c =
         (leave_part_open (elapsed_ms now c) (part_progress c) c)\<lparr>ct_state := cycle_state_init\<rparr>"
  | (aborted) "\<not> too_short now c" "\<not> cs_cycle_complete_signalled (ct_state c)"
      "\<not> resolved_rfh c"
      "stop_cycle now c =
         (leave_part_open (elapsed_ms now c) (part_progress c) (record_abort (elapsed_ms now c) c))
           \<lparr>ct_state := cycle_state_init\<rparr>"
proof (cases "too_short now c")
  case True
  with assms show ?thesis by (intro short) (simp_all add: stop_cycle_def too_short_def Let_def)
next
  case False
  show ?thesis
  proof (cases "cs_cycle_complete_signalled (ct_state c)")
    case True
    with assms False show ?thesis
      by (intro finished) (simp_all add: stop_cycle_def too_short_def Let_def del: not_less, blast?)
  next
    case open_: False
    with assms False show ?thesis
      by (cases "resolved_rfh c")
        (intro kept aborted; simp add: stop_cycle_def too_short_def Let_def del: not_less; blast?)+
  qed
qed

lemma ledger_stop_cycle:
  assumes "cs_running (ct_state c)"
  shows "ledger_of (stop_cycle now c) =
    ledger_step (ledger_of c)
      (if too_short now c then PartKept
       else if cs_cycle_complete_signalled (ct_state c) then PartFinished
       else PartLeft (part_progress c))"
  using assms
proof (cases rule: stop_cycle_cases [where now = now])
  case finished
  then show ?thesis by (simp add: ledger_of_simps) (simp add: ledger_of_def)
qed (simp_all add: ledger_of_simps)

lemma ledger_refinement:
  "ledger_of (calc_step c op) = ledger_step (ledger_of c) (part_event_of c op)"
proof (cases op)
  case (StartCycle now rfh program)
  then show ?thesis
    by (cases "cs_running (ct_state c)") (simp_all add: ledger_start_cycle, simp add: start_cycle_def)
next
  case (SetProgram program)
  then show ?thesis by (simp add: ledger_set_program)
next
  case (ClassifyStart rfh)
  then show ?thesis by (simp add: classify_start_def ledger_classify)
next
  case (StopCycle now)
  then show ?thesis
    by (cases "cs_running (ct_state c)") (simp_all add: ledger_stop_cycle, simp add: stop_cycle_def)
next
  case (AbortCycle now)
  then show ?thesis by (simp add: abort_cycle_def ledger_of_simps Let_def)
next
  case ResetStats
  then show ?thesis by (simp add: reset_stats_def ledger_of_def)
qed (simp_all add: set_progress_def pause_cycle_def resume_cycle_def signal_cycle_complete_def
    drop_cycle_def Let_def split: option.split)

subsection \<open>Nothing is lost, nothing is counted twice\<close>

text \<open>Physical parts the counters account for: finished, partial, and the open one.\<close>

definition accounted :: "ledger \<Rightarrow> int" where
  "accounted l = lg_parts l + lg_partials l + (if lg_open l = None then 0 else 1)"

lemma ledger_step_accounted:
  "e \<noteq> LedgerCleared \<Longrightarrow> accounted l \<le> accounted (ledger_step l e)"
  "accounted (ledger_step l PartKept) = accounted l"
  "accounted (ledger_step l PartAbandoned) = accounted l"
  "e \<noteq> LedgerCleared \<Longrightarrow> accounted (ledger_step l e) \<le> accounted l + 1"
  by (cases e; simp add: accounted_def split: option.split)+

text \<open>Method calls that end a running cycle with a counted outcome.\<close>

fun ends_cycle :: "calculator \<Rightarrow> calc_op \<Rightarrow> bool" where
  "ends_cycle c (StopCycle now) \<longleftrightarrow> cs_running (ct_state c)"
| "ends_cycle c (AbortCycle now) \<longleftrightarrow> cs_running (ct_state c)"
| "ends_cycle c _ \<longleftrightarrow> False"

fun cycles_ended :: "calculator \<Rightarrow> calc_op list \<Rightarrow> int" where
  "cycles_ended c [] = 0"
| "cycles_ended c (op # ops) =
     (if ends_cycle c op then 1 else 0) + cycles_ended (calc_step c op) ops"

lemma part_event_kept:
  "\<not> ends_cycle c op \<Longrightarrow> op \<noteq> ResetStats \<Longrightarrow> part_event_of c op \<in> {PartKept, PartAbandoned}"
  by (cases op) auto

lemma part_event_not_cleared: "op \<noteq> ResetStats \<Longrightarrow> part_event_of c op \<noteq> LedgerCleared"
  by (cases op) auto

lemma accounted_step:
  assumes "op \<noteq> ResetStats"
  shows "accounted (ledger_of c) \<le> accounted (ledger_of (calc_step c op))"
    and "accounted (ledger_of (calc_step c op)) \<le>
           accounted (ledger_of c) + (if ends_cycle c op then 1 else 0)"
proof -
  note n = part_event_not_cleared [OF assms, of c]
  show "accounted (ledger_of c) \<le> accounted (ledger_of (calc_step c op))"
    using ledger_step_accounted(1) [OF n] by (simp add: ledger_refinement)
  show "accounted (ledger_of (calc_step c op)) \<le>
      accounted (ledger_of c) + (if ends_cycle c op then 1 else 0)"
  proof (cases "ends_cycle c op")
    case True
    then show ?thesis using ledger_step_accounted(4) [OF n] by (simp add: ledger_refinement)
  next
    case False
    from part_event_kept [OF this assms]
    have "part_event_of c op = PartKept \<or> part_event_of c op = PartAbandoned" by simp
    then show ?thesis
      using False ledger_step_accounted(3) [of "ledger_of c"]
      by (auto simp: ledger_refinement simp del: ledger_step.simps(2))
  qed
qed

lemma accounted_run:
  "ResetStats \<notin> set ops \<Longrightarrow>
   accounted (ledger_of c) \<le> accounted (ledger_of (foldl calc_step c ops)) \<and>
   accounted (ledger_of (foldl calc_step c ops)) \<le> accounted (ledger_of c) + cycles_ended c ops"
proof (induction ops arbitrary: c)
  case (Cons op ops)
  from Cons.prems have op: "op \<noteq> ResetStats" and ops: "ResetStats \<notin> set ops" by auto
  from Cons.IH [OF ops, of "calc_step c op"] accounted_step [OF op, of c] show ?case by simp
qed simp

section \<open>Cycle time without the pauses\<close>

text \<open>
  The reference: from \<open>t\<close> on, time passes only while not paused. A pause while
  paused and a release while running change nothing but where the sum is split.
\<close>

fun active_ns :: "ns \<Rightarrow> bool \<Rightarrow> calc_op list \<Rightarrow> ns \<Rightarrow> ns" where
  "active_ns t paused [] now = (if paused then 0 else now - t)"
| "active_ns t paused (PauseCycle s # ops) now =
     (if paused then 0 else s - t) + active_ns s True ops now"
| "active_ns t paused (ResumeCycle s # ops) now =
     (if paused then 0 else s - t) + active_ns s False ops now"
| "active_ns t paused (_ # ops) now = active_ns t paused ops now"

text \<open>The calls the main loop makes inside a cycle, before its end.\<close>

fun in_cycle :: "calc_op \<Rightarrow> bool" where
  "in_cycle (PauseCycle _) = True"
| "in_cycle (ResumeCycle _) = True"
| "in_cycle (SetProgress _) = True"
| "in_cycle _ = False"

definition running_ns :: "ns \<Rightarrow> cycle_state \<Rightarrow> ns" where
  "running_ns now st =
     (if cs_paused st then the (cs_pause_start_ns st) else now)
       - the (cs_start_ns st) - cs_total_paused_ns st"

lemma elapsed_ms_running:
  "state_ok (ct_state c) \<Longrightarrow> cs_running (ct_state c) \<Longrightarrow>
   elapsed_ms now c = max 0 (running_ns now (ct_state c) div ms_per_ns) + ct_carry_ms c"
  by (auto simp: elapsed_ms_def running_ns_def state_ok_def Let_def)

lemma elapsed_ms_signalled:
  "elapsed_ms now (c\<lparr>ct_state := st\<lparr>cs_cycle_complete_signalled := b\<rparr>\<rparr>) =
     elapsed_ms now (c\<lparr>ct_state := st\<rparr>)"
  by (cases "cs_start_ns st"; cases "cs_paused st"; cases "cs_pause_start_ns st")
    (simp_all add: elapsed_ms_def)

text \<open>Calls inside a cycle touch the timing and the progress of the cycle only.\<close>

definition same_cycle :: "calculator \<Rightarrow> calculator \<Rightarrow> bool" where
  "same_cycle c c' \<longleftrightarrow>
     (\<exists>st. c' = c\<lparr>ct_state := st\<rparr> \<and> cs_running st = cs_running (ct_state c) \<and>
        cs_classified st = cs_classified (ct_state c) \<and>
        cs_is_run_from_here st = cs_is_run_from_here (ct_state c) \<and>
        cs_cycle_complete_signalled st = cs_cycle_complete_signalled (ct_state c) \<and>
        cs_program st = cs_program (ct_state c))"

lemma same_cycleI:
  "c' = c\<lparr>ct_state := st\<rparr> \<Longrightarrow> cs_running st = cs_running (ct_state c) \<Longrightarrow>
   cs_classified st = cs_classified (ct_state c) \<Longrightarrow>
   cs_is_run_from_here st = cs_is_run_from_here (ct_state c) \<Longrightarrow>
   cs_cycle_complete_signalled st = cs_cycle_complete_signalled (ct_state c) \<Longrightarrow>
   cs_program st = cs_program (ct_state c) \<Longrightarrow> same_cycle c c'"
  unfolding same_cycle_def by blast

lemma same_cycle_refl [simp]: "same_cycle c c"
  by (rule same_cycleI [where st = "ct_state c"]) simp_all

lemma same_cycle_trans:
  assumes "same_cycle a b" "same_cycle b c"
  shows "same_cycle a c"
proof -
  obtain s where s: "b = a\<lparr>ct_state := s\<rparr>" "cs_running s = cs_running (ct_state a)"
    "cs_classified s = cs_classified (ct_state a)"
    "cs_is_run_from_here s = cs_is_run_from_here (ct_state a)"
    "cs_cycle_complete_signalled s = cs_cycle_complete_signalled (ct_state a)"
    "cs_program s = cs_program (ct_state a)"
    using assms(1) unfolding same_cycle_def by blast
  have "same_cycle (a\<lparr>ct_state := s\<rparr>) c" using assms(2) s(1) by simp
  then show ?thesis unfolding same_cycle_def using s(2-) by (elim exE) auto
qed

lemma in_cycle_step:
  assumes "in_cycle op"
  shows "same_cycle c (calc_step c op)"
  using assms
  by (cases op; intro same_cycleI [where st = "ct_state (calc_step c op)"])
    (simp_all add: set_progress_def pause_cycle_def resume_cycle_def Let_def split: option.split)

lemma in_cycle_run: "\<forall>op\<in>set ops. in_cycle op \<Longrightarrow> same_cycle c (foldl calc_step c ops)"
proof (induction ops arbitrary: c)
  case (Cons op ops)
  then have "same_cycle c (calc_step c op)" "same_cycle (calc_step c op) (foldl calc_step (calc_step c op) ops)"
    by (simp_all add: in_cycle_step)
  then show ?case using same_cycle_trans by simp
qed simp

lemma running_ns_step:
  assumes "state_ok (ct_state c)" "cs_running (ct_state c)" "in_cycle op"
  shows "running_ns t (ct_state c) + active_ns t (cs_paused (ct_state c)) (op # ops) now =
    (case op of
       PauseCycle s \<Rightarrow> running_ns s (ct_state (calc_step c op)) + active_ns s True ops now
     | ResumeCycle s \<Rightarrow> running_ns s (ct_state (calc_step c op)) + active_ns s False ops now
     | _ \<Rightarrow> running_ns t (ct_state (calc_step c op)) + active_ns t (cs_paused (ct_state c)) ops now)
    \<and> cs_paused (ct_state (calc_step c op)) =
        (case op of PauseCycle s \<Rightarrow> True | ResumeCycle s \<Rightarrow> False | _ \<Rightarrow> cs_paused (ct_state c))"
  using assms
  by (cases op; cases "cs_paused (ct_state c)"; cases "cs_pause_start_ns (ct_state c)")
    (simp_all add: state_ok_def running_ns_def pause_cycle_def resume_cycle_def set_progress_def
      Let_def)

lemma running_ns_run:
  assumes "calc_ok c" "cs_running (ct_state c)" "\<forall>op\<in>set ops. in_cycle op"
  shows "running_ns now (ct_state (foldl calc_step c ops)) =
    running_ns t (ct_state c) + active_ns t (cs_paused (ct_state c)) ops now"
  using assms
proof (induction ops arbitrary: c t)
  case Nil
  then show ?case by (simp add: running_ns_def)
next
  case (Cons op ops)
  have ok: "calc_ok (calc_step c op)" using Cons.prems(1) by (rule ct.step_inv)
  have run: "cs_running (ct_state (calc_step c op))" and op: "in_cycle op"
    and ops: "\<forall>op\<in>set ops. in_cycle op"
    using Cons.prems in_cycle_step [of op c] by (auto simp: same_cycle_def)
  note IH = Cons.IH [OF ok run ops]
  have st: "state_ok (ct_state c)" using Cons.prems(1) by (simp add: calc_ok_def)
  note step = running_ns_step [OF st Cons.prems(2) op, of t ops now]
  show ?case
  proof (cases op)
    case (PauseCycle s)
    then show ?thesis using step IH [of s] by simp
  next
    case (ResumeCycle s)
    then show ?thesis using step IH [of s] by simp
  next
    case (SetProgress f)
    then show ?thesis using step IH [of t] by simp
  qed (use op in simp_all)
qed

section \<open>Whole cycles\<close>

text \<open>One cycle as the main loop drives it: start, classification, feed, end.\<close>

record cycle_run =
  cr_start :: ns
  cr_program :: "string option"
  cr_rfh :: bool
  cr_body :: "calc_op list"
  cr_complete :: bool
  cr_end :: ns

definition cycle_ops :: "cycle_run \<Rightarrow> calc_op list" where
  "cycle_ops r =
     [StartCycle (cr_start r) None (cr_program r), ClassifyStart (cr_rfh r)] @ cr_body r
       @ (if cr_complete r then [SignalCycleComplete] else []) @ [StopCycle (cr_end r)]"

definition cycle_ms :: "cycle_run \<Rightarrow> ms" where
  "cycle_ms r = max 0 (active_ns (cr_start r) False (cr_body r) (cr_end r) div ms_per_ns)"

definition cycle_done :: "cycle_run \<Rightarrow> calculator \<Rightarrow> calculator" where
  "cycle_done r c = foldl calc_step c (cycle_ops r)"

definition plain_body :: "cycle_run \<Rightarrow> bool" where
  "plain_body r \<longleftrightarrow> (\<forall>op\<in>set (cr_body r). in_cycle op)"

definition idle :: "calculator \<Rightarrow> bool" where
  "idle c \<longleftrightarrow> \<not> cs_running (ct_state c)"

lemma idle_init [simp]: "idle calculator_init"
  by (simp add: idle_def calculator_init_def)

definition begun :: "cycle_run \<Rightarrow> calculator \<Rightarrow> calculator" where
  "begun r c = classify_start (cr_rfh r) (start_cycle (cr_start r) None (cr_program r) c)"

definition begun_state :: "cycle_run \<Rightarrow> cycle_state" where
  "begun_state r =
     cycle_state_init\<lparr>cs_start_ns := Some (cr_start r), cs_running := True, cs_paused := False,
       cs_program := cr_program r, cs_classified := True, cs_is_run_from_here := cr_rfh r\<rparr>"

lemma begun_state_simps [simp]:
  "cs_running (begun_state r)" "\<not> cs_paused (begun_state r)" "cs_classified (begun_state r)"
  "\<not> cs_cycle_complete_signalled (begun_state r)"
  "cs_is_run_from_here (begun_state r) = cr_rfh r" "cs_program (begun_state r) = cr_program r"
  "running_ns now (begun_state r) = now - cr_start r"
  by (simp_all add: begun_state_def running_ns_def)

text \<open>A cycle from the top finishes off an open part; a resumed one continues it.\<close>

lemma begun_fresh:
  assumes "idle c" "calc_ok c" "\<not> cr_rfh r"
  shows "ct_state (begun r c) = begun_state r" "ct_carry_ms (begun r c) = 0"
    "\<not> ct_part_open (begun r c)" "ct_parts_produced (begun r c) = ct_parts_produced c"
    "ct_abort_count (begun r c) = ct_abort_count c"
    "ct_partial_parts (begun r c) = ct_partial_parts c + (if ct_part_open c then 1 else 0)"
    "ct_completed_durations_ms (begun r c) = ct_completed_durations_ms c"
  using assms
  by (cases "other_program (cr_program r) c";
      simp add: idle_def begun_def start_cycle_idle classify_start_def classify_def begun_state_def
        finalize_partial_def close_part_def other_program_def Let_def)+

lemma begun_resumed:
  assumes "idle c" "cr_rfh r" "\<not> other_program (cr_program r) c"
  shows "begun r c = c\<lparr>ct_state := begun_state r,
                        ct_run_from_here_count := ct_run_from_here_count c + 1\<rparr>"
  using assms
  by (simp add: idle_def begun_def start_cycle_idle classify_start_def classify_def
      begun_state_def Let_def)

lemma begun_ok: "calc_ok c \<Longrightarrow> calc_ok (begun r c)"
  using ct.run_inv [of c "[StartCycle (cr_start r) None (cr_program r), ClassifyStart (cr_rfh r)]"]
  by (simp add: begun_def)

definition at_end :: "cycle_run \<Rightarrow> calculator \<Rightarrow> calculator" where
  "at_end r c = foldl calc_step (begun r c) (cr_body r)"

lemma cycle_done_alt:
  "cycle_done r c =
     stop_cycle (cr_end r)
       (if cr_complete r then signal_cycle_complete (at_end r c) else at_end r c)"
  by (simp add: cycle_done_def cycle_ops_def at_end_def begun_def)

lemma at_end_obtain:
  assumes "plain_body r" "calc_ok c" "ct_state (begun r c) = begun_state r"
  obtains st where "at_end r c = (begun r c)\<lparr>ct_state := st\<rparr>" "cs_running st" "cs_classified st"
    "cs_is_run_from_here st = cr_rfh r" "\<not> cs_cycle_complete_signalled st"
    "cs_program st = cr_program r" "state_ok st"
    "max 0 (running_ns (cr_end r) st div ms_per_ns) = cycle_ms r"
proof -
  have same: "same_cycle (begun r c) (at_end r c)"
    using assms(1) by (simp add: at_end_def plain_body_def in_cycle_run)
  then obtain st where st: "at_end r c = (begun r c)\<lparr>ct_state := st\<rparr>" "cs_running st"
    "cs_classified st" "cs_is_run_from_here st = cr_rfh r" "\<not> cs_cycle_complete_signalled st"
    "cs_program st = cr_program r"
    using assms(3) unfolding same_cycle_def by auto
  have "calc_ok (at_end r c)"
    unfolding at_end_def by (rule ct.run_inv) (rule begun_ok [OF assms(2)])
  then have ok: "state_ok st" by (simp add: st(1) calc_ok_def)
  have "running_ns (cr_end r) (ct_state (at_end r c)) = active_ns (cr_start r) False (cr_body r) (cr_end r)"
    using running_ns_run [OF begun_ok [OF assms(2), of r], of "cr_body r" "cr_end r" "cr_start r"] assms
    by (simp add: at_end_def plain_body_def)
  then have "max 0 (running_ns (cr_end r) st div ms_per_ns) = cycle_ms r"
    by (simp add: st(1) cycle_ms_def)
  with st ok that show thesis by blast
qed

lemma cycle_finished:
  assumes "plain_body r" "calc_ok c" "ct_state (begun r c) = begun_state r" "cr_complete r"
    and long: "min_valid_cycle_ms \<le> cycle_ms r + ct_carry_ms (begun r c) \<or> ct_carry_ms (begun r c) \<noteq> 0"
  shows "idle (cycle_done r c)" "\<not> ct_part_open (cycle_done r c)"
    "ct_parts_produced (cycle_done r c) = ct_parts_produced (begun r c) + 1"
    "ct_abort_count (cycle_done r c) = ct_abort_count (begun r c)"
    "ct_partial_parts (cycle_done r c) = ct_partial_parts (begun r c)"
    "last_opt (ct_completed_durations_ms (cycle_done r c)) =
       Some (cycle_ms r + ct_carry_ms (begun r c))"
proof -
  from assms(1-3) obtain st where st: "at_end r c = (begun r c)\<lparr>ct_state := st\<rparr>" "cs_running st"
    "\<not> cs_cycle_complete_signalled st" "state_ok st"
    "max 0 (running_ns (cr_end r) st div ms_per_ns) = cycle_ms r"
    by (rule at_end_obtain)
  let ?m = "signal_cycle_complete (at_end r c)"
  have m: "?m = (begun r c)\<lparr>ct_state := st\<lparr>cs_cycle_complete_signalled := True\<rparr>\<rparr>"
    using st by (simp add: signal_cycle_complete_def)
  have d: "elapsed_ms (cr_end r) ?m = cycle_ms r + ct_carry_ms (begun r c)"
    unfolding m elapsed_ms_signalled using st(2-) by (simp add: elapsed_ms_running)
  have run: "cs_running (ct_state ?m)" unfolding m using st(2) by simp
  have carry: "ct_carry_ms ?m = ct_carry_ms (begun r c)" unfolding m by simp
  have not_short: "\<not> too_short (cr_end r) ?m" using long by (auto simp: too_short_def d carry)
  have done_eq: "cycle_done r c = stop_cycle (cr_end r) ?m" using assms(4) by (simp add: cycle_done_alt)
  have stop: "stop_cycle (cr_end r) ?m =
      (close_part (?m\<lparr>ct_completed_durations_ms :=
           deque_append max_history (ct_completed_durations_ms ?m) (elapsed_ms (cr_end r) ?m),
         ct_parts_produced := ct_parts_produced ?m + 1\<rparr>))\<lparr>ct_state := cycle_state_init\<rparr>"
    using run
  proof (cases rule: stop_cycle_cases [where now = "cr_end r"])
    case short
    with not_short show ?thesis by simp
  next
    case kept
    then show ?thesis unfolding m by simp
  next
    case aborted
    then show ?thesis unfolding m by simp
  qed simp_all
  show "idle (cycle_done r c)" "\<not> ct_part_open (cycle_done r c)"
    "ct_parts_produced (cycle_done r c) = ct_parts_produced (begun r c) + 1"
    "ct_abort_count (cycle_done r c) = ct_abort_count (begun r c)"
    "ct_partial_parts (cycle_done r c) = ct_partial_parts (begun r c)"
    "last_opt (ct_completed_durations_ms (cycle_done r c)) =
       Some (cycle_ms r + ct_carry_ms (begun r c))"
    unfolding done_eq stop d unfolding m
    by (simp_all add: idle_def close_part_def last_deque_append max_history_def)
qed

lemma cycle_interrupted:
  assumes "plain_body r" "calc_ok c" "ct_state (begun r c) = begun_state r" "\<not> cr_complete r"
    and long: "min_valid_cycle_ms \<le> cycle_ms r + ct_carry_ms (begun r c) \<or> ct_carry_ms (begun r c) \<noteq> 0"
  shows "idle (cycle_done r c)" "ct_part_open (cycle_done r c)"
    "ct_carry_ms (cycle_done r c) = cycle_ms r + ct_carry_ms (begun r c)"
    "ct_open_program (cycle_done r c) = cr_program r"
    "ct_parts_produced (cycle_done r c) = ct_parts_produced (begun r c)"
    "ct_abort_count (cycle_done r c) = ct_abort_count (begun r c) + (if cr_rfh r then 0 else 1)"
    "ct_partial_parts (cycle_done r c) = ct_partial_parts (begun r c)"
proof -
  from assms(1-3) obtain st where st: "at_end r c = (begun r c)\<lparr>ct_state := st\<rparr>" "cs_running st"
    "cs_classified st" "cs_is_run_from_here st = cr_rfh r" "\<not> cs_cycle_complete_signalled st"
    "cs_program st = cr_program r" "state_ok st"
    "max 0 (running_ns (cr_end r) st div ms_per_ns) = cycle_ms r"
    by (rule at_end_obtain)
  let ?m = "at_end r c"
  have d: "elapsed_ms (cr_end r) ?m = cycle_ms r + ct_carry_ms (begun r c)"
    using st by (simp add: elapsed_ms_running)
  have run: "cs_running (ct_state ?m)" using st by simp
  have not_short: "\<not> too_short (cr_end r) ?m"
    using long by (auto simp: too_short_def d) (simp add: st(1))
  have done_eq: "cycle_done r c = stop_cycle (cr_end r) ?m" using assms(4) by (simp add: cycle_done_alt)
  have rfh: "resolved_rfh ?m = cr_rfh r" using st by (simp add: resolved_rfh_def)
  have fin: "cycle_done r c =
      (leave_part_open (elapsed_ms (cr_end r) ?m) (part_progress ?m)
        (if cr_rfh r then ?m else record_abort (elapsed_ms (cr_end r) ?m) ?m))
        \<lparr>ct_state := cycle_state_init\<rparr>"
    unfolding done_eq using run not_short
    by (cases rule: stop_cycle_cases [where now = "cr_end r"]) (simp_all add: rfh, simp_all add: st)
  show "idle (cycle_done r c)" "ct_part_open (cycle_done r c)"
    "ct_carry_ms (cycle_done r c) = cycle_ms r + ct_carry_ms (begun r c)"
    "ct_open_program (cycle_done r c) = cr_program r"
    "ct_parts_produced (cycle_done r c) = ct_parts_produced (begun r c)"
    "ct_abort_count (cycle_done r c) = ct_abort_count (begun r c) + (if cr_rfh r then 0 else 1)"
    "ct_partial_parts (cycle_done r c) = ct_partial_parts (begun r c)"
    unfolding fin d by (simp_all add: idle_def leave_part_open_def record_abort_def Let_def st)
qed

lemma cycle_done_ok: "calc_ok c \<Longrightarrow> calc_ok (cycle_done r c)"
  unfolding cycle_done_def by (rule ct.run_inv)

section \<open>One part over several cycles\<close>

lemma resumed_cycle:
  assumes c: "idle c" "calc_ok c" "ct_carry_ms c \<noteq> 0"
    and r: "plain_body r" "cr_rfh r" "\<not> cr_complete r"
    and prog: "\<not> other_program (cr_program r) c"
  shows "idle (cycle_done r c)" "calc_ok (cycle_done r c)"
    "ct_carry_ms (cycle_done r c) = ct_carry_ms c + cycle_ms r"
    "ct_open_program (cycle_done r c) = cr_program r"
    "ct_parts_produced (cycle_done r c) = ct_parts_produced c"
    "ct_abort_count (cycle_done r c) = ct_abort_count c"
    "ct_partial_parts (cycle_done r c) = ct_partial_parts c"
proof -
  note b = begun_resumed [OF c(1) r(2) prog]
  have st: "ct_state (begun r c) = begun_state r" and carry: "ct_carry_ms (begun r c) \<noteq> 0"
    using c(3) by (simp_all add: b)
  note i = cycle_interrupted [OF r(1) c(2) st r(3) disjI2 [OF carry]]
  show "idle (cycle_done r c)" "ct_open_program (cycle_done r c) = cr_program r" by (fact i)+
  show "calc_ok (cycle_done r c)" using c(2) by (rule cycle_done_ok)
  show "ct_carry_ms (cycle_done r c) = ct_carry_ms c + cycle_ms r"
    "ct_parts_produced (cycle_done r c) = ct_parts_produced c"
    "ct_abort_count (cycle_done r c) = ct_abort_count c"
    "ct_partial_parts (cycle_done r c) = ct_partial_parts c"
    using i(3,5,6,7) r(2) by (simp_all add: b)
qed

lemma cycle_ms_nonneg: "0 \<le> cycle_ms r"
  by (simp add: cycle_ms_def)

lemma resumed_cycles:
  assumes "\<forall>r\<in>set rs. plain_body r \<and> cr_rfh r \<and> \<not> cr_complete r \<and> cr_program r = p"
  shows "idle c \<Longrightarrow> calc_ok c \<Longrightarrow> 0 < ct_carry_ms c \<Longrightarrow> ct_open_program c = p \<Longrightarrow>
    (let c' = foldl (\<lambda>c r. cycle_done r c) c rs
     in idle c' \<and> calc_ok c' \<and> ct_carry_ms c' = ct_carry_ms c + sum_list (map cycle_ms rs) \<and>
        ct_open_program c' = p \<and> ct_parts_produced c' = ct_parts_produced c \<and>
        ct_abort_count c' = ct_abort_count c \<and> ct_partial_parts c' = ct_partial_parts c)"
  using assms
proof (induction rs arbitrary: c)
  case (Cons r rs)
  have "plain_body r" "cr_rfh r" "\<not> cr_complete r" "cr_program r = p"
    using Cons.prems(5) by simp_all
  moreover have "\<not> other_program (cr_program r) c"
    using Cons.prems \<open>cr_program r = p\<close> by (simp add: other_program_def)
  moreover have "ct_carry_ms c \<noteq> 0" using Cons.prems(3) by simp
  ultimately have one: "idle (cycle_done r c)" "calc_ok (cycle_done r c)"
    "ct_carry_ms (cycle_done r c) = ct_carry_ms c + cycle_ms r"
    "ct_open_program (cycle_done r c) = p"
    "ct_parts_produced (cycle_done r c) = ct_parts_produced c"
    "ct_abort_count (cycle_done r c) = ct_abort_count c"
    "ct_partial_parts (cycle_done r c) = ct_partial_parts c"
    using resumed_cycle [OF Cons.prems(1,2), of r] by simp_all
  have "0 < ct_carry_ms (cycle_done r c)"
    using Cons.prems(3) cycle_ms_nonneg [of r] by (simp add: one)
  from Cons.IH [OF one(1,2) this one(4)] Cons.prems(5) show ?case
    by (simp add: one Let_def)
qed simp

definition run_cycles :: "cycle_run list \<Rightarrow> calculator \<Rightarrow> calculator" where
  "run_cycles rs c = foldl (\<lambda>c r. cycle_done r c) c rs"

lemma fresh_interrupted:
  assumes c: "idle c" "calc_ok c" and r: "plain_body r" "\<not> cr_rfh r" "\<not> cr_complete r"
    and long: "min_valid_cycle_ms \<le> cycle_ms r"
  shows "idle (cycle_done r c)" "calc_ok (cycle_done r c)"
    "ct_carry_ms (cycle_done r c) = cycle_ms r" "0 < ct_carry_ms (cycle_done r c)"
    "ct_open_program (cycle_done r c) = cr_program r"
    "ct_parts_produced (cycle_done r c) = ct_parts_produced c"
    "ct_abort_count (cycle_done r c) = ct_abort_count c + 1"
    "ct_partial_parts (cycle_done r c) = ct_partial_parts c + (if ct_part_open c then 1 else 0)"
proof -
  note b = begun_fresh [OF c r(2)]
  have "min_valid_cycle_ms \<le> cycle_ms r + ct_carry_ms (begun r c)" using long by (simp add: b)
  note i = cycle_interrupted [OF r(1) c(2) b(1) r(3) disjI1 [OF this]]
  show "idle (cycle_done r c)" "ct_open_program (cycle_done r c) = cr_program r" by (fact i)+
  show "calc_ok (cycle_done r c)" using c(2) by (rule cycle_done_ok)
  show carry: "ct_carry_ms (cycle_done r c) = cycle_ms r"
    "ct_parts_produced (cycle_done r c) = ct_parts_produced c"
    "ct_abort_count (cycle_done r c) = ct_abort_count c + 1"
    "ct_partial_parts (cycle_done r c) = ct_partial_parts c + (if ct_part_open c then 1 else 0)"
    using i(3,5,6,7) r(2) by (simp_all add: b)
  show "0 < ct_carry_ms (cycle_done r c)" using long by (simp add: carry min_valid_cycle_ms_def)
qed

lemma resumed_finish:
  assumes c: "idle c" "calc_ok c" "0 < ct_carry_ms c"
    and r: "plain_body r" "cr_rfh r" "cr_complete r"
    and prog: "\<not> other_program (cr_program r) c"
  shows "idle (cycle_done r c)" "\<not> ct_part_open (cycle_done r c)"
    "ct_parts_produced (cycle_done r c) = ct_parts_produced c + 1"
    "ct_abort_count (cycle_done r c) = ct_abort_count c"
    "ct_partial_parts (cycle_done r c) = ct_partial_parts c"
    "last_opt (ct_completed_durations_ms (cycle_done r c)) = Some (ct_carry_ms c + cycle_ms r)"
proof -
  note b = begun_resumed [OF c(1) r(2) prog]
  have st: "ct_state (begun r c) = begun_state r" and carry: "ct_carry_ms (begun r c) \<noteq> 0"
    using c(3) by (simp_all add: b)
  note i = cycle_finished [OF r(1) c(2) st r(3) disjI2 [OF carry]]
  show "idle (cycle_done r c)" "\<not> ct_part_open (cycle_done r c)" by (fact i)+
  show "ct_parts_produced (cycle_done r c) = ct_parts_produced c + 1"
    "ct_abort_count (cycle_done r c) = ct_abort_count c"
    "ct_partial_parts (cycle_done r c) = ct_partial_parts c"
    "last_opt (ct_completed_durations_ms (cycle_done r c)) = Some (ct_carry_ms c + cycle_ms r)"
    using i(3-6) by (simp_all add: b)
qed

lemma fresh_finish:
  assumes c: "idle c" "calc_ok c" and r: "plain_body r" "\<not> cr_rfh r" "cr_complete r"
    and long: "min_valid_cycle_ms \<le> cycle_ms r"
  shows "idle (cycle_done r c)" "\<not> ct_part_open (cycle_done r c)"
    "ct_parts_produced (cycle_done r c) = ct_parts_produced c + 1"
    "ct_abort_count (cycle_done r c) = ct_abort_count c"
    "ct_partial_parts (cycle_done r c) = ct_partial_parts c + (if ct_part_open c then 1 else 0)"
    "last_opt (ct_completed_durations_ms (cycle_done r c)) = Some (cycle_ms r)"
proof -
  note b = begun_fresh [OF c r(2)]
  have "min_valid_cycle_ms \<le> cycle_ms r + ct_carry_ms (begun r c)" using long by (simp add: b)
  note i = cycle_finished [OF r(1) c(2) b(1) r(3) disjI1 [OF this]]
  show "idle (cycle_done r c)" "\<not> ct_part_open (cycle_done r c)" by (fact i)+
  show "ct_parts_produced (cycle_done r c) = ct_parts_produced c + 1"
    "ct_abort_count (cycle_done r c) = ct_abort_count c"
    "ct_partial_parts (cycle_done r c) = ct_partial_parts c + (if ct_part_open c then 1 else 0)"
    "last_opt (ct_completed_durations_ms (cycle_done r c)) = Some (cycle_ms r)"
    using i(3-6) by (simp_all add: b)
qed

lemma run_cycles_simps [simp]:
  "run_cycles [] c = c" "run_cycles (r # rs) c = run_cycles rs (cycle_done r c)"
  "run_cycles (rs @ rs') c = run_cycles rs' (run_cycles rs c)"
  by (simp_all add: run_cycles_def)

definition resumes :: "string option \<Rightarrow> cycle_run \<Rightarrow> bool" where
  "resumes p r \<longleftrightarrow> plain_body r \<and> cr_rfh r \<and> cr_program r = p"

lemma interrupted_then:
  assumes c: "idle c" "calc_ok c"
    and fst_run: "plain_body fst_run" "\<not> cr_rfh fst_run" "\<not> cr_complete fst_run" "cr_program fst_run = p"
      "min_valid_cycle_ms \<le> cycle_ms fst_run"
    and rs: "\<forall>r\<in>set rs. resumes p r \<and> \<not> cr_complete r"
  shows "idle (run_cycles (fst_run # rs) c)" "calc_ok (run_cycles (fst_run # rs) c)"
    "ct_carry_ms (run_cycles (fst_run # rs) c) = sum_list (map cycle_ms (fst_run # rs))"
    "0 < ct_carry_ms (run_cycles (fst_run # rs) c)"
    "ct_open_program (run_cycles (fst_run # rs) c) = p"
    "ct_parts_produced (run_cycles (fst_run # rs) c) = ct_parts_produced c"
    "ct_abort_count (run_cycles (fst_run # rs) c) = ct_abort_count c + 1"
    "ct_partial_parts (run_cycles (fst_run # rs) c) =
       ct_partial_parts c + (if ct_part_open c then 1 else 0)"
proof -
  note f = fresh_interrupted [OF c fst_run(1-3,5)]
  have "ct_open_program (cycle_done fst_run c) = p" by (simp add: f fst_run)
  with rs resumed_cycles [OF _ f(1,2,4), of rs p]
  have r: "let c' = run_cycles rs (cycle_done fst_run c)
     in idle c' \<and> calc_ok c' \<and>
        ct_carry_ms c' = ct_carry_ms (cycle_done fst_run c) + sum_list (map cycle_ms rs) \<and>
        ct_open_program c' = p \<and> ct_parts_produced c' = ct_parts_produced (cycle_done fst_run c) \<and>
        ct_abort_count c' = ct_abort_count (cycle_done fst_run c) \<and>
        ct_partial_parts c' = ct_partial_parts (cycle_done fst_run c)"
    by (simp add: run_cycles_def resumes_def)
  have "0 \<le> sum_list (map cycle_ms rs)"
    by (rule sum_list_nonneg) (auto simp: cycle_ms_nonneg)
  then have pos: "0 < cycle_ms fst_run + sum_list (map cycle_ms rs)"
    using f(3,4) by simp
  show "idle (run_cycles (fst_run # rs) c)" "calc_ok (run_cycles (fst_run # rs) c)"
    "ct_carry_ms (run_cycles (fst_run # rs) c) = sum_list (map cycle_ms (fst_run # rs))"
    "0 < ct_carry_ms (run_cycles (fst_run # rs) c)"
    "ct_open_program (run_cycles (fst_run # rs) c) = p"
    "ct_parts_produced (run_cycles (fst_run # rs) c) = ct_parts_produced c"
    "ct_abort_count (run_cycles (fst_run # rs) c) = ct_abort_count c + 1"
    "ct_partial_parts (run_cycles (fst_run # rs) c) =
       ct_partial_parts c + (if ct_part_open c then 1 else 0)"
    using r f pos by (simp_all add: Let_def)
qed

section \<open>Properties\<close>

text \<open>
  C1: one physical part counts once. A part started from the top, stopped after at
  least a second, resumed by any number of run-from-here cycles that were stopped
  too, and finally run to its end is one part and one abort, and its recorded
  duration is the sum of the pause-free times of all its cycles. A part left open
  before it counts as one partial part.
\<close>

theorem interrupted_part_counts_once:
  assumes "idle c" "calc_ok c"
    and "plain_body fst_run" "\<not> cr_rfh fst_run" "\<not> cr_complete fst_run" "cr_program fst_run = p"
    and "min_valid_cycle_ms \<le> cycle_ms fst_run"
    and "\<forall>r\<in>set rs. resumes p r \<and> \<not> cr_complete r"
    and "resumes p last_run" "cr_complete last_run"
  defines "c' \<equiv> run_cycles (fst_run # rs @ [last_run]) c"
  shows "ct_parts_produced c' = ct_parts_produced c + 1 \<and>
    ct_abort_count c' = ct_abort_count c + 1 \<and>
    ct_partial_parts c' = ct_partial_parts c + (if ct_part_open c then 1 else 0) \<and>
    last_opt (ct_completed_durations_ms c') =
      Some (sum_list (map cycle_ms (fst_run # rs @ [last_run]))) \<and>
    \<not> ct_part_open c' \<and> idle c'"
proof -
  note i = interrupted_then [OF assms(1-8)]
  have "\<not> other_program (cr_program last_run) (run_cycles (fst_run # rs) c)"
    using i(5) assms(9) by (simp add: other_program_def resumes_def)
  with resumed_finish [OF i(1,2,4), of last_run] assms(9,10) i
  show ?thesis by (simp add: c'_def resumes_def)
qed

definition demo_top :: cycle_run where
  "demo_top =
     \<lparr>cr_start = 0, cr_program = Some ''a.ngc'', cr_rfh = False,
      cr_body = [PauseCycle 1000000000, SetProgress (1 / 4), ResumeCycle 5000000000],
      cr_complete = False, cr_end = 6000000000\<rparr>"

definition demo_resume :: "bool \<Rightarrow> cycle_run" where
  "demo_resume whole =
     \<lparr>cr_start = 7000000000, cr_program = Some ''a.ngc'', cr_rfh = True, cr_body = [],
      cr_complete = whole, cr_end = 10000000000\<rparr>"

lemmas demo_simps = demo_top_def demo_resume_def plain_body_def resumes_def cycle_ms_def
  ms_per_ns_def min_valid_cycle_ms_def

lemma interrupted_part_counts_once_witness:
  "ct_parts_produced (run_cycles [demo_top, demo_resume False, demo_resume True] calculator_init) = 1
   \<and> last_opt (ct_completed_durations_ms
        (run_cycles [demo_top, demo_resume False, demo_resume True] calculator_init)) = Some 8000"
proof -
  have "calc_ok calculator_init" "idle calculator_init" by (simp_all add: calculator_init_ok)
  from interrupted_part_counts_once [OF this(2,1), of demo_top "Some ''a.ngc''" "[demo_resume False]"
      "demo_resume True"]
  show ?thesis
    by (simp add: demo_simps del: run_cycles_simps) (simp add: calculator_init_def)
qed

text \<open>
  A part that is given up is a partial part. Stopped, and then run again from
  the top to its end, it adds one part, one abort and one partial part, and none of
  its time goes into the duration of the part that followed.
\<close>

theorem abandoned_part_is_partial:
  assumes "idle c" "calc_ok c"
    and "plain_body fst_run" "\<not> cr_rfh fst_run" "\<not> cr_complete fst_run"
    and "min_valid_cycle_ms \<le> cycle_ms fst_run"
    and "plain_body again" "\<not> cr_rfh again" "cr_complete again"
    and "min_valid_cycle_ms \<le> cycle_ms again"
  defines "c' \<equiv> run_cycles [fst_run, again] c"
  shows "ct_parts_produced c' = ct_parts_produced c + 1 \<and>
    ct_abort_count c' = ct_abort_count c + 1 \<and>
    ct_partial_parts c' = ct_partial_parts c + (if ct_part_open c then 2 else 1) \<and>
    last_opt (ct_completed_durations_ms c') = Some (cycle_ms again) \<and> \<not> ct_part_open c'"
proof -
  note f = fresh_interrupted [OF assms(1-6)]
  have "ct_part_open (cycle_done fst_run c)"
    using begun_fresh [OF assms(1,2,4)] cycle_interrupted(2) [OF assms(3) assms(2) _ assms(5)] assms(6)
    by simp
  with fresh_finish [OF f(1,2) assms(7-10)] f show ?thesis by (simp add: c'_def)
qed

lemma abandoned_part_is_partial_witness:
  "ct_partial_parts (run_cycles [demo_top, demo_top\<lparr>cr_complete := True\<rparr>] calculator_init) = 1 \<and>
   last_opt (ct_completed_durations_ms
     (run_cycles [demo_top, demo_top\<lparr>cr_complete := True\<rparr>] calculator_init)) = Some 2000"
proof -
  have "calc_ok calculator_init" "idle calculator_init" by (simp_all add: calculator_init_ok)
  from abandoned_part_is_partial [OF this(2,1), of demo_top "demo_top\<lparr>cr_complete := True\<rparr>"]
  show ?thesis
    by (simp add: demo_simps del: run_cycles_simps) (simp add: calculator_init_def)
qed

text \<open>
  C27: the accounting refines the part ledger. Whatever the state, every method call
  changes the numbers of finished, partial and unfinished parts exactly as its
  ledger event says: a stop of a running cycle finishes or leaves one part, a start
  or program change finalises a part left open, nothing else touches the ledger.
\<close>

theorem calculator_refines_ledger:
  "ledger_of (calc_step c op) = ledger_step (ledger_of c) (part_event_of c op)"
  by (rule ledger_refinement)



text \<open>
  The counters stay sane. After any calls from a fresh calculator the histories
  hold at most 500 entries and no more than were counted, no completed duration is
  negative, every recorded abort lasted at least a second, progress lies between 0
  and 1, the partial-part equivalent is at most the number of partial parts, an
  idle calculator keeps no cycle state, and nothing is carried without an open part.
\<close>

theorem calculator_invariant:
  "calc_ok (foldl calc_step calculator_init ops)"
  by (rule ct.run_inv) (rule calculator_init_ok)

end
