(* ===== verification/Cycle_Machine.thy ===== *)
theory Cycle_Machine
  imports Program_Scanner Line_Tracker Cycle_Accounting
begin

text \<open>
  The cycle state machine of \<open>status.py\<close>: \<open>_is_program_running\<close>, \<open>_is_program_paused\<close>
  and \<open>_CycleStateMachine\<close>, driving the line tracker and the calculator once per
  sample. The \<open>linuxcnc\<close> module is not under \<open>src/\<close>: its interpreter states are
  parameters. The clock reading, the files seen by this sample and whether waiting
  for a scan ran into its time limit belong to the sample.
\<close>

section \<open>One sample of LinuxCNC\<close>

definition state_on :: int where "state_on = 4"
definition mode_auto :: int where "mode_auto = 2"

text \<open>Attributes read with \<open>_safe_get\<close> are \<open>None\<close> when they cannot be read.\<close>

record stat_view =
  sv_task_state :: int
  sv_task_mode :: int
  sv_interp_state :: int
  sv_paused :: bool
  sv_estop :: "bool option"
  sv_file :: "string option"
  sv_read_line :: "int option"
  sv_motion_line :: "int option"
  sv_current_line :: "int option"

record interp_consts =
  ic_idle :: int
  ic_paused :: int

definition is_program_running :: "interp_consts \<Rightarrow> stat_view \<Rightarrow> bool" where
  "is_program_running ic st \<longleftrightarrow>
     sv_task_state st = state_on \<and> sv_task_mode st = mode_auto \<and>
     sv_interp_state st \<noteq> ic_idle ic \<and> sv_interp_state st \<noteq> ic_paused ic \<and> \<not> sv_paused st"

definition is_program_paused :: "stat_view \<Rightarrow> bool" where
  "is_program_paused st \<longleftrightarrow>
     sv_task_state st = state_on \<and> sv_task_mode st = mode_auto \<and> sv_paused st"

section \<open>The machine\<close>

datatype cycle_phase = Idle | Running | Paused

record cycle_machine =
  cm_calc :: calculator
  cm_scanner :: scanner
  cm_tracker :: line_tracker
  cm_state :: cycle_phase
  cm_in_sub :: bool
  cm_sub_file :: string
  cm_macro_moves :: macro_cache
  cm_read_line :: int
  cm_idle_motion_line :: int
  cm_idle_current_line :: int

definition cycle_machine_init :: "calculator \<Rightarrow> scanner \<Rightarrow> cycle_machine" where
  "cycle_machine_init calc scn =
     \<lparr>cm_calc = calc, cm_scanner = scn, cm_tracker = tracker_begin 0 0, cm_state = Idle,
      cm_in_sub = False, cm_sub_file = '''', cm_macro_moves = [], cm_read_line = 0,
      cm_idle_motion_line = 0, cm_idle_current_line = 0\<rparr>"

definition machine_reset :: "cycle_machine \<Rightarrow> cycle_machine" where
  "machine_reset m = m\<lparr>cm_state := Idle, cm_idle_motion_line := 0, cm_idle_current_line := 0\<rparr>"

text \<open>A call of a calculator method.\<close>

definition on_calc :: "calc_op \<Rightarrow> cycle_machine \<Rightarrow> cycle_machine" where
  "on_calc op m = m\<lparr>cm_calc := calc_step (cm_calc m) op\<rparr>"

definition cycle_track :: "file_system \<Rightarrow> int \<Rightarrow> int \<Rightarrow> cycle_machine \<Rightarrow> cycle_machine" where
  "cycle_track fs motion_line current_line m =
     (if cm_in_sub m then
        (case macro_lines fs (cm_sub_file m) (cm_macro_moves m) of
           (sub_moves, cache) \<Rightarrow>
             m\<lparr>cm_macro_moves := cache,
               cm_tracker := line_hold motion_line current_line sub_moves (cm_tracker m)\<rparr>)
      else
        (let prog = psc_info (cm_scanner m);
             m1 = m\<lparr>cm_tracker :=
                      line_sample motion_line current_line prog (cm_read_line m) (cm_tracker m)\<rparr>
         in (case tracker_run_from_here prog (cm_tracker m1) of
               None \<Rightarrow> m1
             | Some rfh \<Rightarrow>
                 on_calc (SetProgress (tracker_progress prog (cm_tracker m1)))
                   (on_calc (ClassifyStart rfh) m1))))"

text \<open>What one call of \<open>update\<close> gets from outside the program.\<close>

record cycle_sample =
  cy_now :: ns
  cy_stat :: stat_view
  cy_in_sub :: bool
  cy_files :: file_system
  cy_timed_out :: bool

text \<open>The lines that wait for a scan still running.\<close>

definition await_scan :: "interp_consts \<Rightarrow> cycle_sample \<Rightarrow> cycle_machine \<Rightarrow> cycle_machine" where
  "await_scan ic x m =
     (if scanner_pending (cm_scanner m) \<and>
         (is_program_running ic (cy_stat x) \<or> is_program_paused (cy_stat x) \<or> cm_state m \<noteq> Idle)
      then m\<lparr>cm_scanner := scanner_wait (cy_timed_out x) (cy_files x) (cm_scanner m)\<rparr> else m)"

definition machine_ok :: "stat_view \<Rightarrow> bool" where
  "machine_ok st \<longleftrightarrow> sv_task_state st = state_on \<and> \<not> or_else (sv_estop st) False"

definition go_idle :: "int \<Rightarrow> int \<Rightarrow> cycle_machine \<Rightarrow> cycle_machine" where
  "go_idle motion_line current_line m =
     m\<lparr>cm_idle_motion_line := motion_line, cm_idle_current_line := current_line, cm_state := Idle\<rparr>"

definition cycle_update :: "interp_consts \<Rightarrow> cycle_sample \<Rightarrow> cycle_machine \<Rightarrow> cycle_machine" where
  "cycle_update ic x m0 =
     (let st = cy_stat x;
          m1 = m0\<lparr>cm_in_sub := cy_in_sub x,
                  cm_sub_file := (if cy_in_sub x then or_else (sv_file st) '''' else ''''),
                  cm_read_line := or_else (sv_read_line st) 0\<rparr>;
          is_running = is_program_running ic st;
          is_paused = is_program_paused st;
          is_idle = (\<not> is_running \<and> \<not> is_paused);
          motion_line = or_else (sv_motion_line st) 0;
          current_line = or_else (sv_current_line st) 0;
          m = await_scan ic x m1;
          track = cycle_track (cy_files x) motion_line current_line
      in (case cm_state m of
            Idle \<Rightarrow>
              if is_running then
                (let path = pi_path (psc_info (cm_scanner m));
                     m2 = m\<lparr>cm_tracker := tracker_begin (cm_idle_motion_line m)
                                             (cm_idle_current_line m)\<rparr>;
                     m3 = on_calc (StartCycle (cy_now x) None
                            (if path = '''' then None else Some path)) m2
                 in (track m3)\<lparr>cm_state := Running\<rparr>)
              else m\<lparr>cm_idle_motion_line := motion_line, cm_idle_current_line := current_line\<rparr>
          | Running \<Rightarrow>
              (let m2 = track m
               in if is_paused then (on_calc (PauseCycle (cy_now x)) m2)\<lparr>cm_state := Paused\<rparr>
                  else if is_idle then
                    go_idle motion_line current_line
                      (if \<not> machine_ok st then on_calc (AbortCycle (cy_now x)) m2
                       else
                         on_calc (StopCycle (cy_now x))
                           (if reached_end (psc_info (cm_scanner m2)) (cm_tracker m2)
                            then on_calc SignalCycleComplete m2 else m2))
                  else m2)
          | Paused \<Rightarrow>
              (let m2 = track m
               in if is_running then (on_calc (ResumeCycle (cy_now x)) m2)\<lparr>cm_state := Running\<rparr>
                  else if is_idle then
                    go_idle motion_line current_line (on_calc (AbortCycle (cy_now x)) m2)
                  else m2)))"

text \<open>
  What else the main loop does to these objects: load a program, a scan thread that
  ends, the program becoming known inside a cycle, LinuxCNC going away
  (\<open>_disconnect_linuxcnc\<close>), and the end of the agent.
\<close>

definition linuxcnc_gone :: "ns \<Rightarrow> cycle_machine \<Rightarrow> cycle_machine" where
  "linuxcnc_gone now m =
     machine_reset (if cs_running (ct_state (cm_calc m)) then on_calc (AbortCycle now) m else m)"

definition agent_shutdown :: "cycle_machine \<Rightarrow> cycle_machine" where
  "agent_shutdown m = (if cs_running (ct_state (cm_calc m)) then on_calc DropCycle m else m)"

datatype machine_event =
    Update cycle_sample
  | Scanner scanner_event
  | ProgramKnown "string option"
  | Disconnect ns

fun machine_step :: "interp_consts \<Rightarrow> cycle_machine \<Rightarrow> machine_event \<Rightarrow> cycle_machine" where
  "machine_step ic m (Update x) = cycle_update ic x m"
| "machine_step ic m (Scanner e) = m\<lparr>cm_scanner := scanner_step (cm_scanner m) e\<rparr>"
| "machine_step ic m (ProgramKnown p) = on_calc (SetProgram p) m"
| "machine_step ic m (Disconnect now) = linuxcnc_gone now m"

section \<open>The machine and the calculator agree\<close>

definition in_step :: "cycle_phase \<Rightarrow> calculator \<Rightarrow> bool" where
  "in_step ph c \<longleftrightarrow>
     cs_running (ct_state c) = (ph \<noteq> Idle) \<and> cs_paused (ct_state c) = (ph = Paused) \<and>
     \<not> cs_cycle_complete_signalled (ct_state c)"

definition machine_inv :: "cycle_machine \<Rightarrow> bool" where
  "machine_inv m \<longleftrightarrow>
     calc_ok (cm_calc m) \<and> scanner_ok (cm_scanner m) \<and> in_step (cm_state m) (cm_calc m)"

lemma on_calc_fields [simp]:
  "cm_calc (on_calc op m) = calc_step (cm_calc m) op" "cm_scanner (on_calc op m) = cm_scanner m"
  "cm_tracker (on_calc op m) = cm_tracker m" "cm_state (on_calc op m) = cm_state m"
  "cm_in_sub (on_calc op m) = cm_in_sub m"
  by (simp_all add: on_calc_def)

lemma go_idle_fields [simp]:
  "cm_calc (go_idle a b m) = cm_calc m" "cm_scanner (go_idle a b m) = cm_scanner m"
  "cm_tracker (go_idle a b m) = cm_tracker m" "cm_state (go_idle a b m) = Idle"
  by (simp_all add: go_idle_def)

lemma await_scan_fields [simp]:
  "cm_calc (await_scan ic x m) = cm_calc m" "cm_tracker (await_scan ic x m) = cm_tracker m"
  "cm_state (await_scan ic x m) = cm_state m" "cm_in_sub (await_scan ic x m) = cm_in_sub m"
  "cm_idle_motion_line (await_scan ic x m) = cm_idle_motion_line m"
  "cm_idle_current_line (await_scan ic x m) = cm_idle_current_line m"
  "scanner_ok (cm_scanner m) \<Longrightarrow> scanner_ok (cm_scanner (await_scan ic x m))"
  by (simp_all add: await_scan_def scanner_wait_ok)

text \<open>Calculator calls that leave the phase of the cycle alone, and what they keep.\<close>

fun quiet_op :: "calc_op \<Rightarrow> bool" where
  "quiet_op (ClassifyStart _) = True"
| "quiet_op (SetProgress _) = True"
| "quiet_op (SetProgram _) = True"
| "quiet_op _ = False"

lemma finalize_partial_parts [simp]:
  "ct_parts_produced (finalize_partial c) = ct_parts_produced c"
  "ct_abort_count (finalize_partial c) = ct_abort_count c"
  by (simp_all add: finalize_partial_def close_part_def Let_def)

lemma classify_quiet:
  "cs_running (ct_state (classify b c)) = cs_running (ct_state c)"
  "cs_paused (ct_state (classify b c)) = cs_paused (ct_state c)"
  "cs_cycle_complete_signalled (ct_state (classify b c)) = cs_cycle_complete_signalled (ct_state c)"
  "ct_parts_produced (classify b c) = ct_parts_produced c"
  "ct_abort_count (classify b c) = ct_abort_count c"
  by (simp_all add: classify_def Let_def)

lemma set_program_quiet:
  "cs_running (ct_state (set_program p c)) = cs_running (ct_state c)"
  "cs_paused (ct_state (set_program p c)) = cs_paused (ct_state c)"
  "cs_cycle_complete_signalled (ct_state (set_program p c)) = cs_cycle_complete_signalled (ct_state c)"
  "ct_parts_produced (set_program p c) = ct_parts_produced c"
  "ct_abort_count (set_program p c) = ct_abort_count c"
  unfolding set_program_def Let_def by (simp_all split: if_split)

lemma quiet_step:
  assumes "quiet_op op"
  shows "in_step ph (calc_step c op) = in_step ph c"
    "ct_parts_produced (calc_step c op) = ct_parts_produced c"
    "ct_abort_count (calc_step c op) = ct_abort_count c"
    "cs_running (ct_state (calc_step c op)) = cs_running (ct_state c)"
  using assms
  by (cases op; simp add: in_step_def classify_start_def classify_quiet set_program_quiet
      set_progress_def Let_def)+

lemma cycle_track_fields:
  "cm_scanner (cycle_track fs ml cl m) = cm_scanner m"
  "cm_state (cycle_track fs ml cl m) = cm_state m"
  "in_step ph (cm_calc (cycle_track fs ml cl m)) = in_step ph (cm_calc m)"
  "ct_parts_produced (cm_calc (cycle_track fs ml cl m)) = ct_parts_produced (cm_calc m)"
  "ct_abort_count (cm_calc (cycle_track fs ml cl m)) = ct_abort_count (cm_calc m)"
  "calc_ok (cm_calc m) \<Longrightarrow> calc_ok (cm_calc (cycle_track fs ml cl m))"
  by (simp_all add: cycle_track_def Let_def quiet_step ct.step_inv del: calc_step.simps
      split: prod.split option.split)

lemma in_step_ops:
  "in_step Idle c \<Longrightarrow> in_step Running (calc_step c (StartCycle now None p))"
  "in_step Running c \<Longrightarrow> in_step Paused (calc_step c (PauseCycle now))"
  "in_step Idle (calc_step c (AbortCycle now)) \<or> \<not> cs_running (ct_state c)"
  "in_step Idle (calc_step c (StopCycle now)) \<or> \<not> cs_running (ct_state c)"
  by (auto simp: in_step_def start_cycle_def pause_cycle_def abort_cycle_def stop_cycle_def Let_def)

lemma in_step_resume:
  "calc_ok c \<Longrightarrow> in_step Paused c \<Longrightarrow> in_step Running (calc_step c (ResumeCycle now))"
  by (cases "cs_pause_start_ns (ct_state c)")
    (auto simp: in_step_def resume_cycle_def calc_ok_def state_ok_def Let_def)

lemma in_step_running: "in_step ph c \<Longrightarrow> ph \<noteq> Idle \<Longrightarrow> cs_running (ct_state c)"
  by (simp add: in_step_def)

lemma signal_running: "cs_running (ct_state (calc_step c SignalCycleComplete)) = cs_running (ct_state c)"
  by (simp add: signal_cycle_complete_def)

section \<open>One update, by the phase it starts in\<close>

definition entered :: "interp_consts \<Rightarrow> cycle_sample \<Rightarrow> cycle_machine \<Rightarrow> cycle_machine" where
  "entered ic x m0 =
     await_scan ic x
       (m0\<lparr>cm_in_sub := cy_in_sub x,
           cm_sub_file := (if cy_in_sub x then or_else (sv_file (cy_stat x)) '''' else ''''),
           cm_read_line := or_else (sv_read_line (cy_stat x)) 0\<rparr>)"

definition tracked :: "interp_consts \<Rightarrow> cycle_sample \<Rightarrow> cycle_machine \<Rightarrow> cycle_machine" where
  "tracked ic x m0 =
     cycle_track (cy_files x) (or_else (sv_motion_line (cy_stat x)) 0)
       (or_else (sv_current_line (cy_stat x)) 0) (entered ic x m0)"

lemma entered_fields [simp]:
  "cm_calc (entered ic x m) = cm_calc m" "cm_state (entered ic x m) = cm_state m"
  "scanner_ok (cm_scanner m) \<Longrightarrow> scanner_ok (cm_scanner (entered ic x m))"
  by (simp_all add: entered_def)

lemma tracked_fields [simp]:
  "cm_state (tracked ic x m) = cm_state m"
  "in_step ph (cm_calc (tracked ic x m)) = in_step ph (cm_calc m)"
  "ct_parts_produced (cm_calc (tracked ic x m)) = ct_parts_produced (cm_calc m)"
  "ct_abort_count (cm_calc (tracked ic x m)) = ct_abort_count (cm_calc m)"
  "calc_ok (cm_calc m) \<Longrightarrow> calc_ok (cm_calc (tracked ic x m))"
  "scanner_ok (cm_scanner m) \<Longrightarrow> scanner_ok (cm_scanner (tracked ic x m))"
  by (simp_all add: tracked_def cycle_track_fields)

abbreviation sees_running :: "interp_consts \<Rightarrow> cycle_sample \<Rightarrow> bool" where
  "sees_running ic x \<equiv> is_program_running ic (cy_stat x)"

abbreviation sees_paused :: "cycle_sample \<Rightarrow> bool" where
  "sees_paused x \<equiv> is_program_paused (cy_stat x)"

lemma update_idle:
  assumes "cm_state m = Idle"
  obtains (start) u p where "sees_running ic x" "cm_calc u = calc_step (cm_calc m) (StartCycle (cy_now x) None p)"
      "scanner_ok (cm_scanner m) \<Longrightarrow> scanner_ok (cm_scanner u)"
      "cycle_update ic x m =
        (cycle_track (cy_files x) (or_else (sv_motion_line (cy_stat x)) 0)
          (or_else (sv_current_line (cy_stat x)) 0) u)\<lparr>cm_state := Running\<rparr>"
  | (stay) "\<not> sees_running ic x" "cm_calc (cycle_update ic x m) = cm_calc m"
      "cm_state (cycle_update ic x m) = Idle"
      "scanner_ok (cm_scanner m) \<Longrightarrow> scanner_ok (cm_scanner (cycle_update ic x m))"
proof (cases "sees_running ic x")
  case False
  have "cycle_update ic x m =
      (entered ic x m)\<lparr>cm_idle_motion_line := or_else (sv_motion_line (cy_stat x)) 0,
        cm_idle_current_line := or_else (sv_current_line (cy_stat x)) 0\<rparr>"
    using False assms by (simp add: cycle_update_def entered_def Let_def)
  with False assms show thesis by (intro stay) simp_all
next
  case True
  let ?e = "entered ic x m"
  let ?p = "if pi_path (psc_info (cm_scanner ?e)) = '''' then None
            else Some (pi_path (psc_info (cm_scanner ?e)))"
  let ?u = "on_calc (StartCycle (cy_now x) None ?p)
     (?e\<lparr>cm_tracker := tracker_begin (cm_idle_motion_line ?e) (cm_idle_current_line ?e)\<rparr>)"
  have "cycle_update ic x m =
      (cycle_track (cy_files x) (or_else (sv_motion_line (cy_stat x)) 0)
        (or_else (sv_current_line (cy_stat x)) 0) ?u)\<lparr>cm_state := Running\<rparr>"
    using True assms by (simp add: cycle_update_def entered_def Let_def)
  with True show thesis by (intro start [of ?u ?p]) simp_all
qed

definition ended :: "interp_consts \<Rightarrow> cycle_sample \<Rightarrow> cycle_machine \<Rightarrow> cycle_machine" where
  "ended ic x m =
     (let m2 = tracked ic x m
      in if \<not> machine_ok (cy_stat x) then on_calc (AbortCycle (cy_now x)) m2
         else on_calc (StopCycle (cy_now x))
                (if reached_end (psc_info (cm_scanner m2)) (cm_tracker m2)
                 then on_calc SignalCycleComplete m2 else m2))"

lemma update_running:
  assumes "cm_state m = Running"
  shows "cycle_update ic x m =
    (if sees_paused x then (on_calc (PauseCycle (cy_now x)) (tracked ic x m))\<lparr>cm_state := Paused\<rparr>
     else if \<not> sees_running ic x then
       go_idle (or_else (sv_motion_line (cy_stat x)) 0) (or_else (sv_current_line (cy_stat x)) 0)
         (ended ic x m)
     else tracked ic x m)"
proof -
  have s: "cm_state (entered ic x m) = Running" using assms by simp
  show ?thesis
    using s unfolding cycle_update_def entered_def [symmetric] Let_def ended_def tracked_def
    by (simp only: cycle_phase.case de_Morgan_conj not_not simp_thms if_distrib)
      (simp split: if_split)
qed

lemma update_paused:
  assumes "cm_state m = Paused"
  shows "cycle_update ic x m =
    (if sees_running ic x then (on_calc (ResumeCycle (cy_now x)) (tracked ic x m))\<lparr>cm_state := Running\<rparr>
     else if \<not> sees_paused x then
       go_idle (or_else (sv_motion_line (cy_stat x)) 0) (or_else (sv_current_line (cy_stat x)) 0)
         (on_calc (AbortCycle (cy_now x)) (tracked ic x m))
     else tracked ic x m)"
proof -
  have s: "cm_state (entered ic x m) = Paused" using assms by simp
  show ?thesis
    using s unfolding cycle_update_def entered_def [symmetric] Let_def tracked_def
    by (simp only: cycle_phase.case de_Morgan_conj not_not simp_thms if_distrib)
      (simp split: if_split)
qed

section \<open>Every event keeps the machine in step\<close>

lemma machine_inv_parts:
  "machine_inv m \<Longrightarrow> calc_ok (cm_calc m)" "machine_inv m \<Longrightarrow> scanner_ok (cm_scanner m)"
  "machine_inv m \<Longrightarrow> in_step (cm_state m) (cm_calc m)"
  by (simp_all add: machine_inv_def)

lemma ended_inv:
  assumes "machine_inv m" "cm_state m = Running"
  shows "calc_ok (cm_calc (ended ic x m))" "scanner_ok (cm_scanner (ended ic x m))"
    "in_step Idle (cm_calc (ended ic x m))"
proof -
  let ?t = "tracked ic x m"
  have t: "calc_ok (cm_calc ?t)" "scanner_ok (cm_scanner ?t)" "in_step Running (cm_calc ?t)"
    using assms machine_inv_parts [OF assms(1)] by simp_all
  have run: "cs_running (ct_state (cm_calc ?t))" using in_step_running [OF t(3)] by simp
  show "calc_ok (cm_calc (ended ic x m))" "scanner_ok (cm_scanner (ended ic x m))"
    using t by (simp_all add: ended_def Let_def ct.step_inv del: calc_step.simps)
  show "in_step Idle (cm_calc (ended ic x m))"
    using run in_step_ops(3,4) signal_running
    by (simp add: ended_def Let_def del: calc_step.simps) blast
qed

lemma update_inv:
  assumes "machine_inv m"
  shows "machine_inv (cycle_update ic x m)"
proof (cases "cm_state m")
  case Idle
  note p = machine_inv_parts [OF assms]
  from Idle show ?thesis
  proof (cases rule: update_idle [where x = x and ic = ic])
    case (start u q)
    then show ?thesis
      using p Idle
      by (simp add: machine_inv_def cycle_track_fields ct.step_inv in_step_ops del: calc_step.simps)
  next
    case stay
    then show ?thesis using p Idle by (simp add: machine_inv_def)
  qed
next
  case Running
  note p = machine_inv_parts [OF assms]
  note e = ended_inv [OF assms Running, of ic x]
  show ?thesis
    using p Running e
    by (simp add: update_running machine_inv_def ct.step_inv in_step_ops del: calc_step.simps)
next
  case Paused
  note p = machine_inv_parts [OF assms]
  have "cs_running (ct_state (cm_calc (tracked ic x m)))"
    using p(3) Paused by (intro in_step_running [of Paused]) simp_all
  then have "in_step Idle (calc_step (cm_calc (tracked ic x m)) (AbortCycle (cy_now x)))"
    using in_step_ops(3) by blast
  with p Paused show ?thesis
    by (simp add: update_paused machine_inv_def ct.step_inv in_step_resume del: calc_step.simps)
qed

lemma disconnect_inv:
  assumes "machine_inv m"
  shows "machine_inv (linuxcnc_gone now m)"
proof (cases "cs_running (ct_state (cm_calc m))")
  case True
  then have "in_step Idle (calc_step (cm_calc m) (AbortCycle now))" using in_step_ops(3) by blast
  with True assms show ?thesis
    by (simp add: linuxcnc_gone_def machine_reset_def machine_inv_def ct.step_inv del: calc_step.simps)
next
  case False
  with assms show ?thesis
    by (simp add: linuxcnc_gone_def machine_reset_def machine_inv_def in_step_def)
qed

interpretation cym: invariant_machine "machine_step ic" machine_inv for ic
proof
  fix m e
  assume m: "machine_inv m"
  show "machine_inv (machine_step ic m e)"
  proof (cases e)
    case (Scanner e)
    with m show ?thesis by (simp add: machine_inv_def scn.step_inv)
  next
    case (ProgramKnown p)
    with m show ?thesis
      by (simp add: machine_inv_def ct.step_inv quiet_step del: calc_step.simps)
  qed (use m in \<open>simp_all add: update_inv disconnect_inv\<close>)
qed

definition machine_start :: "int \<Rightarrow> cycle_machine" where
  "machine_start background = cycle_machine_init calculator_init (scanner_init background)"

lemma machine_start_inv: "machine_inv (machine_start b)"
  using calculator_init_ok scanner_init_ok [of b]
  by (simp add: machine_start_def machine_inv_def cycle_machine_init_def in_step_def)
    (simp add: calculator_init_def)

section \<open>When a part is counted\<close>

text \<open>
  The one situation that makes a part: running before, neither running nor paused
  now, the machine on and not in E-stop, the program end reached, and the cycle not
  a spurious short one.
\<close>

definition part_due :: "interp_consts \<Rightarrow> cycle_machine \<Rightarrow> machine_event \<Rightarrow> bool" where
  "part_due ic m e \<longleftrightarrow>
     (case e of
        Update x \<Rightarrow>
          cm_state m = Running \<and> \<not> sees_running ic x \<and> \<not> sees_paused x \<and> machine_ok (cy_stat x) \<and>
          reached_end (psc_info (cm_scanner (tracked ic x m))) (cm_tracker (tracked ic x m)) \<and>
          \<not> too_short (cy_now x) (cm_calc (tracked ic x m))
      | _ \<Rightarrow> False)"

lemma parts_steps [simp]:
  "ct_parts_produced (start_cycle now None p c) = ct_parts_produced c"
  "ct_parts_produced (pause_cycle now c) = ct_parts_produced c"
  "ct_parts_produced (resume_cycle now c) = ct_parts_produced c"
  "ct_parts_produced (abort_cycle now c) = ct_parts_produced c"
  "ct_parts_produced (signal_cycle_complete c) = ct_parts_produced c"
  by (simp_all add: start_cycle_def pause_cycle_def resume_cycle_def abort_cycle_def
      signal_cycle_complete_def leave_part_open_def Let_def split: option.split)

lemma stop_parts:
  assumes "cs_running (ct_state c)"
  shows "ct_parts_produced (stop_cycle now c) =
    ct_parts_produced c +
      (if cs_cycle_complete_signalled (ct_state c) \<and> \<not> too_short now c then 1 else 0)"
  using assms
  by (cases rule: stop_cycle_cases [where now = now])
    (simp_all add: close_part_def leave_part_open_def)

lemma too_short_signal: "too_short now (signal_cycle_complete c) = too_short now c"
proof -
  have "ct_carry_ms (signal_cycle_complete c) = ct_carry_ms c"
    by (simp add: signal_cycle_complete_def)
  moreover have "elapsed_ms now (signal_cycle_complete c) = elapsed_ms now c"
    using elapsed_ms_signalled [where now = now and c = c and st = "ct_state c" and b = True]
    by (simp add: signal_cycle_complete_def)
  ultimately show ?thesis by (simp add: too_short_def)
qed

lemma ended_parts:
  assumes "machine_inv m" "cm_state m = Running"
  shows "ct_parts_produced (cm_calc (ended ic x m)) =
    ct_parts_produced (cm_calc m) +
      (if machine_ok (cy_stat x) \<and>
          reached_end (psc_info (cm_scanner (tracked ic x m))) (cm_tracker (tracked ic x m)) \<and>
          \<not> too_short (cy_now x) (cm_calc (tracked ic x m)) then 1 else 0)"
proof -
  let ?c = "cm_calc (tracked ic x m)"
  have t: "in_step Running ?c" using assms machine_inv_parts(3) [OF assms(1)] by simp
  have run: "cs_running (ct_state ?c)" "\<not> cs_cycle_complete_signalled (ct_state ?c)"
    using t by (simp_all add: in_step_def)
  have sig: "cs_running (ct_state (signal_cycle_complete ?c))"
    "cs_cycle_complete_signalled (ct_state (signal_cycle_complete ?c))"
    using run by (simp_all add: signal_cycle_complete_def)
  show ?thesis
    using run sig by (simp add: ended_def Let_def stop_parts too_short_signal)
qed

lemma machine_parts:
  assumes "machine_inv m"
  shows "ct_parts_produced (cm_calc (machine_step ic m e)) =
    ct_parts_produced (cm_calc m) + (if part_due ic m e then 1 else 0)"
proof (cases e)
  case (Update x)
  show ?thesis
  proof (cases "cm_state m")
    case Idle
    then show ?thesis
    proof (cases rule: update_idle [where x = x and ic = ic])
      case (start u q)
      then show ?thesis by (simp add: Update part_due_def cycle_track_fields Idle)
    next
      case stay
      then show ?thesis by (simp add: Update part_due_def Idle)
    qed
  next
    case Running
    then show ?thesis
      by (simp add: Update part_due_def update_running ended_parts [OF assms Running])
  next
    case Paused
    then show ?thesis by (simp add: Update part_due_def update_paused)
  qed
next
  case (ProgramKnown p)
  then show ?thesis by (simp add: part_due_def set_program_quiet)
next
  case (Disconnect now)
  then show ?thesis by (simp add: part_due_def linuxcnc_gone_def machine_reset_def)
qed (simp add: part_due_def)

section \<open>Properties\<close>

text \<open>
  C29: the cycle state and the timer never part. After any samples, program scans,
  program changes and losses of LinuxCNC, the calculator is timing a cycle exactly
  while the state is not IDLE, is paused exactly while it is PAUSED, and a
  completion signal never survives the sample that gave it; the calculator and
  scanner invariants hold.
\<close>

theorem state_and_timer_agree:
  fixes es :: "machine_event list"
  shows "let m = foldl (machine_step ic) (machine_start background) es
    in cs_running (ct_state (cm_calc m)) = (cm_state m \<noteq> Idle) \<and>
       cs_paused (ct_state (cm_calc m)) = (cm_state m = Paused) \<and>
       \<not> cs_cycle_complete_signalled (ct_state (cm_calc m)) \<and>
       calc_ok (cm_calc m) \<and> scanner_ok (cm_scanner m)"
  using cym.run_inv [OF machine_start_inv [of background], where es = es and ic = ic]
  by (simp add: Let_def machine_inv_def in_step_def)

text \<open>
  C2: a part is counted at the program end and nowhere else. In any reachable state
  an event adds one part exactly when it is a sample that ends a running (not
  paused) cycle with the machine on, no E-stop, the program end reached, and at
  least a second of cycle time or an earlier part of it on the clock; an E-stop, a
  machine off, a stop in feed hold or a lost LinuxCNC never adds one.
\<close>

theorem part_counted_iff:
  fixes es :: "machine_event list"
  shows "let m = foldl (machine_step ic) (machine_start background) es
    in ct_parts_produced (cm_calc (machine_step ic m e)) =
         ct_parts_produced (cm_calc m) + (if part_due ic m e then 1 else 0)"
  using machine_parts [OF cym.run_inv [OF machine_start_inv]] by (simp add: Let_def)

text \<open>
  A cycle never uses a half-read program. When a cycle starts, runs or ends, the program
  landmarks it uses are those of the loaded file: unless the wait for a background
  scan ran into its time limit, no scan is pending once the sample was processed.
\<close>

theorem cycle_waits_for_scan:
  fixes es :: "machine_event list" and ic :: interp_consts and background :: int
  defines "m \<equiv> foldl (machine_step ic) (machine_start background) es"
  assumes "\<not> cy_timed_out x"
    and "sees_running ic x \<or> sees_paused x \<or> cm_state m \<noteq> Idle"
  shows "\<not> scanner_pending (cm_scanner (tracked ic x m)) \<and>
    pi_path (psc_info (cm_scanner (tracked ic x m))) = fst (psc_sig (cm_scanner (tracked ic x m)))"
proof
  have inv: "machine_inv m" unfolding m_def by (rule cym.run_inv) (rule machine_start_inv)
  have scn: "scanner_ok (cm_scanner m)" using inv by (rule machine_inv_parts)
  have same: "cm_scanner (tracked ic x m) = cm_scanner (entered ic x m)"
    by (simp add: tracked_def cycle_track_fields)
  show "\<not> scanner_pending (cm_scanner (tracked ic x m))"
    unfolding same entered_def await_scan_def using assms(2,3) scanner_wait_not_pending [OF scn]
    by simp
  show "pi_path (psc_info (cm_scanner (tracked ic x m))) = fst (psc_sig (cm_scanner (tracked ic x m)))"
    using tracked_fields(6) [OF scn, of ic x] by (simp add: scanner_ok_def)
qed

definition demo_stat :: "bool \<Rightarrow> stat_view" where
  "demo_stat running =
     \<lparr>sv_task_state = 4, sv_task_mode = 2, sv_interp_state = (if running then 2 else 1),
      sv_paused = False, sv_estop = Some False, sv_file = Some ''a.ngc'', sv_read_line = Some 1,
      sv_motion_line = Some 1, sv_current_line = Some 1\<rparr>"

definition demo_cycle_sample :: "ns \<Rightarrow> bool \<Rightarrow> cycle_sample" where
  "demo_cycle_sample now running =
     \<lparr>cy_now = now, cy_stat = demo_stat running, cy_in_sub = False, cy_files = demo_files,
      cy_timed_out = False\<rparr>"

definition demo_consts :: interp_consts where "demo_consts = \<lparr>ic_idle = 1, ic_paused = 3\<rparr>"

lemma cycle_waits_for_scan_witness:
  "\<not> scanner_pending (cm_scanner (tracked demo_consts (demo_cycle_sample 1 True)
     (foldl (machine_step demo_consts) (machine_start 5) [Scanner (LoadFile demo_files ''a.ngc'')])))"
  using cycle_waits_for_scan [of "demo_cycle_sample 1 True" demo_consts 5
      "[Scanner (LoadFile demo_files ''a.ngc'')]"]
  by (simp add: demo_cycle_sample_def demo_stat_def demo_consts_def is_program_running_def
      state_on_def mode_auto_def)

end
