(* ===== verification/Packet_Gate.thy ===== *)
theory Packet_Gate
  imports Agent_Prelude "HOL-Library.Sublist"
begin

text \<open>
  When a status packet goes out: \<open>fault_signature\<close>, \<open>PacketGate\<close> and \<open>LoopLag\<close> of
  \<open>agent_packets.py\<close>, and one pass of the main loop of \<open>status.py\<close> through the gate.
\<close>

section \<open>Instants\<close>

text \<open>Clock readings with the \<open>float("-inf")\<close> a timer starts from.\<close>

datatype instant = Never | At rat

instantiation instant :: linorder
begin

fun less_eq_instant :: "instant \<Rightarrow> instant \<Rightarrow> bool" where
  "less_eq_instant Never _ = True"
| "less_eq_instant (At _) Never = False"
| "less_eq_instant (At a) (At b) = (a \<le> b)"

definition less_instant :: "instant \<Rightarrow> instant \<Rightarrow> bool" where
  "less_instant a b \<longleftrightarrow> a \<le> b \<and> \<not> b \<le> (a :: instant)"

instance
proof
  fix x y z :: instant
  show "x < y \<longleftrightarrow> x \<le> y \<and> \<not> y \<le> x" by (simp add: less_instant_def)
  show "x \<le> x" by (cases x) auto
  show "x \<le> y \<Longrightarrow> y \<le> z \<Longrightarrow> x \<le> z" by (cases x; cases y; cases z) auto
  show "x \<le> y \<Longrightarrow> y \<le> x \<Longrightarrow> x = y" by (cases x; cases y) auto
  show "x \<le> y \<or> y \<le> x" by (cases x; cases y) auto
qed

end

lemma less_instant_simps [simp]:
  "Never < At a" "At a < At b \<longleftrightarrow> a < b" "\<not> x < Never"
  by (auto simp: less_instant_def)

text \<open>\<open>now - last < period\<close>, false when \<open>last\<close> is \<open>-inf\<close>.\<close>

fun later :: "instant \<Rightarrow> rat \<Rightarrow> instant" where
  "later Never d = Never"
| "later (At t) d = At (t + d)"

definition inside_period :: "rat \<Rightarrow> instant \<Rightarrow> rat \<Rightarrow> bool" where
  "inside_period now last_at period \<longleftrightarrow> At now < later last_at period"

lemma inside_period_simps [simp]:
  "\<not> inside_period now Never d" "inside_period now (At t) d \<longleftrightarrow> now - t < d"
  by (auto simp: inside_period_def)

section \<open>fault\_signature\<close>

text \<open>
  What is read of the polled \<open>linuxcnc.stat\<close>: an attribute that cannot be read is
  \<open>None\<close> and takes the default the code gives. A joint that is no dictionary is
  \<open>None\<close> and empties the whole joint list, as the exception handler does.
\<close>

record joint_view =
  jv_fault :: "bool option"
  jv_min_hard_limit :: "bool option"
  jv_max_hard_limit :: "bool option"

record fault_view =
  fw_estop :: "bool option"
  fw_task_state :: "int option"
  fw_exec_state :: "int option"
  fw_joints :: "int option"
  fw_joint :: "joint_view option list option"
  fw_state :: "int option"
  fw_echo_serial_number :: "int option"

type_synonym fault_sig = "bool \<times> int \<times> bool \<times> (bool \<times> bool) list \<times> int option"

fun joint_faults :: "joint_view option list \<Rightarrow> (bool \<times> bool) list option" where
  "joint_faults [] = Some []"
| "joint_faults (None # js) = None"
| "joint_faults (Some j # js) =
     (case joint_faults js of
        None \<Rightarrow> None
      | Some fs \<Rightarrow>
          Some ((or_else (jv_fault j) False,
                 or_else (jv_min_hard_limit j) False \<or> or_else (jv_max_hard_limit j) False) # fs))"

definition fault_signature :: "int \<Rightarrow> int \<Rightarrow> fault_view \<Rightarrow> fault_sig" where
  "fault_signature exec_error rcs_error st =
     (let n = or_else (fw_joints st) 0;
          raw = or_else (fw_joint st) [];
          joints = (case joint_faults (take (nat n) raw) of None \<Rightarrow> [] | Some fs \<Rightarrow> fs)
      in (or_else (fw_estop st) False,
          or_else (fw_task_state st) 0,
          or_else (fw_exec_state st) 0 = exec_error,
          joints,
          if or_else (fw_state st) 0 = rcs_error then fw_echo_serial_number st else None))"

section \<open>PacketGate\<close>

text \<open>The sampled state is the text of the cycle state, \<open>""\<close> before the first sample.\<close>

record packet_gate =
  pg_poll :: rat
  pg_heartbeat :: rat
  pg_last_sampled_state :: string
  pg_last_poll :: instant
  pg_prev_state :: string
  pg_idle_sent :: bool
  pg_last_heartbeat :: rat
  pg_last_fault :: "fault_sig option"
  pg_fault_pending :: bool

definition gate_init :: "rat \<Rightarrow> rat \<Rightarrow> packet_gate" where
  "gate_init poll_interval_s idle_heartbeat_interval_s =
     \<lparr>pg_poll = poll_interval_s, pg_heartbeat = idle_heartbeat_interval_s,
      pg_last_sampled_state = '''', pg_last_poll = Never, pg_prev_state = '''',
      pg_idle_sent = False, pg_last_heartbeat = 0, pg_last_fault = None,
      pg_fault_pending = False\<rparr>"

definition gate_tick ::
  "rat \<Rightarrow> string \<Rightarrow> fault_sig option \<Rightarrow> packet_gate \<Rightarrow> bool \<times> packet_gate" where
  "gate_tick now state fault_sig g =
     (let state_change = state \<noteq> pg_last_sampled_state g;
          g1 = g\<lparr>pg_last_sampled_state := state\<rparr>;
          g2 = (if fault_sig \<noteq> None \<and> fault_sig \<noteq> pg_last_fault g1 then
                  (if pg_last_fault g1 \<noteq> None then g1\<lparr>pg_fault_pending := True\<rparr> else g1)
                    \<lparr>pg_last_fault := fault_sig\<rparr>
                else g1)
      in if \<not> (state_change \<or> pg_fault_pending g2) \<and> inside_period now (pg_last_poll g2) (pg_poll g2)
         then (False, g2)
         else (True, g2\<lparr>pg_last_poll := At now\<rparr>))"

definition gate_should_send :: "rat \<Rightarrow> string \<Rightarrow> bool \<Rightarrow> packet_gate \<Rightarrow> bool \<times> packet_gate" where
  "gate_should_send now state has_errors g =
     (let changed = state \<noteq> pg_prev_state g;
          g1 = g\<lparr>pg_prev_state := state\<rparr>
      in if state \<noteq> ''IDLE'' then (True, g1\<lparr>pg_idle_sent := False\<rparr>)
         else
           (let g2 = (if changed then g1\<lparr>pg_idle_sent := False, pg_last_heartbeat := now\<rparr> else g1)
            in if pg_idle_sent g2 \<and> \<not> has_errors \<and> \<not> pg_fault_pending g2 \<and>
                  now - pg_last_heartbeat g2 < pg_heartbeat g2
               then (False, g2) else (True, g2)))"

definition gate_sent :: "rat \<Rightarrow> string \<Rightarrow> packet_gate \<Rightarrow> packet_gate" where
  "gate_sent now state g =
     (let g1 = g\<lparr>pg_fault_pending := False\<rparr>
      in if state = ''IDLE'' then g1\<lparr>pg_idle_sent := True, pg_last_heartbeat := now\<rparr> else g1)"

text \<open>
  One sample of the main loop: cadence, suppression, build, send. \<open>built\<close> is whether
  collecting and serialising the payload succeeded; only then \<open>sent\<close> is called.
\<close>

record gate_sample =
  gs_now :: rat
  gs_state :: string
  gs_fault :: "fault_sig option"
  gs_errors :: bool
  gs_built :: bool

definition loop_sample :: "gate_sample \<Rightarrow> packet_gate \<Rightarrow> bool \<times> packet_gate" where
  "loop_sample x g =
     (case gate_tick (gs_now x) (gs_state x) (gs_fault x) g of
        (False, g1) \<Rightarrow> (False, g1)
      | (True, g1) \<Rightarrow>
          (case gate_should_send (gs_now x) (gs_state x) (gs_errors x) g1 of
             (False, g2) \<Rightarrow> (False, g2)
           | (True, g2) \<Rightarrow>
               if gs_built x then (True, gate_sent (gs_now x) (gs_state x) g2) else (False, g2)))"

lemmas gate_defs = gate_tick_def gate_should_send_def gate_sent_def loop_sample_def

subsection \<open>Never silent for long\<close>

text \<open>The state together with the time of the last packet.\<close>

definition beat_step :: "packet_gate \<times> rat option \<Rightarrow> gate_sample \<Rightarrow> packet_gate \<times> rat option" where
  "beat_step s x =
     (case loop_sample x (fst s) of (sent, g) \<Rightarrow> (g, if sent then Some (gs_now x) else snd s))"

text \<open>
  The invariant, with the time of the last sample: while quiet after a packet, that
  packet is the heartbeat the next one is counted from.
\<close>

definition beat_ok :: "rat \<Rightarrow> packet_gate \<times> rat option \<Rightarrow> bool" where
  "beat_ok now s \<longleftrightarrow>
     (case s of (g, last_sent) \<Rightarrow>
        0 < pg_poll g \<and> 0 < pg_heartbeat g \<and>
        (pg_idle_sent g \<longrightarrow> last_sent = Some (pg_last_heartbeat g)) \<and>
        (\<exists>lp ls. pg_last_poll g = At lp \<and> last_sent = Some ls \<and>
           now - lp < pg_poll g \<and> lp - ls < pg_heartbeat g))"

definition beat_start :: "packet_gate \<times> rat option \<Rightarrow> bool" where
  "beat_start s \<longleftrightarrow>
     (case s of (g, last_sent) \<Rightarrow>
        0 < pg_poll g \<and> 0 < pg_heartbeat g \<and> pg_last_poll g = Never \<and> \<not> pg_idle_sent g)"

lemma beat_step_ok:
  assumes "beat_start s \<or> beat_ok t s" and "gs_built x"
  shows "beat_ok (gs_now x) (beat_step s x)"
proof -
  obtain g ls where s: "s = (g, ls)" by (cases s)
  obtain due g1 where tick: "gate_tick (gs_now x) (gs_state x) (gs_fault x) g = (due, g1)"
    by (cases "gate_tick (gs_now x) (gs_state x) (gs_fault x) g")
  have g1: "pg_poll g1 = pg_poll g" "pg_heartbeat g1 = pg_heartbeat g"
    "pg_idle_sent g1 = pg_idle_sent g" "pg_last_heartbeat g1 = pg_last_heartbeat g"
    using tick by (auto simp: gate_tick_def Let_def split: if_splits)
  show ?thesis
  proof (cases due)
    case False
    then have lp: "pg_last_poll g1 = pg_last_poll g" "inside_period (gs_now x) (pg_last_poll g) (pg_poll g)"
      using tick by (auto simp: gate_tick_def Let_def split: if_splits)
    have "\<not> beat_start s" using lp(2) s by (auto simp: beat_start_def)
    with assms(1) have "beat_ok t s" by simp
    with False tick g1 lp s show ?thesis
      by (auto simp: beat_ok_def beat_step_def loop_sample_def)
  next
    case True
    then have lp: "pg_last_poll g1 = At (gs_now x)"
      using tick by (auto simp: gate_tick_def Let_def split: if_splits)
    have pos: "0 < pg_poll g" "0 < pg_heartbeat g"
      and quiet: "pg_idle_sent g \<Longrightarrow> ls = Some (pg_last_heartbeat g)"
      using assms(1) s by (auto simp: beat_start_def beat_ok_def)
    obtain send g2 where should:
      "gate_should_send (gs_now x) (gs_state x) (gs_errors x) g1 = (send, g2)"
      by (cases "gate_should_send (gs_now x) (gs_state x) (gs_errors x) g1")
    have g2: "pg_poll g2 = pg_poll g" "pg_heartbeat g2 = pg_heartbeat g"
      "pg_last_poll g2 = At (gs_now x)"
      "gs_state x \<noteq> ''IDLE'' \<Longrightarrow> \<not> pg_idle_sent g2"
      using should g1 lp by (auto simp: gate_should_send_def Let_def split: if_splits)
    show ?thesis
    proof (cases send)
      case True
      with \<open>due\<close> tick should assms(2) s g2 pos show ?thesis
        by (auto simp: beat_ok_def beat_step_def loop_sample_def gate_sent_def Let_def)
    next
      case False
      then have "pg_idle_sent g2" "pg_idle_sent g" "pg_last_heartbeat g2 = pg_last_heartbeat g"
        "gs_now x - pg_last_heartbeat g < pg_heartbeat g"
        using should g1 by (auto simp: gate_should_send_def Let_def split: if_splits)
      with False \<open>due\<close> tick should s g2 pos quiet show ?thesis
        by (auto simp: beat_ok_def beat_step_def loop_sample_def)
    qed
  qed
qed

lemma tick_periods:
  "gate_tick now state sig g = (due, g1) \<Longrightarrow> pg_poll g1 = pg_poll g \<and> pg_heartbeat g1 = pg_heartbeat g"
  by (auto simp: gate_tick_def Let_def split: if_splits)

lemma should_send_periods:
  "gate_should_send now state e g = (send, g1) \<Longrightarrow>
   pg_poll g1 = pg_poll g \<and> pg_heartbeat g1 = pg_heartbeat g"
  by (auto simp: gate_should_send_def Let_def split: if_splits)

lemma loop_sample_periods:
  "pg_poll (snd (loop_sample x g)) = pg_poll g \<and> pg_heartbeat (snd (loop_sample x g)) = pg_heartbeat g"
proof -
  obtain due g1 where t: "gate_tick (gs_now x) (gs_state x) (gs_fault x) g = (due, g1)"
    by (cases "gate_tick (gs_now x) (gs_state x) (gs_fault x) g")
  obtain send g2 where s: "gate_should_send (gs_now x) (gs_state x) (gs_errors x) g1 = (send, g2)"
    by (cases "gate_should_send (gs_now x) (gs_state x) (gs_errors x) g1")
  from t s tick_periods [OF t] should_send_periods [OF s] show ?thesis
    by (cases due; cases send) (simp_all add: loop_sample_def gate_sent_def Let_def)
qed

lemma beats_periods:
  "pg_poll (fst (foldl beat_step s xs)) = pg_poll (fst s) \<and>
   pg_heartbeat (fst (foldl beat_step s xs)) = pg_heartbeat (fst s)"
proof (induction xs arbitrary: s)
  case (Cons x xs)
  have "fst (beat_step s x) = snd (loop_sample x (fst s))"
    by (simp add: beat_step_def split: prod.split)
  with Cons.IH [of "beat_step s x"] loop_sample_periods [of x "fst s"] show ?case by simp
qed simp

lemma beats_ok:
  "\<forall>x\<in>set xs. gs_built x \<Longrightarrow> beat_start s \<Longrightarrow> xs \<noteq> [] \<Longrightarrow>
   beat_ok (gs_now (last xs)) (foldl beat_step s xs)"
proof (induction xs rule: rev_induct)
  case (snoc x xs)
  then show ?case
    by (cases "xs = []") (auto intro: beat_step_ok)
qed simp

subsection \<open>A fault edge is never suppressed\<close>

definition gate_run :: "gate_sample list \<Rightarrow> packet_gate \<Rightarrow> packet_gate" where
  "gate_run xs g = foldl (\<lambda>g x. snd (loop_sample x g)) g xs"

lemma tick_pending:
  "pg_fault_pending g \<Longrightarrow>
   fst (gate_tick now state sig g) \<and> pg_fault_pending (snd (gate_tick now state sig g))"
  by (auto simp: gate_tick_def Let_def)

lemma should_send_pending:
  "pg_fault_pending g \<Longrightarrow>
   fst (gate_should_send now state e g) \<and> pg_fault_pending (snd (gate_should_send now state e g))"
  by (auto simp: gate_should_send_def Let_def)

lemma tick_edge:
  "pg_last_fault g = Some f \<Longrightarrow> sig = Some f' \<Longrightarrow> f' \<noteq> f \<Longrightarrow>
   fst (gate_tick now state sig g) \<and> pg_fault_pending (snd (gate_tick now state sig g))"
  by (auto simp: gate_tick_def Let_def)

lemma loop_sample_pending:
  assumes "fst (gate_tick (gs_now x) (gs_state x) (gs_fault x) g)"
    and "pg_fault_pending (snd (gate_tick (gs_now x) (gs_state x) (gs_fault x) g))"
  shows "fst (loop_sample x g) = gs_built x"
    and "pg_fault_pending (snd (loop_sample x g)) = (\<not> gs_built x)"
proof -
  obtain g1 where t: "gate_tick (gs_now x) (gs_state x) (gs_fault x) g = (True, g1)"
    using assms(1) by (metis prod.collapse)
  with assms have p: "pg_fault_pending g1" by simp
  obtain g2 where s: "gate_should_send (gs_now x) (gs_state x) (gs_errors x) g1 = (True, g2)"
    "pg_fault_pending g2"
    using should_send_pending [OF p] by (metis prod.collapse)
  show "fst (loop_sample x g) = gs_built x"
    "pg_fault_pending (snd (loop_sample x g)) = (\<not> gs_built x)"
    using t s by (simp_all add: loop_sample_def gate_sent_def Let_def)
qed

lemma gate_run_pending:
  assumes "pg_fault_pending g" "\<forall>x\<in>set xs. \<not> gs_built x"
  shows "pg_fault_pending (gate_run xs g)"
  using assms(2)
proof (induction xs rule: rev_induct)
  case (snoc x xs)
  then show ?case
    using loop_sample_pending(2) [OF conjunct1 [OF tick_pending] conjunct2 [OF tick_pending]]
    by (simp add: gate_run_def)
qed (simp add: gate_run_def assms)

section \<open>LoopLag\<close>

text \<open>The deque of \<open>(t, lag_ms)\<close>; the window length is an argument.\<close>

type_synonym lags = "(rat \<times> rat) list"

definition lag_add :: "rat \<Rightarrow> rat \<Rightarrow> rat \<Rightarrow> lags \<Rightarrow> lags" where
  "lag_add window_s now lag_ms lags =
     dropWhile (\<lambda>x. fst x < now - window_s) (lags @ [(now, max 0 lag_ms)])"

definition percentile :: "rat \<Rightarrow> rat list \<Rightarrow> int" where
  "percentile p v = round_half_even (v ! min (length v - 1) (nat \<lfloor>p * of_nat (length v)\<rfloor>))"

definition lag_stats :: "lags \<Rightarrow> (int \<times> int \<times> int) option" where
  "lag_stats lags =
     (if lags = [] then None
      else (let v = sort (map snd lags)
            in Some (percentile (1 / 2) v, percentile (99 / 100) v, round_half_even (last v))))"

definition lag_run :: "rat \<Rightarrow> (rat \<times> rat) list \<Rightarrow> lags" where
  "lag_run window_s xs = foldl (\<lambda>ls (now, lag). lag_add window_s now lag ls) [] xs"

lemma lag_run_snoc: "lag_run w (xs @ [(now, lag)]) = lag_add w now lag (lag_run w xs)"
  by (simp add: lag_run_def)

lemma dropWhile_append_filter:
  "sorted_wrt (\<le>) (map fst xs) \<Longrightarrow>
   dropWhile (\<lambda>x. fst x < (c::rat)) xs = filter (\<lambda>x. c \<le> fst x) xs"
proof (induction xs)
  case (Cons x xs)
  show ?case
  proof (cases "fst x < c")
    case False
    with Cons.prems have "\<forall>y\<in>set xs. c \<le> fst y" by fastforce
    with False show ?thesis by simp
  qed (use Cons in simp)
qed simp

text \<open>With a clock that never goes back, the window holds exactly its samples.\<close>

lemma lag_run_window:
  assumes "sorted_wrt (\<le>) (map fst xs)" "xs \<noteq> []" "0 \<le> w"
  shows "lag_run w xs =
    map (\<lambda>(t, l). (t, max 0 l)) (filter (\<lambda>x. fst (last xs) - w \<le> fst x) xs)"
  using assms(1,2)
proof (induction xs rule: rev_induct)
  case (snoc x xs)
  obtain now lag where x: "x = (now, lag)" by (cases x)
  have srt: "sorted_wrt (\<le>) (map fst xs)" and le: "\<forall>y\<in>set xs. fst y \<le> now"
    using snoc.prems by (auto simp: sorted_wrt_append x)
  define f where "f = (\<lambda>(t::rat, l::rat). (t, max 0 l))"
  have f: "fst (f y) = fst y" for y by (cases y) (simp add: f_def)
  define c where "c = now - w"
  show ?case
  proof (cases "xs = []")
    case True
    then show ?thesis using assms(3) by (simp add: x lag_run_def lag_add_def)
  next
    case False
    let ?d = "fst (last xs) - w"
    have d: "?d \<le> c" using le False by (simp add: c_def)
    have IH: "lag_run w xs = map f (filter (\<lambda>y. ?d \<le> fst y) xs)"
      unfolding f_def using snoc.IH [OF srt False] .
    let ?ys = "map f (filter (\<lambda>y. ?d \<le> fst y) xs) @ [(now, max 0 lag)]"
    have "sorted_wrt (\<le>) (map fst ?ys)"
      using srt le by (auto simp: sorted_wrt_append sorted_wrt_map f sorted_wrt_filter comp_def)
    then have "dropWhile (\<lambda>y. fst y < c) ?ys = filter (\<lambda>y. c \<le> fst y) ?ys"
      by (rule dropWhile_append_filter)
    also have "\<dots> = map f (filter (\<lambda>y. c \<le> fst y) xs) @ [(now, max 0 lag)]"
    proof -
      have "filter (\<lambda>y. ?d \<le> fst y \<and> c \<le> fst y) xs = filter (\<lambda>y. c \<le> fst y) xs"
        using d by (intro filter_cong) auto
      then show ?thesis using assms(3) by (simp add: filter_map comp_def f c_def)
    qed
    finally show ?thesis
      using assms(3) by (simp add: x lag_run_snoc lag_add_def IH c_def f_def)
  qed
qed simp

lemma percentile_index:
  "p \<le> q \<Longrightarrow> 0 \<le> p \<Longrightarrow> min n (nat \<lfloor>p * of_nat k\<rfloor>) \<le> min n (nat \<lfloor>q * of_nat k\<rfloor>)" for p q :: rat
  by (intro min.mono nat_mono floor_mono mult_right_mono) auto

lemma percentile_mono:
  assumes "sorted v" "v \<noteq> []" "0 \<le> p" "p \<le> q"
  shows "percentile p v \<le> percentile q v" and "percentile q v \<le> round_half_even (last v)"
proof -
  let ?i = "\<lambda>p. min (length v - 1) (nat \<lfloor>p * of_nat (length v)\<rfloor>)"
  have len: "?i x < length v" for x using assms(2) by (cases v) auto
  have "v ! ?i p \<le> v ! ?i q"
    using assms(1) percentile_index [OF assms(4,3)] len by (intro sorted_nth_mono)
  then show "percentile p v \<le> percentile q v"
    unfolding percentile_def by (rule round_half_even_mono)
  have "v ! ?i q \<le> v ! (length v - 1)"
    using assms(1) len assms(2) by (intro sorted_nth_mono) auto
  then show "percentile q v \<le> round_half_even (last v)"
    unfolding percentile_def by (intro round_half_even_mono) (simp add: last_conv_nth assms(2))
qed

section \<open>Properties\<close>

text \<open>
  C24: a fault edge always goes out. When a sample's fault signature differs from the
  one before, that very sample sends a packet whatever the cadence and the idle
  suppression say; if its payload cannot be built, no later sample without a
  packet loses the edge, and the first one whose payload is built sends.
\<close>

theorem fault_edge_is_sent:
  assumes "pg_last_fault g = Some f" "gs_fault x = Some f'" "f' \<noteq> f"
    and "\<not> gs_built x" "\<forall>y\<in>set ys. \<not> gs_built y" "gs_built z"
  shows "fst (loop_sample (x\<lparr>gs_built := True\<rparr>) g) \<and>
    fst (loop_sample z (gate_run (x # ys) g))"
proof
  have edge: "fst (gate_tick (gs_now x) (gs_state x) (gs_fault x) g)"
    "pg_fault_pending (snd (gate_tick (gs_now x) (gs_state x) (gs_fault x) g))"
    using tick_edge [OF assms(1-3)] by blast+
  show "fst (loop_sample (x\<lparr>gs_built := True\<rparr>) g)"
    using loop_sample_pending(1) [of "x\<lparr>gs_built := True\<rparr>" g] edge by simp
  have "pg_fault_pending (snd (loop_sample x g))"
    using loop_sample_pending(2) [OF edge] assms(4) by simp
  from gate_run_pending [OF this assms(5)]
  have p: "pg_fault_pending (gate_run (x # ys) g)" by (simp add: gate_run_def)
  show "fst (loop_sample z (gate_run (x # ys) g))"
    using loop_sample_pending(1) [OF conjunct1 [OF tick_pending [OF p]] conjunct2 [OF tick_pending [OF p]]]
      assms(6) by simp
qed

definition demo_sig :: "bool \<Rightarrow> fault_sig" where
  "demo_sig estop = (estop, 4, False, [], None)"

definition demo_sample :: "rat \<Rightarrow> bool \<Rightarrow> bool \<Rightarrow> gate_sample" where
  "demo_sample now estop built =
     \<lparr>gs_now = now, gs_state = ''IDLE'', gs_fault = Some (demo_sig estop), gs_errors = False,
      gs_built = built\<rparr>"

lemma fault_edge_is_sent_witness:
  "fst (loop_sample (demo_sample (3 / 10) False True)
     (gate_run [demo_sample (2 / 10) True False] (gate_run [demo_sample (1 / 10) False True] (gate_init 1 30))))"
proof -
  have "pg_last_fault (gate_run [demo_sample (1 / 10) False True] (gate_init 1 30)) =
      Some (demo_sig False)"
    by code_simp
  from fault_edge_is_sent [OF this, of "demo_sample (2 / 10) True False" "demo_sig True" "[]"
      "demo_sample (3 / 10) False True"]
  show ?thesis by (simp add: demo_sample_def demo_sig_def)
qed

text \<open>
  The machine is never silent for long. As long as payloads can be built, at
  every sample the last packet went out less than the poll interval plus the idle
  heartbeat interval ago, whatever states, faults and errors were sampled.
\<close>

theorem heartbeat_bound:
  assumes "0 < poll" "0 < heartbeat" "xs \<noteq> []" "\<forall>x\<in>set xs. gs_built x"
  shows "\<exists>t. snd (foldl beat_step (gate_init poll heartbeat, None) xs) = Some t \<and>
    gs_now (last xs) - t < poll + heartbeat"
proof -
  have "beat_start (gate_init poll heartbeat, None)"
    using assms(1,2) by (simp add: beat_start_def gate_init_def)
  from beats_ok [OF assms(4) this assms(3)]
  have ok: "beat_ok (gs_now (last xs)) (foldl beat_step (gate_init poll heartbeat, None) xs)" .
  obtain g ls where g: "foldl beat_step (gate_init poll heartbeat, None) xs = (g, ls)"
    by (cases "foldl beat_step (gate_init poll heartbeat, None) xs")
  with beats_periods [of "(gate_init poll heartbeat, None)" xs]
  have "pg_poll g = poll" "pg_heartbeat g = heartbeat" by (simp_all add: gate_init_def)
  with ok g show ?thesis by (auto simp: beat_ok_def)
qed

lemma heartbeat_bound_witness:
  "\<exists>t. snd (foldl beat_step (gate_init 1 30, None)
     [demo_sample 1 False True, demo_sample 2 False True]) = Some t \<and> 2 - t < 31"
  using heartbeat_bound [of 1 30 "[demo_sample 1 False True, demo_sample 2 False True]"]
  by (simp add: demo_sample_def)

text \<open>
  The loop-lag figures are honest. With a clock that never goes back, the lags
  kept are exactly those of the samples of the last window, negative ones as 0, and
  the reported median, 99th percentile and maximum are ordered.
\<close>

theorem loop_lag_window:
  assumes "sorted_wrt (\<le>) (map fst xs)" "xs \<noteq> []" "0 \<le> w"
  shows "lag_run w xs =
      map (\<lambda>(t, l). (t, max 0 l)) (filter (\<lambda>x. fst (last xs) - w \<le> fst x) xs) \<and>
    (\<exists>p50 p99 m. lag_stats (lag_run w xs) = Some (p50, p99, m) \<and> p50 \<le> p99 \<and> p99 \<le> m)"
proof
  show eq: "lag_run w xs =
      map (\<lambda>(t, l). (t, max 0 l)) (filter (\<lambda>x. fst (last xs) - w \<le> fst x) xs)"
    using assms by (rule lag_run_window)
  have "last xs \<in> set (filter (\<lambda>x. fst (last xs) - w \<le> fst x) xs)"
    using assms(2,3) by simp
  then have ne: "lag_run w xs \<noteq> []" unfolding eq by (metis empty_iff list.map_disc_iff list.set(1))
  let ?v = "sort (map snd (lag_run w xs))"
  have "?v \<noteq> []" using ne by (metis length_0_conv length_map length_sort)
  from percentile_mono [OF sorted_sort this, of "1 / 2" "99 / 100"]
  show "\<exists>p50 p99 m. lag_stats (lag_run w xs) = Some (p50, p99, m) \<and> p50 \<le> p99 \<and> p99 \<le> m"
    using ne by (simp add: lag_stats_def Let_def)
qed

lemma loop_lag_window_witness:
  "lag_run 60 [(0, 5), (50, -1), (100, 7)] = [(50, 0), (100, 7)]"
  using loop_lag_window [of "[(0, 5), (50, -1), (100, 7)]" 60] by simp

end
