(* ===== verification/Gcode_Sender.thy ===== *)
theory Gcode_Sender
  imports Agent_Prelude
begin

text \<open>
  Streaming the loaded program, \<open>agent_gcode.py\<close>: how a text is cut into packets
  (\<open>split_content\<close>, \<open>_stream\<close>) and \<open>GcodeFileSender\<close>, whose worker thread runs beside
  the status loop. Program text is a list of code points: its size in UTF-8 matters
  here. JSON encoding, SHA-256 and the socket are not modelled beyond sizes and
  outcomes.
\<close>

section \<open>Sizes\<close>

type_synonym text_points = "nat list"

definition utf8_size :: "nat \<Rightarrow> nat" where
  "utf8_size c = (if c < 0x80 then 1 else if c < 0x800 then 2 else if c < 0x10000 then 3 else 4)"

text \<open>
  \<open>len(json.dumps(piece, ensure_ascii=False).encode("utf-8"))\<close>: quote and backslash and
  five control characters take a two-character escape, the other control characters
  \<open>\u00XX\<close>. The text was decoded with \<open>errors="replace"\<close>, so it has no surrogates.
\<close>

definition json_char_size :: "nat \<Rightarrow> nat" where
  "json_char_size c =
     (if c \<in> {0x22, 0x5C, 8, 9, 10, 12, 13} then 2 else if c < 0x20 then 6 else utf8_size c)"

definition json_size :: "text_points \<Rightarrow> nat" where
  "json_size piece = 2 + sum_list (map json_char_size piece)"

lemma json_char_size_range: "1 \<le> json_char_size c \<and> json_char_size c \<le> 6"
  by (simp add: json_char_size_def utf8_size_def)

lemma json_size_append: "json_size (xs @ ys) = json_size xs + sum_list (map json_char_size ys)"
  by (simp add: json_size_def)

lemma json_size_take_mono: "i \<le> j \<Longrightarrow> json_size (take i xs) \<le> json_size (take j xs)"
proof -
  assume "i \<le> j"
  then have "take j xs = take i xs @ take (j - i) (drop i xs)"
    by (metis le_add_diff_inverse take_add)
  then show ?thesis by (metis json_size_append le_add1)
qed

section \<open>split\_content\<close>

definition fits :: "nat \<Rightarrow> text_points \<Rightarrow> bool" where
  "fits budget piece \<longleftrightarrow> json_size piece \<le> budget"

text \<open>The binary search: the largest count in \<open>[lo, hi]\<close> that fits, if \<open>lo\<close> does.\<close>

function largest_fit :: "nat \<Rightarrow> text_points \<Rightarrow> nat \<Rightarrow> nat \<Rightarrow> nat" where
  "largest_fit budget rest lo hi =
     (if lo < hi then
        (let mid = (lo + hi + 1) div 2
         in if fits budget (take mid rest) then largest_fit budget rest mid hi
            else largest_fit budget rest lo (mid - 1))
      else lo)"
  by pat_completeness auto
termination
  by (relation "measure (\<lambda>(budget, rest, lo, hi). hi - lo)") (auto simp: Let_def)

declare largest_fit.simps [simp del]

definition piece_length :: "nat \<Rightarrow> nat \<Rightarrow> text_points \<Rightarrow> nat" where
  "piece_length budget max_chars rest =
     (let n = min max_chars (length rest)
      in if \<not> fits budget (take n rest) then largest_fit budget rest 1 (n - 1) else n)"

lemma largest_fit_ge: "lo \<le> largest_fit budget rest lo hi"
proof (induction budget rest lo hi rule: largest_fit.induct)
  case (1 budget rest lo hi)
  show ?case
  proof (cases "lo < hi")
    case True
    then have "lo \<le> (lo + hi + 1) div 2" by simp
    with 1 True show ?thesis
      by (subst largest_fit.simps) (auto simp: Let_def intro: order_trans)
  qed (subst largest_fit.simps, simp)
qed

lemma piece_length_pos: "0 < max_chars \<Longrightarrow> rest \<noteq> [] \<Longrightarrow> 0 < piece_length budget max_chars rest"
  using largest_fit_ge [of 1 budget rest] by (auto simp: piece_length_def Let_def Suc_le_eq)

text \<open>\<open>max_chars\<close> is at least 1 in every call; 0 would make the loop of the code endless.\<close>

function split_pieces :: "nat \<Rightarrow> nat \<Rightarrow> text_points \<Rightarrow> text_points list" where
  "split_pieces budget max_chars rest =
     (if rest = [] \<or> max_chars = 0 then []
      else
        (let n = piece_length budget max_chars rest
         in take n rest # split_pieces budget max_chars (drop n rest)))"
  by pat_completeness auto
termination
  by (relation "measure (\<lambda>(budget, max_chars, rest). length rest)")
    (auto simp: Let_def piece_length_pos)

declare split_pieces.simps [simp del]

definition split_content :: "text_points \<Rightarrow> nat \<Rightarrow> nat \<Rightarrow> text_points list" where
  "split_content content budget max_chars =
     (let pieces = split_pieces budget max_chars content
      in if pieces = [] then [[]] else pieces)"

subsection \<open>The search finds the largest piece\<close>

lemma largest_fit_le: "lo \<le> hi \<Longrightarrow> largest_fit budget rest lo hi \<le> hi"
proof (induction budget rest lo hi rule: largest_fit.induct)
  case (1 budget rest lo hi)
  show ?case
  proof (cases "lo < hi")
    case True
    then have "(lo + hi + 1) div 2 \<le> hi" "lo \<le> (lo + hi + 1) div 2 - 1"
      "(lo + hi + 1) div 2 - 1 \<le> hi" by auto
    with 1 True show ?thesis
      by (subst largest_fit.simps) (auto simp: Let_def)
  qed (subst largest_fit.simps, simp add: 1)
qed

lemma largest_fit_correct:
  assumes "fits budget (take lo rest)" "lo \<le> hi"
    and "\<not> fits budget (take (Suc hi) rest)"
  shows "fits budget (take (largest_fit budget rest lo hi) rest) \<and>
    \<not> fits budget (take (Suc (largest_fit budget rest lo hi)) rest)"
  using assms
proof (induction budget rest lo hi rule: largest_fit.induct)
  case (1 budget rest lo hi)
  let ?mid = "(lo + hi + 1) div 2"
  show ?case
  proof (cases "lo < hi")
    case True
    then have m: "?mid \<le> hi" "lo \<le> ?mid - 1" "0 < ?mid" by auto
    show ?thesis
    proof (cases "fits budget (take ?mid rest)")
      case True
      with 1(1) [OF \<open>lo < hi\<close> refl True True m(1) "1.prems"(3)] \<open>lo < hi\<close> show ?thesis
        by (subst (1 2) largest_fit.simps) (simp add: Let_def)
    next
      case False
      then have "\<not> fits budget (take (Suc (?mid - 1)) rest)" using m(3) by simp
      with 1(2) [OF \<open>lo < hi\<close> refl False "1.prems"(1) m(2)] False \<open>lo < hi\<close> show ?thesis
        by (subst (1 2) largest_fit.simps) (simp add: Let_def)
    qed
  next
    case False
    with 1 have "lo = hi" by simp
    with 1 show ?thesis by (subst (1 2) largest_fit.simps) simp
  qed
qed

lemma one_char_fits: "8 \<le> budget \<Longrightarrow> fits budget (take 1 rest)"
  using json_char_size_range [of "hd rest"]
  by (cases rest) (auto simp: fits_def json_size_def)

text \<open>
  The piece that is cut: within both limits, and as long as either limit allows.
\<close>

definition best_piece :: "nat \<Rightarrow> nat \<Rightarrow> text_points \<Rightarrow> text_points \<Rightarrow> bool" where
  "best_piece budget max_chars rest piece \<longleftrightarrow>
     piece \<noteq> [] \<and> length piece \<le> max_chars \<and> json_size piece \<le> budget \<and>
     (length piece = max_chars \<or> piece = rest \<or>
      \<not> fits budget (take (Suc (length piece)) rest))"

lemma piece_length_le: "piece_length budget max_chars rest \<le> min max_chars (length rest) \<or> rest = [] \<or> max_chars = 0"
proof (cases "fits budget (take (min max_chars (length rest)) rest)")
  case False
  show ?thesis
  proof (cases "min max_chars (length rest) \<le> 1")
    case True
    then have "largest_fit budget rest 1 (min max_chars (length rest) - 1) = 1"
      by (subst largest_fit.simps) simp
    with True False show ?thesis
      by (cases rest) (auto simp: piece_length_def Let_def Suc_le_eq)
  next
    case big: False
    then have "1 \<le> min max_chars (length rest) - 1" by linarith
    from largest_fit_le [OF this, of budget rest]
    have "largest_fit budget rest 1 (min max_chars (length rest) - 1) \<le> min max_chars (length rest)"
      by linarith
    with False show ?thesis by (simp add: piece_length_def Let_def)
  qed
qed (simp add: piece_length_def Let_def)

lemma piece_length_best:
  assumes "8 \<le> budget" "0 < max_chars" "rest \<noteq> []"
  shows "best_piece budget max_chars rest (take (piece_length budget max_chars rest) rest)"
proof -
  let ?n = "min max_chars (length rest)" and ?k = "piece_length budget max_chars rest"
  have pos: "0 < ?k" using assms by (intro piece_length_pos)
  have le: "?k \<le> ?n" using piece_length_le [of budget max_chars rest] assms by simp
  have len: "length (take ?k rest) = ?k" using le by simp
  show ?thesis
  proof (cases "fits budget (take ?n rest)")
    case True
    then have k: "?k = ?n" by (simp add: piece_length_def Let_def)
    then show ?thesis
      using True pos le assms len by (auto simp: best_piece_def fits_def min_def split: if_splits)
  next
    case False
    have "?n \<noteq> 1" using False one_char_fits [OF assms(1), of rest] by metis
    moreover have "0 < ?n" using assms(2,3) by simp
    ultimately have n: "1 < ?n" by linarith
    then have "Suc (?n - 1) = ?n" "1 \<le> ?n - 1" by linarith+
    with largest_fit_correct [OF one_char_fits [OF assms(1)], of "?n - 1" rest] False
    have "fits budget (take ?k rest) \<and> \<not> fits budget (take (Suc ?k) rest)"
      by (simp add: piece_length_def Let_def)
    with pos le len assms(3) show ?thesis by (auto simp: best_piece_def fits_def)
  qed
qed

text \<open>Pieces that are each the best cut of what is left, and together are the text.\<close>

fun best_split :: "nat \<Rightarrow> nat \<Rightarrow> text_points \<Rightarrow> text_points list \<Rightarrow> bool" where
  "best_split budget max_chars rest [] = (rest = [])"
| "best_split budget max_chars rest (p # ps) =
     (best_piece budget max_chars rest p \<and> take (length p) rest = p \<and>
      best_split budget max_chars (drop (length p) rest) ps)"

lemma split_pieces_best:
  "8 \<le> budget \<Longrightarrow> 0 < max_chars \<Longrightarrow>
   best_split budget max_chars rest (split_pieces budget max_chars rest)"
proof (induction budget max_chars rest rule: split_pieces.induct)
  case (1 budget max_chars rest)
  show ?case
  proof (cases "rest = []")
    case False
    let ?n = "piece_length budget max_chars rest"
    have "?n \<le> length rest" using piece_length_le [of budget max_chars rest] 1 False by simp
    then have "length (take ?n rest) = ?n" by simp
    moreover have "best_split budget max_chars (drop ?n rest)
        (split_pieces budget max_chars (drop ?n rest))"
      using 1 False by simp
    ultimately show ?thesis
      using 1 False piece_length_best [of budget max_chars rest]
      by (subst split_pieces.simps) (simp add: Let_def)
  qed (subst split_pieces.simps, simp)
qed

lemma best_split_concat: "best_split budget max_chars rest ps \<Longrightarrow> concat ps = rest"
  by (induction ps arbitrary: rest) (auto, metis append_take_drop_id)

lemma best_split_pieces:
  "best_split budget max_chars rest ps \<Longrightarrow> p \<in> set ps \<Longrightarrow>
   p \<noteq> [] \<and> length p \<le> max_chars \<and> json_size p \<le> budget"
  by (induction ps arbitrary: rest) (auto simp: best_piece_def)

section \<open>Packets\<close>

definition max_packet_bytes :: int where "max_packet_bytes = 1400"
definition retry_after_failure_s :: rat where "retry_after_failure_s = 10"
definition send_tries :: nat where "send_tries = 3"
definition max_program_chars :: nat where "max_program_chars = 32 * 1024 * 1024"
definition max_chunks :: nat where "max_chunks = 80000"
definition gcode_sig_reserve :: int where "gcode_sig_reserve = 80"

datatype refusal = TooLarge | TooManyChunks

datatype gcode_packet =
    Refused refusal
  | Chunk nat nat text_points

text \<open>
  \<open>head_size\<close> is the size of the JSON object \<open>_pieces\<close> measures: time stamp 0, chunk
  index and total 99999, empty content.
\<close>

definition piece_budget :: "int \<Rightarrow> nat" where
  "piece_budget head_size = nat (max 64 (max_packet_bytes - (head_size + 16 + gcode_sig_reserve)))"

fun encode_from :: "nat \<Rightarrow> nat \<Rightarrow> text_points list \<Rightarrow> gcode_packet list" where
  "encode_from idx count [] = []"
| "encode_from idx count (p # ps) = Chunk idx count p # encode_from (Suc idx) count ps"

definition encode_pieces :: "text_points list \<Rightarrow> gcode_packet list" where
  "encode_pieces pieces = encode_from 0 (length pieces) pieces"

definition gcode_stream ::
  "int \<Rightarrow> nat \<Rightarrow> text_points \<Rightarrow> refusal option \<times> gcode_packet list" where
  "gcode_stream head_size chunk_size content =
     (if length content > max_program_chars then (Some TooLarge, [Refused TooLarge])
      else
        (let pieces = split_content content (piece_budget head_size) chunk_size
         in if length pieces > max_chunks then (Some TooManyChunks, [Refused TooManyChunks])
            else (None, encode_pieces pieces)))"

text \<open>Decimal digits of a number, and the size of a chunk packet sent at time \<open>ts\<close>.\<close>

function digits :: "nat \<Rightarrow> nat" where
  "digits n = (if n < 10 then 1 else Suc (digits (n div 10)))"
  by pat_completeness auto
termination by (relation "measure id") auto

declare digits.simps [simp del]

definition packet_size :: "int \<Rightarrow> nat \<Rightarrow> nat \<Rightarrow> nat \<Rightarrow> text_points \<Rightarrow> int" where
  "packet_size head_size ts idx count piece =
     head_size + (int (digits ts) - 1) + (int (digits idx) - 5) + (int (digits count) - 5)
       + (int (json_size piece) - 2)"

lemma digits_le: "n < 10 ^ k \<Longrightarrow> 0 < k \<Longrightarrow> digits n \<le> k"
proof (induction k arbitrary: n)
  case (Suc k)
  show ?case
  proof (cases "n < 10")
    case False
    have "0 < k" using False Suc.prems by (cases k) auto
    moreover have "n div 10 < 10 ^ k" using Suc.prems by (simp add: less_mult_imp_div_less mult.commute)
    ultimately show ?thesis using Suc.IH False by (subst digits.simps) simp
  qed (subst digits.simps, simp)
qed simp

lemma encode_from_eq: "encode_from i count ps = map (\<lambda>(k, p). Chunk k count p) (enumerate i ps)"
  by (induction ps arbitrary: i) auto

section \<open>GcodeFileSender\<close>

type_synonym fingerprint = "string \<times> int \<times> int"

text \<open>
  A worker thread: its arguments, and the refusal found once it has prepared the
  packets (\<open>None\<close> before). One worker at a time; it runs beside \<open>reset\<close> and
  \<open>check_and_send\<close>, so preparing and ending are steps of their own.
\<close>

record send_job =
  jb_fp :: fingerprint
  jb_generation :: int
  jb_prepared :: bool

record gcode_sender =
  gx_resend_s :: rat
  gx_worker :: "send_job option"
  gx_sent_fingerprint :: "fingerprint option"
  gx_sent_at :: rat
  gx_retry_at :: rat
  gx_generation :: int
  gx_refused :: "(fingerprint \<times> refusal) option"

definition gcode_sender_init :: "rat \<Rightarrow> gcode_sender" where
  "gcode_sender_init resend_s =
     \<lparr>gx_resend_s = resend_s, gx_worker = None, gx_sent_fingerprint = None, gx_sent_at = 0,
      gx_retry_at = 0, gx_generation = 0, gx_refused = None\<rparr>"

definition gcode_reset :: "gcode_sender \<Rightarrow> gcode_sender" where
  "gcode_reset s =
     s\<lparr>gx_sent_fingerprint := None, gx_retry_at := 0, gx_refused := None,
       gx_generation := gx_generation s + 1\<rparr>"

definition gcode_due :: "fingerprint \<Rightarrow> rat \<Rightarrow> gcode_sender \<Rightarrow> bool" where
  "gcode_due fp now s =
     (if gx_worker s \<noteq> None then False
      else if now < gx_retry_at s then False
      else if Some fp \<noteq> gx_sent_fingerprint s then True
      else gx_resend_s s > 0 \<and> now - gx_sent_at s \<ge> gx_resend_s s)"

definition check_and_send :: "string \<Rightarrow> fingerprint \<Rightarrow> rat \<Rightarrow> gcode_sender \<Rightarrow> gcode_sender" where
  "check_and_send file_path fp now s =
     (if file_path = '''' \<or> fst fp = '''' then s
      else if \<not> gcode_due fp now s then s
      else s\<lparr>gx_worker := Some \<lparr>jb_fp = fp, jb_generation = gx_generation s, jb_prepared = False\<rparr>\<rparr>)"

text \<open>
  \<open>_prepare\<close>: a known refusal is repeated, a file too big for the limit is refused
  unread; \<open>content\<close> is what reading gave (at most one character past the limit), or
  \<open>None\<close> when it failed.
\<close>

definition gcode_prepare ::
  "int \<Rightarrow> nat \<Rightarrow> fingerprint \<Rightarrow> text_points option \<Rightarrow> gcode_sender \<Rightarrow>
   (refusal option \<times> gcode_packet list) option" where
  "gcode_prepare head_size chunk_size fp content s =
     (case gx_refused s of
        Some (fp', known) \<Rightarrow>
          if fp' = fp then Some (Some known, [Refused known])
          else if fst (snd fp) > 4 * int max_program_chars then Some (Some TooLarge, [Refused TooLarge])
          else map_option (\<lambda>c. gcode_stream head_size chunk_size (take (Suc max_program_chars) c)) content
      | None \<Rightarrow>
          if fst (snd fp) > 4 * int max_program_chars then Some (Some TooLarge, [Refused TooLarge])
          else map_option (\<lambda>c. gcode_stream head_size chunk_size (take (Suc max_program_chars) c)) content)"

definition note_refusal :: "fingerprint \<Rightarrow> refusal \<Rightarrow> int \<Rightarrow> gcode_sender \<Rightarrow> gcode_sender" where
  "note_refusal fp reason generation s =
     (if generation \<noteq> gx_generation s \<or> map_option fst (gx_refused s) = Some fp then s
      else s\<lparr>gx_refused := Some (fp, reason)\<rparr>)"

text \<open>The worker has read and split the file; when that failed it is over.\<close>

definition worker_prepares ::
  "int \<Rightarrow> nat \<Rightarrow> text_points option \<Rightarrow> rat \<Rightarrow> gcode_sender \<Rightarrow> gcode_sender" where
  "worker_prepares head_size chunk_size content now s =
     (case gx_worker s of
        None \<Rightarrow> s
      | Some j \<Rightarrow>
          if jb_prepared j then s
          else
            (case gcode_prepare head_size chunk_size (jb_fp j) content s of
               None \<Rightarrow> s\<lparr>gx_retry_at := now + retry_after_failure_s, gx_worker := None\<rparr>
             | Some (reason, packets) \<Rightarrow>
                 (case reason of None \<Rightarrow> s | Some r \<Rightarrow> note_refusal (jb_fp j) r (jb_generation j) s)
                   \<lparr>gx_worker := Some (j\<lparr>jb_prepared := True\<rparr>)\<rparr>))"

text \<open>Handing over the packets: each is tried up to three times, none is skipped.\<close>

definition packet_sent :: "bool list \<Rightarrow> bool" where
  "packet_sent attempts \<longleftrightarrow> True \<in> set (take send_tries attempts)"

definition all_sent :: "bool list list \<Rightarrow> bool" where
  "all_sent outcomes = foldl (\<lambda>ok attempts. ok \<and> packet_sent attempts) True outcomes"

definition worker_ends :: "bool \<Rightarrow> rat \<Rightarrow> gcode_sender \<Rightarrow> gcode_sender" where
  "worker_ends ok now s =
     (case gx_worker s of
        None \<Rightarrow> s
      | Some j \<Rightarrow>
          if \<not> jb_prepared j then s
          else
            (let s1 = s\<lparr>gx_worker := None\<rparr>
             in if jb_generation j \<noteq> gx_generation s1 then s1
                else if ok then
                  s1\<lparr>gx_sent_fingerprint := Some (jb_fp j), gx_sent_at := now, gx_retry_at := 0\<rparr>
                else s1\<lparr>gx_retry_at := now + retry_after_failure_s\<rparr>))"

datatype gcode_event =
    GReset
  | GCheck string fingerprint rat
  | GPrepared int nat "text_points option" rat
  | GEnded "bool list list" rat

fun gcode_step :: "gcode_sender \<Rightarrow> gcode_event \<Rightarrow> gcode_sender" where
  "gcode_step s GReset = gcode_reset s"
| "gcode_step s (GCheck path fp now) = check_and_send path fp now s"
| "gcode_step s (GPrepared h c content now) = worker_prepares h c content now s"
| "gcode_step s (GEnded outcomes now) = worker_ends (all_sent outcomes) now s"

lemma all_sent_iff: "all_sent outcomes \<longleftrightarrow> (\<forall>a\<in>set outcomes. packet_sent a)"
proof -
  have "foldl (\<lambda>ok attempts. ok \<and> packet_sent attempts) b outcomes \<longleftrightarrow>
      b \<and> (\<forall>a\<in>set outcomes. packet_sent a)" for b
    by (induction outcomes arbitrary: b) auto
  then show ?thesis by (simp add: all_sent_def)
qed

text \<open>
  The invariant: a worker's generation is never from the future; once a program is
  marked as sent, it went out in the present generation.
\<close>

definition gcode_ok :: "gcode_sender \<Rightarrow> bool" where
  "gcode_ok s \<longleftrightarrow> (\<forall>j. gx_worker s = Some j \<longrightarrow> jb_generation j \<le> gx_generation s)"

lemma note_refusal_fields [simp]:
  "gx_worker (note_refusal fp r g s) = gx_worker s"
  "gx_generation (note_refusal fp r g s) = gx_generation s"
  "gx_sent_fingerprint (note_refusal fp r g s) = gx_sent_fingerprint s"
  "gx_retry_at (note_refusal fp r g s) = gx_retry_at s"
  by (simp_all add: note_refusal_def)

lemma worker_prepares_fields:
  "gx_generation (worker_prepares h c content now s) = gx_generation s"
  "gx_sent_fingerprint (worker_prepares h c content now s) = gx_sent_fingerprint s"
  "gx_worker (worker_prepares h c content now s) = None \<or>
   gx_worker (worker_prepares h c content now s) =
     map_option (\<lambda>j. j\<lparr>jb_prepared := True\<rparr>) (gx_worker s)"
  by (auto simp: worker_prepares_def split: option.split prod.split)

interpretation gcs: invariant_machine gcode_step gcode_ok
proof
  fix s e
  assume ok: "gcode_ok s"
  show "gcode_ok (gcode_step s e)"
  proof (cases e)
    case GReset
    with ok show ?thesis by (fastforce simp: gcode_ok_def gcode_reset_def)
  next
    case (GCheck path fp now)
    with ok show ?thesis by (auto simp: gcode_ok_def check_and_send_def)
  next
    case (GPrepared h c content now)
    with ok worker_prepares_fields(3) [of h c content now s] show ?thesis
      by (auto simp: gcode_ok_def worker_prepares_fields(1))
  next
    case (GEnded outcomes now)
    with ok show ?thesis by (auto simp: gcode_ok_def worker_ends_def Let_def split: option.split)
  qed
qed

text \<open>After a reset: nothing is marked sent until a check after it started a worker.\<close>

definition forgotten :: "int \<Rightarrow> gcode_sender \<Rightarrow> bool" where
  "forgotten g s \<longleftrightarrow>
     gx_sent_fingerprint s = None \<and> g < gx_generation s \<and>
     (\<forall>j. gx_worker s = Some j \<longrightarrow> jb_generation j \<le> g)"

fun is_check :: "gcode_event \<Rightarrow> bool" where
  "is_check (GCheck _ _ _) = True"
| "is_check _ = False"

lemma forgotten_step: "forgotten g s \<Longrightarrow> \<not> is_check e \<Longrightarrow> forgotten g (gcode_step s e)"
proof (cases e)
  case (GPrepared h c content now)
  assume "forgotten g s"
  with GPrepared worker_prepares_fields(3) [of h c content now s] show ?thesis
    by (auto simp: forgotten_def worker_prepares_fields(1,2))
qed (auto simp: forgotten_def gcode_reset_def worker_ends_def Let_def split: option.split)

lemma forgotten_run: "forgotten g s \<Longrightarrow> \<forall>e\<in>set es. \<not> is_check e \<Longrightarrow> forgotten g (foldl gcode_step s es)"
  by (induction es arbitrary: s) (auto intro: forgotten_step)

section \<open>Properties\<close>

text \<open>
  A program is cut losslessly and well. With a budget of at least 8 bytes the
  pieces put together are the text; every piece fits the byte budget and the
  character limit, and no piece could have been longer, so there are as few as a
  left-to-right cut allows.
\<close>

theorem split_is_lossless_and_maximal:
  assumes "8 \<le> budget" "0 < max_chars"
  shows "concat (split_content content budget max_chars) = content \<and>
    (if content = [] then split_content content budget max_chars = [[]]
     else best_split budget max_chars content (split_content content budget max_chars))"
proof (cases "content = []")
  case True
  then show ?thesis by (simp add: split_content_def split_pieces.simps)
next
  case False
  have b: "best_split budget max_chars content (split_pieces budget max_chars content)"
    using assms by (rule split_pieces_best)
  have "split_pieces budget max_chars content \<noteq> []"
    using False assms by (subst split_pieces.simps) (simp add: Let_def)
  with b best_split_concat [OF b] False show ?thesis
    by (simp add: split_content_def Let_def)
qed

lemma split_is_lossless_and_maximal_witness:
  "concat (split_content (replicate 10 0x41 @ [0x22, 8, 0x20AC]) 8 4) =
     replicate 10 0x41 @ [0x22, 8, 0x20AC]"
  using split_is_lossless_and_maximal [of 8 4 "replicate 10 0x41 @ [0x22, 8, 0x20AC]"] by simp

text \<open>
  every packet fits one Ethernet frame. When the object without content leaves
  64 bytes of the 1400, each chunk packet, its time stamp and numbers written out
  and a signature appended, stays within 1400 bytes; a program within the limits
  goes out complete, in order, as chunks numbered from 0.
\<close>

theorem chunk_packets_fit:
  assumes "0 < chunk_size" "head_size + 16 + gcode_sig_reserve + 64 \<le> max_packet_bytes"
    and "ts < 10 ^ 17"
    and "gcode_stream head_size chunk_size content = (None, packets)"
  shows "\<exists>pieces. packets = map (\<lambda>(i, p). Chunk i (length pieces) p) (enumerate 0 pieces) \<and>
    concat pieces = content \<and> length pieces \<le> max_chunks \<and>
    (\<forall>(i, p)\<in>set (enumerate 0 pieces).
       packet_size head_size ts i (length pieces) p + gcode_sig_reserve \<le> max_packet_bytes)"
proof -
  let ?b = "piece_budget head_size"
  let ?ps = "split_content content ?b chunk_size"
  have b: "8 \<le> ?b" "int ?b = max_packet_bytes - (head_size + 16 + gcode_sig_reserve)"
    using assms(2) by (simp_all add: piece_budget_def)
  have p: "packets = encode_pieces ?ps" "length ?ps \<le> max_chunks"
    using assms(4) by (auto simp: gcode_stream_def Let_def split: if_splits)
  have bs: "best_split ?b chunk_size content (split_pieces ?b chunk_size content)"
    using b(1) assms(1) by (rule split_pieces_best)
  have concat: "concat ?ps = content"
    using best_split_concat [OF bs] by (auto simp: split_content_def Let_def)
  have small: "json_size q \<le> ?b" if "q \<in> set ?ps" for q
    using that best_split_pieces [OF bs, of q] b(1)
    by (auto simp: split_content_def Let_def json_size_def split: if_splits)
  have "packet_size head_size ts i (length ?ps) q + gcode_sig_reserve \<le> max_packet_bytes"
    if "(i, q) \<in> set (enumerate 0 ?ps)" for i q
  proof -
    have i: "i < length ?ps" "q \<in> set ?ps"
      using that by (auto simp: in_set_enumerate_eq)
    have "digits i \<le> 5" "digits (length ?ps) \<le> 5" "digits ts \<le> 17"
      using i(1) p(2) assms(3) by (auto intro!: digits_le simp: max_chunks_def)
    with small [OF i(2)] b(2) show ?thesis
      by (simp add: packet_size_def)
  qed
  with p concat show ?thesis
    by (intro exI [of _ ?ps]) (auto simp: encode_pieces_def encode_from_eq)
qed

lemma chunk_packets_fit_witness:
  "\<exists>pieces. encode_pieces [[71, 48]] = map (\<lambda>(i, p). Chunk i (length pieces) p) (enumerate 0 pieces) \<and>
     concat pieces = [71, 48]"
proof -
  have "split_content [71, 48] (piece_budget 300) 1000 = [[71, 48]]"
    by (simp add: split_content_def split_pieces.simps piece_length_def fits_def piece_budget_def
        max_packet_bytes_def gcode_sig_reserve_def json_size_def json_char_size_def utf8_size_def)
  then have "gcode_stream 300 1000 [71, 48] = (None, encode_pieces [[71, 48]])"
    by (simp add: gcode_stream_def max_program_chars_def max_chunks_def)
  from chunk_packets_fit [OF _ _ _ this, of 1700000000000] show ?thesis
    by (auto simp: gcode_sig_reserve_def max_packet_bytes_def)
qed

text \<open>
  A restart of LinuxCNC sends the program again. After a reset, whatever a worker
  started before it still does, no program is marked as sent until a check after the
  reset has started a new worker.
\<close>

theorem reset_forgets_old_sends:
  fixes resend :: rat
  assumes "\<forall>e\<in>set later. \<not> is_check e"
  shows "gx_sent_fingerprint
    (foldl gcode_step (gcode_sender_init resend) (earlier @ GReset # later)) = None"
proof -
  let ?s = "foldl gcode_step (gcode_sender_init resend) earlier"
  have "gcode_ok ?s" by (rule gcs.run_inv) (simp add: gcode_ok_def gcode_sender_init_def)
  then have "forgotten (gx_generation ?s) (gcode_reset ?s)"
    by (auto simp: forgotten_def gcode_reset_def gcode_ok_def)
  from forgotten_run [OF this assms] show ?thesis by (simp add: forgotten_def)
qed

lemma reset_forgets_old_sends_witness:
  "gx_sent_fingerprint (foldl gcode_step (gcode_sender_init 60)
     ([GCheck ''a'' (''a'', 1, 1) 0, GPrepared 300 1000 (Some []) 0] @ GReset # [GEnded [[True]] 1])) = None"
  by (rule reset_forgets_old_sends) simp

text \<open>
  Sent means every packet was handed over. A worker that ends in its own
  generation marks its program as sent exactly when each packet had a successful
  try among its first three; otherwise the program stays due and is tried again
  after ten seconds.
\<close>

theorem sent_iff_all_packets_sent:
  assumes "gx_worker s = Some j" "jb_prepared j" "jb_generation j = gx_generation s"
    and "gx_sent_fingerprint s \<noteq> Some (jb_fp j)"
  shows "(gx_sent_fingerprint (gcode_step s (GEnded outcomes now)) = Some (jb_fp j)) =
      (\<forall>a\<in>set outcomes. True \<in> set (take send_tries a)) \<and>
    (gcode_due (jb_fp j) (now + retry_after_failure_s) (gcode_step s (GEnded outcomes now)) \<or>
     all_sent outcomes)"
  using assms by (auto simp: worker_ends_def all_sent_iff packet_sent_def gcode_due_def Let_def)

lemma sent_iff_all_packets_sent_witness:
  "gx_sent_fingerprint (gcode_step (foldl gcode_step (gcode_sender_init 60)
     [GCheck ''a'' (''a'', 1, 1) 0, GPrepared 300 1000 (Some [71, 48]) 0])
     (GEnded [[False, True]] 1)) = Some (''a'', 1, 1)"
proof -
  let ?s = "foldl gcode_step (gcode_sender_init 60)
     [GCheck ''a'' (''a'', 1, 1) 0, GPrepared 300 1000 (Some [71, 48]) 0]"
  have "split_content [71, 48] (piece_budget 300) 1000 = [[71, 48]]"
    by (simp add: split_content_def split_pieces.simps piece_length_def fits_def piece_budget_def
        max_packet_bytes_def gcode_sig_reserve_def json_size_def json_char_size_def utf8_size_def)
  then have "?s = (gcode_sender_init 60)\<lparr>gx_worker :=
      Some \<lparr>jb_fp = (''a'', 1, 1), jb_generation = 0, jb_prepared = True\<rparr>\<rparr>"
    by (simp add: gcode_sender_init_def check_and_send_def gcode_due_def worker_prepares_def
        gcode_prepare_def gcode_stream_def max_program_chars_def max_chunks_def)
  then have "gx_worker ?s = Some \<lparr>jb_fp = (''a'', 1, 1), jb_generation = 0, jb_prepared = True\<rparr>"
    "gx_generation ?s = 0" "gx_sent_fingerprint ?s = None"
    by (simp_all add: gcode_sender_init_def)
  from sent_iff_all_packets_sent [OF this(1), of "[[False, True]]" 1] this(2,3)
  show ?thesis by (simp add: send_tries_def del: foldl_Cons foldl_Nil gcode_step.simps)
qed

end
