(* ===== verification/Py_Value.thy ===== *)
theory Py_Value
  imports Agent_Prelude
begin

text \<open>
  Python values as JSON decodes them and status packets hold them: the union a
  component inspects with \<open>isinstance\<close>, truth values, equality and \<open>dict.get\<close>.
  Dictionaries are association lists without double keys.
\<close>

datatype pyfloat = Fin rat | Inf | NegInf | NaN

datatype pyval =
    PNone
  | PBool bool
  | PInt int
  | PFloat pyfloat
  | PStr string
  | PList "pyval list"
  | PDict "(string \<times> pyval) list"

type_synonym pydict = "(string \<times> pyval) list"

text \<open>\<open>bool(v)\<close>.\<close>

fun truthy :: "pyval \<Rightarrow> bool" where
  "truthy PNone = False"
| "truthy (PBool b) = b"
| "truthy (PInt n) = (n \<noteq> 0)"
| "truthy (PFloat f) = (f \<noteq> Fin 0)"
| "truthy (PStr s) = (s \<noteq> '''')"
| "truthy (PList xs) = (xs \<noteq> [])"
| "truthy (PDict kvs) = (kvs \<noteq> [])"

text \<open>\<open>a or b\<close>.\<close>

definition val_or :: "pyval \<Rightarrow> pyval \<Rightarrow> pyval" where
  "val_or a b = (if truthy a then a else b)"

text \<open>\<open>d.get(k)\<close> and \<open>v.get(k)\<close> for a value known to be a dictionary.\<close>

definition dict_get :: "pydict \<Rightarrow> string \<Rightarrow> pyval" where
  "dict_get d k = or_else (map_of d k) PNone"

definition is_dict :: "pyval \<Rightarrow> bool" where
  "is_dict v = (case v of PDict _ \<Rightarrow> True | _ \<Rightarrow> False)"

definition val_get :: "pyval \<Rightarrow> string \<Rightarrow> pyval" where
  "val_get v k = (case v of PDict d \<Rightarrow> dict_get d k | _ \<Rightarrow> PNone)"

text \<open>Numbers compare by value across \<open>bool\<close>, \<open>int\<close> and \<open>float\<close>.\<close>

fun py_num :: "pyval \<Rightarrow> rat option" where
  "py_num (PBool b) = Some (if b then 1 else 0)"
| "py_num (PInt n) = Some (of_int n)"
| "py_num (PFloat (Fin x)) = Some x"
| "py_num _ = None"

text \<open>\<open>a == b\<close>. Dictionaries are compared by key, in any order; they hold a key once.\<close>

fun py_eq :: "pyval \<Rightarrow> pyval \<Rightarrow> bool"
  and py_eqs :: "pyval list \<Rightarrow> pyval list \<Rightarrow> bool"
  and py_eqd :: "pydict \<Rightarrow> pydict \<Rightarrow> bool" where
  "py_eq PNone b = (b = PNone)"
| "py_eq (PStr s) b = (b = PStr s)"
| "py_eq (PBool x) b = (py_num b = Some (if x then 1 else 0))"
| "py_eq (PInt n) b = (py_num b = Some (of_int n))"
| "py_eq (PFloat f) b =
     (case f of Fin x \<Rightarrow> py_num b = Some x | NaN \<Rightarrow> False | _ \<Rightarrow> b = PFloat f)"
| "py_eq (PList xs) b = (case b of PList ys \<Rightarrow> py_eqs xs ys | _ \<Rightarrow> False)"
| "py_eq (PDict d) b = (case b of PDict e \<Rightarrow> length d = length e \<and> py_eqd d e | _ \<Rightarrow> False)"
| "py_eqs [] ys = (ys = [])"
| "py_eqs (x # xs) ys = (case ys of [] \<Rightarrow> False | y # ys' \<Rightarrow> py_eq x y \<and> py_eqs xs ys')"
| "py_eqd [] e = True"
| "py_eqd (kv # d) e =
     (case map_of e (fst kv) of None \<Rightarrow> False | Some w \<Rightarrow> py_eq (snd kv) w \<and> py_eqd d e)"

text \<open>Decimal digits read as a number (\<open>int("123")\<close> for ASCII digits).\<close>

definition digit_value :: "char \<Rightarrow> int" where
  "digit_value c = of_char c - 48"

definition parse_digits :: "string \<Rightarrow> int" where
  "parse_digits s = foldl (\<lambda>n c. 10 * n + digit_value c) 0 s"

lemma digit_value_range: "is_digit c \<Longrightarrow> 0 \<le> digit_value c \<and> digit_value c \<le> 9"
  by (auto simp: is_digit_def digit_value_def)

lemma parse_digits_nonneg:
  "list_all is_digit s \<Longrightarrow> 0 \<le> parse_digits s"
proof (induction s rule: rev_induct)
  case (snoc c s)
  then have "0 \<le> parse_digits s" "0 \<le> digit_value c"
    using digit_value_range by auto
  then show ?case by (simp add: parse_digits_def)
qed (simp add: parse_digits_def)

end
