(* ===== verification/Journal.thy ===== *)
theory Journal
  imports Py_Value
begin

text \<open>
  The writer side of \<open>agent_journal.py\<close>: what of a packet is kept (\<open>compact\<close>,
  \<open>_change_key\<close>) and \<open>Journal\<close> with its database, back-off and disk guard. The
  database file is part of the state; whether it can be opened, written and how much
  disk is free belong to each call. Text of log and error messages is left out.
\<close>

section \<open>What is kept of a packet\<close>

definition journal_fields :: "string list" where
  "journal_fields =
     [''cycle_state'', ''cycle_time_ms'', ''parts_produced'', ''abort_count'',
      ''run_from_here_count'', ''partial_parts'', ''partial_part_equiv'',
      ''last_partial_pct'', ''last_cycle_ms'', ''last_abort_ms'', ''avg_cycle_ms'',
      ''program_progress_pct'', ''part_in_progress'', ''is_run_from_here'',
      ''exec_state'', ''cmd_state'', ''cmd_serial'', ''estop'', ''task_state'', ''task_mode'',
      ''motion_line'', ''file_name'', ''wcs'', ''tool_in_spindle'', ''feedrate'',
      ''session_id'', ''machine_uuid'']"

definition change_fields :: "string list" where
  "change_fields =
     [''cycle_state'', ''parts_produced'', ''abort_count'', ''partial_parts'', ''exec_state'',
      ''estop'', ''task_state'', ''file_name'']"

definition journal_rcs_error :: int where "journal_rcs_error = 3"

definition joint_is_bad :: "pyval \<Rightarrow> bool" where
  "joint_is_bad j \<longleftrightarrow>
     is_dict j \<and> (truthy (val_get j ''fault'') \<or> truthy (val_get j ''hard_limit''))"

definition bad_joint :: "pyval \<Rightarrow> pyval" where
  "bad_joint j =
     PDict [(''id'', val_get j ''id''), (''fault'', PBool (truthy (val_get j ''fault''))),
            (''hard_limit'', PBool (truthy (val_get j ''hard_limit'')))]"

text \<open>\<open>payload.get("joints") or []\<close>, which the agent builds as a list.\<close>

definition joint_list :: "pydict \<Rightarrow> pyval list" where
  "joint_list payload = (case dict_get payload ''joints'' of PList js \<Rightarrow> js | _ \<Rightarrow> [])"

definition compact_fields :: "pydict \<Rightarrow> pydict" where
  "compact_fields payload =
     map (\<lambda>k. (k, dict_get payload k)) (filter (\<lambda>k. k \<in> fst ` set payload) journal_fields)"

definition compact_packet :: "pydict \<Rightarrow> pydict" where
  "compact_packet payload =
     (let out = compact_fields payload;
          bad = map bad_joint (filter joint_is_bad (joint_list payload));
          out1 = (if bad \<noteq> [] then out @ [(''joints'', PList bad)] else out)
      in if truthy (dict_get payload ''nml_errors'')
         then out1 @ [(''nml_errors'', dict_get payload ''nml_errors'')] else out1)"

text \<open>
  The change key: the change fields, the joints and the serial of a failed command.
  \<open>json.dumps(..., sort_keys=True)\<close> of the joints is compared as text; they are built
  with fixed keys, so equal text is equal structure.
\<close>

type_synonym change_key = "pyval list \<times> pyval \<times> pyval"

definition change_key :: "pydict \<Rightarrow> change_key" where
  "change_key c =
     (let failed = (if py_eq (dict_get c ''cmd_state'') (PInt journal_rcs_error)
                    then dict_get c ''cmd_serial'' else PNone)
      in (map (dict_get c) change_fields, dict_get c ''joints'', failed))"

definition same_key :: "change_key \<Rightarrow> change_key \<Rightarrow> bool" where
  "same_key a b \<longleftrightarrow>
     (case (a, b) of ((fa, ja, ea), (fb, jb, eb)) \<Rightarrow> py_eqs fa fb \<and> ja = jb \<and> py_eq ea eb)"

section \<open>The database\<close>

text \<open>
  \<open>meta\<close> and \<open>entries\<close> of the file. \<open>AUTOINCREMENT\<close> numbers rows above every number
  ever used in the file, deleted rows included (\<open>sqlite_sequence\<close>).
\<close>

record journal_row =
  jr_seq :: int
  jr_ts :: int
  jr_data :: string

record journal_db =
  db_agent_id :: "string option"
  db_entries :: "journal_row list"
  db_sequence :: int

definition db_empty :: journal_db where
  "db_empty = \<lparr>db_agent_id = None, db_entries = [], db_sequence = 0\<rparr>"

definition max_seq_of :: "journal_row list \<Rightarrow> int" where
  "max_seq_of rows = (if rows = [] then 0 else last (map jr_seq rows))"

definition min_seq_of :: "journal_row list \<Rightarrow> int" where
  "min_seq_of rows = (case rows of [] \<Rightarrow> 0 | r # _ \<Rightarrow> jr_seq r)"

definition db_insert :: "int \<Rightarrow> string \<Rightarrow> journal_db \<Rightarrow> journal_db" where
  "db_insert ts data db =
     db\<lparr>db_entries := db_entries db @ [\<lparr>jr_seq = db_sequence db + 1, jr_ts = ts, jr_data = data\<rparr>],
        db_sequence := db_sequence db + 1\<rparr>"

definition db_prune :: "int \<Rightarrow> journal_db \<Rightarrow> journal_db" where
  "db_prune cutoff db = db\<lparr>db_entries := filter (\<lambda>r. cutoff \<le> jr_ts r) (db_entries db)\<rparr>"

section \<open>Journal\<close>

definition retry_first_s :: rat where "retry_first_s = 5"
definition retry_max_s :: rat where "retry_max_s = 300"
definition disk_check_s :: rat where "disk_check_s = 60"
definition prune_every_s :: rat where "prune_every_s = 3600"

datatype journal_state = JOk | JFailing | JDiskLow

record journal =
  jn_interval :: rat
  jn_retain_ms :: int
  jn_min_free :: int
  jn_last_key :: "change_key option"
  jn_last_write :: rat
  jn_last_prune :: rat
  jn_last_disk_check :: rat
  jn_retry_at :: rat
  jn_backoff :: rat
  jn_last_seq :: int
  jn_agent_id :: string
  jn_state :: journal_state
  jn_conn :: bool
  jn_db :: journal_db

text \<open>What the outside gives one call.\<close>

record journal_env =
  je_now :: rat
  je_free :: "int option"
  je_open_ok :: bool
  je_write_ok :: bool
  je_fresh_id :: string
  je_clock_ms :: int

definition journal_fail :: "rat \<Rightarrow> journal \<Rightarrow> journal" where
  "journal_fail now j =
     j\<lparr>jn_conn := False, jn_state := JFailing, jn_retry_at := now + jn_backoff j,
       jn_backoff := min (jn_backoff j * 2) retry_max_s\<rparr>"

definition journal_open :: "journal_env \<Rightarrow> journal \<Rightarrow> bool \<times> journal" where
  "journal_open env j =
     (if \<not> je_open_ok env then (False, journal_fail (je_now env) j)
      else
        (let (agent_id, db) =
           (case db_agent_id (jn_db j) of
              Some a \<Rightarrow> (a, jn_db j)
            | None \<Rightarrow> (je_fresh_id env, (jn_db j)\<lparr>db_agent_id := Some (je_fresh_id env)\<rparr>))
         in (True, j\<lparr>jn_db := db, jn_conn := True, jn_agent_id := agent_id,
                     jn_last_seq := max_seq_of (db_entries db)\<rparr>)))"

definition journal_start :: "rat \<Rightarrow> rat \<Rightarrow> rat \<Rightarrow> journal_db \<Rightarrow> journal_env \<Rightarrow> journal" where
  "journal_start interval_s retain_days min_free_mb db env =
     snd (journal_open env
       \<lparr>jn_interval = max 1 interval_s, jn_retain_ms = \<lfloor>max 1 retain_days * 86400000\<rfloor>,
        jn_min_free = \<lfloor>max 0 min_free_mb * 1000000\<rfloor>, jn_last_key = None, jn_last_write = 0,
        jn_last_prune = 0, jn_last_disk_check = - (10 ^ 18), jn_retry_at = 0,
        jn_backoff = retry_first_s, jn_last_seq = 0, jn_agent_id = '''', jn_state = JOk,
        jn_conn = False, jn_db = db\<rparr>)"

definition journal_disk_ok :: "journal_env \<Rightarrow> journal \<Rightarrow> bool \<times> journal" where
  "journal_disk_ok env j =
     (if je_now env - jn_last_disk_check j < disk_check_s then (jn_state j \<noteq> JDiskLow, j)
      else
        (let j1 = j\<lparr>jn_last_disk_check := je_now env\<rparr>;
             free = (if jn_min_free j1 \<noteq> 0 then je_free env else None)
         in (case free of
               None \<Rightarrow> (jn_state j1 \<noteq> JDiskLow, j1)
             | Some free \<Rightarrow>
                 if jn_state j1 = JDiskLow then
                   (if of_int free < of_int (jn_min_free j1) * (11 / 10 :: rat) then (False, j1)
                    else (True, j1\<lparr>jn_state := (if jn_conn j1 then JOk else JFailing)\<rparr>))
                 else if free < jn_min_free j1 then (False, j1\<lparr>jn_state := JDiskLow\<rparr>)
                 else (True, j1))))"

definition journal_prune :: "int \<Rightarrow> bool \<Rightarrow> journal \<Rightarrow> journal" where
  "journal_prune now_ms write_ok j =
     (if \<not> jn_conn j \<or> \<not> write_ok then j
      else j\<lparr>jn_db := db_prune (now_ms - jn_retain_ms j) (jn_db j)\<rparr>)"

text \<open>\<open>int(payload.get("ts") or time.time() * 1000)\<close>; the agent sets an integer \<open>ts\<close>.\<close>

definition packet_ts :: "int \<Rightarrow> pydict \<Rightarrow> int" where
  "packet_ts clock_ms payload =
     (case dict_get payload ''ts'' of PInt n \<Rightarrow> if n \<noteq> 0 then n else clock_ms | _ \<Rightarrow> clock_ms)"

definition journal_due :: "rat \<Rightarrow> pydict \<Rightarrow> journal \<Rightarrow> bool" where
  "journal_due now c j \<longleftrightarrow>
     \<not> (\<exists>k. jn_last_key j = Some k \<and> same_key (change_key c) k) \<or>
     truthy (dict_get c ''nml_errors'') \<or> now - jn_last_write j \<ge> jn_interval j"

lemma journal_due_code [code]:
  "journal_due now c j \<longleftrightarrow>
     (case jn_last_key j of None \<Rightarrow> True | Some k \<Rightarrow> \<not> same_key (change_key c) k) \<or>
     truthy (dict_get c ''nml_errors'') \<or> now - jn_last_write j \<ge> jn_interval j"
  by (auto simp: journal_due_def split: option.split)

text \<open>\<open>json.dumps\<close> with compact separators is the parameter \<open>dumps\<close>.\<close>

definition journal_write ::
  "(pydict \<Rightarrow> string) \<Rightarrow> pydict \<Rightarrow> journal_env \<Rightarrow> journal \<Rightarrow> int option \<times> journal" where
  "journal_write dumps payload env j =
     (let now = je_now env;
          c = compact_packet payload
      in if \<not> journal_due now c j then (None, j)
         else if \<not> je_write_ok env then (None, journal_fail now j)
         else
           (let ts = packet_ts (je_clock_ms env) payload;
                db = db_insert ts (dumps c) (jn_db j);
                j1 = j\<lparr>jn_db := db, jn_state := JOk, jn_backoff := retry_first_s,
                       jn_last_seq := db_sequence db, jn_last_key := Some (change_key c),
                       jn_last_write := now\<rparr>;
                j2 = (if now - jn_last_prune j1 \<ge> prune_every_s
                      then journal_prune ts (je_write_ok env) (j1\<lparr>jn_last_prune := now\<rparr>) else j1)
            in (Some (jn_last_seq j2), j2)))"

definition journal_record ::
  "(pydict \<Rightarrow> string) \<Rightarrow> pydict \<Rightarrow> journal_env \<Rightarrow> journal \<Rightarrow> int option \<times> journal" where
  "journal_record dumps payload env j0 =
     (case journal_disk_ok env j0 of
        (False, j) \<Rightarrow> (None, j)
      | (True, j) \<Rightarrow>
          if jn_conn j then journal_write dumps payload env j
          else if je_now env < jn_retry_at j then (None, j)
          else (case journal_open env j of
                  (False, j1) \<Rightarrow> (None, j1)
                | (True, j1) \<Rightarrow> journal_write dumps payload env j1))"

definition journal_close :: "journal \<Rightarrow> journal" where
  "journal_close j = j\<lparr>jn_conn := False\<rparr>"

lemmas journal_defs = journal_record_def journal_write_def journal_disk_ok_def journal_open_def
  journal_fail_def journal_prune_def

section \<open>Invariant\<close>

definition db_ok :: "journal_db \<Rightarrow> bool" where
  "db_ok db \<longleftrightarrow>
     sorted_wrt (<) (map jr_seq (db_entries db)) \<and>
     (\<forall>r\<in>set (db_entries db). 1 \<le> jr_seq r \<and> jr_seq r \<le> db_sequence db) \<and> 0 \<le> db_sequence db"

definition journal_ok :: "journal \<Rightarrow> bool" where
  "journal_ok j \<longleftrightarrow>
     db_ok (jn_db j) \<and> jn_last_seq j \<le> db_sequence (jn_db j) \<and>
     retry_first_s \<le> jn_backoff j \<and> jn_backoff j \<le> retry_max_s \<and> 1 \<le> jn_interval j"

lemma db_insert_ok: "db_ok db \<Longrightarrow> db_ok (db_insert ts data db)"
  by (fastforce simp: db_ok_def db_insert_def sorted_wrt_append)

lemma db_prune_ok: "db_ok db \<Longrightarrow> db_ok (db_prune cutoff db)"
  by (auto simp: db_ok_def db_prune_def sorted_wrt_map sorted_wrt_filter)

lemma db_insert_sequence [simp]: "db_sequence (db_insert ts data db) = db_sequence db + 1"
  by (simp add: db_insert_def)

lemma db_prune_sequence [simp]: "db_sequence (db_prune cutoff db) = db_sequence db"
  by (simp add: db_prune_def)

lemma max_seq_of_le: "db_ok db \<Longrightarrow> max_seq_of (db_entries db) \<le> db_sequence db"
  using last_in_set [of "map jr_seq (db_entries db)"]
  by (auto simp: max_seq_of_def db_ok_def)

lemma journal_fail_ok: "journal_ok j \<Longrightarrow> journal_ok (journal_fail now j)"
  by (auto simp: journal_ok_def journal_fail_def retry_first_s_def retry_max_s_def)

lemma journal_fail_db [simp]: "jn_db (journal_fail now j) = jn_db j" "jn_conn (journal_fail now j) = False"
  by (simp_all add: journal_fail_def)

lemma db_ok_id [simp]: "db_ok (db\<lparr>db_agent_id := a\<rparr>) = db_ok db"
  by (simp add: db_ok_def)

lemma journal_open_ok:
  assumes "journal_ok j" "journal_open env j = (b, j')"
  shows "journal_ok j'" "db_sequence (jn_db j') = db_sequence (jn_db j)"
    "db_entries (jn_db j') = db_entries (jn_db j)" "b = jn_conn j'"
  using assms journal_fail_ok [OF assms(1), of "je_now env"] max_seq_of_le [of "jn_db j"]
  by (auto simp: journal_open_def journal_ok_def split: if_splits option.splits)

lemma journal_disk_ok_fields:
  assumes "journal_disk_ok env j = (b, j')"
  shows "jn_db j' = jn_db j" "jn_conn j' = jn_conn j" "jn_backoff j' = jn_backoff j"
    "jn_last_seq j' = jn_last_seq j" "jn_interval j' = jn_interval j"
    "jn_last_key j' = jn_last_key j" "jn_last_write j' = jn_last_write j"
    "jn_retry_at j' = jn_retry_at j" "journal_ok j' = journal_ok j"
    "b = (jn_state j' \<noteq> JDiskLow)"
  using assms by (auto simp: journal_disk_ok_def journal_ok_def Let_def split: if_splits option.splits)

lemma journal_write_cases:
  obtains (skip) "\<not> journal_due (je_now env) (compact_packet payload) j"
      "journal_write dumps payload env j = (None, j)"
  | (fail) "journal_due (je_now env) (compact_packet payload) j" "\<not> je_write_ok env"
      "journal_write dumps payload env j = (None, journal_fail (je_now env) j)"
  | (written) j' where "journal_due (je_now env) (compact_packet payload) j" "je_write_ok env"
      "journal_write dumps payload env j = (Some (db_sequence (jn_db j) + 1), j')"
      "journal_ok j \<Longrightarrow> journal_ok j'" "db_sequence (jn_db j') = db_sequence (jn_db j) + 1"
      "jn_last_key j' = Some (change_key (compact_packet payload))"
      "jn_db j' = db_insert (packet_ts (je_clock_ms env) payload) (dumps (compact_packet payload)) (jn_db j) \<or>
       (\<exists>cutoff. jn_db j' = db_prune cutoff
          (db_insert (packet_ts (je_clock_ms env) payload) (dumps (compact_packet payload)) (jn_db j)))"
proof -
  let ?c = "compact_packet payload" and ?now = "je_now env" and ?ts = "packet_ts (je_clock_ms env) payload"
  let ?db = "db_insert ?ts (dumps ?c) (jn_db j)"
  let ?j1 = "j\<lparr>jn_db := ?db, jn_state := JOk, jn_backoff := retry_first_s,
               jn_last_seq := db_sequence ?db, jn_last_key := Some (change_key ?c),
               jn_last_write := ?now\<rparr>"
  let ?j2 = "if ?now - jn_last_prune ?j1 \<ge> prune_every_s
             then journal_prune ?ts (je_write_ok env) (?j1\<lparr>jn_last_prune := ?now\<rparr>) else ?j1"
  show thesis
  proof (cases "journal_due ?now ?c j")
    case False
    then show ?thesis by (intro skip) (simp_all add: journal_write_def Let_def)
  next
    case due: True
    show ?thesis
    proof (cases "je_write_ok env")
      case False
      with due show ?thesis by (intro fail) (simp_all add: journal_write_def Let_def)
    next
      case True
      have w: "journal_write dumps payload env j = (Some (jn_last_seq ?j2), ?j2)"
        using due True unfolding journal_write_def Let_def by simp
      have seq: "jn_last_seq ?j2 = db_sequence (jn_db j) + 1"
        "db_sequence (jn_db ?j2) = db_sequence (jn_db j) + 1"
        "jn_last_key ?j2 = Some (change_key ?c)"
        by (simp_all add: journal_prune_def)
      have ok: "journal_ok ?j2" if "journal_ok j"
        using that db_insert_ok [of "jn_db j" ?ts "dumps ?c"]
        by (simp add: journal_ok_def journal_prune_def db_prune_ok retry_first_s_def retry_max_s_def)
      have "jn_db ?j2 = ?db \<or> jn_db ?j2 = db_prune (?ts - jn_retain_ms j) ?db"
        by (simp add: journal_prune_def)
      then have db: "jn_db ?j2 = ?db \<or> (\<exists>cutoff. jn_db ?j2 = db_prune cutoff ?db)" by blast
      from w have w': "journal_write dumps payload env j = (Some (db_sequence (jn_db j) + 1), ?j2)"
        unfolding seq(1) .
      show ?thesis by (rule written [OF due True w' ok seq(2,3) db])
    qed
  qed
qed

lemma journal_write_ok:
  assumes "journal_ok j" "journal_write dumps payload env j = (r, j')"
  shows "journal_ok j'" "db_sequence (jn_db j) \<le> db_sequence (jn_db j')"
    "\<forall>n. r = Some n \<longrightarrow> n = db_sequence (jn_db j) + 1 \<and> n = db_sequence (jn_db j')"
  by (cases rule: journal_write_cases [where env = env and payload = payload and j = j and dumps = dumps];
      use assms journal_fail_ok in auto)+

lemma journal_record_ok:
  assumes "journal_ok j" "journal_record dumps payload env j = (r, j')"
  shows "journal_ok j'" "db_sequence (jn_db j) \<le> db_sequence (jn_db j')"
    "\<forall>n. r = Some n \<longrightarrow> n = db_sequence (jn_db j) + 1 \<and> n = db_sequence (jn_db j')"
proof -
  obtain b jd where d: "journal_disk_ok env j = (b, jd)" by (cases "journal_disk_ok env j")
  note f = journal_disk_ok_fields [OF d]
  obtain bo jo where o: "journal_open env jd = (bo, jo)" by (cases "journal_open env jd")
  have jd: "journal_ok jd" using f assms(1) by simp
  note oo = journal_open_ok [OF jd o]
  note w = journal_write_ok [OF jd, of dumps payload env r j'] journal_write_ok [OF oo(1), of dumps payload env r j']
  have "(\<not> b \<and> r = None \<and> j' = jd) \<or> (journal_write dumps payload env jd = (r, j')) \<or>
      (r = None \<and> j' = jd) \<or> (r = None \<and> j' = jo) \<or> journal_write dumps payload env jo = (r, j')"
    using assms(2) d o by (auto simp: journal_record_def split: bool.splits if_splits)
  with w oo f jd show "journal_ok j'" "db_sequence (jn_db j) \<le> db_sequence (jn_db j')"
    "\<forall>n. r = Some n \<longrightarrow> n = db_sequence (jn_db j) + 1 \<and> n = db_sequence (jn_db j')"
    by auto
qed

interpretation jnl: invariant_machine
  "\<lambda>j (payload, env). snd (journal_record dumps payload env j)" journal_ok for dumps
proof
  fix j e
  assume ok: "journal_ok j"
  obtain payload :: pydict and env :: journal_env where e: "e = (payload, env)" by (cases e)
  obtain r j' where "journal_record dumps payload env j = (r, j')"
    by (cases "journal_record dumps payload env j")
  with journal_record_ok(1) [OF ok this] show
    "journal_ok (case e of (payload, env) \<Rightarrow> snd (journal_record dumps payload env j))"
    by (simp add: e)
qed

lemma journal_start_ok:
  assumes "db_ok db"
  shows "journal_ok (journal_start i r m db env)" "db_sequence (jn_db (journal_start i r m db env)) = db_sequence db"
proof -
  let ?j = "\<lparr>jn_interval = max 1 i, jn_retain_ms = \<lfloor>max 1 r * 86400000\<rfloor>,
        jn_min_free = \<lfloor>max 0 m * 1000000\<rfloor>, jn_last_key = None, jn_last_write = 0,
        jn_last_prune = 0, jn_last_disk_check = - (10 ^ 18), jn_retry_at = 0,
        jn_backoff = retry_first_s, jn_last_seq = 0, jn_agent_id = '''', jn_state = JOk,
        jn_conn = False, jn_db = db\<rparr>"
  obtain b j' where o: "journal_open env ?j = (b, j')" by (cases "journal_open env ?j")
  have "journal_ok ?j"
    using assms by (simp add: journal_ok_def db_ok_def retry_first_s_def retry_max_s_def)
  from journal_open_ok [OF this o] show "journal_ok (journal_start i r m db env)"
    "db_sequence (jn_db (journal_start i r m db env)) = db_sequence db"
    using o by (simp_all add: journal_start_def)
qed

section \<open>A run of the journal\<close>

text \<open>
  Calls of \<open>record\<close> and restarts of the agent on the same file, and the sequence
  numbers the calls returned.
\<close>

datatype journal_op =
    Record pydict journal_env
  | Restart rat rat rat journal_env

fun journal_seqs :: "(pydict \<Rightarrow> string) \<Rightarrow> journal \<Rightarrow> journal_op list \<Rightarrow> int list" where
  "journal_seqs dumps j [] = []"
| "journal_seqs dumps j (Record payload env # ops) =
     (case journal_record dumps payload env j of
        (None, j') \<Rightarrow> journal_seqs dumps j' ops
      | (Some n, j') \<Rightarrow> n # journal_seqs dumps j' ops)"
| "journal_seqs dumps j (Restart i r m env # ops) =
     journal_seqs dumps (journal_start i r m (jn_db j) env) ops"

lemma journal_seqs_increase:
  "journal_ok j \<Longrightarrow>
   sorted_wrt (<) (journal_seqs dumps j ops) \<and>
   (\<forall>n\<in>set (journal_seqs dumps j ops). db_sequence (jn_db j) < n)"
proof (induction ops arbitrary: j)
  case (Cons op ops)
  show ?case
  proof (cases op)
    case (Record payload env)
    obtain r j' where r: "journal_record dumps payload env j = (r, j')"
      by (cases "journal_record dumps payload env j")
    note k = journal_record_ok [OF Cons.prems r]
    from Cons.IH [OF k(1)] k(2,3) show ?thesis
      by (cases r) (fastforce simp: Record r)+
  next
    case (Restart i r m env)
    have "db_ok (jn_db j)" using Cons.prems by (simp add: journal_ok_def)
    note s = journal_start_ok [OF this, of i r m env]
    from Cons.IH [OF s(1)] s(2) show ?thesis by (simp add: Restart)
  qed
qed simp

text \<open>The newest row shows the key the writer remembers.\<close>

definition row_shows :: "(pydict \<Rightarrow> string) \<Rightarrow> journal \<Rightarrow> change_key \<Rightarrow> bool" where
  "row_shows dumps j k \<longleftrightarrow>
     (\<exists>rows r c. db_entries (jn_db j) = rows @ [r] \<and> jr_data r = dumps c \<and> change_key c = k)"

definition journal_shows :: "(pydict \<Rightarrow> string) \<Rightarrow> journal \<Rightarrow> bool" where
  "journal_shows dumps j \<longleftrightarrow>
     0 \<le> jn_retain_ms j \<and> (\<forall>k. jn_last_key j = Some k \<longrightarrow> row_shows dumps j k)"

lemma row_shows_entries:
  "db_entries (jn_db j') = db_entries (jn_db j) \<Longrightarrow> row_shows dumps j' k = row_shows dumps j k"
  by (simp add: row_shows_def)

lemma journal_fail_shows: "journal_shows dumps (journal_fail now j) = journal_shows dumps j"
  by (simp add: journal_shows_def journal_fail_def row_shows_def)

lemma journal_open_shows:
  "journal_open env j = (b, j') \<Longrightarrow> journal_shows dumps j \<Longrightarrow> journal_shows dumps j'"
proof (cases "je_open_ok env")
  case False
  assume "journal_open env j = (b, j')" "journal_shows dumps j"
  with False have "j' = journal_fail (je_now env) j" by (simp add: journal_open_def)
  with \<open>journal_shows dumps j\<close> show ?thesis by (simp add: journal_fail_shows)
next
  case True
  assume "journal_open env j = (b, j')" "journal_shows dumps j"
  with True show ?thesis
    by (auto simp: journal_open_def journal_shows_def row_shows_def split: option.splits)
qed

lemma journal_disk_shows:
  assumes "journal_disk_ok env j = (b, j')"
  shows "journal_shows dumps j' = journal_shows dumps j"
proof -
  have "jn_retain_ms j' = jn_retain_ms j"
    using assms by (auto simp: journal_disk_ok_def Let_def split: if_splits option.splits)
  with journal_disk_ok_fields [OF assms] show ?thesis
    by (simp add: journal_shows_def row_shows_def)
qed

lemma journal_write_shows:
  assumes "journal_shows dumps j" "journal_write dumps payload env j = (r, j')"
  shows "journal_shows dumps j'"
    and "je_write_ok env \<Longrightarrow> \<exists>k. jn_last_key j' = Some k \<and>
      (k = change_key (compact_packet payload) \<or> same_key (change_key (compact_packet payload)) k)"
proof -
  let ?c = "compact_packet payload" and ?now = "je_now env" and ?ts = "packet_ts (je_clock_ms env) payload"
  let ?db = "db_insert ?ts (dumps ?c) (jn_db j)"
  let ?row = "\<lparr>jr_seq = db_sequence (jn_db j) + 1, jr_ts = ?ts, jr_data = dumps ?c\<rparr>"
  have "journal_shows dumps j' \<and> (je_write_ok env \<longrightarrow> (\<exists>k. jn_last_key j' = Some k \<and>
      (k = change_key ?c \<or> same_key (change_key ?c) k)))"
  proof (cases "journal_due ?now ?c j")
    case False
    with assms show ?thesis by (auto simp: journal_write_def Let_def journal_due_def)
  next
    case due: True
    show ?thesis
    proof (cases "je_write_ok env")
      case False
      with due assms show ?thesis
        by (auto simp: journal_write_def Let_def journal_fail_shows)
    next
      case True
      have retain: "0 \<le> jn_retain_ms j" using assms(1) by (simp add: journal_shows_def)
      have e: "db_entries ?db = db_entries (jn_db j) @ [?row]"
        by (simp add: db_insert_def)
      have p: "\<exists>rows. db_entries (db_prune (?ts - jn_retain_ms j) ?db) = rows @ [?row]"
        using retain by (simp add: db_prune_def e)
      have f: "jn_last_key j' = Some (change_key ?c)" "jn_retain_ms j' = jn_retain_ms j"
        "jn_db j' = ?db \<or> jn_db j' = db_prune (?ts - jn_retain_ms j) ?db"
        using assms(2) due True by (auto simp: journal_write_def Let_def journal_prune_def split: if_splits)
      then have "row_shows dumps j' (change_key ?c)"
        using e p unfolding row_shows_def by (metis journal_row.select_convs(3))
      with f retain show ?thesis by (simp add: journal_shows_def)
    qed
  qed
  then show "journal_shows dumps j'" "je_write_ok env \<Longrightarrow> \<exists>k. jn_last_key j' = Some k \<and>
      (k = change_key ?c \<or> same_key (change_key ?c) k)" by blast+
qed

text \<open>A call the outside does not hinder: space, database and clock as wanted.\<close>

definition healthy :: "journal_env \<Rightarrow> journal \<Rightarrow> bool" where
  "healthy env j \<longleftrightarrow>
     je_open_ok env \<and> je_write_ok env \<and> fst (journal_disk_ok env j) \<and>
     (jn_conn j \<or> jn_retry_at j \<le> je_now env)"

lemma journal_record_shows:
  assumes "journal_shows dumps j"
  shows "journal_shows dumps (snd (journal_record dumps payload env j))"
proof -
  obtain b jd where d: "journal_disk_ok env j = (b, jd)" by (cases "journal_disk_ok env j")
  have jd: "journal_shows dumps jd" using assms journal_disk_shows [OF d] by simp
  obtain bo jo where o: "journal_open env jd = (bo, jo)" by (cases "journal_open env jd")
  have jo: "journal_shows dumps jo" using journal_open_shows [OF o jd] .
  have w: "journal_shows dumps j1 \<Longrightarrow> journal_shows dumps (snd (journal_write dumps payload env j1))" for j1
    by (cases "journal_write dumps payload env j1") (auto dest: journal_write_shows(1))
  show ?thesis
    using jd jo w [OF jd] w [OF jo] d o by (simp add: journal_record_def split: bool.split)
qed

lemma journal_record_current:
  assumes "healthy env j"
  shows "\<exists>k. jn_last_key (snd (journal_record dumps payload env j)) = Some k \<and>
    (k = change_key (compact_packet payload) \<or> same_key (change_key (compact_packet payload)) k)"
proof -
  have current: "\<exists>k. jn_last_key (snd (journal_write dumps payload env j1)) = Some k \<and>
      (k = change_key (compact_packet payload) \<or> same_key (change_key (compact_packet payload)) k)" for j1
  proof (cases "journal_due (je_now env) (compact_packet payload) j1")
    case False
    then show ?thesis by (auto simp: journal_write_def Let_def journal_due_def)
  next
    case True
    with assms have "jn_last_key (snd (journal_write dumps payload env j1)) =
        Some (change_key (compact_packet payload))"
      by (simp add: healthy_def journal_write_def Let_def journal_prune_def)
    then show ?thesis by blast
  qed
  obtain jd where d: "journal_disk_ok env j = (True, jd)"
    using assms by (cases "journal_disk_ok env j") (simp add: healthy_def)
  note f = journal_disk_ok_fields [OF d]
  show ?thesis
  proof (cases "jn_conn j")
    case True
    with d f current [of jd] show ?thesis by (simp add: journal_record_def)
  next
    case False
    obtain jo where "journal_open env jd = (True, jo)"
      using assms by (cases "journal_open env jd") (auto simp: healthy_def journal_open_def split: option.splits)
    with False assms d f current [of jo] show ?thesis
      by (simp add: journal_record_def healthy_def)
  qed
qed

section \<open>Properties\<close>

text \<open>
  Journal numbers never repeat. Whatever is recorded, fails, is pruned, and
  however often the agent restarts on the same file, the sequence numbers \<open>record\<close>
  returns are strictly increasing.
\<close>

theorem journal_numbers_increase:
  fixes ops :: "journal_op list"
  shows "sorted_wrt (<) (journal_seqs dumps (journal_start i r m db_empty env) ops)"
proof -
  have "db_ok db_empty" by (simp add: db_ok_def db_empty_def)
  from journal_start_ok(1) [OF this] show ?thesis using journal_seqs_increase by blast
qed

text \<open>
  No change that matters is missing. After any calls (failed ones included) and
  then a call that nothing hinders, the newest row of the history carries the cycle
  state, counters, faults and program of that call's packet, or values that compare
  equal to them.
\<close>

theorem newest_row_is_current:
  fixes calls :: "(pydict \<times> journal_env) list" and dumps :: "pydict \<Rightarrow> string"
    and db :: journal_db and env0 :: journal_env and i r m :: rat
  defines "j \<equiv> foldl (\<lambda>j (payload, env). snd (journal_record dumps payload env j))
    (journal_start i r m db env0) calls"
  assumes "healthy env j"
  shows "\<exists>rows row c. db_entries (jn_db (snd (journal_record dumps payload env j))) = rows @ [row] \<and>
    jr_data row = dumps c \<and>
    (change_key c = change_key (compact_packet payload) \<or>
     same_key (change_key (compact_packet payload)) (change_key c))"
proof -
  have start: "journal_shows dumps (journal_start i r m db env0)"
  proof -
    have "(0::rat) \<le> max 1 r * 86400000" by (simp add: max_def)
    then have "0 \<le> \<lfloor>max 1 r * 86400000\<rfloor>" by simp
    then show ?thesis
      by (auto simp: journal_start_def journal_open_def journal_shows_def journal_fail_def
          split: option.split)
  qed
  have "journal_shows dumps (foldl (\<lambda>j (payload, env). snd (journal_record dumps payload env j)) j0 calls)"
    if "journal_shows dumps j0" for j0
    using that by (induction calls arbitrary: j0) (auto intro: journal_record_shows)
  from journal_record_shows [OF this [OF start], folded j_def, of payload env]
    journal_record_current [OF assms(2), of dumps payload]
  show ?thesis by (fastforce simp: journal_shows_def row_shows_def)
qed

definition demo_env :: "rat \<Rightarrow> journal_env" where
  "demo_env now =
     \<lparr>je_now = now, je_free = Some 500000000, je_open_ok = True, je_write_ok = True,
      je_fresh_id = ''id'', je_clock_ms = 5\<rparr>"

lemma newest_row_is_current_witness:
  "\<exists>rows row. db_entries (jn_db (snd (journal_record (\<lambda>d. ''{}'') [(''cycle_state'', PStr ''IDLE'')]
      (demo_env 1) (journal_start 10 14 100 db_empty (demo_env 0))))) = rows @ [row] \<and>
    jr_data row = ''{}''"
proof -
  have "healthy (demo_env 1) (foldl (\<lambda>j (payload, env). snd (journal_record (\<lambda>d. ''{}'') payload env j))
      (journal_start 10 14 100 db_empty (demo_env 0)) [])"
    by (simp add: healthy_def demo_env_def journal_start_def journal_open_def db_empty_def
        journal_disk_ok_def disk_check_s_def)
  from newest_row_is_current [OF this, of "[(''cycle_state'', PStr ''IDLE'')]"] show ?thesis by auto
qed

text \<open>
  The journal never fills the disk. When the free space was looked at for a call
  and less than the configured minimum was free, the call writes nothing; once paused
  it resumes only with a tenth more than the minimum.
\<close>

theorem low_disk_writes_nothing:
  assumes "jn_min_free j \<noteq> 0" "je_free env = Some free"
    and "jn_last_disk_check j + disk_check_s \<le> je_now env"
    and "of_int free < of_int (jn_min_free j) * (if jn_state j = JDiskLow then 11 / 10 else 1 :: rat)"
  shows "journal_record dumps payload env j =
    (None, j\<lparr>jn_last_disk_check := je_now env, jn_state := JDiskLow\<rparr>)"
proof -
  have "\<not> je_now env - jn_last_disk_check j < disk_check_s" using assms(3) by linarith
  then show ?thesis
    using assms(1,2,4) by (auto simp: journal_record_def journal_disk_ok_def Let_def)
qed

lemma low_disk_writes_nothing_witness:
  "fst (journal_record (\<lambda>d. ''{}'') [] (demo_env 100) (journal_start 10 14 1000 db_empty (demo_env 0))) = None"
  using low_disk_writes_nothing [of "journal_start 10 14 1000 db_empty (demo_env 0)" "demo_env 100"
      500000000 "\<lambda>d. ''{}''" "[]"]
  by (simp add: demo_env_def journal_start_def journal_open_def db_empty_def disk_check_s_def)

end
