(* ===== verification/Packet_Auth.thy ===== *)
theory Packet_Auth
  imports Agent_Prelude
begin

text \<open>
  Packet signing, \<open>agent_auth.py\<close>. Bytes are a \<open>string\<close> (one character per byte).
  HMAC-SHA256 is not under \<open>src/\<close>: it is the parameter \<open>mac\<close>, the hex digest of a
  key and a message.
\<close>

section \<open>Signing and checking\<close>

type_synonym mac = "string \<Rightarrow> string \<Rightarrow> string"

definition sig_domain :: string where
  "sig_domain = ''lcnc-sig-v1'' @ [CHR 0x0A]"

definition min_key_chars :: nat where "min_key_chars = 16"
definition sig_reserve :: nat where "sig_reserve = 80"

text \<open>Whitespace of \<open>bytes.rstrip\<close> and of \<open>\s\<close> in a bytes pattern; \<open>[0-9a-f]\<close>.\<close>

definition is_byte_space :: "char \<Rightarrow> bool" where
  "is_byte_space c \<longleftrightarrow>
     c \<in> set [CHR '' '', CHR 0x09, CHR 0x0A, CHR 0x0B, CHR 0x0C, CHR 0x0D]"

definition is_hex :: "char \<Rightarrow> bool" where
  "is_hex c \<longleftrightarrow> c \<in> set ''0123456789abcdef''"

definition byte_rstrip :: "string \<Rightarrow> string" where
  "byte_rstrip s = rev (dropWhile is_byte_space (rev s))"

text \<open>\<open>key_bytes\<close>: the key text with its outer whitespace gone; \<open>encode\<close> is UTF-8.\<close>

definition key_bytes :: "(string \<Rightarrow> string) \<Rightarrow> string option \<Rightarrow> string option" where
  "key_bytes encode site_key =
     (let key = strip (or_else site_key '''')
      in if key = '''' then None else Some (encode key))"

definition packet_mac :: "mac \<Rightarrow> string \<Rightarrow> string \<Rightarrow> string" where
  "packet_mac mac key payload = mac key (sig_domain @ payload)"

definition sig_mark :: string where "sig_mark = ''\"sig\":\"''"
definition sig_close :: string where "sig_close = ''\"}''"

text \<open>\<open>b.endswith(c)\<close> for one byte.\<close>

definition ends_in :: "char \<Rightarrow> string \<Rightarrow> bool" where
  "ends_in c s \<longleftrightarrow> s \<noteq> [] \<and> last s = c"

datatype sign_error = NotAnObject

definition sign :: "mac \<Rightarrow> string \<Rightarrow> string option \<Rightarrow> sign_error + string" where
  "sign mac payload key =
     (case key of
        None \<Rightarrow> Inr payload
      | Some k \<Rightarrow>
          if k = [] then Inr payload
          else
            (let body = byte_rstrip payload
             in if \<not> ends_in (CHR ''}'') body then Inl NotAnObject
                else
                  (let head = butlast body;
                       sep = (if ends_in (CHR ''{'') (byte_rstrip head) then [] else '','')
                   in Inr (head @ sep @ sig_mark @ packet_mac mac k body @ sig_close))))"

text \<open>
  \<open>(,?)"sig":"([0-9a-f]{64})"\}\s*\Z\<close> tried at the start of the text: the digest when it
  matches. After a comma the attempt without it cannot match, so there is one way.
\<close>

definition sig_at :: "string \<Rightarrow> string option" where
  "sig_at s =
     (let s1 = (case s of c # cs \<Rightarrow> if c = CHR '','' then cs else s | [] \<Rightarrow> []);
          digest = take 64 (drop (length sig_mark) s1);
          rest = drop (length sig_mark + 64) s1
      in if starts_with s1 sig_mark \<and> length digest = 64 \<and> list_all is_hex digest \<and>
            starts_with rest sig_close \<and> list_all is_byte_space (drop (length sig_close) rest)
         then Some digest else None)"

text \<open>\<open>_SUFFIX.search\<close>: the text before the leftmost match, and the digest.\<close>

fun sig_search :: "string \<Rightarrow> (string \<times> string) option" where
  "sig_search s =
     (case sig_at s of
        Some digest \<Rightarrow> Some ([], digest)
      | None \<Rightarrow>
          (case s of
             [] \<Rightarrow> None
           | c # cs \<Rightarrow> (case sig_search cs of
                          None \<Rightarrow> None | Some (p, digest) \<Rightarrow> Some (c # p, digest))))"

declare sig_search.simps [simp del]

datatype sig_verdict = SigOk | SigUnsigned | SigBad

definition verify :: "mac \<Rightarrow> string \<Rightarrow> string \<Rightarrow> sig_verdict" where
  "verify mac raw key =
     (case sig_search raw of
        None \<Rightarrow> SigUnsigned
      | Some (before_sig, digest) \<Rightarrow>
          if packet_mac mac key (before_sig @ ''}'') = digest then SigOk else SigBad)"

section \<open>The shape of a signed packet\<close>

text \<open>
  A packet with a signature member at its end: text, optional comma, member, trailing
  whitespace. The comma belongs to the member, so the text does not end in one then.
\<close>

definition sig_tail :: "string \<Rightarrow> string \<Rightarrow> string \<Rightarrow> string" where
  "sig_tail comma digest spaces = comma @ sig_mark @ digest @ sig_close @ spaces"

definition tail_parts :: "string \<Rightarrow> string \<Rightarrow> string \<Rightarrow> bool" where
  "tail_parts comma digest spaces \<longleftrightarrow>
     (comma = [] \<or> comma = '','') \<and> length digest = 64 \<and> list_all is_hex digest \<and>
     list_all is_byte_space spaces"

lemma sig_mark_props [simp]:
  "length sig_mark = 7" "sig_mark \<noteq> []" "hd sig_mark = CHR 0x22" "sig_close = [CHR 0x22, CHR ''}'']"
  by (simp_all add: sig_mark_def sig_close_def)

lemma sig_mark_Cons: "sig_mark = CHR 0x22 # tl sig_mark"
  by (simp add: sig_mark_def)

lemma sig_at_tail: "tail_parts comma digest spaces \<Longrightarrow> sig_at (sig_tail comma digest spaces) = Some digest"
proof -
  assume t: "tail_parts comma digest spaces"
  let ?s1 = "sig_mark @ digest @ sig_close @ spaces"
  have s1: "(case sig_tail comma digest spaces of
      c # cs \<Rightarrow> if c = CHR '','' then cs else sig_tail comma digest spaces | [] \<Rightarrow> []) = ?s1"
    using t by (subst sig_mark_Cons) (auto simp: tail_parts_def sig_tail_def sig_mark_def)
  have "starts_with ?s1 sig_mark" by (auto simp: starts_with_iff)
  then show ?thesis
    using t unfolding sig_at_def s1 Let_def
    by (simp add: tail_parts_def starts_with_iff)
qed

lemma sig_at_Some:
  assumes "sig_at s = Some digest"
  obtains comma spaces where "tail_parts comma digest spaces" "s = sig_tail comma digest spaces"
proof -
  define s1 where "s1 = (case s of c # cs \<Rightarrow> if c = CHR '','' then cs else s | [] \<Rightarrow> [])"
  from assms have h: "starts_with s1 sig_mark" "digest = take 64 (drop 7 s1)" "length digest = 64"
    "list_all is_hex digest" "starts_with (drop 71 s1) sig_close"
    "list_all is_byte_space (drop 2 (drop 71 s1))"
    unfolding sig_at_def s1_def [symmetric] Let_def by (auto split: if_splits)
  obtain t where t: "s1 = sig_mark @ t" using h(1) by (auto simp: starts_with_iff)
  have "drop 71 s1 = drop 64 t" by (simp add: t)
  with h(5) obtain u where u: "drop 64 t = sig_close @ u" by (auto simp: starts_with_iff)
  have d: "digest = take 64 t" using h(2) by (simp add: t)
  have "t = digest @ sig_close @ u" using u d by (metis append_take_drop_id)
  moreover have "list_all is_byte_space u" using h(6) \<open>drop 71 s1 = drop 64 t\<close> u by simp
  moreover have "s = s1 \<or> s = CHR '','' # s1"
    by (cases s) (auto simp: s1_def)
  ultimately show thesis
    using that [of "[]" u] that [of "'',''" u] h(3,4) t
    by (auto simp: tail_parts_def sig_tail_def)
qed

lemma sig_at_ex:
  "sig_at s = Some digest \<Longrightarrow>
   \<exists>comma spaces. tail_parts comma digest spaces \<and> s = sig_tail comma digest spaces"
  using sig_at_Some [of s digest] by blast

text \<open>The length of a text without its trailing whitespace places the member.\<close>

lemma rstrip_tail:
  "tail_parts comma digest spaces \<Longrightarrow>
   length (byte_rstrip (x @ sig_tail comma digest spaces)) = length x + length comma + 73"
proof -
  assume t: "tail_parts comma digest spaces"
  have "dropWhile is_byte_space (rev spaces @ ys) = dropWhile is_byte_space ys" for ys
  proof -
    have "is_byte_space c" if "c \<in> set (rev spaces)" for c
      using t that by (simp add: tail_parts_def list_all_iff)
    then show ?thesis by (rule dropWhile_append2)
  qed
  then show ?thesis
    using t by (simp add: byte_rstrip_def sig_tail_def tail_parts_def is_byte_space_def)
qed

lemma sig_search_tail:
  assumes t: "tail_parts comma digest spaces" and p: "comma = [] \<Longrightarrow> \<not> ends_in (CHR '','') p"
  shows "sig_search (p @ sig_tail comma digest spaces) = Some (p, digest)"
  using p
proof (induction p)
  case Nil
  then show ?case using sig_at_tail [OF t] by (simp add: sig_search.simps)
next
  case (Cons c p)
  have "sig_at (c # p @ sig_tail comma digest spaces) = None"
  proof (rule ccontr)
    assume "sig_at (c # p @ sig_tail comma digest spaces) \<noteq> None"
    then obtain d where "sig_at (c # p @ sig_tail comma digest spaces) = Some d" by auto
    then obtain comma' spaces' where t': "tail_parts comma' d spaces'"
      and eq: "c # p @ sig_tail comma digest spaces = sig_tail comma' d spaces'"
      by (rule sig_at_Some)
    have "length (c # p) + length comma + 73 = length comma' + 73"
      using rstrip_tail [OF t, of "c # p"] rstrip_tail [OF t', of "[]"] eq by simp
    then have "comma' = '',''" "p = []" "comma = []"
      using t' by (auto simp: tail_parts_def)
    with eq have "c = CHR '',''" by (simp add: sig_tail_def)
    with Cons.prems \<open>p = []\<close> \<open>comma = []\<close> show False by (simp add: ends_in_def)
  qed
  moreover have "sig_search (p @ sig_tail comma digest spaces) = Some (p, digest)"
    by (rule Cons.IH) (use Cons.prems in \<open>auto simp: ends_in_def\<close>)
  ultimately show ?case by (subst sig_search.simps) simp
qed

lemma sig_search_Some:
  "sig_search s = Some (p, digest) \<Longrightarrow>
   \<exists>comma spaces. tail_parts comma digest spaces \<and> s = p @ sig_tail comma digest spaces"
proof (induction s arbitrary: p)
  case Nil
  then have "sig_at [] = Some digest" "p = []"
    by (subst (asm) sig_search.simps; auto split: option.splits)+
  then show ?case using sig_at_ex by simp
next
  case (Cons c cs)
  show ?case
  proof (cases "sig_at (c # cs)")
    case None
    with Cons.prems obtain q where "p = c # q" "sig_search cs = Some (q, digest)"
      by (subst (asm) sig_search.simps) (auto split: option.splits)
    with Cons.IH show ?thesis by simp
  next
    case (Some d)
    with Cons.prems have "p = []" "d = digest"
      by (subst (asm) sig_search.simps; simp)+
    with Some show ?thesis using sig_at_ex by simp
  qed
qed

lemma ends_in_butlast: "ends_in c s \<Longrightarrow> butlast s @ [c] = s"
  by (auto simp: ends_in_def)

lemma byte_rstrip_prefix: "\<exists>t. list_all is_byte_space t \<and> s = byte_rstrip s @ t"
proof (intro exI conjI)
  let ?t = "rev (takeWhile is_byte_space (rev s))"
  show "list_all is_byte_space ?t" by (auto simp: list_all_iff dest: set_takeWhileD)
  show "s = byte_rstrip s @ ?t"
    unfolding byte_rstrip_def by (metis rev_append rev_rev_ident takeWhile_dropWhile_id)
qed

lemma no_comma_after_brace: "ends_in (CHR ''{'') (byte_rstrip s) \<Longrightarrow> \<not> ends_in (CHR '','') s"
proof -
  assume b: "ends_in (CHR ''{'') (byte_rstrip s)"
  obtain t where t: "list_all is_byte_space t" "s = byte_rstrip s @ t"
    using byte_rstrip_prefix by blast
  show ?thesis
  proof (cases "t = []")
    case True
    with b t(2) show ?thesis by (auto simp: ends_in_def)
  next
    case False
    then have "last s = last t" "is_byte_space (last t)"
      using t by (metis last_appendR) (use False t in \<open>auto simp: list_all_iff\<close>)
    then show ?thesis by (auto simp: ends_in_def is_byte_space_def)
  qed
qed

text \<open>The hex digest of HMAC-SHA256 as Python documents it.\<close>

definition hex_mac :: "mac \<Rightarrow> bool" where
  "hex_mac mac \<longleftrightarrow> (\<forall>k x. length (mac k x) = 64 \<and> list_all is_hex (mac k x))"

lemma sign_shape:
  assumes "sign mac payload (Some k) = Inr raw" "k \<noteq> []"
  obtains p comma where
    "raw = p @ sig_tail comma (packet_mac mac k (byte_rstrip payload)) []"
    "p @ ''}'' = byte_rstrip payload" "comma = [] \<or> comma = '',''"
    "comma = [] \<Longrightarrow> \<not> ends_in (CHR '','') p"
proof -
  let ?b = "byte_rstrip payload"
  let ?sep = "if ends_in (CHR ''{'') (byte_rstrip (butlast ?b)) then [] else '',''"
  from assms have e: "ends_in (CHR ''}'') ?b"
    and raw: "raw = butlast ?b @ ?sep @ sig_mark @ packet_mac mac k ?b @ sig_close"
    by (auto simp: sign_def Let_def split: if_splits)
  show thesis
    using that [of "butlast ?b" ?sep] raw ends_in_butlast [OF e] no_comma_after_brace [of "butlast ?b"]
    by (simp add: sig_tail_def split: if_splits)
qed

section \<open>Properties\<close>

text \<open>
  C35: what one side signs the other accepts. With a key, a signed packet verifies as
  \<open>ok\<close> under the same key, and it is the payload with its trailing whitespace
  gone and one member inserted before the closing brace; a payload that is no JSON
  object is refused.
\<close>

theorem signed_packet_verifies:
  assumes "hex_mac mac" "k \<noteq> []" "ends_in (CHR ''}'') (byte_rstrip payload)"
  shows "\<exists>raw p comma. sign mac payload (Some k) = Inr raw \<and> verify mac raw k = SigOk \<and>
    byte_rstrip payload = p @ ''}'' \<and>
    raw = p @ sig_tail comma (packet_mac mac k (byte_rstrip payload)) [] \<and>
    length raw \<le> length payload + sig_reserve"
proof -
  obtain raw where raw: "sign mac payload (Some k) = Inr raw"
    using assms(2,3) by (simp add: sign_def Let_def)
  then obtain p comma where p: "raw = p @ sig_tail comma (packet_mac mac k (byte_rstrip payload)) []"
    "p @ ''}'' = byte_rstrip payload" "comma = [] \<or> comma = '',''"
    "comma = [] \<Longrightarrow> \<not> ends_in (CHR '','') p"
    using sign_shape [OF _ assms(2)] by blast
  have m: "length (packet_mac mac k x) = 64" "list_all is_hex (packet_mac mac k x)" for x
    using assms(1) by (simp_all add: hex_mac_def packet_mac_def)
  have t: "tail_parts comma (packet_mac mac k (byte_rstrip payload)) []"
    using p(3) m by (simp add: tail_parts_def)
  have "sig_search raw = Some (p, packet_mac mac k (byte_rstrip payload))"
    unfolding p(1) using t p(4) by (rule sig_search_tail)
  then have v: "verify mac raw k = SigOk" by (simp add: verify_def p(2))
  obtain ws where "payload = byte_rstrip payload @ ws" using byte_rstrip_prefix by blast
  then have "length (byte_rstrip payload) \<le> length payload" by (metis le_add1 length_append)
  then have "length raw \<le> length payload + sig_reserve"
    using p(3) m arg_cong [OF p(2), of length]
    by (auto simp: p(1) sig_tail_def sig_reserve_def)
  with raw v p(1,2) show ?thesis by metis
qed

definition demo_mac :: mac where
  "demo_mac k x = (if k = ''key'' then replicate 64 (CHR ''a'') else replicate 64 (CHR ''b''))"

lemma signed_packet_verifies_witness:
  "\<exists>raw. sign demo_mac ''{}'' (Some ''key'') = Inr raw \<and> verify demo_mac raw ''key'' = SigOk"
proof -
  have m: "hex_mac demo_mac" by (auto simp: hex_mac_def demo_mac_def is_hex_def list_all_iff)
  have e: "ends_in (CHR ''}'') (byte_rstrip ''{}'')" by code_simp
  from signed_packet_verifies [OF m _ e, of "''key''"] show ?thesis by auto
qed

text \<open>
  C32: a packet is accepted only for what was signed. \<open>verify\<close> says \<open>ok\<close> exactly when
  the packet ends in a signature member whose digest is the MAC of the packet with
  that member cut out; anything else is unsigned (no member at the end) or bad.
\<close>

theorem verify_ok_iff:
  "verify mac raw k = SigOk \<longleftrightarrow>
   (\<exists>p comma spaces. raw = p @ sig_tail comma (packet_mac mac k (p @ ''}'')) spaces \<and>
      tail_parts comma (packet_mac mac k (p @ ''}'')) spaces \<and>
      (comma \<noteq> [] \<or> \<not> ends_in (CHR '','') p))"
proof
  assume "verify mac raw k = SigOk"
  then obtain p where s: "sig_search raw = Some (p, packet_mac mac k (p @ ''}''))"
    by (auto simp: verify_def split: option.splits prod.splits if_splits)
  let ?d = "packet_mac mac k (p @ ''}'')"
  from sig_search_Some [OF s] obtain comma spaces where
    t: "tail_parts comma ?d spaces" "raw = p @ sig_tail comma ?d spaces" by blast
  have "comma \<noteq> [] \<or> \<not> ends_in (CHR '','') p"
  proof (rule ccontr)
    assume "\<not> ?thesis"
    then have c: "comma = []" "ends_in (CHR '','') p" by auto
    from ends_in_butlast [OF c(2)] have p: "p = butlast p @ '',''" by simp
    have "raw = butlast p @ sig_tail '','' ?d spaces"
      using t(2) c(1) by (subst (asm) p) (simp add: sig_tail_def)
    moreover have "tail_parts '','' ?d spaces" using t(1) by (simp add: tail_parts_def)
    ultimately have "sig_search raw = Some (butlast p, ?d)"
      using sig_search_tail [of "'',''" ?d spaces "butlast p"] by simp
    with s p show False by simp
  qed
  with t show "\<exists>p comma spaces. raw = p @ sig_tail comma (packet_mac mac k (p @ ''}'')) spaces \<and>
      tail_parts comma (packet_mac mac k (p @ ''}'')) spaces \<and>
      (comma \<noteq> [] \<or> \<not> ends_in (CHR '','') p)" by blast
next
  assume "\<exists>p comma spaces. raw = p @ sig_tail comma (packet_mac mac k (p @ ''}'')) spaces \<and>
      tail_parts comma (packet_mac mac k (p @ ''}'')) spaces \<and>
      (comma \<noteq> [] \<or> \<not> ends_in (CHR '','') p)"
  then obtain p comma spaces where
    t: "raw = p @ sig_tail comma (packet_mac mac k (p @ ''}'')) spaces"
      "tail_parts comma (packet_mac mac k (p @ ''}'')) spaces"
      "comma \<noteq> [] \<or> \<not> ends_in (CHR '','') p" by blast
  from sig_search_tail [OF t(2), of p] t(1,3)
  have "sig_search raw = Some (p, packet_mac mac k (p @ ''}''))" by blast
  then show "verify mac raw k = SigOk" by (simp add: verify_def)
qed

lemma verify_ok_iff_witness:
  "verify demo_mac (''{'' @ sig_tail [] (replicate 64 (CHR ''a'')) '' '') ''key'' = SigOk"
proof -
  have m: "packet_mac demo_mac ''key'' x = replicate 64 (CHR ''a'')" for x
    by (simp add: packet_mac_def demo_mac_def)
  show ?thesis
    unfolding verify_ok_iff m
    by (rule exI [of _ "''{''"], rule exI [of _ "[]"], rule exI [of _ "'' ''"])
      (simp add: tail_parts_def is_hex_def is_byte_space_def ends_in_def list_all_iff)
qed

end
