(* ===== verification/Journal_Server.thy ===== *)
theory Journal_Server
  imports Journal Packet_Auth
begin

text \<open>
  The serving side of \<open>agent_journal.py\<close>: the checks on a request (\<open>_seq_arg\<close>),
  \<open>build_reply\<close> with its paging, and \<open>JournalServer\<close>: who is answered, replays, the
  rate limit. \<open>json.loads\<close> / \<open>json.dumps\<close> are the parameters \<open>loads\<close> and \<open>dumps\<close>;
  sockets are the inputs and outcomes of a step.
\<close>

section \<open>Sequence numbers of a request\<close>

definition max_seq :: int where "max_seq = 2 ^ 63 - 1"

datatype seq_error = BadRequest | ValueError

text \<open>\<open>str.isdigit\<close> on U+0000 to U+00FF: the superscripts count, but \<open>int\<close> refuses them.\<close>

definition is_digit_char :: "char \<Rightarrow> bool" where
  "is_digit_char c \<longleftrightarrow> is_digit c \<or> c \<in> set [CHR 0xB2, CHR 0xB3, CHR 0xB9]"

definition str_isdigit :: "string \<Rightarrow> bool" where
  "str_isdigit s \<longleftrightarrow> s \<noteq> '''' \<and> list_all is_digit_char s"

definition in_seq_range :: "int \<Rightarrow> seq_error + int" where
  "in_seq_range n = (if 0 \<le> n \<and> n \<le> max_seq then Inr n else Inl BadRequest)"

fun seq_arg :: "pyval \<Rightarrow> seq_error + int" where
  "seq_arg (PBool b) = Inl BadRequest"
| "seq_arg (PInt n) = in_seq_range n"
| "seq_arg (PFloat f) =
     (case f of
        Fin x \<Rightarrow> if x \<noteq> of_int \<lfloor>x\<rfloor> then Inl BadRequest else in_seq_range \<lfloor>x\<rfloor>
      | _ \<Rightarrow> Inl BadRequest)"
| "seq_arg (PStr s) =
     (let t = strip s
      in if 0 < length t \<and> length t \<le> 20 \<and> str_isdigit t then
           (if list_all is_digit t then in_seq_range (parse_digits t) else Inl ValueError)
         else Inl BadRequest)"
| "seq_arg _ = Inl BadRequest"

lemma seq_arg_range: "seq_arg v = Inr n \<Longrightarrow> 0 \<le> n \<and> n \<le> max_seq"
  by (cases v rule: seq_arg.cases)
    (auto simp: in_seq_range_def Let_def split: if_splits pyfloat.splits)

section \<open>build\_reply\<close>

definition max_reply_bytes :: int where "max_reply_bytes = 16000"
definition max_rows_per_query :: nat where "max_rows_per_query = 500"

record journal_reply =
  rp_machine_name :: string
  rp_agent_id :: string
  rp_first_seq :: int
  rp_last_seq :: int
  rp_from_seq :: int
  rp_entries :: "(int \<times> int \<times> pyval) list"
  rp_more :: bool

text \<open>The loop over the rows: entries so far and their size.\<close>

fun take_rows ::
  "(string \<Rightarrow> pyval option) \<Rightarrow> int \<Rightarrow> journal_row list \<Rightarrow>
   (int \<times> int \<times> pyval) list \<Rightarrow> int \<Rightarrow> (int \<times> int \<times> pyval) list" where
  "take_rows loads max_bytes [] entries used = entries"
| "take_rows loads max_bytes (r # rows) entries used =
     (let item_len = int (length (jr_data r)) + 40
      in if entries \<noteq> [] \<and> used + item_len > max_bytes then entries
         else (case loads (jr_data r) of
                 None \<Rightarrow> take_rows loads max_bytes rows entries used
               | Some v \<Rightarrow>
                   take_rows loads max_bytes rows (entries @ [(jr_seq r, jr_ts r, v)])
                     (used + item_len)))"

definition rows_between :: "int \<Rightarrow> int \<Rightarrow> journal_row list \<Rightarrow> journal_row list" where
  "rows_between from_seq upper rows = filter (\<lambda>r. from_seq < jr_seq r \<and> jr_seq r \<le> upper) rows"

definition request_valid :: "pyval \<Rightarrow> bool" where
  "request_valid request \<longleftrightarrow>
     is_dict request \<and> py_eq (val_get request ''type'') (PStr ''journal_request'')"

text \<open>\<open>request.get("from_seq", 0)\<close>: the default is for a missing key only.\<close>

definition from_arg :: "pyval \<Rightarrow> pyval" where
  "from_arg request =
     (case request of PDict d \<Rightarrow> or_else (map_of d ''from_seq'') (PInt 0) | _ \<Rightarrow> PInt 0)"

definition reply_page ::
  "(string \<Rightarrow> pyval option) \<Rightarrow> journal_row list \<Rightarrow> int \<Rightarrow> int option \<Rightarrow> string \<Rightarrow> string \<Rightarrow> int \<Rightarrow>
   journal_reply" where
  "reply_page loads rows from_seq to_seq name agent_id max_bytes =
     (let last_seq = max_seq_of rows;
          upper = (case to_seq of None \<Rightarrow> last_seq | Some t \<Rightarrow> min t last_seq);
          chosen = take max_rows_per_query (rows_between from_seq upper rows);
          entries = take_rows loads max_bytes chosen [] 400;
          last_sent = (if entries \<noteq> [] then fst (last entries) else upper)
      in \<lparr>rp_machine_name = name, rp_agent_id = agent_id, rp_first_seq = min_seq_of rows,
          rp_last_seq = last_seq, rp_from_seq = from_seq, rp_entries = entries,
          rp_more = (last_sent < upper)\<rparr>)"

text \<open>
  \<open>Inr None\<close> is the code's \<open>None\<close>; \<open>Inl\<close> is an exception that leaves the function.
\<close>

definition build_reply ::
  "(string \<Rightarrow> pyval option) \<Rightarrow> journal_row list \<Rightarrow> pyval \<Rightarrow> string \<Rightarrow> string \<Rightarrow> int \<Rightarrow>
   seq_error + journal_reply option" where
  "build_reply loads rows request name agent_id max_bytes =
     (if \<not> request_valid request then Inr None
      else
        (case seq_arg (from_arg request) of
           Inl BadRequest \<Rightarrow> Inr None
         | Inl ValueError \<Rightarrow> Inl ValueError
         | Inr from_seq \<Rightarrow>
             (case val_get request ''to_seq'' of
                PNone \<Rightarrow> Inr (Some (reply_page loads rows from_seq None name agent_id max_bytes))
              | to_val \<Rightarrow>
                  (case seq_arg to_val of
                     Inl BadRequest \<Rightarrow> Inr None
                   | Inl ValueError \<Rightarrow> Inl ValueError
                   | Inr to_seq \<Rightarrow>
                       Inr (Some (reply_page loads rows from_seq (Some to_seq) name agent_id
                                    max_bytes))))))"

subsection \<open>What a page holds\<close>

definition entry_of :: "(string \<Rightarrow> pyval option) \<Rightarrow> journal_row \<Rightarrow> (int \<times> int \<times> pyval) option" where
  "entry_of loads r = map_option (\<lambda>v. (jr_seq r, jr_ts r, v)) (loads (jr_data r))"

definition decoded :: "(string \<Rightarrow> pyval option) \<Rightarrow> journal_row list \<Rightarrow> bool" where
  "decoded loads rows \<longleftrightarrow> (\<forall>r\<in>set rows. loads (jr_data r) \<noteq> None)"

definition entries_of :: "(string \<Rightarrow> pyval option) \<Rightarrow> journal_row list \<Rightarrow> (int \<times> int \<times> pyval) list" where
  "entries_of loads rows = map (\<lambda>r. (jr_seq r, jr_ts r, the (loads (jr_data r)))) rows"

lemma take_rows_prefix:
  "decoded loads rows \<Longrightarrow>
   \<exists>k. take_rows loads mb rows entries used = entries @ entries_of loads (take k rows) \<and>
     (rows \<noteq> [] \<longrightarrow> entries = [] \<longrightarrow> 0 < k)"
proof (induction rows arbitrary: entries used)
  case Nil
  then show ?case by (simp add: entries_of_def)
next
  case (Cons r rows)
  then obtain v where v: "loads (jr_data r) = Some v" and d: "decoded loads rows"
    by (auto simp: decoded_def)
  let ?len = "int (length (jr_data r)) + 40"
  show ?case
  proof (cases "entries \<noteq> [] \<and> used + ?len > mb")
    case True
    then have "take_rows loads mb (r # rows) entries used = entries" by (simp add: Let_def)
    with True show ?thesis by (intro exI [of _ 0]) (simp add: entries_of_def)
  next
    case False
    then have eq: "take_rows loads mb (r # rows) entries used =
        take_rows loads mb rows (entries @ [(jr_seq r, jr_ts r, v)]) (used + ?len)"
      using v by (auto simp: Let_def)
    obtain k where "take_rows loads mb rows (entries @ [(jr_seq r, jr_ts r, v)]) (used + ?len) =
        (entries @ [(jr_seq r, jr_ts r, v)]) @ entries_of loads (take k rows)"
      using Cons.IH [OF d] by blast
    then show ?thesis
      unfolding eq using v by (intro exI [of _ "Suc k"]) (simp add: entries_of_def)
  qed
qed

section \<open>Fetching the whole history\<close>

text \<open>
  The interface of a paged log, as the dashboard uses it: a well-formed log \<open>s\<close> asked
  for what comes after a number gives a page, an initial part of what is left, and
  says whether there may be more. Without more the page is everything left; with more
  it is not empty, so the next question starts further on.
\<close>

locale paged_log =
  fixes ok :: "'s \<Rightarrow> bool"
    and page :: "'s \<Rightarrow> int \<Rightarrow> 'e list \<times> bool"
    and key :: "'e \<Rightarrow> int"
    and rest :: "'s \<Rightarrow> int \<Rightarrow> 'e list"
  assumes page_prefix: "ok s \<Longrightarrow> \<exists>k. fst (page s n) = take k (rest s n)"
    and page_last: "ok s \<Longrightarrow> \<not> snd (page s n) \<Longrightarrow> fst (page s n) = rest s n"
    and page_more: "ok s \<Longrightarrow> snd (page s n) \<Longrightarrow> fst (page s n) \<noteq> []"
    and rest_after: "ok s \<Longrightarrow> fst (page s n) \<noteq> [] \<Longrightarrow>
      rest s (key (last (fst (page s n)))) = drop (length (fst (page s n))) (rest s n)"
begin

text \<open>The client: ask again from the last number got while there is more.\<close>

fun fetch :: "'s \<Rightarrow> nat \<Rightarrow> int \<Rightarrow> 'e list option" where
  "fetch s 0 n = None"
| "fetch s (Suc fuel) n =
     (let (es, more) = page s n
      in if \<not> more then Some es
         else map_option (\<lambda>t. es @ t) (fetch s fuel (key (last es))))"

lemma fetch_all: "ok s \<Longrightarrow> length (rest s n) < fuel \<Longrightarrow> fetch s fuel n = Some (rest s n)"
proof (induction fuel arbitrary: n)
  case (Suc fuel)
  note ok = Suc.prems(1)
  obtain es more where p: "page s n = (es, more)" by (cases "page s n")
  obtain k where k: "es = take k (rest s n)" using page_prefix [OF ok, of n] p by auto
  show ?case
  proof (cases more)
    case False
    then have "es = rest s n" using page_last [OF ok, of n] p by simp
    with False p show ?thesis by simp
  next
    case True
    then have es: "es \<noteq> []" using page_more [OF ok, of n] p by simp
    have r: "rest s (key (last es)) = drop (length es) (rest s n)"
      using rest_after [OF ok, of n] p es by simp
    have "rest s n \<noteq> []" using es k by auto
    then have "0 < length es" "0 < length (rest s n)" using es by simp_all
    then have "length (rest s (key (last es))) < fuel"
      unfolding r length_drop using Suc.prems(2) by linarith
    from Suc.IH [OF ok this] have "fetch s fuel (key (last es)) = Some (drop (length es) (rest s n))"
      by (simp add: r)
    moreover have "es @ drop (length es) (rest s n) = rest s n"
      using k by (cases "k \<le> length (rest s n)") (simp_all add: min_def)
    ultimately show ?thesis using p True by simp
  qed
qed simp

end

text \<open>The journal as such a log, for requests with a given \<open>to_seq\<close>.\<close>

type_synonym served = "journal_row list \<times> int option"

definition upper_of :: "served \<Rightarrow> int" where
  "upper_of s = (case snd s of None \<Rightarrow> max_seq_of (fst s) | Some t \<Rightarrow> min t (max_seq_of (fst s)))"

definition served_ok :: "(string \<Rightarrow> pyval option) \<Rightarrow> served \<Rightarrow> bool" where
  "served_ok loads s \<longleftrightarrow> sorted_wrt (<) (map jr_seq (fst s)) \<and> decoded loads (fst s)"

definition served_page ::
  "(string \<Rightarrow> pyval option) \<Rightarrow> int \<Rightarrow> served \<Rightarrow> int \<Rightarrow> (int \<times> int \<times> pyval) list \<times> bool" where
  "served_page loads max_bytes s n =
     (let r = reply_page loads (fst s) n (snd s) [] [] max_bytes in (rp_entries r, rp_more r))"

definition served_rest ::
  "(string \<Rightarrow> pyval option) \<Rightarrow> served \<Rightarrow> int \<Rightarrow> (int \<times> int \<times> pyval) list" where
  "served_rest loads s n = entries_of loads (rows_between n (upper_of s) (fst s))"

lemma decoded_subset: "decoded loads rows \<Longrightarrow> set rows' \<subseteq> set rows \<Longrightarrow> decoded loads rows'"
  by (auto simp: decoded_def)

lemma length_entries_of [simp]: "length (entries_of loads rows) = length rows"
  by (simp add: entries_of_def)

lemma entries_of_Nil [simp]: "entries_of loads rows = [] \<longleftrightarrow> rows = []"
  by (simp add: entries_of_def)

lemma fst_last_entries:
  "rows \<noteq> [] \<Longrightarrow> fst (last (entries_of loads rows)) = jr_seq (last rows)"
  by (simp add: entries_of_def last_map)

lemma sorted_rows_between:
  "sorted_wrt (<) (map jr_seq rows) \<Longrightarrow> sorted_wrt (<) (map jr_seq (rows_between n u rows))"
  by (simp add: rows_between_def sorted_wrt_map sorted_wrt_filter)

lemma served_page_eq:
  "fst (served_page loads mb s n) =
     take_rows loads mb (take max_rows_per_query (rows_between n (upper_of s) (fst s))) [] 400"
  "snd (served_page loads mb s n) \<longleftrightarrow>
     fst (served_page loads mb s n) \<noteq> [] \<and>
     fst (last (fst (served_page loads mb s n))) < upper_of s"
  unfolding served_page_def reply_page_def upper_of_def Let_def by simp_all

lemma take_entries_of:
  "take k (entries_of loads rows) = entries_of loads (take (min k (length rows)) rows)"
  by (cases "k \<le> length rows") (simp_all add: entries_of_def take_map min_def)

text \<open>A page is a number of the first rows asked for, at least one if there are any.\<close>

lemma served_page_take:
  assumes "served_ok loads s"
  obtains k where "fst (served_page loads mb s n) = take k (served_rest loads s n)"
    "served_rest loads s n \<noteq> [] \<Longrightarrow> 0 < k"
    "snd (served_page loads mb s n) \<longleftrightarrow>
       fst (served_page loads mb s n) \<noteq> [] \<and>
       fst (last (fst (served_page loads mb s n))) < upper_of s"
proof -
  let ?all = "rows_between n (upper_of s) (fst s)"
  let ?chosen = "take max_rows_per_query ?all"
  have d: "decoded loads ?chosen"
  proof (rule decoded_subset)
    show "decoded loads (fst s)" using assms by (simp add: served_ok_def)
    show "set ?chosen \<subseteq> set (fst s)" by (auto simp: rows_between_def dest: in_set_takeD)
  qed
  obtain k where k: "take_rows loads mb ?chosen [] 400 = entries_of loads (take k ?chosen)"
    "?chosen \<noteq> [] \<longrightarrow> 0 < k"
    using take_rows_prefix [OF d, of mb "[]" 400] by auto
  let ?m = "min k max_rows_per_query"
  have "fst (served_page loads mb s n) = entries_of loads (take k ?chosen)"
    unfolding served_page_eq(1) by (rule k(1))
  then have page: "fst (served_page loads mb s n) = take ?m (served_rest loads s n)"
    by (simp add: served_rest_def entries_of_def take_map)
  have pos: "0 < ?m" if "served_rest loads s n \<noteq> []"
    using that k(2) by (auto simp: served_rest_def max_rows_per_query_def)
  from that [OF page pos served_page_eq(2)] show thesis .
qed

lemma rows_after_take:
  assumes "sorted_wrt (<) (map jr_seq rows)" "0 < k" "k \<le> length (rows_between n u rows)"
  shows "rows_between (jr_seq (last (take k (rows_between n u rows)))) u rows =
    drop k (rows_between n u rows)"
proof -
  let ?b = "rows_between n u rows" and ?q = "jr_seq (last (take k (rows_between n u rows)))"
  have srt: "sorted_wrt (<) (map jr_seq ?b)" using assms(1) by (rule sorted_rows_between)
  have ne: "take k ?b \<noteq> []" using assms(2,3) by (cases ?b; cases k) auto
  then have "last (take k ?b) \<in> set ?b" by (meson in_set_takeD last_in_set)
  then have nq: "n < ?q" by (simp add: rows_between_def)
  have "rows_between ?q u rows = filter (\<lambda>r. ?q < jr_seq r) ?b"
    using nq by (auto simp: rows_between_def intro!: filter_cong)
  also have "\<dots> = filter (\<lambda>r. ?q < jr_seq r) (take k ?b @ drop k ?b)" by simp
  also have "\<dots> = drop k ?b"
  proof -
    have split: "sorted_wrt (<) (map jr_seq (take k ?b) @ map jr_seq (drop k ?b))"
      using srt by (metis append_take_drop_id map_append)
    have le: "jr_seq r \<le> ?q" if "r \<in> set (take k ?b)" for r
    proof -
      have "take k ?b = butlast (take k ?b) @ [last (take k ?b)]" using ne by simp
      then have "sorted_wrt (<) (map jr_seq (butlast (take k ?b)) @ [?q])"
        and "r \<in> set (butlast (take k ?b)) \<or> r = last (take k ?b)"
        using split that by (metis (no_types, lifting) list.simps(8,9) map_append sorted_wrt_append)
          (metis Un_iff append_butlast_last_id empty_iff empty_set ne set_ConsD set_append that)
      then show ?thesis by (auto simp: sorted_wrt_append)
    qed
    have gt: "?q < jr_seq r" if "r \<in> set (drop k ?b)" for r
      using split that ne by (auto simp: sorted_wrt_append)
    have "filter (\<lambda>r. ?q < jr_seq r) (take k ?b) = []" using le by (auto simp: filter_empty_conv not_less)
    moreover have "filter (\<lambda>r. ?q < jr_seq r) (drop k ?b) = drop k ?b" using gt by (simp add: filter_id_conv)
    ultimately show ?thesis by (simp only: filter_append append_Nil)
  qed
  finally show ?thesis .
qed

interpretation jlog: paged_log "served_ok loads" "served_page loads mb" fst "served_rest loads"
  for loads mb
proof
  fix s :: served and n :: int
  assume ok: "served_ok loads s"
  then have srt: "sorted_wrt (<) (map jr_seq (fst s))" by (simp add: served_ok_def)
  let ?b = "rows_between n (upper_of s) (fst s)"
  obtain k where k: "fst (served_page loads mb s n) = take k (served_rest loads s n)"
    "served_rest loads s n \<noteq> [] \<Longrightarrow> 0 < k"
    "snd (served_page loads mb s n) \<longleftrightarrow>
       fst (served_page loads mb s n) \<noteq> [] \<and>
       fst (last (fst (served_page loads mb s n))) < upper_of s"
    using served_page_take [OF ok] by metis
  let ?m = "min k (length ?b)"
  have page: "fst (served_page loads mb s n) = entries_of loads (take ?m ?b)"
    unfolding k(1) served_rest_def by (rule take_entries_of)
  show "\<exists>k. fst (served_page loads mb s n) = take k (served_rest loads s n)" using k(1) by blast
  show "snd (served_page loads mb s n) \<Longrightarrow> fst (served_page loads mb s n) \<noteq> []" using k(3) by blast
  show "served_rest loads s (fst (last (fst (served_page loads mb s n)))) =
      drop (length (fst (served_page loads mb s n))) (served_rest loads s n)"
    if "fst (served_page loads mb s n) \<noteq> []"
  proof -
    have ne: "take ?m ?b \<noteq> []" using that page by simp
    then have "0 < ?m" by (cases ?m) auto
    from rows_after_take [OF srt this, of n "upper_of s"]
    have "rows_between (jr_seq (last (take ?m ?b))) (upper_of s) (fst s) = drop ?m ?b" by simp
    then show ?thesis
      unfolding page fst_last_entries [OF ne] served_rest_def length_entries_of
      by (simp add: entries_of_def drop_map)
  qed
  show "fst (served_page loads mb s n) = served_rest loads s n" if "\<not> snd (served_page loads mb s n)"
  proof (cases "?b = []")
    case True
    then show ?thesis using page by (simp add: served_rest_def)
  next
    case False
    then have "0 < ?m" using k(2) by (simp add: served_rest_def)
    then have ne: "take ?m ?b \<noteq> []" using False by simp
    then have "upper_of s \<le> jr_seq (last (take ?m ?b))"
      using that k(3) page by (simp add: fst_last_entries)
    then have "rows_between (jr_seq (last (take ?m ?b))) (upper_of s) (fst s) = []"
      by (auto simp: rows_between_def filter_empty_conv)
    with rows_after_take [OF srt \<open>0 < ?m\<close>] have "drop ?m ?b = []" by simp
    then have "take ?m ?b = ?b" by simp
    with page show ?thesis by (simp add: served_rest_def)
  qed
qed

section \<open>JournalServer\<close>

definition max_nonces :: nat where "max_nonces = 4096"

record journal_server =
  js_machine_name :: string
  js_agent_id :: string
  js_max_rate :: int
  js_key :: "string option"
  js_allow :: "string list"
  js_nonces :: "string list"
  js_refused :: int
  js_bad_requests :: int
  js_window_start :: rat
  js_sent_in_window :: int

text \<open>\<open>popitem(last=False)\<close> while there are too many: the oldest go.\<close>

fun drop_oldest :: "nat \<Rightarrow> string list \<Rightarrow> string list" where
  "drop_oldest cap [] = []"
| "drop_oldest cap (x # xs) = (if length (x # xs) > cap then drop_oldest cap xs else x # xs)"

definition fresh_nonce :: "pyval \<Rightarrow> string list \<Rightarrow> bool \<times> string list" where
  "fresh_nonce request nonces =
     (case val_get request ''nonce'' of
        PStr nonce \<Rightarrow>
          if \<not> (8 \<le> length nonce \<and> length nonce \<le> 64) \<or> nonce \<in> set nonces then (False, nonces)
          else (True, drop_oldest max_nonces (nonces @ [nonce]))
      | _ \<Rightarrow> (False, nonces))"

text \<open>
  What the code calls outside itself for a request: HMAC, \<open>json.loads\<close> of the decoded
  request (\<open>None\<close>: an exception), \<open>json.loads\<close> of a row, \<open>json.dumps\<close> of the reply.
\<close>

record server_env =
  se_mac :: mac
  se_loads_request :: "string \<Rightarrow> pyval option"
  se_loads_row :: "string \<Rightarrow> pyval option"
  se_dumps_reply :: "journal_reply \<Rightarrow> string"

definition refuse :: "journal_server \<Rightarrow> journal_server" where
  "refuse s = s\<lparr>js_refused := js_refused s + 1\<rparr>"

definition bad_request :: "journal_server \<Rightarrow> journal_server" where
  "bad_request s = s\<lparr>js_bad_requests := js_bad_requests s + 1\<rparr>"

text \<open>\<open>_answer\<close>: the bytes sent, if any. \<open>send_ok\<close> is the outcome of \<open>sendto\<close>.\<close>

definition answer ::
  "server_env \<Rightarrow> journal_row list \<Rightarrow> string \<Rightarrow> string \<Rightarrow> bool \<Rightarrow> journal_server \<Rightarrow>
   string option \<times> journal_server" where
  "answer env rows raw host send_ok s =
     (if js_allow s \<noteq> [] \<and> host \<notin> set (js_allow s) then (None, refuse s)
      else if (case js_key s of None \<Rightarrow> False | Some k \<Rightarrow> verify (se_mac env) raw k \<noteq> SigOk)
      then (None, refuse s)
      else
        (case se_loads_request env raw of
           None \<Rightarrow> (None, bad_request s)
         | Some request \<Rightarrow>
             (let (fresh, s1) =
                (case js_key s of
                   None \<Rightarrow> (True, s)
                 | Some k \<Rightarrow>
                     (case fresh_nonce request (js_nonces s) of
                        (b, ns) \<Rightarrow> (b, s\<lparr>js_nonces := ns\<rparr>)))
              in if \<not> fresh then (None, refuse s1)
                 else
                   (case build_reply (se_loads_row env) rows request (js_machine_name s1)
                           (js_agent_id s1) max_reply_bytes of
                      Inr (Some reply) \<Rightarrow>
                        (case sign (se_mac env) (se_dumps_reply env reply) (js_key s1) of
                           Inr packet \<Rightarrow> (if send_ok then Some packet else None, s1)
                         | Inl _ \<Rightarrow> (None, s1))
                    | _ \<Rightarrow> (None, bad_request s1)))))"

text \<open>One datagram in \<open>_loop\<close>: the rate window, then the answer.\<close>

definition serve ::
  "server_env \<Rightarrow> journal_row list \<Rightarrow> rat \<Rightarrow> string \<Rightarrow> string \<Rightarrow> bool \<Rightarrow> journal_server \<Rightarrow>
   string option \<times> journal_server" where
  "serve env rows now raw host send_ok s0 =
     (let s = (if now - js_window_start s0 \<ge> 1
               then s0\<lparr>js_window_start := now, js_sent_in_window := 0\<rparr> else s0)
      in if js_sent_in_window s \<ge> js_max_rate s then (None, s)
         else (case answer env rows raw host send_ok s of
                 (None, s1) \<Rightarrow> (None, s1)
               | (Some packet, s1) \<Rightarrow>
                   (Some packet, s1\<lparr>js_sent_in_window := js_sent_in_window s1 + 1\<rparr>)))"

subsection \<open>Nonces are a bounded buffer\<close>

lemma drop_oldest_eq: "drop_oldest cap xs = drop (length xs - cap) xs"
  by (induction xs) (auto simp: Suc_diff_le)

lemma fresh_nonce_push:
  "fresh_nonce request nonces = (True, ns) \<Longrightarrow>
   \<exists>x. val_get request ''nonce'' = PStr x \<and> x \<notin> set nonces \<and> ns = deque_append max_nonces nonces x"
  by (auto simp: fresh_nonce_def drop_oldest_eq deque_append_def split: pyval.splits if_splits)

lemma fresh_nonce_keeps: "fresh_nonce request nonces = (False, ns) \<Longrightarrow> ns = nonces"
  by (auto simp: fresh_nonce_def split: pyval.splits if_splits)

definition nonce_run :: "pyval list \<Rightarrow> string list \<Rightarrow> string list" where
  "nonce_run requests nonces = foldl (\<lambda>ns r. snd (fresh_nonce r ns)) nonces requests"

lemma nonce_run_pushes:
  "\<exists>xs. length xs \<le> length requests \<and> nonce_run requests nonces = foldl (deque_append max_nonces) nonces xs"
proof (induction requests arbitrary: nonces)
  case (Cons r requests)
  obtain b ns where f: "fresh_nonce r nonces = (b, ns)" by (cases "fresh_nonce r nonces")
  obtain xs where xs: "length xs \<le> length requests"
    "nonce_run requests ns = foldl (deque_append max_nonces) ns xs"
    using Cons.IH by blast
  show ?case
  proof (cases b)
    case True
    with f fresh_nonce_push [of r nonces ns] obtain x where "ns = deque_append max_nonces nonces x" by auto
    with xs f show ?thesis by (intro exI [of _ "x # xs"]) (simp add: nonce_run_def)
  next
    case False
    with f have "ns = nonces" using fresh_nonce_keeps by auto
    with xs f show ?thesis by (intro exI [of _ xs]) (simp add: nonce_run_def)
  qed
qed (auto simp: nonce_run_def intro: exI [of _ "[]"])

lemma deque_keeps_recent:
  assumes "length ns \<le> cap" "x \<in> set (drop (length ns + length xs - cap) ns)" 
  shows "x \<in> set (foldl (deque_append cap) ns xs)"
  using dq.pushes_suffix [OF assms(1), of xs] assms(2)
  by (auto simp: drop_append)

text \<open>Who gets an answer.\<close>

lemma answer_cases:
  assumes "answer env rows raw host send_ok s = (Some packet, s')"
  obtains request where "js_allow s = [] \<or> host \<in> set (js_allow s)"
    "se_loads_request env raw = Some request"
    "\<forall>k. js_key s = Some k \<longrightarrow>
       verify (se_mac env) raw k = SigOk \<and> fst (fresh_nonce request (js_nonces s))"
    "\<exists>reply. build_reply (se_loads_row env) rows request (js_machine_name s) (js_agent_id s)
         max_reply_bytes = Inr (Some reply) \<and>
       sign (se_mac env) (se_dumps_reply env reply) (js_key s) = Inr packet"
    "js_nonces s' = (if js_key s = None then js_nonces s else snd (fresh_nonce request (js_nonces s)))"
proof -
  from assms have allow: "\<not> (js_allow s \<noteq> [] \<and> host \<notin> set (js_allow s))"
    unfolding answer_def by (metis Pair_inject option.distinct(1))
  from assms allow have sig: "\<not> (case js_key s of None \<Rightarrow> False | Some k \<Rightarrow> verify (se_mac env) raw k \<noteq> SigOk)"
    unfolding answer_def by (simp split: if_splits)
  from assms allow sig obtain request where req: "se_loads_request env raw = Some request"
    unfolding answer_def by (simp split: if_splits option.splits)
  show thesis
  proof (cases "js_key s")
    case None
    show ?thesis
      using that [OF _ req] assms allow sig req None
      by (auto simp: answer_def split: sum.splits option.splits if_splits)
  next
    case (Some k)
    obtain b ns where f: "fresh_nonce request (js_nonces s) = (b, ns)"
      by (cases "fresh_nonce request (js_nonces s)")
    show ?thesis
      using that [OF _ req] assms allow sig req Some f
      by (auto simp: answer_def split: sum.splits option.splits if_splits)
  qed
qed

section \<open>Properties\<close>

text \<open>
  C7: the dashboard can fetch everything it missed. From a journal whose rows decode,
  asking again from the last number got while \<open>more\<close> is set ends within one request
  per missing row, and the pages together are exactly the rows after the first number
  asked for, up to \<open>to_seq\<close> and the newest, in order and each once.
\<close>

theorem history_fetch_is_complete:
  assumes "db_ok db" "decoded loads (db_entries db)"
    and "length (rows_between n (upper_of (db_entries db, to_seq)) (db_entries db)) < fuel"
  shows "paged_log.fetch (served_page loads max_bytes) fst (db_entries db, to_seq) fuel n =
    Some (map (\<lambda>r. (jr_seq r, jr_ts r, the (loads (jr_data r))))
      (rows_between n (upper_of (db_entries db, to_seq)) (db_entries db)))"
proof -
  have "served_ok loads (db_entries db, to_seq)"
    using assms(1,2) by (simp add: served_ok_def db_ok_def)
  from jlog.fetch_all [OF this, of n fuel max_bytes] assms(3) show ?thesis
    by (simp add: served_rest_def entries_of_def)
qed

definition demo_db :: journal_db where
  "demo_db = db_insert 30 ''{}'' (db_prune 15 (db_insert 20 ''{}'' (db_insert 10 ''{}'' db_empty)))"

lemma history_fetch_is_complete_witness:
  "paged_log.fetch (served_page (\<lambda>s. Some PNone) 10) fst (db_entries demo_db, None) 3 0 =
     Some [(2, 20, PNone), (3, 30, PNone)]"
proof -
  have "db_ok demo_db"
    unfolding demo_db_def by (intro db_insert_ok db_prune_ok) (simp add: db_ok_def db_empty_def)
  moreover have "rows_between 0 (upper_of (db_entries demo_db, None)) (db_entries demo_db) =
      [\<lparr>jr_seq = 2, jr_ts = 20, jr_data = ''{}''\<rparr>, \<lparr>jr_seq = 3, jr_ts = 30, jr_data = ''{}''\<rparr>]"
    by (simp add: demo_db_def db_insert_def db_prune_def db_empty_def rows_between_def upper_of_def
        max_seq_of_def)
  ultimately show ?thesis
    using history_fetch_is_complete [of demo_db "\<lambda>s. Some PNone" 0 None 3 10]
    by (simp add: decoded_def)
qed

text \<open>
  C40: only the rightful asker gets history. Whatever datagram arrives, a reply goes
  out only to an allowed address; with a site key only for a request whose signature
  is valid and whose nonce is not among the ones remembered, and the reply is signed.
\<close>

theorem answered_only_if_authorised:
  assumes "answer env rows raw host send_ok s = (Some packet, s')"
  shows "(js_allow s = [] \<or> host \<in> set (js_allow s)) \<and>
    (\<forall>k. js_key s = Some k \<longrightarrow> verify (se_mac env) raw k = SigOk \<and>
       (\<exists>request x. se_loads_request env raw = Some request \<and>
          val_get request ''nonce'' = PStr x \<and> x \<notin> set (js_nonces s) \<and>
          js_nonces s' = deque_append max_nonces (js_nonces s) x)) \<and>
    (\<exists>reply. sign (se_mac env) (se_dumps_reply env reply) (js_key s) = Inr packet)"
proof -
  from assms obtain request where r: "js_allow s = [] \<or> host \<in> set (js_allow s)"
    "se_loads_request env raw = Some request"
    "\<forall>k. js_key s = Some k \<longrightarrow>
       verify (se_mac env) raw k = SigOk \<and> fst (fresh_nonce request (js_nonces s))"
    "\<exists>reply. build_reply (se_loads_row env) rows request (js_machine_name s) (js_agent_id s)
         max_reply_bytes = Inr (Some reply) \<and>
       sign (se_mac env) (se_dumps_reply env reply) (js_key s) = Inr packet"
    "js_nonces s' = (if js_key s = None then js_nonces s else snd (fresh_nonce request (js_nonces s)))"
    by (rule answer_cases)
  have "\<exists>x. val_get request ''nonce'' = PStr x \<and> x \<notin> set (js_nonces s) \<and>
      js_nonces s' = deque_append max_nonces (js_nonces s) x" if "js_key s = Some k" for k
    using fresh_nonce_push [of request "js_nonces s" "js_nonces s'"] r(3,5) that
    by (metis option.distinct(1) prod.collapse)
  with r show ?thesis by blast
qed

definition demo_server :: journal_server where
  "demo_server =
     \<lparr>js_machine_name = ''m'', js_agent_id = ''id'', js_max_rate = 50, js_key = Some ''key'',
      js_allow = [''10.0.0.2''], js_nonces = [], js_refused = 0, js_bad_requests = 0,
      js_window_start = 0, js_sent_in_window = 0\<rparr>"

definition demo_server_env :: server_env where
  "demo_server_env =
     \<lparr>se_mac = demo_mac,
      se_loads_request = (\<lambda>s. Some (PDict [(''type'', PStr ''journal_request''),
        (''nonce'', PStr ''12345678'')])),
      se_loads_row = (\<lambda>s. Some PNone), se_dumps_reply = (\<lambda>r. ''{}'')\<rparr>"

definition demo_request :: string where
  "demo_request = ''{'' @ sig_tail [] (replicate 64 (CHR ''a'')) []"

lemma demo_answered:
  "answer demo_server_env [] demo_request ''10.0.0.2'' True demo_server =
     (Some demo_request, demo_server\<lparr>js_nonces := [''12345678'']\<rparr>)"
  by code_simp

lemma answered_only_if_authorised_witness:
  "verify demo_mac demo_request ''key'' = SigOk \<and> ''10.0.0.2'' \<in> set (js_allow demo_server)"
  using answered_only_if_authorised [OF demo_answered]
  by (simp add: demo_server_def demo_server_env_def)

text \<open>
  A replayed request gets nothing. Once a request's nonce was accepted, any
  request with the same nonce is refused as long as fewer than 4096 requests came in
  between.
\<close>

theorem replayed_request_refused:
  assumes "length nonces \<le> max_nonces" "fresh_nonce request nonces = (True, ns)"
    and "val_get again ''nonce'' = val_get request ''nonce''" "length between < max_nonces"
  shows "\<not> fst (fresh_nonce again (nonce_run between ns))"
proof -
  obtain x where x: "val_get request ''nonce'' = PStr x" "ns = deque_append max_nonces nonces x"
    using fresh_nonce_push [OF assms(2)] by blast
  obtain xs where xs: "length xs \<le> length between"
    "nonce_run between ns = foldl (deque_append max_nonces) ns xs"
    using nonce_run_pushes by blast
  have len: "length ns \<le> max_nonces" by (simp add: x(2))
  have "last_opt ns = Some x" by (simp add: x(2) last_deque_append max_nonces_def)
  then have ns: "ns \<noteq> []" "last ns = x" by (auto simp: last_opt_def split: if_splits)
  have "length ns + length xs - max_nonces < length ns"
    using len xs(1) assms(4) ns(1) by (cases ns) auto
  then have "drop (length ns + length xs - max_nonces) ns \<noteq> []" by simp
  then have "x \<in> set (drop (length ns + length xs - max_nonces) ns)"
    using ns(2) by (metis last_drop last_in_set length_greater_0_conv length_drop zero_less_diff)
  from deque_keeps_recent [OF len this] have "x \<in> set (nonce_run between ns)" by (simp add: xs(2))
  then show ?thesis using assms(3) x(1) by (simp add: fresh_nonce_def)
qed

lemma replayed_request_refused_witness:
  "\<not> fst (fresh_nonce (PDict [(''nonce'', PStr ''12345678'')])
     (nonce_run [PNone, PDict [(''nonce'', PStr ''abcdefgh'')]]
       (snd (fresh_nonce (PDict [(''nonce'', PStr ''12345678'')]) []))))"
  using replayed_request_refused [of "[]" "PDict [(''nonce'', PStr ''12345678'')]" "[''12345678'']"
      "PDict [(''nonce'', PStr ''12345678'')]" "[PNone, PDict [(''nonce'', PStr ''abcdefgh'')]]"]
  by (simp add: fresh_nonce_def val_get_def dict_get_def max_nonces_def)

text \<open>
  A request number in superscript digits leaves \<open>build_reply\<close> as a \<open>ValueError\<close>,
  although its description promises \<open>None\<close> for an invalid request; the server's
  catch-all counts it as a bad request all the same.
\<close>

lemma superscript_seq_raises:
  "build_reply loads rows (PDict [(''type'', PStr ''journal_request''), (''from_seq'', PStr [CHR 0xB2])])
     name agent_id max_bytes = Inl ValueError"
proof -
  have "strip [CHR 0xB2] = [CHR 0xB2]" by code_simp
  moreover have "str_isdigit [CHR 0xB2]" "\<not> list_all is_digit [CHR 0xB2]"
    by code_simp+
  ultimately have "seq_arg (PStr [CHR 0xB2]) = Inl ValueError" by (simp add: Let_def)
  then show ?thesis
    by (simp add: build_reply_def request_valid_def from_arg_def is_dict_def val_get_def dict_get_def)
qed

end
