(* ===== verification/Py_Text.thy ===== *)
theory Py_Text
  imports Agent_Prelude
begin

text \<open>
  Text operations of the MES and network components: case mapping on U+0000 to
  U+00FF, searching, joining and decimal numbers. The two letters whose capital lies
  outside that range (U+00B5, U+00FF) map to themselves.
\<close>

section \<open>Case\<close>

definition code_point :: "char \<Rightarrow> nat" where
  "code_point c = of_char c"

definition upper_char :: "char \<Rightarrow> string" where
  "upper_char c =
     (let n = code_point c
      in if n = 0xDF then ''SS''
         else if (97 \<le> n \<and> n \<le> 122) \<or> (0xE0 \<le> n \<and> n \<le> 0xFE \<and> n \<noteq> 0xF7) then [char_of (n - 32)]
         else [c])"

definition lower_char :: "char \<Rightarrow> char" where
  "lower_char c =
     (let n = code_point c
      in if (65 \<le> n \<and> n \<le> 90) \<or> (0xC0 \<le> n \<and> n \<le> 0xDE \<and> n \<noteq> 0xD7) then char_of (n + 32) else c)"

text \<open>\<open>s.upper()\<close> and \<open>s.lower()\<close>.\<close>

definition py_upper :: "string \<Rightarrow> string" where
  "py_upper s = concat (map upper_char s)"

definition py_lower :: "string \<Rightarrow> string" where
  "py_lower s = map lower_char s"

definition is_ascii :: "string \<Rightarrow> bool" where
  "is_ascii s \<longleftrightarrow> list_all (\<lambda>c. code_point c < 128) s"

section \<open>Searching and joining\<close>

text \<open>\<open>part in s\<close>.\<close>

fun occurs_in :: "string \<Rightarrow> string \<Rightarrow> bool" where
  "occurs_in part [] = (part = [])"
| "occurs_in part (c # cs) = (starts_with (c # cs) part \<or> occurs_in part cs)"

lemma occurs_in_iff: "occurs_in part s \<longleftrightarrow> (\<exists>a b. s = a @ part @ b)"
proof (induction s)
  case (Cons c cs)
  have "(\<exists>a b. c # cs = a @ part @ b) \<longleftrightarrow> (\<exists>b. c # cs = part @ b) \<or> (\<exists>a b. cs = a @ part @ b)"
    by (metis append_Cons append_Nil neq_Nil_conv list.inject)
  with Cons show ?case by (simp add: starts_with_iff)
qed simp

text \<open>\<open>s.rstrip(c)\<close>.\<close>

definition rstrip_of :: "char \<Rightarrow> string \<Rightarrow> string" where
  "rstrip_of c s = rev (dropWhile (\<lambda>x. x = c) (rev s))"

text \<open>\<open>s.split(c)\<close> for a single character.\<close>

fun split_at :: "char \<Rightarrow> string \<Rightarrow> string list" where
  "split_at c [] = [[]]"
| "split_at c (x # xs) =
     (if x = c then [] # split_at c xs
      else case split_at c xs of [] \<Rightarrow> [[x]] | p # ps \<Rightarrow> (x # p) # ps)"

fun join_with :: "string \<Rightarrow> string list \<Rightarrow> string" where
  "join_with sep [] = []"
| "join_with sep [p] = p"
| "join_with sep (p # ps) = p @ sep @ join_with sep ps"

lemma split_at_nonempty [simp]: "split_at c s \<noteq> []"
  by (cases "(c, s)" rule: split_at.cases) (auto split: list.splits)

lemma join_split: "join_with [c] (split_at c s) = s"
proof (induction s)
  case (Cons x xs)
  obtain p ps where sp: "split_at c xs = p # ps" by (cases "split_at c xs") auto
  with Cons show ?case by (cases ps) auto
qed simp

lemma split_at_free: "p \<in> set (split_at c s) \<Longrightarrow> c \<notin> set p"
proof (induction c s arbitrary: p rule: split_at.induct)
  case (2 c x xs)
  then show ?case by (auto split: if_splits list.splits)
qed simp

text \<open>\<open>list(dict.fromkeys(xs))\<close>: first occurrences, in order.\<close>

fun uniq :: "'a list \<Rightarrow> 'a list" where
  "uniq [] = []"
| "uniq (x # xs) = x # filter (\<lambda>y. y \<noteq> x) (uniq xs)"

lemma set_uniq [simp]: "set (uniq xs) = set xs"
  by (induction xs) auto

lemma distinct_uniq [simp]: "distinct (uniq xs)"
  by (induction xs) auto

text \<open>\<open>os.path.join\<close> of a folder and a name.\<close>

definition path_join :: "string \<Rightarrow> string \<Rightarrow> string" where
  "path_join folder name =
     (if starts_with name ''/'' then name
      else if folder = '''' \<or> last folder = CHR ''/'' then folder @ name else folder @ ''/'' @ name)"

section \<open>Lines and fields\<close>

text \<open>\<open>str.splitlines()\<close>: the line separators below U+0100, \<open>\r\n\<close> as one.\<close>

definition line_seps :: string where
  "line_seps = [CHR 0x0A, CHR 0x0B, CHR 0x0C, CHR 0x0D, CHR 0x1C, CHR 0x1D, CHR 0x1E, CHR 0x85]"

definition is_line_sep :: "char \<Rightarrow> bool" where
  "is_line_sep c \<longleftrightarrow> c \<in> set line_seps"

text \<open>The rest of the text after the separator \<open>c\<close>.\<close>

definition after_sep :: "char \<Rightarrow> string \<Rightarrow> string" where
  "after_sep c cs = (if c = CHR 0x0D \<and> take 1 cs = [CHR 0x0A] then drop 1 cs else cs)"

lemma length_after_sep [termination_simp]: "length (after_sep c cs) \<le> length cs"
  by (simp add: after_sep_def)

fun split_lines :: "string \<Rightarrow> string list" where
  "split_lines [] = []"
| "split_lines (c # cs) =
     (if is_line_sep c then [] # split_lines (after_sep c cs)
      else case split_lines cs of [] \<Rightarrow> [[c]] | l # ls \<Rightarrow> (c # l) # ls)"

lemma line_sep_space: "is_line_sep c \<Longrightarrow> is_space c"
  by (auto simp: is_line_sep_def line_seps_def is_space_def)

lemma split_lines_free: "l \<in> set (split_lines s) \<Longrightarrow> list_all (\<lambda>c. \<not> is_line_sep c) l"
proof (induction s arbitrary: l rule: split_lines.induct)
  case (2 c cs)
  then show ?case by (cases "is_line_sep c") (auto split: list.splits)
qed simp

lemma split_first_line:
  "list_all (\<lambda>c. \<not> is_line_sep c) l \<Longrightarrow> split_lines (l @ CHR 0x0A # s) = l # split_lines s"
  by (induction l) (simp_all add: is_line_sep_def line_seps_def after_sep_def)

lemma split_joined:
  assumes "ls \<noteq> []" "\<forall>l\<in>set ls. list_all (\<lambda>c. \<not> is_line_sep c) l"
  shows "split_lines (join_with [CHR 0x0A] ls @ [CHR 0x0A]) = ls"
  using assms
proof (induction "[CHR 0x0A]" ls rule: join_with.induct)
  case (2 p)
  then show ?case using split_first_line [of p "[]"] by simp
qed (simp_all add: split_first_line)

text \<open>\<open>s.split()\<close>: the parts between white space.\<close>

fun text_fields :: "string \<Rightarrow> string list" where
  "text_fields [] = []"
| "text_fields (c # cs) =
     (if is_space c then text_fields cs
      else case cs of
          [] \<Rightarrow> [[c]]
        | d # _ \<Rightarrow> if is_space d then [c] # text_fields cs
            else (case text_fields cs of [] \<Rightarrow> [[c]] | w # ws \<Rightarrow> (c # w) # ws))"

section \<open>Numbers\<close>

text \<open>\<open>"%d"\<close> of a natural number.\<close>

fun decimal :: "nat \<Rightarrow> string" where
  "decimal n = (if n < 10 then [char_of (48 + n)] else decimal (n div 10) @ [char_of (48 + n mod 10)])"

declare decimal.simps [simp del]

section \<open>White space at the ends\<close>

lemma lstrip_spaces: "list_all is_space w \<Longrightarrow> lstrip (w @ s) = lstrip s"
  by (induction w) (auto simp: lstrip_def)

lemma lstrip_text: "\<not> is_space c \<Longrightarrow> lstrip (c # s) = c # s"
  by (simp add: lstrip_def)

lemma rstrip_spaces: "list_all is_space w \<Longrightarrow> rstrip (s @ w) = rstrip s"
  using lstrip_spaces [of "rev w" "rev s"] by (simp add: rstrip_def lstrip_def)

lemma rstrip_text: "\<not> is_space c \<Longrightarrow> rstrip (s @ [c] @ r) = s @ [c] @ rstrip r"
  by (simp add: rstrip_def dropWhile_append)

lemma lstrip_split: "\<exists>w. s = w @ lstrip s \<and> list_all is_space w"
  unfolding lstrip_def list_all_iff
  by (intro exI [of _ "takeWhile is_space s"]) (auto dest: set_takeWhileD)

lemma rstrip_split: "\<exists>w. s = rstrip s @ w \<and> list_all is_space w"
proof -
  have "s = rstrip s @ rev (takeWhile is_space (rev s))"
    by (metis rev_append rev_rev_ident rstrip_def takeWhile_dropWhile_id)
  moreover have "list_all is_space (rev (takeWhile is_space (rev s)))"
    by (auto simp: list_all_iff dest: set_takeWhileD)
  ultimately show ?thesis by blast
qed

lemma strip_split: "\<exists>w w'. s = w @ strip s @ w' \<and> list_all is_space w \<and> list_all is_space w'"
  using lstrip_split [of s] rstrip_split [of "lstrip s"] by (metis append.assoc strip_def)

lemma strip_hd: "strip s = c # r \<Longrightarrow> \<not> is_space c"
proof -
  assume s: "strip s = c # r"
  obtain w where "lstrip s = strip s @ w" using rstrip_split [of "lstrip s"] by (auto simp: strip_def)
  with s have "dropWhile is_space s = c # r @ w" by (simp add: lstrip_def)
  then show ?thesis by (simp add: dropWhile_eq_Cons_conv)
qed

lemma strip_around:
  assumes "list_all is_space w" "list_all is_space w'" "s \<noteq> []" "\<not> is_space (hd s)" "\<not> is_space (last s)"
  shows "strip (w @ s @ w') = s"
proof -
  have "lstrip (w @ s @ w') = s @ w'"
    using assms by (cases s) (simp_all add: lstrip_spaces lstrip_text)
  moreover have "rstrip (s @ w') = s"
    using assms rstrip_text [of "last s" "butlast s" "[]"] rstrip_spaces [of w' s] by (simp add: rstrip_def)
  ultimately show ?thesis by (simp add: strip_def)
qed

end
