(* ===== verification/Agent_Identity.thy ===== *)
theory Agent_Identity
  imports Py_Regex Py_Value
begin

text \<open>
  The machine's identity file, \<open>agent_identity.py\<close>: the UUID4 pattern that the MES
  components check ids with, reading the file, and making it once. A file is what its
  path holds: nothing, something that cannot be read, or bytes that decode to a JSON
  value (or to none).
\<close>

section \<open>The UUID4 pattern\<close>

text \<open>A fixed sequence of character classes.\<close>

definition class_seq :: "(char \<Rightarrow> bool) list \<Rightarrow> rx" where
  "class_seq Ps = foldr (\<lambda>P r. Sequ (Cls P) r) Ps Eps"

lemma class_seq_run:
  "map snd (rx_run (class_seq Ps) (prev, s)) =
     (if list_all2 (\<lambda>P c. P c) Ps (take (length Ps) s) then [drop (length Ps) s] else [])"
proof (induction Ps arbitrary: prev s)
  case (Cons P Ps)
  show ?case
  proof (cases s)
    case (Cons c cs)
    then show ?thesis using Cons.IH [of "Some c" cs] by (auto simp: class_seq_def)
  qed (simp add: class_seq_def)
qed (simp add: class_seq_def)

definition is_hex_lower :: "char \<Rightarrow> bool" where
  "is_hex_lower c \<longleftrightarrow> c \<in> set ''0123456789abcdef''"

definition uuid4_classes :: "(char \<Rightarrow> bool) list" where
  "uuid4_classes =
     (let dash = (\<lambda>c. c = CHR ''-'')
      in replicate 8 is_hex_lower @ [dash] @ replicate 4 is_hex_lower @ [dash] @
         [\<lambda>c. c = CHR ''4''] @ replicate 3 is_hex_lower @ [dash] @
         [\<lambda>c. c \<in> set ''89ab''] @ replicate 3 is_hex_lower @ [dash] @ replicate 12 is_hex_lower)"

definition uuid4_re :: rx where
  "uuid4_re = seqs [AtStart, class_seq uuid4_classes, AtEnd]"

definition uuid4_match :: "string \<Rightarrow> bool" where
  "uuid4_match s = rx_match uuid4_re s"

lemma uuid4_match_iff:
  "uuid4_match s \<longleftrightarrow>
     (\<exists>u. list_all2 (\<lambda>P c. P c) uuid4_classes u \<and> (s = u \<or> s = u @ [CHR 0x0A]))"
proof -
  let ?n = "length uuid4_classes"
  have at_end: "(\<exists>p\<in>set ps. rx_run AtEnd p \<noteq> []) \<longleftrightarrow> (\<exists>t\<in>set (map snd ps). t = [] \<or> t = [CHR 0x0A])" for ps
    by auto
  have "uuid4_match s \<longleftrightarrow> (\<exists>p\<in>set (rx_run (class_seq uuid4_classes) (None, s)). rx_run AtEnd p \<noteq> [])"
    by (simp add: uuid4_match_def uuid4_re_def rx_match_def del: rx_run.simps(9))
  also have "\<dots> \<longleftrightarrow> (\<exists>t\<in>set (map snd (rx_run (class_seq uuid4_classes) (None, s))). t = [] \<or> t = [CHR 0x0A])"
    by (rule at_end)
  also have "\<dots> \<longleftrightarrow> list_all2 (\<lambda>P c. P c) uuid4_classes (take ?n s) \<and>
      (drop ?n s = [] \<or> drop ?n s = [CHR 0x0A])"
    unfolding class_seq_run by simp
  also have "\<dots> \<longleftrightarrow> (\<exists>u. list_all2 (\<lambda>P c. P c) uuid4_classes u \<and> (s = u \<or> s = u @ [CHR 0x0A]))"
  proof
    assume l: "list_all2 (\<lambda>P c. P c) uuid4_classes (take ?n s) \<and> (drop ?n s = [] \<or> drop ?n s = [CHR 0x0A])"
    then show "\<exists>u. list_all2 (\<lambda>P c. P c) uuid4_classes u \<and> (s = u \<or> s = u @ [CHR 0x0A])"
      by (intro exI [of _ "take ?n s"]) (metis append_Nil2 append_take_drop_id)
  next
    assume "\<exists>u. list_all2 (\<lambda>P c. P c) uuid4_classes u \<and> (s = u \<or> s = u @ [CHR 0x0A])"
    then obtain u where u: "list_all2 (\<lambda>P c. P c) uuid4_classes u" "s = u \<or> s = u @ [CHR 0x0A]"
      by blast
    then have "length u = length uuid4_classes" by (simp add: list_all2_lengthD)
    with u show "list_all2 (\<lambda>P c. P c) uuid4_classes (take ?n s) \<and> (drop ?n s = [] \<or> drop ?n s = [CHR 0x0A])"
      by auto
  qed
  finally show ?thesis .
qed

lemma uuid4_not_empty: "uuid4_match s \<Longrightarrow> s \<noteq> ''''"
  by (auto simp: uuid4_match_iff uuid4_classes_def Let_def dest: list_all2_lengthD)

text \<open>The pattern ends in \<open>$\<close>, so an id followed by a newline passes too.\<close>

lemma uuid4_newline_accepted:
  "uuid4_match (''8d7c6b5a-4f3e-4d2c-8b1a-0f9e8d7c6b5a'' @ [CHR 0x0A])"
  by code_simp

section \<open>The identity file\<close>

datatype id_file = NoFile | Unreadable | Bytes "pyval option"

text \<open>\<open>_parse\<close> on the decoded document.\<close>

definition identity_parse :: "pyval option \<Rightarrow> string option" where
  "identity_parse decoded =
     (case decoded of
        None \<Rightarrow> None
      | Some doc \<Rightarrow>
          (case val_get doc ''machine_uuid'' of
             PStr v \<Rightarrow> if uuid4_match v then Some v else None
           | _ \<Rightarrow> None))"

definition identity_read :: "id_file \<Rightarrow> string option" where
  "identity_read f = (case f of Bytes decoded \<Rightarrow> identity_parse decoded | _ \<Rightarrow> None)"

text \<open>
  What happens outside one call: the new id and time, whether the damaged file can be
  moved aside and the temporary file written, and how \<open>os.link\<close> ends. \<open>RaceLost\<close> holds
  the file another process made meanwhile; without hard links the file is renamed.
\<close>

datatype link_outcome = Linked | RaceLost id_file | NoHardLinks bool

record identity_env =
  ie_uuid :: string
  ie_created :: string
  ie_move_ok :: bool
  ie_temp_ok :: bool
  ie_link :: link_outcome

definition identity_doc :: "identity_env \<Rightarrow> id_file" where
  "identity_doc env =
     Bytes (Some (PDict [(''machine_uuid'', PStr (ie_uuid env)), (''created_at'', PStr (ie_created env))]))"

text \<open>\<open>_write_new\<close>; no id is an \<open>OSError\<close>.\<close>

definition identity_write_new :: "identity_env \<Rightarrow> id_file \<Rightarrow> string option \<times> id_file" where
  "identity_write_new env f =
     (if \<not> ie_temp_ok env then (None, f)
      else case ie_link env of
          Linked \<Rightarrow> (Some (ie_uuid env), identity_doc env)
        | RaceLost other \<Rightarrow> (identity_read other, other)
        | NoHardLinks replaced \<Rightarrow> if replaced then (Some (ie_uuid env), identity_doc env) else (None, f))"

definition load_or_create :: "identity_env \<Rightarrow> id_file \<Rightarrow> string option \<times> id_file" where
  "load_or_create env f =
     (if f \<noteq> NoFile then
        (case identity_read f of
           Some existing \<Rightarrow> (Some existing, f)
         | None \<Rightarrow> if ie_move_ok env then identity_write_new env NoFile else (None, f))
      else identity_write_new env f)"

section \<open>Properties\<close>

lemma identity_read_doc: "uuid4_match (ie_uuid env) \<Longrightarrow> identity_read (identity_doc env) = Some (ie_uuid env)"
  by (simp add: identity_doc_def identity_read_def identity_parse_def val_get_def dict_get_def)

text \<open>
  The machine's id is made once. Whatever a start returned, every later start
  returns the same id and leaves the file alone, whatever goes wrong then; and no id
  comes back that does not have the UUID4 form.
\<close>

theorem identity_is_stable:
  assumes "load_or_create env f = (Some u, f')" "uuid4_match (ie_uuid env)"
  shows "uuid4_match u \<and> load_or_create later f' = (Some u, f')"
proof -
  have "identity_read f' = Some u"
    using assms identity_read_doc [OF assms(2)]
    by (auto simp: load_or_create_def identity_write_new_def
        split: if_splits option.splits link_outcome.splits)
  then show ?thesis
    by (auto simp: load_or_create_def identity_read_def identity_parse_def
        split: id_file.splits option.splits pyval.splits if_splits)
qed

definition demo_identity_env :: identity_env where
  "demo_identity_env =
     \<lparr>ie_uuid = ''8d7c6b5a-4f3e-4d2c-8b1a-0f9e8d7c6b5a'', ie_created = ''2026-10-22T09:15:02Z'',
      ie_move_ok = True, ie_temp_ok = True, ie_link = Linked\<rparr>"

lemma identity_is_stable_witness:
  "load_or_create (demo_identity_env\<lparr>ie_uuid := ''x''\<rparr>) (identity_doc demo_identity_env) =
     (Some ''8d7c6b5a-4f3e-4d2c-8b1a-0f9e8d7c6b5a'', identity_doc demo_identity_env)"
proof -
  have "load_or_create demo_identity_env (Bytes None) =
      (Some ''8d7c6b5a-4f3e-4d2c-8b1a-0f9e8d7c6b5a'', identity_doc demo_identity_env)"
    by (simp add: load_or_create_def identity_read_def identity_parse_def identity_write_new_def
        demo_identity_env_def)
  moreover have "uuid4_match (ie_uuid demo_identity_env)" by code_simp
  ultimately show ?thesis using identity_is_stable by blast
qed

end
