(* ===== verification/Mes_Spool.thy ===== *)
theory Mes_Spool
  imports Py_Value "HOL-Library.AList"
begin

text \<open>
  The durable event store, \<open>agent_mes_spool.py\<close>: producer epochs with the sidecar
  file, appending events together with a read cursor in one transaction, the
  forwarder's view (pending, acknowledge), pruning and re-enrolment. SQLite is rows
  and a transaction that commits or not; file sizes, clocks and new identifiers come
  with each call. Whether the event contract accepts an event is decided by functions
  the caller supplies.
\<close>

section \<open>The database\<close>

datatype row_state = Pending | Acked | Dropped

record spool_row =
  sr_seq :: int
  sr_event_id :: string
  sr_type :: string
  sr_occurred_at :: int
  sr_body :: string
  sr_state :: row_state
  sr_acked_at :: "int option"
  sr_reason :: "string option"

record spool_db =
  sd_producer_id :: "string option"
  sd_epoch :: "string option"
  sd_machine_id :: "string option"
  sd_site_id :: "string option"
  sd_producer_seq :: "int option"
  sd_rows :: "spool_row list"
  sd_sequence :: int
  sd_cursors :: "(string \<times> (string \<times> int)) list"

definition spool_db_empty :: spool_db where
  "spool_db_empty =
     \<lparr>sd_producer_id = None, sd_epoch = None, sd_machine_id = None, sd_site_id = None,
      sd_producer_seq = None, sd_rows = [], sd_sequence = 0, sd_cursors = []\<rparr>"

text \<open>The sidecar file: producer id, epoch, highest sequence number.\<close>

type_synonym sidecar = "string \<times> string \<times> int"

record spool =
  sp_db :: spool_db
  sp_sidecar :: "sidecar option"
  sp_budget :: int
  sp_producer_id :: string
  sp_epoch :: string
  sp_producer_seq :: int
  sp_machine_id :: string
  sp_full :: bool

section \<open>Opening: epochs\<close>

definition non_empty :: "string option \<Rightarrow> string option" where
  "non_empty v = (case v of Some p \<Rightarrow> if p = '''' then None else Some p | None \<Rightarrow> None)"

definition producer_of :: "spool_db \<Rightarrow> sidecar option \<Rightarrow> string \<Rightarrow> string" where
  "producer_of db side fresh =
     or_else (non_empty (sd_producer_id db)) (or_else (non_empty (map_option fst side)) fresh)"

text \<open>\<open>why\<close> of \<open>_open_epoch\<close>: a new database, or an older copy than the sidecar knows.\<close>

definition needs_new_epoch :: "spool_db \<Rightarrow> sidecar option \<Rightarrow> string \<Rightarrow> bool" where
  "needs_new_epoch db side producer =
     (case sd_epoch db of
        None \<Rightarrow> True
      | Some epoch \<Rightarrow>
          (case side of
             None \<Rightarrow> False
           | Some (sp, se, ss) \<Rightarrow>
               sp = producer \<and> (se \<noteq> epoch \<or> ss > or_else (sd_producer_seq db) 0)))"

definition open_spool ::
  "int \<Rightarrow> string \<Rightarrow> string \<Rightarrow> string \<Rightarrow> spool_db \<Rightarrow> sidecar option \<Rightarrow> int \<Rightarrow> spool" where
  "open_spool budget machine_id fresh_producer fresh_epoch db side bytes =
     (let producer = producer_of db side fresh_producer;
          renew = needs_new_epoch db side producer;
          epoch = (if renew then fresh_epoch else or_else (sd_epoch db) '''');
          seq = (if renew then 0 else or_else (sd_producer_seq db) 0);
          db1 = db\<lparr>sd_producer_id := Some producer, sd_epoch := Some epoch,
                   sd_producer_seq := Some seq, sd_machine_id := Some machine_id\<rparr>
      in \<lparr>sp_db = db1, sp_sidecar = Some (producer, epoch, seq), sp_budget = budget,
          sp_producer_id = producer, sp_epoch = epoch, sp_producer_seq = seq,
          sp_machine_id = machine_id, sp_full = (bytes \<ge> budget)\<rparr>)"

section \<open>Appending\<close>

text \<open>
  What the contract makes of an event: its id, type and time. \<open>make\<close> builds the
  agent's own event from producer, epoch, site, machine, producer number and row
  number and encodes it; \<open>read\<close> decodes and checks bytes of another producer. \<open>None\<close>
  is a contract error.
\<close>

record event_facts =
  ev_id :: string
  ev_type :: string
  ev_occurred :: int

datatype spool_item =
    OwnEvent string pyval rat pyval
  | RawEvent string

record event_codec =
  ec_make :: "string \<Rightarrow> string \<Rightarrow> string option \<Rightarrow> string \<Rightarrow> int \<Rightarrow> int \<Rightarrow> spool_item \<Rightarrow>
              (event_facts \<times> string) option"
  ec_read :: "string \<Rightarrow> event_facts option"

datatype spool_error = SpoolFull | SpoolRejected | SpoolDuplicate | CommitFailed

definition new_row :: "int \<Rightarrow> event_facts \<Rightarrow> string \<Rightarrow> spool_row" where
  "new_row seq ev body =
     \<lparr>sr_seq = seq, sr_event_id = ev_id ev, sr_type = ev_type ev, sr_occurred_at = ev_occurred ev,
      sr_body = body, sr_state = Pending, sr_acked_at = None, sr_reason = None\<rparr>"

text \<open>One insert; \<open>event_id\<close> is \<open>UNIQUE\<close>.\<close>

definition insert_row :: "event_facts \<Rightarrow> string \<Rightarrow> spool_db \<Rightarrow> spool_error + spool_db" where
  "insert_row ev body db =
     (if ev_id ev \<in> sr_event_id ` set (sd_rows db) then Inl SpoolDuplicate
      else Inr (db\<lparr>sd_rows := sd_rows db @ [new_row (sd_sequence db + 1) ev body],
                   sd_sequence := sd_sequence db + 1\<rparr>))"

text \<open>The loop over the items: the database inside the transaction, the producer number, the row numbers.\<close>

fun append_items ::
  "event_codec \<Rightarrow> spool \<Rightarrow> spool_item list \<Rightarrow> spool_db \<Rightarrow> int \<Rightarrow> int list \<Rightarrow>
   spool_error + (spool_db \<times> int \<times> int list)" where
  "append_items cd s [] db pseq seqs = Inr (db, pseq, seqs)"
| "append_items cd s (item # items) db pseq seqs =
     (let rowseq = sd_sequence db + 1;
          made =
            (case item of
               OwnEvent _ _ _ _ \<Rightarrow>
                 (ec_make cd (sp_producer_id s) (sp_epoch s) (sd_site_id db) (sp_machine_id s)
                    (pseq + 1) rowseq item, pseq + 1)
             | RawEvent body \<Rightarrow> (map_option (\<lambda>ev. (ev, body)) (ec_read cd body), pseq))
      in (case fst made of
            None \<Rightarrow> Inl SpoolRejected
          | Some (ev, body) \<Rightarrow>
              (case insert_row ev body db of
                 Inl e \<Rightarrow> Inl e
               | Inr db1 \<Rightarrow> append_items cd s items db1 (snd made) (seqs @ [rowseq]))))"

type_synonym spool_cursor = "string \<times> string \<times> int"

definition set_cursor :: "spool_cursor option \<Rightarrow> spool_db \<Rightarrow> spool_db" where
  "set_cursor cursor db =
     (case cursor of
        None \<Rightarrow> db
      | Some (source, epoch, position) \<Rightarrow>
          db\<lparr>sd_cursors := AList.update source (epoch, position) (sd_cursors db)\<rparr>)"

text \<open>What happens outside one call: file sizes before and after, commit, sidecar write.\<close>

record spool_env =
  so_bytes :: int
  so_commit_ok :: bool
  so_sidecar_ok :: bool
  so_bytes_after :: int

text \<open>\<open>_append_locked\<close> after the check of the budget.\<close>

definition append_tx ::
  "event_codec \<Rightarrow> spool_env \<Rightarrow> spool_item list \<Rightarrow> spool_cursor option \<Rightarrow> spool \<Rightarrow>
   (spool_error + int list) \<times> spool" where
  "append_tx cd env items cursor s =
     (case append_items cd s items (sp_db s) (sp_producer_seq s) [] of
        Inl e \<Rightarrow> (Inl e, s)
      | Inr (db, pseq, seqs) \<Rightarrow>
          if \<not> so_commit_ok env then (Inl CommitFailed, s)
          else
            (let db1 = set_cursor cursor db;
                 db2 = (if pseq \<noteq> sp_producer_seq s
                        then db1\<lparr>sd_producer_seq := Some pseq\<rparr> else db1);
                 s1 = s\<lparr>sp_db := db2, sp_producer_seq := pseq,
                        sp_full := (so_bytes_after env \<ge> sp_budget s)\<rparr>
             in (Inr seqs,
                 if pseq \<noteq> sp_producer_seq s \<and> so_sidecar_ok env
                 then s1\<lparr>sp_sidecar := Some (sp_producer_id s, sp_epoch s, pseq)\<rparr>
                 else s1)))"

definition append_locked ::
  "event_codec \<Rightarrow> spool_env \<Rightarrow> spool_item list \<Rightarrow> spool_cursor option \<Rightarrow> bool \<Rightarrow> spool \<Rightarrow>
   (spool_error + int list) \<times> spool" where
  "append_locked cd env items cursor force s0 =
     (let s = (if force then s0 else s0\<lparr>sp_full := (so_bytes env \<ge> sp_budget s0)\<rparr>)
      in if \<not> force \<and> sp_full s then (Inl SpoolFull, s) else append_tx cd env items cursor s)"

definition spool_add ::
  "event_codec \<Rightarrow> spool_env \<Rightarrow> string \<Rightarrow> pyval \<Rightarrow> rat \<Rightarrow> pyval \<Rightarrow> bool \<Rightarrow> spool \<Rightarrow>
   (spool_error + int list) \<times> spool" where
  "spool_add cd env etype payload occurred correlation force s =
     append_locked cd env [OwnEvent etype payload occurred correlation] None force s"

definition spool_append ::
  "event_codec \<Rightarrow> spool_env \<Rightarrow> string list \<Rightarrow> spool_cursor option \<Rightarrow> spool \<Rightarrow>
   (spool_error + int list) \<times> spool" where
  "spool_append cd env bodies cursor s =
     append_locked cd env (map RawEvent bodies) cursor False s"

definition spool_cursor :: "string \<Rightarrow> spool_db \<Rightarrow> (string \<times> int) option" where
  "spool_cursor source db = map_of (sd_cursors db) source"

section \<open>Forwarding, pruning, re-enrolment\<close>

definition is_pending :: "spool_row \<Rightarrow> bool" where
  "is_pending r \<longleftrightarrow> sr_state r = Pending"

definition pending_rows :: "nat \<Rightarrow> string list option \<Rightarrow> spool_db \<Rightarrow> (int \<times> string) list" where
  "pending_rows limit types db =
     (case types of
        Some [] \<Rightarrow> []
      | _ \<Rightarrow>
          take limit
            (map (\<lambda>r. (sr_seq r, sr_body r))
              (filter (\<lambda>r. is_pending r \<and> (case types of None \<Rightarrow> True | Some ts \<Rightarrow> sr_type r \<in> set ts))
                (sd_rows db))))"

definition set_site_id :: "string \<Rightarrow> spool_db \<Rightarrow> spool_db" where
  "set_site_id site db = (if sd_site_id db \<noteq> Some site then db\<lparr>sd_site_id := Some site\<rparr> else db)"

definition ack_row :: "int \<Rightarrow> int list \<Rightarrow> spool_row \<Rightarrow> spool_row" where
  "ack_row now_ms seqs r =
     (if sr_seq r \<in> set seqs \<and> is_pending r then r\<lparr>sr_state := Acked, sr_acked_at := Some now_ms\<rparr>
      else r)"

definition mark_acked :: "int \<Rightarrow> int list \<Rightarrow> spool_db \<Rightarrow> spool_db" where
  "mark_acked now_ms seqs db = db\<lparr>sd_rows := map (ack_row now_ms seqs) (sd_rows db)\<rparr>"

definition acked_keep_ms :: int where "acked_keep_ms = 7 * 86400 * 1000"

text \<open>\<open>acked_at < ?\<close> is not true of a row without \<open>acked_at\<close>.\<close>

definition prunable :: "int \<Rightarrow> spool_row \<Rightarrow> bool" where
  "prunable now_ms r \<longleftrightarrow>
     sr_state r \<in> {Acked, Dropped} \<and>
     (case sr_acked_at r of None \<Rightarrow> False | Some t \<Rightarrow> t < now_ms - acked_keep_ms)"

definition spool_prune :: "int \<Rightarrow> spool_db \<Rightarrow> spool_db" where
  "spool_prune now_ms db = db\<lparr>sd_rows := filter (\<lambda>r. \<not> prunable now_ms r) (sd_rows db)\<rparr>"

text \<open>
  Rows stamped with another site: \<open>site_of\<close> reads \<open>site_id\<close> of a stored body (\<open>None\<close>
  when it cannot be read or is no non-empty text).
\<close>

definition other_site_rows ::
  "(string \<Rightarrow> string option) \<Rightarrow> string option \<Rightarrow> spool_db \<Rightarrow> (int \<times> string) list" where
  "other_site_rows site_of site db =
     concat (map (\<lambda>r. case site_of (sr_body r) of
                        Some other \<Rightarrow> if other \<noteq> '''' \<and> Some other \<noteq> site then [(sr_seq r, other)] else []
                      | None \<Rightarrow> [])
       (filter is_pending (sd_rows db)))"

definition waiting_for_other_site ::
  "(string \<Rightarrow> string option) \<Rightarrow> string option \<Rightarrow> spool_db \<Rightarrow> string \<Rightarrow> nat" where
  "waiting_for_other_site site_of site db other =
     length (filter (\<lambda>x. snd x = other) (other_site_rows site_of site db))"

definition drop_row :: "int \<Rightarrow> string \<Rightarrow> int list \<Rightarrow> spool_row \<Rightarrow> spool_row" where
  "drop_row now_ms reason seqs r =
     (if sr_seq r \<in> set seqs \<and> is_pending r
      then r\<lparr>sr_state := Dropped, sr_acked_at := Some now_ms, sr_reason := Some reason\<rparr> else r)"

definition drop_waiting_for_other_site ::
  "(string \<Rightarrow> string option) \<Rightarrow> string option \<Rightarrow> string \<Rightarrow> int \<Rightarrow> spool_db \<Rightarrow> int \<times> spool_db" where
  "drop_waiting_for_other_site site_of site reason now_ms db =
     (let seqs = map fst (other_site_rows site_of site db)
      in (int (length (filter (\<lambda>r. sr_seq r \<in> set seqs \<and> is_pending r) (sd_rows db))),
          db\<lparr>sd_rows := map (drop_row now_ms reason seqs) (sd_rows db)\<rparr>))"

section \<open>Invariant of the rows\<close>

definition rows_ok :: "spool_db \<Rightarrow> bool" where
  "rows_ok db \<longleftrightarrow>
     sorted_wrt (<) (map sr_seq (sd_rows db)) \<and> (\<forall>r\<in>set (sd_rows db). sr_seq r \<le> sd_sequence db) \<and>
     distinct (map sr_event_id (sd_rows db)) \<and>
     (\<forall>r\<in>set (sd_rows db). is_pending r \<longleftrightarrow> sr_acked_at r = None)"

lemma insert_row_Inr:
  assumes "insert_row ev body db = Inr db'"
  shows "sd_rows db' = sd_rows db @ [new_row (sd_sequence db + 1) ev body]"
    "sd_sequence db' = sd_sequence db + 1" "sd_cursors db' = sd_cursors db"
    "sd_site_id db' = sd_site_id db" "sd_epoch db' = sd_epoch db"
    "sd_producer_id db' = sd_producer_id db" "sd_producer_seq db' = sd_producer_seq db"
    "rows_ok db \<Longrightarrow> rows_ok db'"
  using assms
  by (auto simp: insert_row_def rows_ok_def new_row_def is_pending_def sorted_wrt_append
      split: if_splits) fastforce+

lemma rows_ok_map:
  assumes "rows_ok db" "\<And>r. sr_seq (g r) = sr_seq r" "\<And>r. sr_event_id (g r) = sr_event_id r"
    and "\<And>r. is_pending r = (sr_acked_at r = None) \<Longrightarrow> is_pending (g r) = (sr_acked_at (g r) = None)"
  shows "rows_ok (db\<lparr>sd_rows := map g (sd_rows db)\<rparr>)"
proof -
  have "map sr_seq (map g rs) = map sr_seq rs" "map sr_event_id (map g rs) = map sr_event_id rs" for rs
    using assms(2,3) by simp_all
  then show ?thesis using assms(1,2,4) by (auto simp: rows_ok_def simp del: map_map)
qed

lemma mark_acked_ok: "rows_ok db \<Longrightarrow> rows_ok (mark_acked now seqs db)"
  unfolding mark_acked_def by (erule rows_ok_map) (auto simp: ack_row_def is_pending_def)

lemma drop_waiting_ok: "rows_ok db \<Longrightarrow> rows_ok (snd (drop_waiting_for_other_site f site reason now db))"
  unfolding drop_waiting_for_other_site_def Let_def snd_conv
  by (erule rows_ok_map) (auto simp: drop_row_def is_pending_def)

lemma spool_prune_ok: "rows_ok db \<Longrightarrow> rows_ok (spool_prune now db)"
  by (auto simp: rows_ok_def spool_prune_def sorted_wrt_map sorted_wrt_filter distinct_map
      intro: inj_on_subset)

lemma rows_ok_meta [simp]:
  "rows_ok (set_cursor c db) = rows_ok db"
  "rows_ok (set_site_id site db) = rows_ok db"
  "rows_ok (db\<lparr>sd_producer_seq := p\<rparr>) = rows_ok db"
  "rows_ok (db\<lparr>sd_producer_id := a, sd_epoch := b, sd_producer_seq := p, sd_machine_id := m\<rparr>) = rows_ok db"
  by (simp_all add: rows_ok_def set_cursor_def set_site_id_def split: option.split prod.split)

text \<open>What a successful loop over the items adds: one pending row per item, numbered on.\<close>

lemma append_items_Inr:
  assumes "append_items cd s items db pseq seqs = Inr (db', pseq', seqs')"
  shows "\<exists>new. sd_rows db' = sd_rows db @ new \<and> length new = length items \<and>
      (\<forall>r\<in>set new. is_pending r) \<and> seqs' = seqs @ map sr_seq new \<and>
      map sr_seq new = map (\<lambda>k. sd_sequence db + 1 + int k) [0..<length items] \<and>
      sd_sequence db' = sd_sequence db + int (length items) \<and>
      sd_cursors db' = sd_cursors db \<and> sd_epoch db' = sd_epoch db \<and>
      sd_producer_id db' = sd_producer_id db \<and> sd_producer_seq db' = sd_producer_seq db \<and>
      pseq' = pseq + int (length (filter (\<lambda>i. case i of OwnEvent _ _ _ _ \<Rightarrow> True | _ \<Rightarrow> False) items)) \<and>
      (rows_ok db \<longrightarrow> rows_ok db') \<and>
      (\<forall>bodies. items = map RawEvent bodies \<longrightarrow> map sr_body new = bodies)"
  using assms
proof (induction items arbitrary: db pseq seqs)
  case Nil
  then show ?case by simp
next
  case (Cons item items)
  obtain ev body db1 p1 where step:
    "insert_row ev body db = Inr db1"
    "append_items cd s items db1 p1 (seqs @ [sd_sequence db + 1]) = Inr (db', pseq', seqs')"
    "p1 = pseq + (case item of OwnEvent _ _ _ _ \<Rightarrow> 1 | _ \<Rightarrow> 0)"
    "\<forall>b. item = RawEvent b \<longrightarrow> body = b"
    using Cons.prems by (cases item) (auto simp: Let_def split: option.splits prod.splits sum.splits)
  note ins = insert_row_Inr [OF step(1)]
  from Cons.IH [OF step(2)] obtain new where new:
    "sd_rows db' = sd_rows db1 @ new" "length new = length items" "\<forall>r\<in>set new. is_pending r"
    "seqs' = (seqs @ [sd_sequence db + 1]) @ map sr_seq new"
    "map sr_seq new = map (\<lambda>k. sd_sequence db1 + 1 + int k) [0..<length items]"
    "sd_sequence db' = sd_sequence db1 + int (length items)"
    "sd_cursors db' = sd_cursors db1" "sd_epoch db' = sd_epoch db1"
    "sd_producer_id db' = sd_producer_id db1" "sd_producer_seq db' = sd_producer_seq db1"
    "pseq' = p1 + int (length (filter (\<lambda>i. case i of OwnEvent _ _ _ _ \<Rightarrow> True | _ \<Rightarrow> False) items))"
    "rows_ok db1 \<longrightarrow> rows_ok db'" "\<forall>bodies. items = map RawEvent bodies \<longrightarrow> map sr_body new = bodies"
    by blast
  let ?r = "new_row (sd_sequence db + 1) ev body"
  have seqs: "map sr_seq (?r # new) = map (\<lambda>k. sd_sequence db + 1 + int k) [0..<length (item # items)]"
  proof -
    have "map (\<lambda>k. sd_sequence db + 1 + int k) [0..<Suc (length items)] =
        (sd_sequence db + 1) # map (\<lambda>k. sd_sequence db + 1 + int (Suc k)) [0..<length items]"
      by (simp add: upt_conv_Cons map_Suc_upt [symmetric] comp_def del: upt_Suc)
    then show ?thesis using new(5) ins(2) by (simp add: new_row_def algebra_simps)
  qed
  show ?case
    using new ins seqs step(3,4)
    by (intro exI [of _ "?r # new"])
      (auto simp: new_row_def is_pending_def split: spool_item.splits)
qed

section \<open>Operations on the open spool\<close>

datatype spool_op =
    OpAppend spool_env "spool_item list" "spool_cursor option" bool
  | OpAck int "int list"
  | OpPrune int
  | OpDropOther "string option" string int
  | OpSite string
  | OpReopen int string string string int

fun spool_step :: "event_codec \<Rightarrow> (string \<Rightarrow> string option) \<Rightarrow> spool \<Rightarrow> spool_op \<Rightarrow> spool" where
  "spool_step cd site_of s (OpAppend env items cursor force) =
     snd (append_locked cd env items cursor force s)"
| "spool_step cd site_of s (OpAck now seqs) = s\<lparr>sp_db := mark_acked now seqs (sp_db s)\<rparr>"
| "spool_step cd site_of s (OpPrune now) = s\<lparr>sp_db := spool_prune now (sp_db s)\<rparr>"
| "spool_step cd site_of s (OpDropOther site reason now) =
     s\<lparr>sp_db := snd (drop_waiting_for_other_site site_of site reason now (sp_db s))\<rparr>"
| "spool_step cd site_of s (OpSite site) = s\<lparr>sp_db := set_site_id site (sp_db s)\<rparr>"
| "spool_step cd site_of s (OpReopen budget machine fp fe bytes) =
     open_spool budget machine fp fe (sp_db s) (sp_sidecar s) bytes"

lemma append_locked_cases:
  obtains (refused) e full where
      "append_locked cd env items cursor force s = (Inl e, s\<lparr>sp_full := full\<rparr>)"
  | (stored) db pseq seqs s' where
      "append_items cd s items (sp_db s) (sp_producer_seq s) [] = Inr (db, pseq, seqs)"
      "so_commit_ok env" "append_locked cd env items cursor force s = (Inr seqs, s')"
      "sp_db s' = (if pseq \<noteq> sp_producer_seq s then (set_cursor cursor db)\<lparr>sd_producer_seq := Some pseq\<rparr>
                   else set_cursor cursor db)"
      "sp_producer_seq s' = pseq" "sp_producer_id s' = sp_producer_id s" "sp_epoch s' = sp_epoch s"
      "sp_sidecar s' = (if pseq \<noteq> sp_producer_seq s \<and> so_sidecar_ok env
                        then Some (sp_producer_id s, sp_epoch s, pseq) else sp_sidecar s)"
      "sp_machine_id s' = sp_machine_id s"
proof -
  define t where "t = (if force then s else s\<lparr>sp_full := (so_bytes env \<ge> sp_budget s)\<rparr>)"
  have full: "\<exists>f. t = s\<lparr>sp_full := f\<rparr>"
  proof (cases force)
    case True
    then show ?thesis by (intro exI [of _ "sp_full s"]) (simp add: t_def)
  qed (auto simp: t_def)
  then obtain f where f: "t = s\<lparr>sp_full := f\<rparr>" by blast
  have same: "append_items cd t its db p q = append_items cd s its db p q" for its db p q
  proof (induction its arbitrary: db p q)
    case (Cons it its)
    then show ?case by (cases it) (auto simp: f Let_def split: option.split sum.split)
  qed simp
  have lock: "append_locked cd env items cursor force s =
      (if \<not> force \<and> sp_full t then (Inl SpoolFull, t) else append_tx cd env items cursor t)"
    by (simp only: append_locked_def Let_def t_def)
  show thesis
  proof (cases "\<not> force \<and> sp_full t")
    case True
    then have "append_locked cd env items cursor force s = (Inl SpoolFull, t)" using lock by simp
    with f refused show ?thesis by simp
  next
    case False
    then have lock': "append_locked cd env items cursor force s = append_tx cd env items cursor t"
      using lock by (simp only: if_False)
    show ?thesis
    proof (cases "append_items cd s items (sp_db s) (sp_producer_seq s) []")
      case (Inl e)
      then have "append_tx cd env items cursor t = (Inl e, t)"
        using same by (simp add: append_tx_def f)
      with f refused lock' show ?thesis by simp
    next
      case (Inr res)
      obtain db pseq seqs where res: "res = (db, pseq, seqs)" by (cases res)
      show ?thesis
      proof (cases "so_commit_ok env")
        case False
        then have "append_tx cd env items cursor t = (Inl CommitFailed, t)"
          using same Inr res by (simp add: append_tx_def f)
        with f refused lock' show ?thesis by simp
      next
        case True
        have "append_tx cd env items cursor t = (Inr seqs, snd (append_tx cd env items cursor t))"
          using same Inr res True by (simp add: append_tx_def f Let_def)
        from stored [OF Inr [unfolded res] True lock' [THEN trans, OF this]]
        show ?thesis using same Inr res True by (simp add: append_tx_def f Let_def)
      qed
    qed
  qed
qed

section \<open>Producer numbers over restores\<close>

text \<open>
  The world around the spool: every database state that ever was on disk can come
  back from a backup; every epoch ever used; and every (epoch, number) pair given to
  an event of the agent's own that was committed.
\<close>

record spool_world =
  wd_spool :: spool
  wd_copies :: "spool_db list"
  wd_epochs :: "string list"
  wd_issued :: "(string \<times> int) list"

definition issued_by :: "spool \<Rightarrow> spool \<Rightarrow> (string \<times> int) list" where
  "issued_by s s' = map (\<lambda>k. (sp_epoch s, k)) [sp_producer_seq s + 1 .. sp_producer_seq s']"

definition world_of :: "spool \<Rightarrow> spool_world" where
  "world_of s =
     \<lparr>wd_spool = s, wd_copies = [sp_db s], wd_epochs = [sp_epoch s], wd_issued = []\<rparr>"

text \<open>
  Reachable worlds. New identifiers (uuid4) are new; the sidecar is written after
  every commit. \<open>reopened\<close> is a restart on the file as it is or on any older copy of
  it, \<open>recreated\<close> one after the database was deleted.
\<close>

inductive spool_reach :: "event_codec \<Rightarrow> (string \<Rightarrow> string option) \<Rightarrow> spool_world \<Rightarrow> bool"
  for cd :: event_codec and site_of :: "string \<Rightarrow> string option" where
  first: "fp \<noteq> '''' \<Longrightarrow> spool_reach cd site_of (world_of (open_spool b m fp fe spool_db_empty None bytes))"
| appended: "spool_reach cd site_of w \<Longrightarrow> so_sidecar_ok env \<Longrightarrow>
    s' = snd (append_locked cd env items cursor force (wd_spool w)) \<Longrightarrow>
    spool_reach cd site_of
      (w\<lparr>wd_spool := s', wd_copies := sp_db s' # wd_copies w,
         wd_issued := wd_issued w @ issued_by (wd_spool w) s'\<rparr>)"
| other: "spool_reach cd site_of w \<Longrightarrow>
    op \<in> {OpAck now seqs, OpPrune now, OpDropOther site reason now, OpSite new_site} \<Longrightarrow>
    s' = spool_step cd site_of (wd_spool w) op \<Longrightarrow>
    spool_reach cd site_of (w\<lparr>wd_spool := s', wd_copies := sp_db s' # wd_copies w\<rparr>)"
| reopened: "spool_reach cd site_of w \<Longrightarrow> copy \<in> set (wd_copies w) \<Longrightarrow> fe \<notin> set (wd_epochs w) \<Longrightarrow>
    s' = open_spool b m fp fe copy (sp_sidecar (wd_spool w)) bytes \<Longrightarrow>
    spool_reach cd site_of
      (w\<lparr>wd_spool := s', wd_copies := sp_db s' # wd_copies w,
         wd_epochs := sp_epoch s' # wd_epochs w\<rparr>)"
| recreated: "spool_reach cd site_of w \<Longrightarrow> fe \<notin> set (wd_epochs w) \<Longrightarrow>
    s' = open_spool b m fp fe spool_db_empty (sp_sidecar (wd_spool w)) bytes \<Longrightarrow>
    spool_reach cd site_of
      (w\<lparr>wd_spool := s', wd_copies := sp_db s' # wd_copies w,
         wd_epochs := sp_epoch s' # wd_epochs w\<rparr>)"

definition copy_ok :: "spool \<Rightarrow> string list \<Rightarrow> spool_db \<Rightarrow> bool" where
  "copy_ok s epochs d \<longleftrightarrow>
     sd_producer_id d = Some (sp_producer_id s) \<and>
     (\<exists>e n. sd_epoch d = Some e \<and> sd_producer_seq d = Some n \<and> e \<in> set epochs \<and>
        (e = sp_epoch s \<longrightarrow> n \<le> sp_producer_seq s))"

definition issued_ok :: "spool \<Rightarrow> string list \<Rightarrow> (string \<times> int) list \<Rightarrow> bool" where
  "issued_ok s epochs issued \<longleftrightarrow>
     distinct issued \<and>
     (\<forall>(e, n)\<in>set issued. e \<in> set epochs \<and> (e = sp_epoch s \<longrightarrow> n \<le> sp_producer_seq s))"

definition world_ok :: "spool_world \<Rightarrow> bool" where
  "world_ok w \<longleftrightarrow>
     (let s = wd_spool w
      in sp_producer_id s \<noteq> '''' \<and>
         sp_sidecar s = Some (sp_producer_id s, sp_epoch s, sp_producer_seq s) \<and>
         sd_producer_id (sp_db s) = Some (sp_producer_id s) \<and>
         sd_epoch (sp_db s) = Some (sp_epoch s) \<and>
         sd_producer_seq (sp_db s) = Some (sp_producer_seq s) \<and>
         sp_epoch s \<in> set (wd_epochs w) \<and>
         (\<forall>d\<in>set (wd_copies w). copy_ok s (wd_epochs w) d) \<and>
         issued_ok s (wd_epochs w) (wd_issued w))"

lemma append_locked_meta:
  assumes "world_ok w" "so_sidecar_ok env"
    and "append_locked cd env items cursor force (wd_spool w) = (r, s')"
  shows "sp_producer_id s' = sp_producer_id (wd_spool w)" "sp_epoch s' = sp_epoch (wd_spool w)"
    "sp_producer_seq (wd_spool w) \<le> sp_producer_seq s'"
    "sp_sidecar s' = Some (sp_producer_id s', sp_epoch s', sp_producer_seq s')"
    "sd_producer_id (sp_db s') = Some (sp_producer_id s')" "sd_epoch (sp_db s') = Some (sp_epoch s')"
    "sd_producer_seq (sp_db s') = Some (sp_producer_seq s')"
proof -
  let ?s = "wd_spool w"
  have w: "sp_sidecar ?s = Some (sp_producer_id ?s, sp_epoch ?s, sp_producer_seq ?s)"
    "sd_producer_id (sp_db ?s) = Some (sp_producer_id ?s)" "sd_epoch (sp_db ?s) = Some (sp_epoch ?s)"
    "sd_producer_seq (sp_db ?s) = Some (sp_producer_seq ?s)"
    using assms(1) by (simp_all add: world_ok_def Let_def)
  have "sp_producer_id s' = sp_producer_id ?s \<and> sp_epoch s' = sp_epoch ?s \<and>
    sp_producer_seq ?s \<le> sp_producer_seq s' \<and>
    sp_sidecar s' = Some (sp_producer_id s', sp_epoch s', sp_producer_seq s') \<and>
    sd_producer_id (sp_db s') = Some (sp_producer_id s') \<and> sd_epoch (sp_db s') = Some (sp_epoch s') \<and>
    sd_producer_seq (sp_db s') = Some (sp_producer_seq s')"
  proof (cases rule: append_locked_cases
      [where cd = cd and env = env and items = items and cursor = cursor and force = force and s = ?s])
    case (refused e full)
    with assms(3) w show ?thesis by auto
  next
    case (stored db pseq seqs s1)
    have m: "sd_producer_id (set_cursor cursor db) = sd_producer_id db"
      "sd_epoch (set_cursor cursor db) = sd_epoch db"
      "sd_producer_seq (set_cursor cursor db) = sd_producer_seq db"
      by (simp_all add: set_cursor_def split: option.split prod.split)
    have "s' = s1" using stored(3) assms(3) by simp
    with stored(4-8) append_items_Inr [OF stored(1)] w m assms(2) show ?thesis by auto
  qed
  then show "sp_producer_id s' = sp_producer_id (wd_spool w)" "sp_epoch s' = sp_epoch (wd_spool w)"
    "sp_producer_seq (wd_spool w) \<le> sp_producer_seq s'"
    "sp_sidecar s' = Some (sp_producer_id s', sp_epoch s', sp_producer_seq s')"
    "sd_producer_id (sp_db s') = Some (sp_producer_id s')" "sd_epoch (sp_db s') = Some (sp_epoch s')"
    "sd_producer_seq (sp_db s') = Some (sp_producer_seq s')"
    by auto
qed

lemma open_spool_fields [simp]:
  "sp_sidecar (open_spool b m fp fe d side bytes) =
     Some (sp_producer_id (open_spool b m fp fe d side bytes), sp_epoch (open_spool b m fp fe d side bytes),
       sp_producer_seq (open_spool b m fp fe d side bytes))"
  "sd_producer_id (sp_db (open_spool b m fp fe d side bytes)) =
     Some (sp_producer_id (open_spool b m fp fe d side bytes))"
  "sd_epoch (sp_db (open_spool b m fp fe d side bytes)) = Some (sp_epoch (open_spool b m fp fe d side bytes))"
  "sd_producer_seq (sp_db (open_spool b m fp fe d side bytes)) =
     Some (sp_producer_seq (open_spool b m fp fe d side bytes))"
  "sd_rows (sp_db (open_spool b m fp fe d side bytes)) = sd_rows d"
  by (simp_all add: open_spool_def Let_def)

text \<open>A database that is opened either goes on where the spool is, or starts a new epoch.\<close>

lemma open_spool_choice:
  assumes "copy_ok s epochs d" "sp_sidecar s = Some (sp_producer_id s, sp_epoch s, sp_producer_seq s)"
    and "sp_producer_id s \<noteq> ''''"
  shows "sp_producer_id (open_spool b m fp fe d (sp_sidecar s) bytes) = sp_producer_id s \<and>
    ((sp_epoch (open_spool b m fp fe d (sp_sidecar s) bytes) = sp_epoch s \<and>
      sp_producer_seq (open_spool b m fp fe d (sp_sidecar s) bytes) = sp_producer_seq s) \<or>
     (sp_epoch (open_spool b m fp fe d (sp_sidecar s) bytes) = fe \<and>
      sp_producer_seq (open_spool b m fp fe d (sp_sidecar s) bytes) = 0))"
  using assms
  by (auto simp: open_spool_def Let_def copy_ok_def producer_of_def non_empty_def needs_new_epoch_def)

lemma world_ok_reopened:
  assumes "world_ok w" "fe \<notin> set (wd_epochs w)"
    and s': "sp_producer_id s' = sp_producer_id (wd_spool w)"
      "(sp_epoch s' = sp_epoch (wd_spool w) \<and> sp_producer_seq s' = sp_producer_seq (wd_spool w)) \<or>
       (sp_epoch s' = fe \<and> sp_producer_seq s' = 0)"
      "sp_sidecar s' = Some (sp_producer_id s', sp_epoch s', sp_producer_seq s')"
      "sd_producer_id (sp_db s') = Some (sp_producer_id s')" "sd_epoch (sp_db s') = Some (sp_epoch s')"
      "sd_producer_seq (sp_db s') = Some (sp_producer_seq s')"
  shows "world_ok (w\<lparr>wd_spool := s', wd_copies := sp_db s' # wd_copies w,
    wd_epochs := sp_epoch s' # wd_epochs w\<rparr>)"
proof -
  let ?es = "sp_epoch s' # wd_epochs w"
  have w: "\<forall>d\<in>set (wd_copies w). copy_ok (wd_spool w) (wd_epochs w) d"
    "issued_ok (wd_spool w) (wd_epochs w) (wd_issued w)" "sp_epoch (wd_spool w) \<in> set (wd_epochs w)"
    using assms(1) by (simp_all add: world_ok_def Let_def)
  have "copy_ok s' ?es d" if "d \<in> set (wd_copies w)" for d
    using w(1) that s'(1,2) assms(2) by (fastforce simp: copy_ok_def)
  moreover have "copy_ok s' ?es (sp_db s')" using s'(4-6) by (simp add: copy_ok_def)
  moreover have "issued_ok s' ?es (wd_issued w)"
    using w(2) s'(2) assms(2) by (fastforce simp: issued_ok_def)
  moreover have "sp_producer_id s' \<noteq> ''''" using assms(1) s'(1) by (simp add: world_ok_def Let_def)
  ultimately show ?thesis using s'(3-6) by (simp add: world_ok_def Let_def)
qed

lemma world_ok_first: "fp \<noteq> '''' \<Longrightarrow> world_ok (world_of (open_spool b m fp fe spool_db_empty None bytes))"
  by (simp add: world_ok_def world_of_def Let_def copy_ok_def issued_ok_def)
    (simp add: open_spool_def Let_def producer_of_def non_empty_def spool_db_empty_def)

lemma world_ok_appended:
  assumes "world_ok w" "so_sidecar_ok env"
    and "append_locked cd env items cursor force (wd_spool w) = (r, s')"
  shows "world_ok (w\<lparr>wd_spool := s', wd_copies := sp_db s' # wd_copies w,
    wd_issued := wd_issued w @ issued_by (wd_spool w) s'\<rparr>)"
proof -
  note a = append_locked_meta [OF assms]
  have w: "\<forall>d\<in>set (wd_copies w). copy_ok (wd_spool w) (wd_epochs w) d"
    "issued_ok (wd_spool w) (wd_epochs w) (wd_issued w)" "sp_epoch (wd_spool w) \<in> set (wd_epochs w)"
    using assms(1) by (simp_all add: world_ok_def Let_def)
  have "copy_ok s' (wd_epochs w) d" if "d \<in> set (wd_copies w)" for d
    using w(1) that a(1-3) by (fastforce simp: copy_ok_def)
  moreover have "copy_ok s' (wd_epochs w) (sp_db s')" using a w(3) by (simp add: copy_ok_def)
  moreover have "issued_ok s' (wd_epochs w) (wd_issued w @ issued_by (wd_spool w) s')"
    using w(2,3) a(2,3)
    by (fastforce simp: issued_ok_def issued_by_def distinct_map inj_on_def)
  moreover have "sp_producer_id s' \<noteq> ''''" using assms(1) a(1) by (simp add: world_ok_def Let_def)
  ultimately show ?thesis using a w(3) by (simp add: world_ok_def Let_def)
qed

lemma world_ok_other:
  assumes "world_ok w"
    and "op \<in> {OpAck now seqs, OpPrune now, OpDropOther site reason now, OpSite new_site}"
    and "s' = spool_step cd site_of (wd_spool w) op"
  shows "world_ok (w\<lparr>wd_spool := s', wd_copies := sp_db s' # wd_copies w\<rparr>)"
proof -
  have "sp_producer_id s' = sp_producer_id (wd_spool w) \<and> sp_epoch s' = sp_epoch (wd_spool w) \<and>
    sp_producer_seq s' = sp_producer_seq (wd_spool w) \<and> sp_sidecar s' = sp_sidecar (wd_spool w) \<and>
    sd_producer_id (sp_db s') = sd_producer_id (sp_db (wd_spool w)) \<and>
    sd_epoch (sp_db s') = sd_epoch (sp_db (wd_spool w)) \<and>
    sd_producer_seq (sp_db s') = sd_producer_seq (sp_db (wd_spool w))"
    using assms(2,3)
    by (auto simp: mark_acked_def spool_prune_def drop_waiting_for_other_site_def set_site_id_def Let_def)
  with assms(1) show ?thesis
    by (simp add: world_ok_def Let_def copy_ok_def issued_ok_def)
qed

lemma spool_reach_ok: "spool_reach cd site_of w \<Longrightarrow> world_ok w"
proof (induction rule: spool_reach.induct)
  case first
  then show ?case by (rule world_ok_first)
next
  case (appended w env s' items cursor force)
  obtain r s'' where "append_locked cd env items cursor force (wd_spool w) = (r, s'')"
    by (cases "append_locked cd env items cursor force (wd_spool w)")
  with appended world_ok_appended show ?case by simp
next
  case (other w op now seqs site reason new_site s')
  then show ?case by (intro world_ok_other)
next
  case (reopened w copy fe s' b m fp bytes)
  have c: "copy_ok (wd_spool w) (wd_epochs w) copy"
    "sp_sidecar (wd_spool w) = Some (sp_producer_id (wd_spool w), sp_epoch (wd_spool w), sp_producer_seq (wd_spool w))"
    "sp_producer_id (wd_spool w) \<noteq> ''''"
    using reopened by (simp_all add: world_ok_def Let_def)
  show ?case
    using open_spool_choice [OF c, of b m fp fe bytes] reopened
    by (intro world_ok_reopened [of w fe]) simp_all
next
  case (recreated w fe s' b m fp bytes)
  have "sp_sidecar (wd_spool w) = Some (sp_producer_id (wd_spool w), sp_epoch (wd_spool w), sp_producer_seq (wd_spool w))"
    "sp_producer_id (wd_spool w) \<noteq> ''''"
    using recreated by (simp_all add: world_ok_def Let_def)
  then have "sp_producer_id s' = sp_producer_id (wd_spool w)" "sp_epoch s' = fe" "sp_producer_seq s' = 0"
    using recreated(3) by (simp_all add: open_spool_def Let_def producer_of_def non_empty_def needs_new_epoch_def spool_db_empty_def)
  with recreated show ?case
    by (intro world_ok_reopened [of w fe]) simp_all
qed

section \<open>Waiting events\<close>

lemma pending_kept_step:
  assumes "r \<in> set (sd_rows (sp_db s))" "is_pending r"
    and "\<And>now seqs. op = OpAck now seqs \<Longrightarrow> sr_seq r \<notin> set seqs"
    and "\<And>site reason now. op \<noteq> OpDropOther site reason now"
  shows "r \<in> set (sd_rows (sp_db (spool_step cd site_of s op)))"
proof (cases op)
  case (OpAppend env items cursor force)
  show ?thesis
  proof (cases rule: append_locked_cases
      [where cd = cd and env = env and items = items and cursor = cursor and force = force and s = s])
    case (refused e full)
    then show ?thesis using assms(1) by (simp add: OpAppend)
  next
    case (stored db pseq seqs s')
    have "sd_rows (sp_db s') = sd_rows db"
      by (simp add: stored(4) set_cursor_def split: option.split prod.split)
    with stored(3) append_items_Inr [OF stored(1)] assms(1) show ?thesis
      by (auto simp: OpAppend)
  qed
next
  case (OpAck now seqs)
  with assms show ?thesis
    by (force simp: mark_acked_def ack_row_def intro: image_eqI [of r])
next
  case (OpPrune now)
  with assms show ?thesis by (auto simp: spool_prune_def prunable_def is_pending_def)
next
  case (OpSite site)
  with assms show ?thesis by (simp add: set_site_id_def)
qed (use assms in auto)

lemma pending_kept:
  assumes "r \<in> set (sd_rows (sp_db s))" "is_pending r"
    and "\<forall>op\<in>set ops. (\<forall>now seqs. op = OpAck now seqs \<longrightarrow> sr_seq r \<notin> set seqs) \<and>
      (\<forall>site reason now. op \<noteq> OpDropOther site reason now)"
  shows "r \<in> set (sd_rows (sp_db (foldl (spool_step cd site_of) s ops)))"
  using assms(1,3)
proof (induction ops arbitrary: s)
  case (Cons op ops)
  have "r \<in> set (sd_rows (sp_db (spool_step cd site_of s op)))"
    using Cons.prems by (intro pending_kept_step assms(2)) auto
  from Cons.IH [OF this] Cons.prems show ?case by simp
qed simp

text \<open>
  The queue a forwarder works on: the waiting events in order, acknowledging some of
  them, and events added meanwhile. Whatever is added, an acknowledged event is gone
  from the queue for good and the others keep their order.
\<close>

locale event_queue =
  fixes ok :: "'s \<Rightarrow> bool"
    and waiting :: "'s \<Rightarrow> (int \<times> string) list"
    and ack :: "int \<Rightarrow> int list \<Rightarrow> 's \<Rightarrow> 's"
  assumes waiting_order: "ok s \<Longrightarrow> sorted_wrt (<) (map fst (waiting s))"
    and ack_ok: "ok s \<Longrightarrow> ok (ack now seqs s)"
    and waiting_ack: "ok s \<Longrightarrow> waiting (ack now seqs s) = filter (\<lambda>x. fst x \<notin> set seqs) (waiting s)"
begin

text \<open>A forwarder that sends the oldest \<open>limit\<close> events and acknowledges those answered for.\<close>

definition send_round :: "int \<Rightarrow> nat \<Rightarrow> ((int \<times> string) list \<Rightarrow> int list) \<Rightarrow> 's \<Rightarrow> 's" where
  "send_round now limit answer s = ack now (answer (take limit (waiting s))) s"

lemma send_round_ok: "ok s \<Longrightarrow> ok (send_round now limit answer s)"
  by (simp add: send_round_def ack_ok)

text \<open>If the oldest event is answered for, a round shortens the queue.\<close>

lemma send_round_progress:
  assumes "ok s" "0 < limit"
    and "waiting s \<noteq> [] \<Longrightarrow> fst (hd (waiting s)) \<in> set (answer (take limit (waiting s)))"
  shows "length (waiting (send_round now limit answer s)) \<le> length (waiting s) - 1"
proof (cases "waiting s = []")
  case True
  with assms(1) show ?thesis by (simp add: send_round_def waiting_ack)
next
  case False
  let ?a = "answer (take limit (waiting s))"
  have "filter (\<lambda>x. fst x \<notin> set ?a) (waiting s) \<noteq> waiting s"
    using assms(3) [OF False] hd_in_set [OF False] by (metis (mono_tags, lifting) filter_id_conv)
  then have "length (filter (\<lambda>x. fst x \<notin> set ?a) (waiting s)) < length (waiting s)"
    by (metis filter_True length_filter_less)
  then show ?thesis using assms(1) by (simp add: send_round_def waiting_ack)
qed

text \<open>A run of rounds, each of which answers for the oldest event, empties the queue.\<close>

lemma rounds_drain:
  assumes "ok (q 0)"
    and "\<And>i. i < n \<Longrightarrow> \<exists>now limit answer. q (Suc i) = send_round now limit answer (q i) \<and> 0 < limit \<and>
      (waiting (q i) \<noteq> [] \<longrightarrow> fst (hd (waiting (q i))) \<in> set (answer (take limit (waiting (q i)))))"
    and "length (waiting (q 0)) \<le> n"
  shows "waiting (q n) = []"
proof -
  have "ok (q i) \<and> length (waiting (q i)) \<le> length (waiting (q 0)) - i" if "i \<le> n" for i
    using that
  proof (induction i)
    case (Suc i)
    then have IH: "ok (q i)" "length (waiting (q i)) \<le> length (waiting (q 0)) - i" by simp_all
    from assms(2) [of i] Suc.prems obtain now limit answer where
      r: "q (Suc i) = send_round now limit answer (q i)" "0 < limit"
        "waiting (q i) \<noteq> [] \<Longrightarrow> fst (hd (waiting (q i))) \<in> set (answer (take limit (waiting (q i))))"
      by auto
    have "length (waiting (send_round now limit answer (q i))) \<le> length (waiting (q i)) - 1"
      by (rule send_round_progress) (use IH(1) r in blast)+
    with send_round_ok [OF IH(1)] IH(2) show ?case unfolding r(1) by simp
  qed (use assms(1) in simp)
  from this [of n] assms(3) show ?thesis by simp
qed

end

definition waiting_all :: "spool_db \<Rightarrow> (int \<times> string) list" where
  "waiting_all db = map (\<lambda>r. (sr_seq r, sr_body r)) (filter is_pending (sd_rows db))"

lemma pending_rows_all: "pending_rows limit None db = take limit (waiting_all db)"
  by (simp add: pending_rows_def waiting_all_def)

interpretation spq: event_queue rows_ok waiting_all mark_acked
proof
  fix db :: spool_db and now :: int and seqs :: "int list"
  assume ok: "rows_ok db"
  then show "sorted_wrt (<) (map fst (waiting_all db))"
    by (simp add: rows_ok_def waiting_all_def comp_def sorted_wrt_map sorted_wrt_filter)
  show "rows_ok (mark_acked now seqs db)" using ok by (rule mark_acked_ok)
  have "map (\<lambda>r. (sr_seq r, sr_body r)) (filter is_pending (map (ack_row now seqs) rs)) =
      filter (\<lambda>x. fst x \<notin> set seqs) (map (\<lambda>r. (sr_seq r, sr_body r)) (filter is_pending rs))" for rs
    by (induction rs) (auto simp: ack_row_def is_pending_def)
  then show "waiting_all (mark_acked now seqs db) = filter (\<lambda>x. fst x \<notin> set seqs) (waiting_all db)"
    by (simp add: waiting_all_def mark_acked_def)
qed

section \<open>Properties\<close>


definition demo_codec :: event_codec where
  "demo_codec =
     \<lparr>ec_make = (\<lambda>p e site m n row item.
        Some (\<lparr>ev_id = replicate (nat row) (CHR ''x''), ev_type = ''scan'', ev_occurred = row\<rparr>, ''{}'')),
      ec_read = (\<lambda>b. None)\<rparr>"

definition demo_spool_env :: "bool \<Rightarrow> spool_env" where
  "demo_spool_env sidecar =
     \<lparr>so_bytes = 0, so_commit_ok = True, so_sidecar_ok = sidecar, so_bytes_after = 0\<rparr>"

definition demo_event :: spool_item where "demo_event = OwnEvent ''scan'' PNone 0 PNone"

definition demo_spool :: spool where
  "demo_spool = open_spool 1000 ''m'' ''P'' ''e1'' spool_db_empty None 0"

definition demo_append :: "bool \<Rightarrow> spool \<Rightarrow> spool" where
  "demo_append sidecar s = snd (append_locked demo_codec (demo_spool_env sidecar) [demo_event] None False s)"

lemmas demo_spool_simps = demo_spool_def demo_append_def demo_codec_def demo_spool_env_def
  demo_event_def open_spool_def spool_db_empty_def append_locked_def append_tx_def insert_row_def set_cursor_def
  needs_new_epoch_def producer_of_def non_empty_def new_row_def issued_by_def Let_def


text \<open>
  Appending is all or nothing. Either the call fails and the database and the
  producer number are as before, or every event is stored as a pending row with
  consecutive row numbers, raw events with exactly the bytes given, together with
  the read cursor, and the rows that were there stay.
\<close>

theorem append_all_or_nothing:
  assumes "append_locked cd env items cursor force s = (res, s')"
  shows "case res of
      Inl e \<Rightarrow> sp_db s' = sp_db s \<and> sp_producer_seq s' = sp_producer_seq s
    | Inr seqs \<Rightarrow>
        (\<exists>new. sd_rows (sp_db s') = sd_rows (sp_db s) @ new \<and> (\<forall>r\<in>set new. is_pending r) \<and>
           map sr_seq new = seqs \<and>
           seqs = map (\<lambda>k. sd_sequence (sp_db s) + 1 + int k) [0..<length items] \<and>
           (\<forall>bodies. items = map RawEvent bodies \<longrightarrow> map sr_body new = bodies)) \<and>
        (\<forall>source. spool_cursor source (sp_db s') =
           (case cursor of
              Some (src, epoch, position) \<Rightarrow>
                if source = src then Some (epoch, position) else spool_cursor source (sp_db s)
            | None \<Rightarrow> spool_cursor source (sp_db s)))"
proof (cases rule: append_locked_cases
    [where cd = cd and env = env and items = items and cursor = cursor and force = force and s = s])
  case (refused e full)
  with assms show ?thesis by auto
next
  case (stored db pseq seqs s1)
  note items = append_items_Inr [OF stored(1)]
  have s': "s' = s1" "res = Inr seqs" using stored(3) assms by simp_all
  have rows: "sd_rows (sp_db s') = sd_rows db"
    by (simp add: s' stored(4) set_cursor_def split: option.split prod.split)
  have "spool_cursor source (sp_db s') =
       (case cursor of
          Some (src, epoch, position) \<Rightarrow>
            if source = src then Some (epoch, position) else map_of (sd_cursors db) source
        | None \<Rightarrow> map_of (sd_cursors db) source)" for source
    by (simp add: s' stored(4) set_cursor_def spool_cursor_def update_conv' split: option.split prod.split)
  moreover have "map_of (sd_cursors db) source = spool_cursor source (sp_db s)" for source
    using items by (auto simp: spool_cursor_def)
  ultimately have cur: "spool_cursor source (sp_db s') =
       (case cursor of
          Some (src, epoch, position) \<Rightarrow>
            if source = src then Some (epoch, position) else spool_cursor source (sp_db s)
        | None \<Rightarrow> spool_cursor source (sp_db s))" for source
    by (simp split: option.split prod.split)
  show ?thesis unfolding s'(2) sum.case
    by (rule conjI, use items rows in \<open>simp; blast\<close>) (simp only: cur, simp)
qed

lemma append_all_or_nothing_witness:
  "\<exists>new. sd_rows (sp_db (demo_append True demo_spool)) = sd_rows (sp_db demo_spool) @ new \<and>
     map sr_seq new = [1]"
proof -
  have "append_locked demo_codec (demo_spool_env True) [demo_event] None False demo_spool =
      (Inr [1], demo_append True demo_spool)"
    by (simp add: demo_spool_simps)
  from append_all_or_nothing [OF this] show ?thesis
    by (auto simp: demo_spool_def open_spool_def spool_db_empty_def Let_def)
qed

text \<open>
  Nothing waiting is ever lost. A pending event stays in the spool, unchanged,
  through appends, acknowledgements of others, pruning, a new site id and restarts;
  only its own acknowledgement or the operator's explicit discarding takes it out.
\<close>

theorem pending_event_survives:
  assumes "r \<in> set (sd_rows (sp_db s))" "is_pending r"
    and "\<forall>op\<in>set ops. (\<forall>now seqs. op = OpAck now seqs \<longrightarrow> sr_seq r \<notin> set seqs) \<and>
      (\<forall>site reason now. op \<noteq> OpDropOther site reason now)"
  shows "r \<in> set (sd_rows (sp_db (foldl (spool_step cd site_of) s ops)))"
  using assms by (rule pending_kept)

lemma pending_event_survives_witness:
  "\<exists>r\<in>set (sd_rows (sp_db (foldl (spool_step demo_codec (\<lambda>b. None)) (demo_append True demo_spool)
      [OpAppend (demo_spool_env True) [demo_event] None False, OpAck 5 [2], OpPrune 999999999999,
       OpReopen 1000 ''m'' ''Q'' ''e2'' 0]))). sr_seq r = 1"
proof -
  let ?r = "new_row 1 \<lparr>ev_id = ''x'', ev_type = ''scan'', ev_occurred = 1\<rparr> ''{}''"
  have "?r \<in> set (sd_rows (sp_db (demo_append True demo_spool)))" "is_pending ?r"
    by (simp_all add: demo_spool_simps is_pending_def)
  from pending_event_survives [OF this, of "[OpAppend (demo_spool_env True) [demo_event] None False,
      OpAck 5 [2], OpPrune 999999999999, OpReopen 1000 ''m'' ''Q'' ''e2'' 0]" demo_codec "\<lambda>b. None"]
  show ?thesis by (intro bexI [of _ ?r]) (simp_all add: new_row_def)
qed

text \<open>
  The sidecar matters: when writing it failed after a commit (the code logs a warning
  and goes on), a copy of the database made before that commit is not recognised as
  older, and the number is given out again in the same epoch.
\<close>

lemma number_reused_without_sidecar:
  "issued_by demo_spool (demo_append False demo_spool) = [(''e1'', 1)] \<and>
   (let restored = open_spool 1000 ''m'' ''P'' ''e2'' (sp_db demo_spool)
          (sp_sidecar (demo_append False demo_spool)) 0
    in issued_by restored (demo_append True restored) = [(''e1'', 1)])"
  by (simp add: demo_spool_simps upto.simps)

end
