(* ===== verification/Mes_Enrol.thy ===== *)
theory Mes_Enrol
  imports Py_Text Agent_Identity Mes_Spool
begin

text \<open>
  Enrolment with the site service, the first half of \<open>agent_mes_forward.py\<close>: the
  enrolment code, the files of the enrolment directory, the guard on events waiting
  for another site, and \<open>enroll\<close> with the order of everything it sends and writes. TLS,
  the openssl command and hashing are parameters or outcomes of a call.
\<close>

section \<open>Codes and addresses\<close>

text \<open>\<open>[A-Z0-9]{12}\<close> and \<open>[0-9a-f]{16}\<close>; dashes and white space are dropped before.\<close>

definition code_classes :: "(char \<Rightarrow> bool) list" where
  "code_classes = replicate 12 (\<lambda>c. is_upper c \<or> is_digit c) @ replicate 16 is_hex_lower"

definition parse_code :: "string \<Rightarrow> (string \<times> string) option" where
  "parse_code code =
     (let flat = filter (\<lambda>c. \<not> is_space c \<and> c \<noteq> CHR ''-'') code;
          norm = py_upper (take 12 flat) @ py_lower (drop 12 flat)
      in if rx_match (seqs [AtStart, class_seq code_classes, AtEnd]) norm
         then Some (strip code, take 16 (drop 12 norm)) else None)"

definition norm_url :: "string \<Rightarrow> string" where
  "norm_url url = rstrip_of (CHR ''/'') (strip url)"

section \<open>The files\<close>

record mes_files =
  mf_key :: "string option"
  mf_cert :: "string option"
  mf_ca :: "string option"
  mf_enrolment :: "pyval option"
  mf_address :: "pyval option"

record enrolment =
  en_service_url :: string
  en_site_id :: string
  en_machine_id :: string
  en_not_after :: pyval

definition str_of :: "pyval \<Rightarrow> string option" where
  "str_of v = (case v of PStr s \<Rightarrow> Some s | _ \<Rightarrow> None)"

definition load_enrolment :: "mes_files \<Rightarrow> enrolment option" where
  "load_enrolment files =
     (case mf_enrolment files of
        Some (PDict d) \<Rightarrow>
          (case (str_of (dict_get d ''service_url''), str_of (dict_get d ''site_id''),
                 str_of (dict_get d ''machine_id'')) of
             (Some url, Some site, Some machine) \<Rightarrow>
               if mf_key files \<noteq> None \<and> mf_cert files \<noteq> None \<and> mf_ca files \<noteq> None
               then Some \<lparr>en_service_url = url, en_site_id = site, en_machine_id = machine,
                          en_not_after = dict_get d ''not_after''\<rparr>
               else None
           | _ \<Rightarrow> None)
      | _ \<Rightarrow> None)"

text \<open>\<open>load_found\<close> and the two functions that write \<open>service_address.json\<close>.\<close>

definition load_found ::
  "(string \<Rightarrow> (string \<times> int) option) \<Rightarrow> mes_files \<Rightarrow> string \<Rightarrow> string option" where
  "load_found split_url files configured_url =
     (case mf_address files of
        Some (PDict d) \<Rightarrow>
          (case dict_get d ''url'' of
             PStr url \<Rightarrow>
               if dict_get d ''configured_url'' \<noteq> PStr (norm_url configured_url) \<or>
                  url = norm_url configured_url \<or> split_url url = None
               then None else Some url
           | _ \<Rightarrow> None)
      | _ \<Rightarrow> None)"

definition forget_found :: "mes_files \<Rightarrow> mes_files" where
  "forget_found files = files\<lparr>mf_address := None\<rparr>"

definition save_found :: "string \<Rightarrow> string \<Rightarrow> string \<Rightarrow> int \<Rightarrow> mes_files \<Rightarrow> mes_files" where
  "save_found url via configured_url now_ms files =
     files\<lparr>mf_address := Some (PDict [(''url'', PStr url), (''found_at_ms'', PInt now_ms),
       (''via'', PStr via), (''configured_url'', PStr (norm_url configured_url))])\<rparr>"

section \<open>Enrolling\<close>

datatype enrol_error =
    BadUrl | BadCode | NoMachineId | Unreachable | UnreadableCa | WrongCa | GuardRefused
  | NoKey | RequestFailed | ServiceRefused | IncompleteAnswer | OtherCa | OtherSite
  | Unhandled

text \<open>
  \<open>waiting_guard\<close>: with events waiting for another site it refuses, or with \<open>discard\<close>
  drops them. \<open>readable\<close> is whether the spool database could be read and written.
\<close>

definition waiting_guard ::
  "(string \<Rightarrow> string option) \<Rightarrow> bool \<Rightarrow> bool \<Rightarrow> string \<Rightarrow> int \<Rightarrow> spool_db \<Rightarrow> string option \<Rightarrow>
   bool \<times> spool_db" where
  "waiting_guard site_of readable discard reason now_ms db site =
     (if \<not> readable then (False, db)
      else if other_site_rows site_of site db = [] then (True, db)
      else if \<not> discard then (False, db)
      else (True, snd (drop_waiting_for_other_site site_of site reason now_ms db)))"

text \<open>What \<open>enroll\<close> does outside, in order.\<close>

datatype enrol_action =
    FetchCa | AskSite | Guard "string option" | MakeKey
  | SendCode string string | WriteFile string | ForgetAddress

datatype enrol_answer = PostFailed | Posted int pydict

text \<open>
  The world during one call: the CA certificate the service gives (\<open>None\<close>: not reached),
  its fingerprint (\<open>None\<close>: not a certificate), the site it names, the guard's part, key
  and request from openssl, the answer to the request, and which file write fails.
\<close>

record enrol_env =
  ee_split_url :: "string \<Rightarrow> (string \<times> int) option"
  ee_ca :: "string option"
  ee_fingerprint :: "string \<Rightarrow> string option"
  ee_site :: "string option"
  ee_guard :: "string option \<Rightarrow> spool_db \<Rightarrow> bool \<times> spool_db"
  ee_csr :: "(string \<times> string) option"
  ee_answer :: "string \<Rightarrow> string \<Rightarrow> enrol_answer"
  ee_write_ok :: "string \<Rightarrow> bool"

record enrol_state =
  es_files :: mes_files
  es_db :: spool_db
  es_done :: "enrol_action list"

definition did :: "enrol_action list \<Rightarrow> enrol_state \<Rightarrow> enrol_state" where
  "did as s = s\<lparr>es_done := es_done s @ as\<rparr>"

text \<open>
  The file steps at the end, each replacing one file: a step that fails leaves the ones
  before it done. \<open>False\<close> in a step is text that cannot be encoded as ASCII.
\<close>

fun write_all ::
  "enrol_env \<Rightarrow> (string \<times> bool \<times> (mes_files \<Rightarrow> mes_files)) list \<Rightarrow> enrol_state \<Rightarrow> bool \<times> enrol_state" where
  "write_all env [] s = (True, s)"
| "write_all env ((name, encodable, put) # steps) s =
     (if encodable \<and> ee_write_ok env name
      then write_all env steps (did [WriteFile name] (s\<lparr>es_files := put (es_files s)\<rparr>))
      else (False, s))"

definition enrolment_json :: "enrolment \<Rightarrow> pyval" where
  "enrolment_json en =
     PDict [(''service_url'', PStr (en_service_url en)), (''site_id'', PStr (en_site_id en)),
       (''machine_id'', PStr (en_machine_id en)), (''not_after'', en_not_after en)]"

definition file_steps ::
  "string \<Rightarrow> string \<Rightarrow> string \<Rightarrow> enrolment \<Rightarrow> (string \<times> bool \<times> (mes_files \<Rightarrow> mes_files)) list" where
  "file_steps key cert pem en =
     [(''client.key'', True, \<lambda>f. f\<lparr>mf_key := Some key\<rparr>),
      (''client.crt'', is_ascii cert, \<lambda>f. f\<lparr>mf_cert := Some cert\<rparr>),
      (''ca.crt'', True, \<lambda>f. f\<lparr>mf_ca := Some pem\<rparr>),
      (''enrolment.json'', True, \<lambda>f. f\<lparr>mf_enrolment := Some (enrolment_json en)\<rparr>)]"

text \<open>The checks on the service's answer; the error \<open>Unhandled\<close> is any other exception.\<close>

definition check_answer ::
  "enrol_env \<Rightarrow> string \<Rightarrow> string \<Rightarrow> string \<Rightarrow> enrol_answer \<Rightarrow> enrol_error + (string \<times> enrolment)" where
  "check_answer env url machine_id fp answer =
     (case answer of
        PostFailed \<Rightarrow> Inl RequestFailed
      | Posted status doc \<Rightarrow>
          if status \<noteq> 200 then
            (if truthy (dict_get doc ''message'') \<and> str_of (dict_get doc ''message'') = None
             then Inl Unhandled else Inl ServiceRefused)
          else
            (case (str_of (dict_get doc ''certificate''), str_of (dict_get doc ''site_id'')) of
               (Some cert, Some site) \<Rightarrow>
                 if dict_get doc ''machine_id'' \<noteq> PStr machine_id then Inl IncompleteAnswer
                 else
                   (let other = map_option (ee_fingerprint env) (str_of (dict_get doc ''ca''))
                    in if other = Some None then Inl Unhandled
                       else if other \<noteq> None \<and> other \<noteq> Some (Some fp) then Inl OtherCa
                       else if ee_site env \<noteq> None \<and> ee_site env \<noteq> Some site then Inl OtherSite
                       else Inr (cert, \<lparr>en_service_url = norm_url url, en_site_id = site,
                              en_machine_id = machine_id, en_not_after = dict_get doc ''not_after''\<rparr>))
             | _ \<Rightarrow> Inl IncompleteAnswer))"

text \<open>From the key on: the request, the answer, the files.\<close>

definition request_certificate ::
  "enrol_env \<Rightarrow> string \<Rightarrow> string \<Rightarrow> string \<Rightarrow> string \<Rightarrow> string \<Rightarrow> enrol_state \<Rightarrow>
   (enrol_error + enrolment) \<times> enrol_state" where
  "request_certificate env url sent_code machine_id pem fp s2 =
     (case ee_csr env of
        None \<Rightarrow> (Inl NoKey, did [MakeKey] s2)
      | Some (key, csr) \<Rightarrow>
          (let s3 = did [MakeKey, SendCode sent_code pem] s2
           in case check_answer env url machine_id fp (ee_answer env sent_code csr) of
                Inl e \<Rightarrow> (Inl e, s3)
              | Inr (cert, en) \<Rightarrow>
                  (let (written, s4) = write_all env (file_steps key cert pem en) s3
                   in if written \<and> ee_write_ok env ''service_address.json''
                      then (Inr en, did [ForgetAddress] (s4\<lparr>es_files := forget_found (es_files s4)\<rparr>))
                      else (Inl Unhandled, s4))))"

definition enroll ::
  "enrol_env \<Rightarrow> string \<Rightarrow> string \<Rightarrow> string \<Rightarrow> enrol_state \<Rightarrow> (enrol_error + enrolment) \<times> enrol_state" where
  "enroll env url code machine_id s0 =
     (case (ee_split_url env url, parse_code code) of
        (None, _) \<Rightarrow> (Inl BadUrl, s0)
      | (_, None) \<Rightarrow> (Inl BadCode, s0)
      | (Some _, Some (sent_code, fp_prefix)) \<Rightarrow>
          if machine_id = '''' then (Inl NoMachineId, s0)
          else
            (let s1 = did [FetchCa] s0
             in case ee_ca env of
                  None \<Rightarrow> (Inl Unreachable, s1)
                | Some pem \<Rightarrow>
                    (case ee_fingerprint env pem of
                       None \<Rightarrow> (Inl UnreadableCa, s1)
                     | Some fp \<Rightarrow>
                         if \<not> starts_with fp fp_prefix then (Inl WrongCa, s1)
                         else
                           (let site = ee_site env;
                                (passed, db) = ee_guard env site (es_db s1);
                                s2 = did [AskSite, Guard site] (s1\<lparr>es_db := db\<rparr>)
                            in if \<not> passed then (Inl GuardRefused, s2)
                               else request_certificate env url sent_code machine_id pem fp s2))))"

section \<open>Properties\<close>

lemma es_did [simp]:
  "es_files (did as s) = es_files s" "es_db (did as s) = es_db s" "es_done (did as s) = es_done s @ as"
  by (simp_all add: did_def)

lemma write_all_keeps:
  "write_all env steps s = (ok, s') \<Longrightarrow>
   es_db s' = es_db s \<and> (\<exists>names. es_done s' = es_done s @ map WriteFile names)"
proof (induction env steps s rule: write_all.induct)
  case (2 env name encodable put steps s)
  show ?case
  proof (cases "encodable \<and> ee_write_ok env name")
    case True
    with 2 obtain names where
      "es_db s' = es_db s" "es_done s' = (es_done s @ [WriteFile name]) @ map WriteFile names"
      by auto
    then have "es_done s' = es_done s @ map WriteFile (name # names)" by simp
    with \<open>es_db s' = es_db s\<close> show ?thesis by blast
  next
    case False
    with "2.prems" have "s' = s" by (auto split: if_splits)
    then show ?thesis by (intro conjI exI [of _ "[]"]) simp_all
  qed
qed auto

lemma file_steps_all:
  assumes "write_all env (file_steps key cert pem en) s = (True, s')"
  shows "es_files s' = (es_files s)\<lparr>mf_key := Some key, mf_cert := Some cert, mf_ca := Some pem,
    mf_enrolment := Some (enrolment_json en)\<rparr>"
  using assms by (auto simp: file_steps_def split: if_splits)

text \<open>The ways \<open>enroll\<close> can end.\<close>

lemma enroll_cases:
  assumes "enroll env url code machine_id s0 = (res, s')"
  obtains (early) e as where "res = Inl e" "es_files s' = es_files s0" "es_db s' = es_db s0"
      "es_done s' = es_done s0 @ as" "set as \<subseteq> {FetchCa}"
  | (guarded) sent fp_prefix pem fp e as where "parse_code code = Some (sent, fp_prefix)"
      "ee_ca env = Some pem" "ee_fingerprint env pem = Some fp" "starts_with fp fp_prefix"
      "res = Inl e" "es_files s' = es_files s0" "es_db s' = snd (ee_guard env (ee_site env) (es_db s0))"
      "es_done s' = es_done s0 @ as" "set as \<subseteq> {FetchCa, AskSite, Guard (ee_site env), MakeKey}"
  | (sent) sent fp_prefix pem fp key csr ws where "parse_code code = Some (sent, fp_prefix)"
      "ee_ca env = Some pem" "ee_fingerprint env pem = Some fp" "starts_with fp fp_prefix"
      "fst (ee_guard env (ee_site env) (es_db s0))" "ee_csr env = Some (key, csr)"
      "es_db s' = snd (ee_guard env (ee_site env) (es_db s0))"
      "es_done s' = es_done s0 @ [FetchCa, AskSite, Guard (ee_site env), MakeKey, SendCode sent pem] @ ws"
      "set ws \<subseteq> range WriteFile \<union> {ForgetAddress}"
      "case res of
         Inl e \<Rightarrow> e = Unhandled \<or> es_files s' = es_files s0
       | Inr en \<Rightarrow> \<exists>cert. check_answer env url machine_id fp (ee_answer env sent csr) = Inr (cert, en) \<and>
           es_files s' = forget_found ((es_files s0)\<lparr>mf_key := Some key, mf_cert := Some cert,
             mf_ca := Some pem, mf_enrolment := Some (enrolment_json en)\<rparr>)"
proof -
  consider (no_start) e where "enroll env url code machine_id s0 = (Inl e, s0)"
    | (no_ca) e where "enroll env url code machine_id s0 = (Inl e, did [FetchCa] s0)"
    | (checked) sent fp_prefix pem fp where "parse_code code = Some (sent, fp_prefix)" "machine_id \<noteq> ''''"
        "ee_split_url env url \<noteq> None"
        "ee_ca env = Some pem" "ee_fingerprint env pem = Some fp" "starts_with fp fp_prefix"
    by (fastforce simp: enroll_def Let_def split: option.splits prod.splits if_splits)
  then show thesis
  proof cases
    case (no_start e)
    with assms early [of e "[]"] show thesis by simp
  next
    case (no_ca e)
    with assms early [of e "[FetchCa]"] show thesis by auto
  next
    case (checked sent fp_prefix pem fp)
    let ?g = "ee_guard env (ee_site env) (es_db s0)"
    let ?s2 = "did [AskSite, Guard (ee_site env)] ((did [FetchCa] s0)\<lparr>es_db := snd ?g\<rparr>)"
    have run: "enroll env url code machine_id s0 =
      (if \<not> fst ?g then (Inl GuardRefused, ?s2)
       else request_certificate env url sent machine_id pem fp ?s2)"
      using checked by (cases ?g) (auto simp: enroll_def Let_def)
    show thesis
    proof (cases "fst ?g \<and> ee_csr env \<noteq> None")
      case False
      have "\<exists>e as. res = Inl e \<and> s' = did as ?s2 \<and> set as \<subseteq> {MakeKey}"
      proof (cases "fst ?g")
        case True
        then have "ee_csr env = None" using False by (cases "ee_csr env") auto
        with True assms run have "res = Inl NoKey" "s' = did [MakeKey] ?s2"
          by (simp_all add: request_certificate_def)
        then show ?thesis by (intro exI [of _ NoKey] exI [of _ "[MakeKey]"]) simp
      next
        case False
        with assms run have "res = Inl GuardRefused" "s' = ?s2" by simp_all
        then show ?thesis by (intro exI [of _ GuardRefused] exI [of _ "[]"]) (simp add: did_def)
      qed
      then obtain e as where "res = Inl e" "s' = did as ?s2" "set as \<subseteq> {MakeKey}" by blast
      with checked guarded [of sent fp_prefix pem fp e "[FetchCa, AskSite, Guard (ee_site env)] @ as"]
      show thesis by auto
    next
      case True
      then obtain key csr where csr: "ee_csr env = Some (key, csr)" by auto
      let ?s3 = "did [MakeKey, SendCode sent pem] ?s2"
      note sent_here = sent [OF checked(1,4,5,6) _ csr]
      show thesis
      proof (cases "check_answer env url machine_id fp (ee_answer env sent csr)")
        case (Inl e)
        then have "res = Inl e" "s' = ?s3" using assms run True csr by (simp_all add: request_certificate_def Let_def)
        with True sent_here [of "[]"] show thesis by simp
      next
        case (Inr ok)
        obtain cert en where ok: "ok = (cert, en)" by (cases ok)
        obtain fine s4 where w: "write_all env (file_steps key cert pem en) ?s3 = (fine, s4)"
          by (cases "write_all env (file_steps key cert pem en) ?s3")
        obtain names where names: "es_db s4 = es_db ?s3" "es_done s4 = es_done ?s3 @ map WriteFile names"
          using write_all_keeps [OF w] by blast
        show thesis
        proof (cases "fine \<and> ee_write_ok env ''service_address.json''")
          case False
          then have "res = Inl Unhandled" "s' = s4"
            using assms run True csr Inr w ok by (auto simp: request_certificate_def Let_def)
          with True names sent_here [of "map WriteFile names"] show thesis by auto
        next
          case good: True
          then have "res = Inr en" "s' = did [ForgetAddress] (s4\<lparr>es_files := forget_found (es_files s4)\<rparr>)"
            using assms run True csr Inr w ok by (auto simp: request_certificate_def Let_def)
          moreover have "es_files s4 = (es_files s0)\<lparr>mf_key := Some key, mf_cert := Some cert,
              mf_ca := Some pem, mf_enrolment := Some (enrolment_json en)\<rparr>"
            using file_steps_all w good by fastforce
          ultimately show thesis
            using True names Inr ok sent_here [of "map WriteFile names @ [ForgetAddress]"] by auto
        qed
      qed
    qed
  qed
qed

lemma drop_leaves_none:
  "other_site_rows site_of site (snd (drop_waiting_for_other_site site_of site reason now db)) = []"
proof -
  let ?seqs = "map fst (other_site_rows site_of site db)"
  have seq: "sr_seq r \<in> set ?seqs"
    if "r \<in> set (sd_rows db)" "is_pending r" "site_of (sr_body r) = Some other" "other \<noteq> ''''"
      "Some other \<noteq> site" for r other
    using that by (force simp: other_site_rows_def intro: rev_image_eqI)
  have "\<not> is_pending (drop_row now reason ?seqs r) \<or> site_of (sr_body r) = None \<or>
      (\<exists>other. site_of (sr_body r) = Some other \<and> (other = '''' \<or> Some other = site))"
    if "r \<in> set (sd_rows db)" for r
    using seq [OF that] by (cases "site_of (sr_body r)") (auto simp: drop_row_def is_pending_def)
  moreover have "sr_body (drop_row now reason qs r) = sr_body r" for qs r
    by (simp add: drop_row_def)
  ultimately show ?thesis
    unfolding other_site_rows_def drop_waiting_for_other_site_def Let_def snd_conv
    by (fastforce split: option.splits)
qed

lemma waiting_guard_clean:
  assumes "fst (waiting_guard site_of readable discard reason now db site)"
  shows "other_site_rows site_of site (snd (waiting_guard site_of readable discard reason now db site)) = []"
  using assms by (auto simp: waiting_guard_def drop_leaves_none split: if_splits)

lemma load_enrolment_json:
  "load_enrolment (files\<lparr>mf_key := Some key, mf_cert := Some cert, mf_ca := Some pem,
     mf_enrolment := Some (enrolment_json en)\<rparr>) = Some en"
  by (simp add: load_enrolment_def enrolment_json_def dict_get_def str_of_def)

lemma load_enrolment_forget [simp]: "load_enrolment (forget_found files) = load_enrolment files"
  by (simp add: load_enrolment_def forget_found_def split: option.split pyval.split)

text \<open>
  C22: the one-time code leaves the machine only after a CA text with the fingerprint that
  the code names (of its first certificate, see \<open>Service_Answers\<close>), only when no event waits for
  another site any more, and before any file is touched.
\<close>

theorem code_only_to_checked_service:
  assumes "enroll env url code machine_id s = (res, s')" "es_done s = []"
    and "ee_guard env = (\<lambda>site db. waiting_guard site_of readable discard reason now db site)"
    and "SendCode c pem \<in> set (es_done s')"
  shows "(\<exists>prefix fp. parse_code code = Some (c, prefix) \<and> ee_fingerprint env pem = Some fp \<and>
      starts_with fp prefix) \<and> ee_ca env = Some pem \<and>
    other_site_rows site_of (ee_site env) (es_db s') = [] \<and>
    (\<forall>f. WriteFile f \<notin> set (takeWhile (\<lambda>a. a \<noteq> SendCode c pem) (es_done s')))"
  using assms(1)
proof (cases rule: enroll_cases)
  case (early e as)
  with assms(2,4) show ?thesis by auto
next
  case (guarded sent fp_prefix pem' fp e as)
  with assms(2,4) show ?thesis by auto
next
  case (sent sent_code fp_prefix pem' fp key csr ws)
  have eq: "sent_code = c" "pem' = pem" using sent(8,9) assms(2,4) by auto
  with sent(5,7) have "other_site_rows site_of (ee_site env) (es_db s') = []"
    using waiting_guard_clean by (simp add: assms(3))
  with eq sent assms(2) show ?thesis by auto
qed

definition demo_fp :: string where "demo_fp = ''3fa9c0d1e2b4a6f80000''"

definition demo_enrol_env :: enrol_env where
  "demo_enrol_env =
     \<lparr>ee_split_url = (\<lambda>u. Some (''host'', 8443)), ee_ca = Some ''PEM'',
      ee_fingerprint = (\<lambda>p. if p = ''PEM'' then Some demo_fp else None), ee_site = Some ''S'',
      ee_guard = (\<lambda>site db. waiting_guard (\<lambda>b. None) True False '''' 0 db site),
      ee_csr = Some (''KEY'', ''CSR''),
      ee_answer = (\<lambda>c csr. Posted 200 [(''certificate'', PStr ''CERT''), (''site_id'', PStr ''S''),
        (''machine_id'', PStr ''m''), (''not_after'', PInt 5)]),
      ee_write_ok = (\<lambda>f. True)\<rparr>"

definition demo_enrol_start :: enrol_state where
  "demo_enrol_start =
     \<lparr>es_files = \<lparr>mf_key = None, mf_cert = None, mf_ca = None, mf_enrolment = None, mf_address = None\<rparr>,
      es_db = spool_db_empty, es_done = []\<rparr>"

definition demo_code :: string where "demo_code = ''K7QX-M2PA-9TRF-3fa9c0d1e2b4a6f8''"

lemma demo_parse: "parse_code demo_code = Some (demo_code, ''3fa9c0d1e2b4a6f8'')"
  unfolding demo_code_def by code_simp

definition demo_enrolment :: enrolment where
  "demo_enrolment =
     \<lparr>en_service_url = ''https://host:8443'', en_site_id = ''S'', en_machine_id = ''m'',
      en_not_after = PInt 5\<rparr>"

lemma demo_enroll:
  "\<exists>s'. enroll demo_enrol_env ''https://host:8443/'' demo_code ''m'' demo_enrol_start = (Inr demo_enrolment, s') \<and>
     es_done s' = [FetchCa, AskSite, Guard (Some ''S''), MakeKey, SendCode demo_code ''PEM'',
       WriteFile ''client.key'', WriteFile ''client.crt'', WriteFile ''ca.crt'',
       WriteFile ''enrolment.json'', ForgetAddress]"
proof -
  have "norm_url ''https://host:8443/'' = ''https://host:8443''" by code_simp
  moreover have "starts_with demo_fp ''3fa9c0d1e2b4a6f8''" by code_simp
  moreover have "is_ascii ''CERT''" by code_simp
  ultimately show ?thesis
    by (simp add: enroll_def demo_parse demo_enrol_env_def demo_enrol_start_def Let_def
        request_certificate_def check_answer_def dict_get_def str_of_def file_steps_def did_def
        waiting_guard_def other_site_rows_def spool_db_empty_def demo_enrolment_def)
qed

lemma code_only_to_checked_service_witness:
  "\<exists>prefix fp. parse_code demo_code = Some (demo_code, prefix) \<and>
     ee_fingerprint demo_enrol_env ''PEM'' = Some fp \<and> starts_with fp prefix"
proof -
  obtain s' where s': "enroll demo_enrol_env ''https://host:8443/'' demo_code ''m'' demo_enrol_start =
      (Inr demo_enrolment, s')" "SendCode demo_code ''PEM'' \<in> set (es_done s')"
    using demo_enroll by auto
  have "ee_guard demo_enrol_env = (\<lambda>site db. waiting_guard (\<lambda>b. None) True False '''' 0 db site)"
    by (simp add: demo_enrol_env_def)
  from code_only_to_checked_service [OF s'(1) _ this s'(2)] show ?thesis
    by (simp add: demo_enrol_start_def)
qed

text \<open>
  After a successful enrolment the files load as exactly that enrolment, for this
  machine and the site that was checked, and an address found earlier is forgotten;
  after an enrolment error every file is as before.
\<close>

theorem enrolment_files:
  assumes "enroll env url code machine_id s = (res, s')"
  shows "case res of
      Inl e \<Rightarrow> e \<noteq> Unhandled \<longrightarrow> es_files s' = es_files s
    | Inr en \<Rightarrow> load_enrolment (es_files s') = Some en \<and> en_machine_id en = machine_id \<and>
        (ee_site env = None \<or> ee_site env = Some (en_site_id en)) \<and>
        mf_ca (es_files s') = ee_ca env \<and> load_found split_url (es_files s') any_url = None"
  using assms
proof (cases rule: enroll_cases)
  case (sent sent_code fp_prefix pem fp key csr ws)
  show ?thesis
  proof (cases res)
    case (Inr en)
    with sent obtain cert where
      c: "check_answer env url machine_id fp (ee_answer env sent_code csr) = Inr (cert, en)"
      and f: "es_files s' = forget_found ((es_files s)\<lparr>mf_key := Some key, mf_cert := Some cert,
             mf_ca := Some pem, mf_enrolment := Some (enrolment_json en)\<rparr>)"
      by auto
    have "en_machine_id en = machine_id \<and> (ee_site env = None \<or> ee_site env = Some (en_site_id en))"
      using c by (auto simp: check_answer_def Let_def split: enrol_answer.splits option.splits if_splits)
    then show ?thesis
      using f sent(2) by (simp add: Inr load_enrolment_json) (simp add: forget_found_def load_found_def)
  qed (use sent in auto)
qed simp_all

lemma enrolment_files_witness:
  "\<exists>s'. enroll demo_enrol_env ''https://host:8443/'' demo_code ''m'' demo_enrol_start =
      (Inr demo_enrolment, s') \<and> load_enrolment (es_files s') = Some demo_enrolment"
proof -
  obtain s' where s': "enroll demo_enrol_env ''https://host:8443/'' demo_code ''m'' demo_enrol_start =
      (Inr demo_enrolment, s')"
    using demo_enroll by auto
  from enrolment_files [OF this] show ?thesis using s' by simp
qed

text \<open>
  The files are replaced one by one: a certificate that is not ASCII, or a disk that
  fills up, leaves the new key beside the old certificate.
\<close>

lemma half_written_enrolment:
  "\<exists>s'. enroll (demo_enrol_env\<lparr>ee_write_ok := \<lambda>f. f \<noteq> ''client.crt''\<rparr>) ''https://host:8443/'' demo_code ''m''
      (demo_enrol_start\<lparr>es_files := (es_files demo_enrol_start)\<lparr>mf_key := Some ''OLDKEY'', mf_cert := Some ''OLDCERT''\<rparr>\<rparr>) =
      (Inl Unhandled, s') \<and> mf_key (es_files s') = Some ''KEY'' \<and> mf_cert (es_files s') = Some ''OLDCERT''"
proof -
  have "starts_with demo_fp ''3fa9c0d1e2b4a6f8''" by code_simp
  then show ?thesis
    by (simp add: enroll_def demo_parse demo_enrol_env_def demo_enrol_start_def Let_def
        request_certificate_def check_answer_def dict_get_def str_of_def file_steps_def did_def
        waiting_guard_def other_site_rows_def spool_db_empty_def)
qed

end
