(* ===== verification/Mes_Forward.thy ===== *)
theory Mes_Forward
  imports Mes_Enrol "HOL-Library.Sublist"
begin

text \<open>
  The forwarder, the second half of \<open>agent_mes_forward.py\<close>: loading the enrolment,
  asking the service what it takes, cutting batches from the spool, acting on the
  receipts, backing off, stopping on a refused certificate and looking for a service
  that moved. One call of \<open>step\<close> is \<open>forwarder_step\<close>; what the network, the clock and
  the disk do during it is its environment.
\<close>

section \<open>State\<close>

datatype link_state = LinkOk | LinkOffline | LinkNotEnrolled | LinkCertExpired | LinkRejected

record service_limits =
  sl_events :: int
  sl_batch_bytes :: int
  sl_event_bytes :: int

definition default_limits :: service_limits where
  "default_limits = \<lparr>sl_events = 200, sl_batch_bytes = 262144, sl_event_bytes = 16384\<rparr>"

definition look_after_fails :: nat where "look_after_fails = 3"
definition caps_every_s :: seconds where "caps_every_s = 3600"
definition idle_poll_s :: seconds where "idle_poll_s = 2"
definition recheck_s :: seconds where "recheck_s = 60"
definition backoff_min_s :: seconds where "backoff_min_s = 1"
definition backoff_max_s :: seconds where "backoff_max_s = 300"

lemmas forward_consts = look_after_fails_def caps_every_s_def idle_poll_s_def recheck_s_def
  backoff_min_s_def backoff_max_s_def

definition receipt_names :: "string list" where
  "receipt_names = [''stored'', ''duplicate'', ''quarantined'', ''rejected'']"

type_synonym stamp = "int \<times> int \<times> int"

record forwarder =
  fw_machine_id :: string
  fw_configured :: string
  fw_url :: string
  fw_finder :: bool
  fw_fails :: nat
  fw_site :: "string option"
  fw_ca :: "string option"
  fw_transport :: bool
  fw_types :: "string list option"
  fw_limits :: service_limits
  fw_batch_cap :: int
  fw_caps_at :: "seconds option"
  fw_backoff :: seconds
  fw_cert_stamp :: "stamp option"
  fw_state :: link_state
  fw_last_ok :: "ms option"
  fw_sent :: "string \<Rightarrow> nat"

definition forwarder_init :: "string \<Rightarrow> string \<Rightarrow> bool \<Rightarrow> forwarder" where
  "forwarder_init service_url machine_id finder =
     \<lparr>fw_machine_id = machine_id, fw_configured = norm_url service_url,
      fw_url = norm_url service_url, fw_finder = finder, fw_fails = 0, fw_site = None,
      fw_ca = None, fw_transport = False, fw_types = None, fw_limits = default_limits,
      fw_batch_cap = sl_events default_limits, fw_caps_at = None, fw_backoff = 0,
      fw_cert_stamp = None, fw_state = LinkNotEnrolled, fw_last_ok = None,
      fw_sent = (\<lambda>st. 0)\<rparr>"

section \<open>The environment of one step\<close>

text \<open>
  How one request ends: a TLS error (whether it is about the service's certificate,
  and its text), another \<open>OSError\<close>, an HTTP error, or an answer: its status and the
  JSON value of its body, if it is one.
\<close>

datatype call_outcome =
    TlsError bool string
  | NetError
  | HttpError
  | Answered int "pyval option"

record forward_env =
  fe_clock :: seconds
  fe_wall :: seconds
  fe_rand :: rat
  fe_stamp :: "stamp option"
  fe_split_url :: "string \<Rightarrow> (string \<times> int) option"
  fe_ca_sha256 :: "string \<Rightarrow> string option"
  fe_transport :: "string \<Rightarrow> bool"
  fe_site_stored :: bool
  fe_caps :: call_outcome
  fe_post :: "(int \<times> string) list \<Rightarrow> call_outcome"
  fe_ack_ok :: bool
  fe_find :: "string \<Rightarrow> string \<Rightarrow> (string \<times> int \<times> string) list option"
  fe_probe :: "string \<Rightarrow> int option"
  fe_save_ok :: bool

text \<open>Seconds to whole milliseconds: \<open>int(t * 1000)\<close> of a time after 1970.\<close>

definition to_ms :: "seconds \<Rightarrow> ms" where
  "to_ms t = \<lfloor>t * 1000\<rfloor>"

section \<open>Link states\<close>

definition link_ok :: "forward_env \<Rightarrow> forwarder \<Rightarrow> forwarder" where
  "link_ok env f = f\<lparr>fw_last_ok := Some (to_ms (fe_wall env)), fw_backoff := 0, fw_state := LinkOk\<rparr>"

definition link_offline :: "forwarder \<Rightarrow> forwarder" where
  "link_offline f =
     f\<lparr>fw_backoff := (if fw_backoff f \<le> 0 then backoff_min_s else min (fw_backoff f * 2) backoff_max_s),
       fw_state := LinkOffline\<rparr>"

definition link_refused :: "link_state \<Rightarrow> forwarder \<Rightarrow> forwarder" where
  "link_refused state f = f\<lparr>fw_transport := False, fw_state := state\<rparr>"

definition wait_s :: "forward_env \<Rightarrow> forwarder \<Rightarrow> seconds" where
  "wait_s env f = fw_backoff f * (1 / 2 + 1 / 2 * fe_rand env)"

text \<open>\<open>_cert_problem\<close> on the reason and text of a TLS error.\<close>

definition cert_problem :: "bool \<Rightarrow> string \<Rightarrow> link_state option" where
  "cert_problem service_cert text =
     (if service_cert then None
      else if occurs_in ''EXPIRED'' (py_upper text) then Some LinkCertExpired
      else if list_ex (\<lambda>a. occurs_in a (py_upper text))
          [''BAD_CERTIFICATE'', ''UNKNOWN_CA'', ''CERTIFICATE_REVOKED'', ''CERTIFICATE_UNKNOWN'',
           ''ACCESS_DENIED'', ''CERTIFICATE_REQUIRED'']
      then Some LinkRejected else None)"

text \<open>\<open>_call\<close>: status and body, or nothing after a failure with the state set.\<close>

definition link_call :: "call_outcome \<Rightarrow> forwarder \<Rightarrow> (int \<times> pyval option) option \<times> forwarder" where
  "link_call outcome f =
     (case outcome of
        TlsError service_cert text \<Rightarrow>
          (case cert_problem service_cert text of
             Some problem \<Rightarrow> (None, link_refused problem f)
           | None \<Rightarrow> (None, link_offline (f\<lparr>fw_fails := fw_fails f + 1\<rparr>)))
      | NetError \<Rightarrow> (None, link_offline (f\<lparr>fw_fails := fw_fails f + 1\<rparr>))
      | HttpError \<Rightarrow> (None, link_offline f)
      | Answered status body \<Rightarrow>
          if status = 401 \<or> status = 403 then (None, link_refused LinkRejected (f\<lparr>fw_fails := 0\<rparr>))
          else (Some (status, body), f\<lparr>fw_fails := 0\<rparr>))"

section \<open>Loading the enrolment\<close>

definition int_of :: "pyval \<Rightarrow> int option" where
  "int_of v = (case v of PInt n \<Rightarrow> Some n | _ \<Rightarrow> None)"

definition not_enrolled :: "forwarder \<Rightarrow> bool \<times> forwarder" where
  "not_enrolled f = (False, f\<lparr>fw_state := LinkNotEnrolled\<rparr>)"

text \<open>The rest of \<open>_load\<close>: the site id for the spool, then the connection.\<close>

definition forwarder_connect ::
  "forward_env \<Rightarrow> enrolment \<Rightarrow> forwarder \<Rightarrow> spool_db \<Rightarrow> (bool \<times> forwarder) \<times> spool_db" where
  "forwarder_connect env doc f db =
     (let db1 = (if uuid4_match (en_site_id doc) \<and> fe_site_stored env
                 then set_site_id (en_site_id doc) db else db)
      in if \<not> fe_transport env (fw_url f) then (not_enrolled f, db1)
         else ((True, f\<lparr>fw_transport := True, fw_types := None, fw_caps_at := None\<rparr>), db1))"

definition forwarder_load ::
  "forward_env \<Rightarrow> mes_files \<Rightarrow> forwarder \<Rightarrow> spool_db \<Rightarrow> (bool \<times> forwarder) \<times> spool_db" where
  "forwarder_load env files f0 db =
     (let f = f0\<lparr>fw_transport := False\<rparr>
      in if fw_configured f = '''' then (not_enrolled f, db)
         else case load_enrolment files of
             None \<Rightarrow> (not_enrolled f, db)
           | Some doc \<Rightarrow>
               if en_machine_id doc \<noteq> fw_machine_id f then (not_enrolled f, db)
               else
                 (let url = or_else (load_found (fe_split_url env) files (fw_configured f)) (fw_configured f);
                      f1 = f\<lparr>fw_url := url, fw_site := Some (en_site_id doc),
                             fw_ca := (case mf_ca files of None \<Rightarrow> None | Some pem \<Rightarrow> fe_ca_sha256 env pem),
                             fw_cert_stamp := fe_stamp env\<rparr>
                  in case int_of (en_not_after doc) of
                       Some na \<Rightarrow>
                         if of_int na \<le> fe_wall env * 1000
                         then ((False, f1\<lparr>fw_state := LinkCertExpired\<rparr>), db)
                         else forwarder_connect env doc f1 db
                     | None \<Rightarrow> forwarder_connect env doc f1 db))"

section \<open>Capabilities\<close>

text \<open>\<open>d[k]\<close>; a \<open>KeyError\<close> or \<open>TypeError\<close> is \<open>None\<close>.\<close>

definition item :: "string \<Rightarrow> pyval \<Rightarrow> pyval option" where
  "item k v = (case v of PDict d \<Rightarrow> map_of d k | _ \<Rightarrow> None)"

fun texts_of :: "pyval list \<Rightarrow> string list option" where
  "texts_of [] = Some []"
| "texts_of (v # vs) =
     (case (str_of v, texts_of vs) of (Some s, Some ss) \<Rightarrow> Some (s # ss) | _ \<Rightarrow> None)"

definition event_types_of :: "pyval \<Rightarrow> string list option" where
  "event_types_of doc =
     (case Option.bind (Option.bind (item ''contracts'' doc) (item ''fw.mes.event/1'')) (item ''event_types'') of
        Some (PList vs) \<Rightarrow> texts_of vs
      | _ \<Rightarrow> None)"

definition limit_of :: "pydict \<Rightarrow> string \<Rightarrow> int \<Rightarrow> int" where
  "limit_of limits k dflt =
     (case dict_get limits k of PInt n \<Rightarrow> if 0 < n then n else dflt | _ \<Rightarrow> dflt)"

definition set_limits :: "pydict \<Rightarrow> service_limits \<Rightarrow> service_limits" where
  "set_limits d l =
     \<lparr>sl_events = limit_of d ''max_batch_events'' (sl_events l),
      sl_batch_bytes = limit_of d ''max_batch_bytes'' (sl_batch_bytes l),
      sl_event_bytes = limit_of d ''max_event_bytes'' (sl_event_bytes l)\<rparr>"

definition accept_caps :: "forward_env \<Rightarrow> pydict \<Rightarrow> string list \<Rightarrow> forwarder \<Rightarrow> forwarder" where
  "accept_caps env limits types f =
     (let l = set_limits limits (fw_limits f);
          cap = min (fw_batch_cap f) (sl_events l)
      in link_ok env
           (f\<lparr>fw_limits := l, fw_batch_cap := (if cap = 0 then 1 else cap),
              fw_types := Some types, fw_caps_at := Some (fe_clock env)\<rparr>))"

text \<open>
  \<open>_capabilities\<close>. \<open>None\<close> is an exception that leaves it: \<open>limits\<close> is read outside the
  \<open>try\<close>, so one that is neither empty nor an object raises \<open>AttributeError\<close>.
\<close>

definition capabilities :: "forward_env \<Rightarrow> forwarder \<Rightarrow> bool option \<times> forwarder" where
  "capabilities env f0 =
     (case link_call (fe_caps env) f0 of
        (None, f) \<Rightarrow> (Some False, f)
      | (Some (status, body), f) \<Rightarrow>
          if status \<noteq> 200 then (Some False, link_offline f)
          else
            (case (body, Option.bind body event_types_of) of
               (Some doc, Some types) \<Rightarrow>
                 (let raw = val_get doc ''limits'';
                      limits = (if truthy raw then raw else PDict [])
                  in case limits of
                       PDict d \<Rightarrow> (Some True, accept_caps env d types f)
                     | _ \<Rightarrow> (None, f))
             | _ \<Rightarrow> (Some False, link_offline f)))"

section \<open>One batch\<close>

definition envelope_bytes :: int where "envelope_bytes = 13"

text \<open>The loop over the rows: \<open>used\<close> counts the body so far, \<open>first\<close> is \<open>not out\<close>.\<close>

fun take_batch :: "service_limits \<Rightarrow> int \<Rightarrow> bool \<Rightarrow> (int \<times> string) list \<Rightarrow> (int \<times> string) list" where
  "take_batch l used first [] = []"
| "take_batch l used first ((seq, body) # rows) =
     (let n = int (length body)
      in if n > sl_event_bytes l \<or> n + envelope_bytes > sl_batch_bytes l
         then take_batch l used first rows
         else
           (let extra = n + (if first then 0 else 1)
            in if used + extra > sl_batch_bytes l then []
               else (seq, body) # take_batch l (used + extra) False rows))"

definition forward_batch :: "forwarder \<Rightarrow> spool_db \<Rightarrow> (int \<times> string) list" where
  "forward_batch f db =
     take_batch (fw_limits f) envelope_bytes True
       (pending_rows (nat (min (fw_batch_cap f) (sl_events (fw_limits f)))) (fw_types f) db)"

text \<open>The bytes posted: \<open>{"events":[\<close>, the bodies with commas, \<open>]}\<close>.\<close>

definition batch_payload :: "(int \<times> string) list \<Rightarrow> string" where
  "batch_payload batch = ''{'' @ [CHR 0x22] @ ''events'' @ [CHR 0x22] @ '':['' @
     join_with '','' (map snd batch) @ '']}''"

section \<open>Receipts\<close>

text \<open>
  One receipt against one row: the status it settles the row with. \<open>decode\<close> is the
  contract's \<open>decode\<close> (the event, or nothing).
\<close>

definition match_receipt ::
  "(string \<Rightarrow> pydict option) \<Rightarrow> int \<times> string \<Rightarrow> pyval \<Rightarrow> string option" where
  "match_receipt decode row rc =
     (case rc of
        PDict d \<Rightarrow>
          (case dict_get d ''status'' of
             PStr st \<Rightarrow>
               if st \<in> set receipt_names
               then
                 (case decode (snd row) of
                    Some event \<Rightarrow>
                      if event \<noteq> [] \<and> py_eq (dict_get d ''event_id'') (dict_get event ''event_id'')
                      then Some st else None
                  | None \<Rightarrow> None)
               else None
           | _ \<Rightarrow> None)
      | _ \<Rightarrow> None)"

definition settled ::
  "(string \<Rightarrow> pydict option) \<Rightarrow> (int \<times> string) list \<Rightarrow> pyval list \<Rightarrow> (int \<times> string) list" where
  "settled decode batch rcs =
     List.map_filter (\<lambda>(row, rc). map_option (\<lambda>st. (fst row, st)) (match_receipt decode row rc))
       (zip batch rcs)"

definition count_sent :: "(int \<times> string) list \<Rightarrow> forwarder \<Rightarrow> forwarder" where
  "count_sent rows f =
     f\<lparr>fw_sent := (\<lambda>st. fw_sent f st + length (filter (\<lambda>x. snd x = st) rows))\<rparr>"

definition receipts_of :: "pyval option \<Rightarrow> pyval list option" where
  "receipts_of body =
     (case Option.bind body (item ''receipts'') of Some (PList rcs) \<Rightarrow> Some rcs | _ \<Rightarrow> None)"

text \<open>\<open>_receipts\<close>: rows acknowledged; \<open>None\<close> when marking them raised.\<close>

definition take_receipts ::
  "(string \<Rightarrow> pydict option) \<Rightarrow> forward_env \<Rightarrow> (int \<times> string) list \<Rightarrow> pyval option \<Rightarrow> forwarder \<Rightarrow>
   spool_db \<Rightarrow> nat option \<times> forwarder \<times> spool_db" where
  "take_receipts decode env batch body f db =
     (case receipts_of body of
        None \<Rightarrow> (Some 0, link_offline f, db)
      | Some rcs \<Rightarrow>
          (let rows = settled decode batch rcs; acked = map fst rows; f1 = count_sent rows f
           in if acked \<noteq> [] \<and> \<not> fe_ack_ok env then (None, f1, db)
              else
                (let db1 = (if acked = [] then db else mark_acked (to_ms (fe_wall env)) acked db);
                     f2 = link_ok env f1;
                     limit = sl_events (fw_limits f2)
                 in (Some (length acked),
                     (if fw_batch_cap f2 < limit then f2\<lparr>fw_batch_cap := min limit (fw_batch_cap f2 * 2)\<rparr>
                      else f2), db1))))"

definition send_once ::
  "(string \<Rightarrow> pydict option) \<Rightarrow> forward_env \<Rightarrow> forwarder \<Rightarrow> spool_db \<Rightarrow>
   nat option \<times> forwarder \<times> spool_db" where
  "send_once decode env f0 db =
     (let batch = forward_batch f0 db
      in if batch = [] then (Some 0, f0, db)
         else case link_call (fe_post env batch) f0 of
             (None, f) \<Rightarrow> (Some 0, f, db)
           | (Some (status, body), f) \<Rightarrow>
               if status = 200 then take_receipts decode env batch body f db
               else
                 (let halved = f\<lparr>fw_batch_cap := max 1 (int (length batch) div 2)\<rparr>
                  in if status = 413 then (Some 0, halved, db)
                     else if status = 400 then (Some 0, halved\<lparr>fw_backoff := backoff_max_s\<rparr>, db)
                     else (Some 0, link_offline f, db)))"

section \<open>Looking for the service\<close>

definition service_url :: "string \<Rightarrow> int \<Rightarrow> string" where
  "service_url ip port = ''https://'' @ ip @ '':'' @ decimal (nat port)"

text \<open>The first announced address that is another one and answers 200.\<close>

fun first_good ::
  "forward_env \<Rightarrow> string \<Rightarrow> (string \<times> int \<times> string) list \<Rightarrow> (string \<times> string) option" where
  "first_good env current [] = None"
| "first_good env current ((ip, port, via) # rest) =
     (let url = service_url ip port
      in if url = current \<or> fe_probe env url \<noteq> Some 200 then first_good env current rest
         else Some (url, via))"

definition look ::
  "forward_env \<Rightarrow> forwarder \<Rightarrow> mes_files \<Rightarrow> bool \<times> forwarder \<times> mes_files" where
  "look env f files =
     (case (non_empty (fw_site f), non_empty (fw_ca f)) of
        (Some site, Some ca) \<Rightarrow>
          if \<not> fw_finder f \<or> fw_fails f < look_after_fails then (False, f, files)
          else
            (case Option.bind (fe_find env site ca) (first_good env (fw_url f)) of
               None \<Rightarrow> (False, f, files)
             | Some (url, via) \<Rightarrow>
                 (True,
                  f\<lparr>fw_url := url, fw_transport := True, fw_fails := 0, fw_backoff := 0,
                    fw_types := None, fw_caps_at := None\<rparr>,
                  if \<not> fe_save_ok env then files
                  else if url = fw_configured f then forget_found files
                  else save_found url via (fw_configured f) (to_ms (fe_wall env)) files))
      | _ \<Rightarrow> (False, f, files))"

section \<open>One round\<close>

type_synonym forward_state = "forwarder \<times> spool_db \<times> mes_files"

text \<open>After a failure: look for the service, or wait.\<close>

definition look_or_wait :: "forward_env \<Rightarrow> forward_state \<Rightarrow> seconds option \<times> forward_state" where
  "look_or_wait env s =
     (case s of (f, db, files) \<Rightarrow>
        (case look env f files of
           (found, f1, files1) \<Rightarrow> (Some (if found then 0 else wait_s env f1), f1, db, files1)))"

definition step_send ::
  "(string \<Rightarrow> pydict option) \<Rightarrow> forward_env \<Rightarrow> forward_state \<Rightarrow> seconds option \<times> forward_state" where
  "step_send decode env s =
     (case s of (f, db, files) \<Rightarrow>
        (case send_once decode env f db of
           (None, f1, db1) \<Rightarrow> (None, f1, db1, files)
         | (Some n, f1, db1) \<Rightarrow>
             if \<not> fw_transport f1 then (Some recheck_s, f1, db1, files)
             else if fw_state f1 = LinkOffline \<or> fw_backoff f1 > 0 then look_or_wait env (f1, db1, files)
             else (Some (if 0 < n then 0 else idle_poll_s), f1, db1, files)))"

definition caps_due :: "forward_env \<Rightarrow> forwarder \<Rightarrow> bool" where
  "caps_due env f \<longleftrightarrow>
     fw_types f = None \<or> fe_clock env - or_else (fw_caps_at f) 0 \<ge> caps_every_s"

definition step_caps ::
  "(string \<Rightarrow> pydict option) \<Rightarrow> forward_env \<Rightarrow> forward_state \<Rightarrow> seconds option \<times> forward_state" where
  "step_caps decode env s =
     (case s of (f, db, files) \<Rightarrow>
        if caps_due env f then
          (case capabilities env f of
             (None, f1) \<Rightarrow> (None, f1, db, files)
           | (Some True, f1) \<Rightarrow> step_send decode env (f1, db, files)
           | (Some False, f1) \<Rightarrow>
               if \<not> fw_transport f1 then (Some recheck_s, f1, db, files)
               else look_or_wait env (f1, db, files))
        else step_send decode env s)"

text \<open>\<open>step\<close>: how long to wait before the next; \<open>None\<close> is an exception, which \<open>run\<close> logs.\<close>

definition forwarder_step ::
  "(string \<Rightarrow> pydict option) \<Rightarrow> forward_env \<Rightarrow> forward_state \<Rightarrow> seconds option \<times> forward_state" where
  "forwarder_step decode env s =
     (case s of (f, db, files) \<Rightarrow>
        if fw_transport f then step_caps decode env s
        else if fw_state f \<in> {LinkRejected, LinkCertExpired} \<and> fe_stamp env = fw_cert_stamp f
        then (Some recheck_s, s)
        else
          (case forwarder_load env files f db of
             ((loaded, f1), db1) \<Rightarrow>
               if loaded then step_caps decode env (f1, db1, files)
               else (Some recheck_s, f1, db1, files)))"

text \<open>One turn of \<open>run\<close>: an exception waits as long as a missing enrolment.\<close>

definition forwarder_run ::
  "(string \<Rightarrow> pydict option) \<Rightarrow> forward_state \<Rightarrow> forward_env list \<Rightarrow> forward_state" where
  "forwarder_run decode s envs = foldl (\<lambda>s env. snd (forwarder_step decode env s)) s envs"

definition run_wait :: "seconds option \<Rightarrow> seconds" where
  "run_wait w = or_else w recheck_s"

section \<open>Batches\<close>

lemma sorted_wrt_subseq: "subseq xs ys \<Longrightarrow> sorted_wrt P ys \<Longrightarrow> sorted_wrt P xs"
proof (induction rule: list_emb.induct)
  case (list_emb_Cons2 x y xs ys)
  then show ?case by (auto elim: list_emb_set)
qed simp_all

lemma length_join_with:
  "length (join_with '','' ps) = sum_list (map length ps) + (length ps - 1)"
  by (induction "'',''" ps rule: join_with.induct) auto

lemma take_batch_subseq: "subseq (take_batch l used fresh rows) rows"
  by (induction l used fresh rows rule: take_batch.induct) (auto simp: Let_def)

lemma set_take_batch: "set (take_batch l used fresh rows) \<subseteq> set rows"
proof
  fix x
  assume "x \<in> set (take_batch l used fresh rows)"
  with take_batch_subseq show "x \<in> set rows" by (rule list_emb_set) simp
qed

lemma take_batch_event_bytes:
  "x \<in> set (take_batch l used fresh rows) \<Longrightarrow> int (length (snd x)) \<le> sl_event_bytes l"
  by (induction l used fresh rows rule: take_batch.induct) (auto simp: Let_def split: if_splits)

lemma take_batch_bytes:
  "used + int (sum_list (map (length \<circ> snd) (take_batch l used fresh rows))) +
     (int (length (take_batch l used fresh rows)) -
      (if fresh \<and> take_batch l used fresh rows \<noteq> [] then 1 else 0))
   \<le> max used (sl_batch_bytes l)"
proof (induction l used fresh rows rule: take_batch.induct)
  case (2 l used fresh seq body rows)
  let ?n = "int (length body)"
  let ?extra = "?n + (if fresh then 0 else 1)"
  show ?case
  proof (cases "?n > sl_event_bytes l \<or> ?n + envelope_bytes > sl_batch_bytes l")
    case True
    with 2(1) show ?thesis by (simp add: Let_def)
  next
    case False
    show ?thesis
    proof (cases "used + ?extra > sl_batch_bytes l")
      case True
      with False show ?thesis by (auto simp: Let_def)
    next
      case fits: False
      with 2(2) [OF refl False refl fits] False show ?thesis by (auto simp: Let_def)
    qed
  qed
qed simp

lemma take_batch_fits_alone:
  "x \<in> set (take_batch l used fresh rows) \<Longrightarrow> int (length (snd x)) + envelope_bytes \<le> sl_batch_bytes l"
  by (induction l used fresh rows rule: take_batch.induct) (auto simp: Let_def split: if_splits)

definition accepted_type :: "string list option \<Rightarrow> spool_row \<Rightarrow> bool" where
  "accepted_type types r \<longleftrightarrow> (case types of None \<Rightarrow> True | Some ts \<Rightarrow> sr_type r \<in> set ts)"

lemma pending_rows_eq:
  "pending_rows limit types db =
     take limit (map (\<lambda>r. (sr_seq r, sr_body r)) (filter (\<lambda>r. is_pending r \<and> accepted_type types r) (sd_rows db)))"
  by (auto simp: pending_rows_def accepted_type_def split: option.split list.split)

lemma forward_batch_row:
  assumes "(seq, body) \<in> set (forward_batch f db)"
  obtains r where "r \<in> set (sd_rows db)" "is_pending r" "accepted_type (fw_types f) r"
    "sr_seq r = seq" "sr_body r = body"
proof -
  have "(seq, body) \<in> set (pending_rows (nat (min (fw_batch_cap f) (sl_events (fw_limits f)))) (fw_types f) db)"
    using assms set_take_batch unfolding forward_batch_def by blast
  then show thesis using that by (auto simp: pending_rows_eq dest!: in_set_takeD)
qed

section \<open>Invariant\<close>

definition forwarder_ok :: "forwarder \<Rightarrow> bool" where
  "forwarder_ok f \<longleftrightarrow>
     0 < sl_events (fw_limits f) \<and> 0 < sl_batch_bytes (fw_limits f) \<and> 0 < sl_event_bytes (fw_limits f) \<and>
     1 \<le> fw_batch_cap f \<and> fw_batch_cap f \<le> sl_events (fw_limits f) \<and>
     (fw_backoff f = 0 \<or> (backoff_min_s \<le> fw_backoff f \<and> fw_backoff f \<le> backoff_max_s)) \<and>
     (\<not> fw_transport f \<longrightarrow> fw_state f \<in> {LinkNotEnrolled, LinkCertExpired, LinkRejected})"

lemma link_offline_ok: "forwarder_ok f \<Longrightarrow> fw_transport f \<Longrightarrow> forwarder_ok (link_offline f)"
  by (auto simp: forwarder_ok_def link_offline_def forward_consts)

lemma link_ok_ok: "forwarder_ok f \<Longrightarrow> fw_transport f \<Longrightarrow> forwarder_ok (link_ok env f)"
  by (auto simp: forwarder_ok_def link_ok_def)

lemma forwarder_ok_fails [simp]: "forwarder_ok (f\<lparr>fw_fails := n\<rparr>) = forwarder_ok f"
  by (simp add: forwarder_ok_def)

lemma cert_problem_refused: "cert_problem sc text = Some st \<Longrightarrow> st \<in> {LinkCertExpired, LinkRejected}"
  by (auto simp: cert_problem_def split: if_splits)

lemma link_refused_ok:
  "forwarder_ok f \<Longrightarrow> st \<in> {LinkCertExpired, LinkRejected} \<Longrightarrow> forwarder_ok (link_refused st f)"
  by (auto simp: forwarder_ok_def link_refused_def)

lemma link_call_ok:
  assumes "link_call outcome f = (r, f')" "forwarder_ok f" "fw_transport f"
  shows "forwarder_ok f' \<and> (r \<noteq> None \<longrightarrow> fw_transport f') \<and> fw_limits f' = fw_limits f \<and>
    fw_batch_cap f' = fw_batch_cap f"
proof -
  have ok: "forwarder_ok (link_offline (f\<lparr>fw_fails := n\<rparr>))" for n
    using assms by (intro link_offline_ok) simp_all
  show ?thesis
  proof (cases outcome)
    case (TlsError sc msg)
    with assms ok link_refused_ok [OF assms(2) cert_problem_refused] show ?thesis
      by (auto simp: link_call_def link_offline_def link_refused_def split: option.splits)
  next
    case NetError
    with assms ok show ?thesis by (auto simp: link_call_def link_offline_def)
  next
    case HttpError
    with assms link_offline_ok [OF assms(2,3)] show ?thesis by (auto simp: link_call_def link_offline_def)
  next
    case (Answered status body)
    with assms link_refused_ok [of "f\<lparr>fw_fails := 0\<rparr>" LinkRejected] show ?thesis
      by (auto simp: link_call_def link_refused_def split: if_splits)
  qed
qed

lemma set_limits_pos:
  "0 < sl_events l \<Longrightarrow> 0 < sl_events (set_limits d l)"
  "0 < sl_batch_bytes l \<Longrightarrow> 0 < sl_batch_bytes (set_limits d l)"
  "0 < sl_event_bytes l \<Longrightarrow> 0 < sl_event_bytes (set_limits d l)"
  by (auto simp: set_limits_def limit_of_def split: pyval.split)

lemma accept_caps_ok:
  assumes "forwarder_ok f" "fw_transport f"
  shows "forwarder_ok (accept_caps env d types f) \<and> fw_transport (accept_caps env d types f)"
proof -
  note pos = set_limits_pos [of "fw_limits f" d]
  show ?thesis
    unfolding accept_caps_def Let_def
  proof
    show "forwarder_ok (link_ok env (f\<lparr>fw_limits := set_limits d (fw_limits f),
        fw_batch_cap := (if min (fw_batch_cap f) (sl_events (set_limits d (fw_limits f))) = 0 then 1
          else min (fw_batch_cap f) (sl_events (set_limits d (fw_limits f)))),
        fw_types := Some types, fw_caps_at := Some (fe_clock env)\<rparr>))"
      using assms pos by (intro link_ok_ok) (auto simp: forwarder_ok_def)
  qed (use assms in \<open>simp add: link_ok_def\<close>)
qed

lemma capabilities_ok:
  assumes "capabilities env f = (r, f')" "forwarder_ok f" "fw_transport f"
  shows "forwarder_ok f' \<and> (r = Some True \<longrightarrow> fw_transport f')"
proof -
  obtain c g where call: "link_call (fe_caps env) f = (c, g)" by (cases "link_call (fe_caps env) f")
  note g = link_call_ok [OF call assms(2,3)]
  show ?thesis
  proof (cases c)
    case None
    with assms(1) call g show ?thesis by (auto simp: capabilities_def)
  next
    case (Some sb)
    obtain status body where sb: "sb = (status, body)" by (cases sb)
    have t: "fw_transport g" using g Some by simp
    have new: "forwarder_ok (accept_caps env d types g) \<and> fw_transport (accept_caps env d types g)" for d types
      using accept_caps_ok g t by blast
    show ?thesis
      using assms(1) call Some sb g t new link_offline_ok [of g]
      by (auto simp: capabilities_def Let_def
          split: if_splits option.splits pyval.splits)
  qed
qed

lemma length_forward_batch: "forwarder_ok f \<Longrightarrow> int (length (forward_batch f db)) \<le> fw_batch_cap f"
proof -
  assume ok: "forwarder_ok f"
  let ?rows = "pending_rows (nat (min (fw_batch_cap f) (sl_events (fw_limits f)))) (fw_types f) db"
  have "length (forward_batch f db) \<le> length ?rows"
    unfolding forward_batch_def by (rule list_emb_length) (rule take_batch_subseq)
  also have "\<dots> \<le> nat (fw_batch_cap f)"
    using ok by (simp add: pending_rows_eq forwarder_ok_def min_def)
  finally show ?thesis using ok by (simp add: forwarder_ok_def le_nat_iff)
qed

lemma send_once_ok:
  assumes "send_once decode env f db = (n, f', db')" "forwarder_ok f" "fw_transport f"
  shows "forwarder_ok f'"
proof (cases "forward_batch f db = []")
  case True
  with assms show ?thesis by (simp add: send_once_def)
next
  case False
  let ?b = "forward_batch f db"
  obtain c g where call: "link_call (fe_post env ?b) f = (c, g)" by (cases "link_call (fe_post env ?b) f")
  note g = link_call_ok [OF call assms(2,3)]
  show ?thesis
  proof (cases c)
    case None
    with assms(1) call g False show ?thesis by (auto simp: send_once_def)
  next
    case (Some sb)
    obtain status body where sb: "sb = (status, body)" by (cases sb)
    have t: "fw_transport g" using g Some by simp
    have halved: "forwarder_ok (g\<lparr>fw_batch_cap := max 1 (int (length ?b) div 2)\<rparr>)"
      using g length_forward_batch [OF assms(2), of db] False
      by (auto simp: forwarder_ok_def)
    then have waited: "forwarder_ok (g\<lparr>fw_batch_cap := max 1 (int (length ?b) div 2), fw_backoff := backoff_max_s\<rparr>)"
      by (auto simp: forwarder_ok_def forward_consts)
    have counted: "forwarder_ok (count_sent rows g)" "fw_transport (count_sent rows g)" for rows
      using g t by (auto simp: forwarder_ok_def count_sent_def)
    have grown: "forwarder_ok (h\<lparr>fw_batch_cap := min (sl_events (fw_limits h)) (fw_batch_cap h * 2)\<rparr>)"
      if "forwarder_ok h" for h
      using that by (auto simp: forwarder_ok_def)
    show ?thesis
    proof (cases "status = 200")
      case True
      with assms(1) call Some sb False have "take_receipts decode env ?b body g db = (n, f', db')"
        by (simp add: send_once_def)
      then show ?thesis
        using link_offline_ok [of g] g t counted grown link_ok_ok [OF counted]
        by (auto simp: take_receipts_def Let_def split: option.splits if_splits)
    next
      case other: False
      with assms(1) call Some sb False show ?thesis
        using halved waited link_offline_ok [of g] g t
        by (auto simp: send_once_def Let_def split: if_splits)
    qed
  qed
qed

lemma look_ok: "look env f files = (found, f', files') \<Longrightarrow> forwarder_ok f \<Longrightarrow> forwarder_ok f'"
  by (auto simp: look_def forwarder_ok_def split: option.splits if_splits)

lemma forwarder_load_ok:
  assumes "forwarder_load env files f db = ((loaded, f'), db')" "forwarder_ok f" "\<not> fw_transport f"
  shows "forwarder_ok f' \<and> (loaded \<longrightarrow> fw_transport f')"
proof -
  have ne: "forwarder_ok (g\<lparr>fw_state := LinkNotEnrolled\<rparr>)" "forwarder_ok (g\<lparr>fw_state := LinkCertExpired\<rparr>)"
    "forwarder_ok (g\<lparr>fw_transport := True, fw_types := None, fw_caps_at := None\<rparr>)"
    if "forwarder_ok g" for g
    using that by (auto simp: forwarder_ok_def)
  have same: "forwarder_ok (f\<lparr>fw_transport := False\<rparr>)"
    "\<And>u s c t. forwarder_ok (f\<lparr>fw_transport := False, fw_url := u, fw_site := s, fw_ca := c, fw_cert_stamp := t\<rparr>)"
    using assms(2,3) by (auto simp: forwarder_ok_def)
  show ?thesis
    using assms(1) ne [OF same(1)] ne [OF same(2)]
    by (auto simp: forwarder_load_def forwarder_connect_def not_enrolled_def Let_def
        split: if_splits option.splits)
qed

definition wait_ok :: "seconds option \<Rightarrow> bool" where
  "wait_ok w \<longleftrightarrow> (case w of None \<Rightarrow> True | Some t \<Rightarrow> 0 \<le> t \<and> t \<le> backoff_max_s)"

lemma wait_consts [simp]: "wait_ok None" "wait_ok (Some 0)" "wait_ok (Some recheck_s)" "wait_ok (Some idle_poll_s)"
  by (simp_all add: wait_ok_def forward_consts)

lemma wait_s_ok:
  assumes "forwarder_ok f" "0 \<le> fe_rand env" "fe_rand env \<le> 1"
  shows "wait_ok (Some (wait_s env f))"
proof -
  have b: "0 \<le> fw_backoff f" "fw_backoff f \<le> backoff_max_s"
    using assms(1) by (auto simp: forwarder_ok_def forward_consts)
  have "fw_backoff f * (1 / 2 + 1 / 2 * fe_rand env) \<le> fw_backoff f * 1"
    using b(1) assms(3) by (intro mult_left_mono) simp_all
  with b assms(2) show ?thesis by (simp add: wait_ok_def wait_s_def)
qed

lemma look_or_wait_ok:
  assumes "look_or_wait env (f, db, files) = (w, f', db', files')" "forwarder_ok f"
    and "0 \<le> fe_rand env" "fe_rand env \<le> 1"
  shows "forwarder_ok f' \<and> wait_ok w \<and> db' = db"
proof -
  obtain found f1 files1 where l: "look env f files = (found, f1, files1)" by (cases "look env f files")
  show ?thesis
    using assms(1) l look_ok [OF l assms(2)] wait_s_ok [OF look_ok [OF l assms(2)] assms(3,4)]
    by (auto simp: look_or_wait_def split: if_splits)
qed

lemma step_send_ok:
  assumes "step_send decode env (f, db, files) = (w, f', db', files')" "forwarder_ok f" "fw_transport f"
    and "0 \<le> fe_rand env" "fe_rand env \<le> 1"
  shows "forwarder_ok f' \<and> wait_ok w"
proof -
  obtain n f1 db1 where s: "send_once decode env f db = (n, f1, db1)" by (cases "send_once decode env f db")
  note f1 = send_once_ok [OF s assms(2,3)]
  show ?thesis
    using assms(1) s f1 look_or_wait_ok [OF _ f1 assms(4,5)]
    by (auto simp: step_send_def split: option.splits if_splits)
qed

lemma step_caps_ok:
  assumes "step_caps decode env (f, db, files) = (w, f', db', files')" "forwarder_ok f" "fw_transport f"
    and "0 \<le> fe_rand env" "fe_rand env \<le> 1"
  shows "forwarder_ok f' \<and> wait_ok w"
proof -
  obtain r f1 where c: "capabilities env f = (r, f1)" by (cases "capabilities env f")
  note f1 = capabilities_ok [OF c assms(2,3)]
  show ?thesis
    using assms(1) c f1 look_or_wait_ok [OF _ _ assms(4,5)] step_send_ok [OF _ _ _ assms(4,5)] assms(2,3)
    by (auto simp: step_caps_def split: option.splits bool.splits if_splits)
qed

lemma forwarder_step_ok:
  assumes "forwarder_step decode env (f, db, files) = (w, f', db', files')" "forwarder_ok f"
    and "0 \<le> fe_rand env" "fe_rand env \<le> 1"
  shows "forwarder_ok f' \<and> wait_ok w"
proof (cases "fw_transport f")
  case True
  with assms step_caps_ok show ?thesis by (auto simp: forwarder_step_def)
next
  case False
  obtain loaded f1 db1 where l: "forwarder_load env files f db = ((loaded, f1), db1)"
    by (cases "forwarder_load env files f db") auto
  note f1 = forwarder_load_ok [OF l assms(2) False]
  show ?thesis
    using assms(1,2) l f1 False step_caps_ok [OF _ _ _ assms(3,4), of decode f1 db1 files]
    by (auto simp: forwarder_step_def split: if_splits)
qed

section \<open>What a round does to the spool\<close>

lemma sd_rows_site [simp]: "sd_rows (set_site_id site db) = sd_rows db"
  by (simp add: set_site_id_def)

lemma forwarder_load_rows:
  "forwarder_load env files f db = (r, db') \<Longrightarrow> sd_rows db' = sd_rows db"
  by (auto simp: forwarder_load_def forwarder_connect_def not_enrolled_def Let_def
      split: if_splits option.splits)

lemma send_once_rows:
  assumes "send_once decode env f db = (n, f', db')"
  shows "db' = db \<or>
    (\<exists>body rcs. fe_post env (forward_batch f db) = Answered 200 body \<and> receipts_of body = Some rcs \<and>
       db' = mark_acked (to_ms (fe_wall env)) (map fst (settled decode (forward_batch f db) rcs)) db)"
proof (cases "forward_batch f db = []")
  case True
  with assms show ?thesis by (simp add: send_once_def)
next
  case False
  let ?b = "forward_batch f db"
  have answered: "fe_post env ?b = Answered status body" if "link_call (fe_post env ?b) f = (Some (status, body), g)"
    for status body g
    using that by (cases "fe_post env ?b") (auto simp: link_call_def split: option.splits if_splits)
  obtain c g where call: "link_call (fe_post env ?b) f = (c, g)" by (cases "link_call (fe_post env ?b) f")
  show ?thesis
  proof (cases c)
    case None
    with assms False call show ?thesis by (simp add: send_once_def)
  next
    case (Some sb)
    obtain status body where sb: "c = Some (status, body)" using Some by (cases sb) auto
    with call have "fe_post env ?b = Answered status body" using answered by simp
    with assms False call sb show ?thesis
      by (auto simp: send_once_def take_receipts_def Let_def split: option.splits if_splits)
  qed
qed

lemma look_or_wait_db: "look_or_wait env (f, db, files) = (w, f', db', files') \<Longrightarrow> db' = db"
  by (auto simp: look_or_wait_def split: prod.splits)

text \<open>The rows after a round: unchanged, or settled by the receipts for one batch.\<close>

definition settles ::
  "(string \<Rightarrow> pydict option) \<Rightarrow> forward_env \<Rightarrow> spool_db \<Rightarrow> spool_db \<Rightarrow> bool" where
  "settles decode env db db' \<longleftrightarrow>
     (\<exists>f db0 body rcs. sd_rows db0 = sd_rows db \<and> fe_post env (forward_batch f db0) = Answered 200 body \<and>
        receipts_of body = Some rcs \<and>
        sd_rows db' = map (ack_row (to_ms (fe_wall env)) (map fst (settled decode (forward_batch f db0) rcs)))
          (sd_rows db))"

lemma step_send_rows:
  assumes "step_send decode env (f, db, files) = (w, f', db', files')"
  shows "db' = db \<or> settles decode env db db'"
proof -
  obtain n f1 db1 where s: "send_once decode env f db = (n, f1, db1)" by (cases "send_once decode env f db")
  have "db' = db1"
    using assms s look_or_wait_db by (auto simp: step_send_def split: option.splits if_splits)
  moreover have "settles decode env db db1"
    if "fe_post env (forward_batch f db) = Answered 200 body" "receipts_of body = Some rcs"
      "db1 = mark_acked (to_ms (fe_wall env)) (map fst (settled decode (forward_batch f db) rcs)) db" for body rcs
    unfolding settles_def using that
    by (intro exI [of _ f] exI [of _ db] exI [of _ body] exI [of _ rcs]) (simp add: mark_acked_def)
  ultimately show ?thesis using send_once_rows [OF s] by blast
qed

lemma step_caps_rows:
  assumes "step_caps decode env (f, db, files) = (w, f', db', files')"
  shows "db' = db \<or> settles decode env db db'"
  using assms step_send_rows look_or_wait_db
  by (fastforce simp: step_caps_def split: option.splits bool.splits if_splits prod.splits)

lemma forwarder_step_rows:
  assumes "forwarder_step decode env (f, db, files) = (w, f', db', files')"
  shows "sd_rows db' = sd_rows db \<or> settles decode env db db'"
proof (cases "fw_transport f")
  case True
  with assms have "step_caps decode env (f, db, files) = (w, f', db', files')"
    by (simp add: forwarder_step_def)
  from step_caps_rows [OF this] show ?thesis by auto
next
  case False
  obtain loaded f1 db1 where l: "forwarder_load env files f db = ((loaded, f1), db1)"
    by (cases "forwarder_load env files f db") auto
  have rows: "sd_rows db1 = sd_rows db" using forwarder_load_rows [OF l] .
  have "settles decode env db1 db' \<Longrightarrow> settles decode env db db'"
    using rows by (simp add: settles_def)
  with assms l rows False step_caps_rows [of decode env f1 db1 files w f' db' files'] show ?thesis
    by (auto simp: forwarder_step_def split: if_splits)
qed

lemma settled_receipt:
  assumes "seq \<in> set (map fst (settled decode batch rcs))"
  obtains body rc st where "((seq, body), rc) \<in> set (zip batch rcs)"
    "match_receipt decode (seq, body) rc = Some st"
proof -
  from assms obtain st where "(seq, st) \<in> set (settled decode batch rcs)" by auto
  then obtain row rc where "(row, rc) \<in> set (zip batch rcs)" "fst row = seq"
      "match_receipt decode row rc = Some st"
    by (auto simp: settled_def map_filter_def)
  then show thesis using that by (cases row) auto
qed

lemma rows_ok_seq_inj:
  "rows_ok db \<Longrightarrow> r \<in> set (sd_rows db) \<Longrightarrow> q \<in> set (sd_rows db) \<Longrightarrow> sr_seq r = sr_seq q \<Longrightarrow> r = q"
  unfolding rows_ok_def
  by (metis (no_types, lifting) distinct_map inj_onD strict_sorted_iff)

section \<open>Properties\<close>


text \<open>
  C39: what is posted respects the service's limits: at most so many events, each of
  an accepted type and within the event limit, oldest first, and a body of at most
  the byte limit.
\<close>

theorem batch_within_limits:
  assumes "forwarder_ok f" "rows_ok db" "forward_batch f db \<noteq> []"
  shows "int (length (forward_batch f db)) \<le> min (fw_batch_cap f) (sl_events (fw_limits f)) \<and>
    int (length (batch_payload (forward_batch f db))) \<le> sl_batch_bytes (fw_limits f) \<and>
    sorted_wrt (<) (map fst (forward_batch f db)) \<and>
    (\<forall>(seq, body)\<in>set (forward_batch f db). int (length body) \<le> sl_event_bytes (fw_limits f) \<and>
       (\<exists>r\<in>set (sd_rows db). is_pending r \<and> accepted_type (fw_types f) r \<and> sr_seq r = seq \<and> sr_body r = body))"
proof -
  let ?b = "forward_batch f db"
  have "int (length ?b) \<le> min (fw_batch_cap f) (sl_events (fw_limits f))"
    using length_forward_batch [OF assms(1), of db] assms(1) by (simp add: forwarder_ok_def)
  moreover have "int (length (batch_payload ?b)) \<le> sl_batch_bytes (fw_limits f)"
  proof -
    from assms(3) have hd: "hd ?b \<in> set ?b" by simp
    have "envelope_bytes \<le> sl_batch_bytes (fw_limits f)"
      using take_batch_fits_alone [OF hd [unfolded forward_batch_def]] by linarith
    then have "envelope_bytes + int (sum_list (map (length \<circ> snd) ?b)) + (int (length ?b) - 1)
        \<le> sl_batch_bytes (fw_limits f)"
      using take_batch_bytes [of envelope_bytes "fw_limits f" True
          "pending_rows (nat (min (fw_batch_cap f) (sl_events (fw_limits f)))) (fw_types f) db"] assms(3)
      by (simp add: forward_batch_def max_def)
    moreover have "int (length (batch_payload ?b)) =
        envelope_bytes + int (sum_list (map (length \<circ> snd) ?b)) + (int (length ?b) - 1)"
      using assms(3) by (simp add: batch_payload_def length_join_with envelope_bytes_def comp_def Suc_le_eq
          of_nat_diff)
    ultimately show ?thesis by simp
  qed
  moreover have "sorted_wrt (<) (map fst ?b)"
  proof -
    have "subseq (map fst ?b) (map sr_seq (sd_rows db))"
    proof -
      have "subseq ?b (pending_rows (nat (min (fw_batch_cap f) (sl_events (fw_limits f)))) (fw_types f) db)"
        unfolding forward_batch_def by (rule take_batch_subseq)
      then have "subseq (map fst ?b) (map fst (pending_rows (nat (min (fw_batch_cap f) (sl_events (fw_limits f)))) (fw_types f) db))"
        by (rule subseq_map)
      also have "subseq \<dots> (map sr_seq (filter (\<lambda>r. is_pending r \<and> accepted_type (fw_types f) r) (sd_rows db)))"
        by (simp add: pending_rows_eq take_map [symmetric] comp_def prefix_imp_subseq take_is_prefix)
      also have "subseq \<dots> (map sr_seq (sd_rows db))" by (intro subseq_map) simp
      finally show ?thesis .
    qed
    with assms(2) show ?thesis unfolding rows_ok_def by (blast intro: sorted_wrt_subseq)
  qed
  moreover have "int (length body) \<le> sl_event_bytes (fw_limits f) \<and>
      (\<exists>r\<in>set (sd_rows db). is_pending r \<and> accepted_type (fw_types f) r \<and> sr_seq r = seq \<and> sr_body r = body)"
    if m: "(seq, body) \<in> set ?b" for seq body
    using take_batch_event_bytes [OF m [unfolded forward_batch_def]] forward_batch_row [OF m]
    by (metis snd_conv)
  ultimately show ?thesis by blast
qed

text \<open>
  Whatever the network, the service and the disk do, the link is in a consistent
  state: limits and batch size stay positive and the size within the limit, the back-off
  is zero or between one second and five minutes, without a connection the state says
  why, and no wait is longer than five minutes.
\<close>

theorem forwarder_invariant:
  assumes "\<forall>env\<in>set (env1 # envs). 0 \<le> fe_rand env \<and> fe_rand env \<le> 1"
  shows "forwarder_ok (fst (forwarder_run decode (forwarder_init url machine_id finder, db, files) envs)) \<and>
    wait_ok (fst (forwarder_step decode env1
      (forwarder_run decode (forwarder_init url machine_id finder, db, files) envs)))"
proof -
  have "forwarder_ok (fst (forwarder_run decode s es))"
    if "forwarder_ok (fst s)" "\<forall>env\<in>set es. 0 \<le> fe_rand env \<and> fe_rand env \<le> 1" for s es
    using that
  proof (induction es arbitrary: s)
    case (Cons env es)
    obtain f db files where s: "s = (f, db, files)" by (cases s)
    obtain w f' db' files' where st: "forwarder_step decode env s = (w, f', db', files')"
      by (cases "forwarder_step decode env s")
    have "forwarder_ok f'"
      using forwarder_step_ok [OF st [unfolded s]] Cons.prems s by simp
    with Cons.IH [of "(f', db', files')"] Cons.prems st show ?case by (simp add: forwarder_run_def)
  qed (simp add: forwarder_run_def)
  moreover have "forwarder_ok (forwarder_init url machine_id finder)"
    by (simp add: forwarder_ok_def forwarder_init_def default_limits_def)
  ultimately have ok: "forwarder_ok (fst (forwarder_run decode (forwarder_init url machine_id finder, db, files) envs))"
    using assms by simp
  obtain f db1 files1 where run: "forwarder_run decode (forwarder_init url machine_id finder, db, files) envs =
      (f, db1, files1)"
    by (cases "forwarder_run decode (forwarder_init url machine_id finder, db, files) envs")
  obtain w f' db' files' where st: "forwarder_step decode env1 (f, db1, files1) = (w, f', db', files')"
    by (cases "forwarder_step decode env1 (f, db1, files1)")
  have "wait_ok w" using forwarder_step_ok [OF st] ok run assms by simp
  with ok run st show ?thesis by simp
qed

section \<open>Draining\<close>

text \<open>A service that answers every batch with a matching receipt for each event.\<close>

definition answers_all :: "(string \<Rightarrow> pydict option) \<Rightarrow> forward_env \<Rightarrow> bool" where
  "answers_all decode env \<longleftrightarrow> fe_ack_ok env \<and>
     (\<forall>batch. batch \<noteq> [] \<longrightarrow>
        (\<exists>body rcs. fe_post env batch = Answered 200 body \<and> receipts_of body = Some rcs \<and>
           length rcs = length batch \<and>
           (\<forall>i<length batch. match_receipt decode (batch ! i) (rcs ! i) \<noteq> None)))"

definition in_service :: "string list \<Rightarrow> service_limits \<Rightarrow> seconds \<Rightarrow> forwarder \<Rightarrow> bool" where
  "in_service types l t0 f \<longleftrightarrow>
     forwarder_ok f \<and> fw_transport f \<and> fw_types f = Some types \<and> fw_limits f = l \<and>
     fw_caps_at f = Some t0 \<and> fw_backoff f = 0 \<and> fw_state f \<noteq> LinkOffline"

definition acceptable :: "string list \<Rightarrow> service_limits \<Rightarrow> spool_db \<Rightarrow> bool" where
  "acceptable types l db \<longleftrightarrow>
     (\<forall>r\<in>set (sd_rows db). is_pending r \<longrightarrow> sr_type r \<in> set types \<and>
        int (length (sr_body r)) \<le> sl_event_bytes l \<and>
        int (length (sr_body r)) + envelope_bytes \<le> sl_batch_bytes l)"

lemma settled_all:
  assumes "length rcs = length batch" "\<forall>i<length batch. match_receipt decode (batch ! i) (rcs ! i) \<noteq> None"
  shows "map fst (settled decode batch rcs) = map fst batch"
  using assms
proof (induction batch arbitrary: rcs)
  case (Cons row batch)
  then obtain rc rcs' where rcs: "rcs = rc # rcs'" by (cases rcs) auto
  have "map fst (settled decode batch rcs') = map fst batch"
  proof (rule Cons.IH)
    show "\<forall>i<length batch. match_receipt decode (batch ! i) (rcs' ! i) \<noteq> None"
      using Cons.prems(2) rcs by (metis Suc_less_eq length_Cons nth_Cons_Suc)
  qed (use Cons.prems(1) rcs in simp)
  moreover from Cons.prems(2) rcs obtain st where "match_receipt decode row rc = Some st" by auto
  ultimately show ?case by (simp add: settled_def rcs map_filter_def)
qed (simp add: settled_def map_filter_def)

lemma accepted_waiting:
  assumes "acceptable types l db"
  shows "pending_rows limit (Some types) db = take limit (waiting_all db)"
proof -
  have "filter (\<lambda>r. is_pending r \<and> accepted_type (Some types) r) (sd_rows db) = filter is_pending (sd_rows db)"
    using assms by (intro filter_cong) (auto simp: acceptable_def accepted_type_def)
  then show ?thesis by (simp add: pending_rows_eq waiting_all_def)
qed

lemma take_batch_hd:
  assumes "rows \<noteq> []" "int (length (snd (hd rows))) \<le> sl_event_bytes l"
    and "int (length (snd (hd rows))) + envelope_bytes \<le> sl_batch_bytes l"
  shows "take_batch l envelope_bytes True rows \<noteq> [] \<and> hd (take_batch l envelope_bytes True rows) = hd rows"
proof -
  obtain seq body rest where "rows = (seq, body) # rest" using assms(1) by (cases rows) auto
  with assms(2,3) show ?thesis by (simp add: Let_def)
qed

text \<open>One round of a forwarder in service is a send round of the event queue.\<close>

lemma round_in_service:
  assumes s: "in_service types l t0 f" and acc: "acceptable types l db" and "answers_all decode env"
    and "fe_clock env - t0 < caps_every_s"
    and step: "forwarder_step decode env (f, db, files) = (w, f', db', files')"
  shows "in_service types l t0 f' \<and>
    db' = spq.send_round (to_ms (fe_wall env)) (nat (fw_batch_cap f))
      (\<lambda>rows. map fst (take_batch l envelope_bytes True rows)) db"
proof -
  let ?b = "forward_batch f db"
  let ?k = "nat (fw_batch_cap f)"
  have f: "forwarder_ok f" "fw_transport f" "fw_types f = Some types" "fw_limits f = l" "fw_caps_at f = Some t0"
      "fw_backoff f = 0" "fw_state f \<noteq> LinkOffline"
    using s by (simp_all add: in_service_def)
  have b: "?b = take_batch l envelope_bytes True (take ?k (waiting_all db))"
    using f(1) by (simp add: forward_batch_def f(3,4) accepted_waiting [OF acc] forwarder_ok_def min_absorb1)
  have send: "forwarder_step decode env (f, db, files) = step_send decode env (f, db, files)"
    using f assms(4) by (simp add: forwarder_step_def step_caps_def caps_due_def)
  have nack: "mark_acked now [] d = d" for now d
  proof -
    have "map (ack_row now []) rs = rs" for rs by (rule map_idI) (simp add: ack_row_def)
    then show ?thesis by (simp add: mark_acked_def)
  qed
  show ?thesis
  proof (cases "?b = []")
    case True
    then have "step_send decode env (f, db, files) = (Some idle_poll_s, f, db, files)"
      using f by (simp add: step_send_def send_once_def)
    with step send True b s show ?thesis by (simp add: spq.send_round_def nack)
  next
    case False
    with assms(3) obtain body rcs where r: "fe_post env ?b = Answered 200 body" "receipts_of body = Some rcs"
        "map fst (settled decode ?b rcs) = map fst ?b" "fe_ack_ok env"
      using settled_all unfolding answers_all_def by metis
    define g where "g = link_ok env (count_sent (settled decode ?b rcs) (f\<lparr>fw_fails := 0\<rparr>))"
    define g' where "g' = (if fw_batch_cap g < sl_events (fw_limits g)
        then g\<lparr>fw_batch_cap := min (sl_events (fw_limits g)) (fw_batch_cap g * 2)\<rparr> else g)"
    let ?db = "mark_acked (to_ms (fe_wall env)) (map fst ?b) db"
    have len: "length (settled decode ?b rcs) = length ?b" using arg_cong [OF r(3), of length] by simp
    then have "settled decode ?b rcs \<noteq> []" using False by auto
    with len have "send_once decode env f db = (Some (length ?b), g', ?db)"
      using False r by (simp add: send_once_def link_call_def take_receipts_def Let_def g_def g'_def)
    moreover have "in_service types l t0 g" using s by (auto simp: in_service_def g_def link_ok_def count_sent_def forwarder_ok_def)
    then have g': "in_service types l t0 g'" by (auto simp: in_service_def g'_def forwarder_ok_def)
    ultimately have "step_send decode env (f, db, files) = (Some 0, g', ?db, files)"
      using False by (auto simp: step_send_def in_service_def)
    with step send b g' show ?thesis by (simp add: spq.send_round_def)
  qed
qed

lemma acceptable_acked: "acceptable types l db \<Longrightarrow> acceptable types l (mark_acked now ids db)"
  by (auto simp: acceptable_def mark_acked_def ack_row_def is_pending_def split: if_splits)

lemma rounds_in_service:
  assumes "in_service types l t0 f" "acceptable types l db"
    and "\<forall>env\<in>set envs. answers_all decode env \<and> fe_clock env - t0 < caps_every_s"
  shows "in_service types l t0 (fst (forwarder_run decode (f, db, files) envs)) \<and>
    acceptable types l (fst (snd (forwarder_run decode (f, db, files) envs)))"
  using assms
proof (induction envs arbitrary: f db files)
  case (Cons env envs)
  obtain w f' db' files' where st: "forwarder_step decode env (f, db, files) = (w, f', db', files')"
    by (cases "forwarder_step decode env (f, db, files)")
  from round_in_service [OF Cons.prems(1,2) _ _ st] Cons.prems(3)
  have "in_service types l t0 f'" "acceptable types l db'"
    using acceptable_acked [OF Cons.prems(2)] by (auto simp: spq.send_round_def)
  from Cons.IH [OF this] Cons.prems(3) st show ?case by (simp add: forwarder_run_def)
qed (simp add: forwarder_run_def)

text \<open>
  C14: the queue drains. A forwarder in service, with a service that answers every batch
  with its receipts and events it accepts within its limits, has nothing left to send
  after as many rounds as there were events, whatever the batch size had shrunk to.
\<close>

theorem queue_drains:
  assumes "in_service types l t0 f" "acceptable types l db" "rows_ok db"
    and "\<forall>env\<in>set envs. answers_all decode env \<and> fe_clock env - t0 < caps_every_s"
    and "length (waiting_all db) \<le> length envs"
  shows "waiting_all (fst (snd (forwarder_run decode (f, db, files) envs))) = []"
proof -
  let ?run = "\<lambda>i. forwarder_run decode (f, db, files) (take i envs)"
  let ?q = "\<lambda>i. fst (snd (?run i))"
  have "\<exists>now limit answer. ?q (Suc i) = spq.send_round now limit answer (?q i) \<and> 0 < limit \<and>
      (waiting_all (?q i) \<noteq> [] \<longrightarrow>
         fst (hd (waiting_all (?q i))) \<in> set (answer (take limit (waiting_all (?q i)))))"
    if i: "i < length envs" for i
  proof -
    obtain g d fl where run: "?run i = (g, d, fl)" by (cases "?run i")
    have ok: "in_service types l t0 g" "acceptable types l d"
      using rounds_in_service [OF assms(1,2), of "take i envs" decode files] assms(4) run
      by (auto dest: in_set_takeD)
    obtain w g' d' fl' where st: "forwarder_step decode (envs ! i) (g, d, fl) = (w, g', d', fl')"
      by (cases "forwarder_step decode (envs ! i) (g, d, fl)")
    have "?run (Suc i) = (g', d', fl')"
      using run st i by (simp add: take_Suc_conv_app_nth forwarder_run_def)
    moreover have "d' = spq.send_round (to_ms (fe_wall (envs ! i))) (nat (fw_batch_cap g))
        (\<lambda>rows. map fst (take_batch l envelope_bytes True rows)) d"
      using round_in_service [OF ok _ _ st] assms(4) i by simp
    moreover have cap: "0 < nat (fw_batch_cap g)" using ok(1) by (simp add: in_service_def forwarder_ok_def)
    moreover have "fst (hd (waiting_all d)) \<in>
        set (map fst (take_batch l envelope_bytes True (take (nat (fw_batch_cap g)) (waiting_all d))))"
      if ne: "waiting_all d \<noteq> []"
    proof -
      have "hd (waiting_all d) \<in> set (waiting_all d)" using ne by simp
      then obtain r where "r \<in> set (sd_rows d)" "is_pending r" "hd (waiting_all d) = (sr_seq r, sr_body r)"
        by (auto simp: waiting_all_def)
      with ok(2) have "int (length (snd (hd (waiting_all d)))) \<le> sl_event_bytes l"
          "int (length (snd (hd (waiting_all d)))) + envelope_bytes \<le> sl_batch_bytes l"
        by (simp_all add: acceptable_def)
      with take_batch_hd [of "take (nat (fw_batch_cap g)) (waiting_all d)" l] ne cap
      have "take_batch l envelope_bytes True (take (nat (fw_batch_cap g)) (waiting_all d)) \<noteq> []"
          "hd (take_batch l envelope_bytes True (take (nat (fw_batch_cap g)) (waiting_all d))) = hd (waiting_all d)"
        by (simp_all add: hd_take)
      then show ?thesis by (metis hd_in_set image_eqI set_map)
    qed
    ultimately show ?thesis
      using run by (intro exI [of _ "to_ms (fe_wall (envs ! i))"] exI [of _ "nat (fw_batch_cap g)"]
          exI [of _ "\<lambda>rows. map fst (take_batch l envelope_bytes True rows)"]) simp
  qed
  from spq.rounds_drain [of ?q "length envs", OF _ this] assms(3,5) show ?thesis
    by (simp add: forwarder_run_def)
qed

definition demo_decode :: "string \<Rightarrow> pydict option" where
  "demo_decode body = Some [(''event_id'', PStr body)]"

definition demo_receipts :: "(int \<times> string) list \<Rightarrow> pyval" where
  "demo_receipts batch =
     PDict [(''receipts'', PList (map (\<lambda>row. PDict [(''status'', PStr ''stored''), (''event_id'', PStr (snd row))]) batch))]"

definition demo_forward_env :: forward_env where
  "demo_forward_env =
     \<lparr>fe_clock = 10, fe_wall = 20, fe_rand = 1 / 2, fe_stamp = None, fe_split_url = (\<lambda>u. None),
      fe_ca_sha256 = (\<lambda>p. None), fe_transport = (\<lambda>u. True), fe_site_stored = True, fe_caps = NetError,
      fe_post = (\<lambda>batch. Answered 200 (Some (demo_receipts batch))), fe_ack_ok = True,
      fe_find = (\<lambda>s c. None), fe_probe = (\<lambda>u. None), fe_save_ok = True\<rparr>"

definition demo_forwarder :: forwarder where
  "demo_forwarder = (forwarder_init ''u'' ''m'' False)
     \<lparr>fw_transport := True, fw_types := Some [''scan''], fw_caps_at := Some 0, fw_state := LinkOk,
      fw_batch_cap := 1\<rparr>"

definition demo_row :: "int \<Rightarrow> string \<Rightarrow> spool_row" where
  "demo_row seq body = new_row seq \<lparr>ev_id = body, ev_type = ''scan'', ev_occurred = 0\<rparr> body"

definition demo_queue :: spool_db where
  "demo_queue = spool_db_empty\<lparr>sd_rows := [demo_row 1 ''a'', demo_row 2 ''b''], sd_sequence := 2\<rparr>"

definition demo_mes_files :: mes_files where
  "demo_mes_files = \<lparr>mf_key = None, mf_cert = None, mf_ca = None, mf_enrolment = None, mf_address = None\<rparr>"

lemma demo_answers: "answers_all demo_decode demo_forward_env"
proof -
  have "receipts_of (Some (demo_receipts batch)) =
      Some (map (\<lambda>row. PDict [(''status'', PStr ''stored''), (''event_id'', PStr (snd row))]) batch)" for batch
    by (simp add: receipts_of_def demo_receipts_def item_def)
  then show ?thesis
    by (simp add: answers_all_def demo_forward_env_def match_receipt_def dict_get_def receipt_names_def demo_decode_def)
qed

lemma demo_in_service: "in_service [''scan''] default_limits 0 demo_forwarder"
  by (simp add: in_service_def forwarder_ok_def demo_forwarder_def forwarder_init_def default_limits_def)

lemma demo_acceptable: "acceptable [''scan''] default_limits demo_queue" "rows_ok demo_queue"
  by (simp_all add: acceptable_def demo_queue_def demo_row_def new_row_def is_pending_def default_limits_def
      envelope_bytes_def rows_ok_def)

lemma queue_drains_witness:
  "waiting_all (fst (snd (forwarder_run demo_decode (demo_forwarder, demo_queue, demo_mes_files)
     [demo_forward_env, demo_forward_env]))) = []"
  by (rule queue_drains [OF demo_in_service demo_acceptable])
    (simp_all add: demo_answers, simp_all add: demo_forward_env_def caps_every_s_def waiting_all_def
      demo_queue_def demo_row_def new_row_def is_pending_def)

lemma batch_within_limits_witness:
  "forward_batch demo_forwarder demo_queue = [(1, ''a'')] \<and>
   length (batch_payload (forward_batch demo_forwarder demo_queue)) \<le> 262144"
proof -
  have ok: "forwarder_ok demo_forwarder" using demo_in_service by (simp add: in_service_def)
  have b: "forward_batch demo_forwarder demo_queue = [(1, ''a'')]"
    by (simp add: forward_batch_def demo_forwarder_def forwarder_init_def default_limits_def pending_rows_def
        demo_queue_def demo_row_def new_row_def is_pending_def envelope_bytes_def)
  from batch_within_limits [OF ok demo_acceptable(2)] b show ?thesis
    by (simp add: demo_forwarder_def forwarder_init_def default_limits_def)
qed


lemma forwarder_invariant_witness:
  "forwarder_ok (fst (forwarder_run demo_decode (forwarder_init ''u'' ''m'' False, demo_queue, demo_mes_files)
     [demo_forward_env]))"
  using forwarder_invariant [of demo_forward_env "[demo_forward_env]" demo_decode "''u''" "''m''" False
      demo_queue demo_mes_files]
  by (simp add: demo_forward_env_def)

end
