(* ===== verification/Contract_Schema.thy ===== *)
theory Contract_Schema
  imports Py_Regex Py_Text Py_Value
begin

text \<open>
  The JSON-Schema subset of the event contract (\<open>contracts/mes/v1/validate.py\<close>):
  \<open>_is_type\<close>, \<open>_equal\<close>, \<open>_resolve\<close> and \<open>schema_errors\<close>, with what the schemas mean as a
  specification of its own. An error is its path and code; the wording of messages is
  left out. The recursion of \<open>schema_errors\<close> is bounded by Python's recursion limit,
  which is the fuel of the model.
\<close>

section \<open>Schemas\<close>

text \<open>
  A schema is \<open>true\<close>, \<open>false\<close> or an object with the supported keywords. The keywords
  without schemas inside are the rules; a pattern is its text with what it matches.
  Absent keywords are \<open>None\<close> (\<open>required\<close> and \<open>properties\<close>: empty).
\<close>

record leaf_rules =
  lr_types :: "string list option"
  lr_const :: "pyval option"
  lr_enum :: "pyval list option"
  lr_min_length :: "int option"
  lr_max_length :: "int option"
  lr_pattern :: "(string \<times> rx) option"
  lr_minimum :: "rat option"
  lr_maximum :: "rat option"
  lr_min_items :: "int option"
  lr_max_items :: "int option"
  lr_unique :: bool
  lr_required :: "string list"

datatype schema =
    Flat bool
  | Keywords
      (s_ref: "string option")
      (s_any_of: "schema list option")
      (s_rules: leaf_rules)
      (s_items: "schema option")
      (s_properties: "(string \<times> schema) list")
      (s_names: "schema option")
      (s_additional: "schema option")

type_synonym defs = "(string \<times> schema) list"

definition no_rules :: leaf_rules where
  "no_rules =
     \<lparr>lr_types = None, lr_const = None, lr_enum = None, lr_min_length = None, lr_max_length = None,
      lr_pattern = None, lr_minimum = None, lr_maximum = None, lr_min_items = None,
      lr_max_items = None, lr_unique = False, lr_required = []\<rparr>"

text \<open>\<open>ContractError\<close>, the recursion limit, and \<open>min()\<close> of an empty \<open>anyOf\<close>.\<close>

datatype schema_exn = ContractError | RecursionError | EmptyAnyOf

type_synonym contract_error = "string \<times> string"
type_synonym checked = "schema_exn + contract_error list"

section \<open>Types and equality\<close>

definition whole_number :: "pyfloat \<Rightarrow> bool" where
  "whole_number f = (case f of Fin x \<Rightarrow> of_int \<lfloor>x\<rfloor> = x | _ \<Rightarrow> False)"

text \<open>\<open>_is_type\<close>; an unknown name raises unless the value is a boolean.\<close>

definition is_type :: "pyval \<Rightarrow> string \<Rightarrow> bool option" where
  "is_type v name =
     (if name = ''object'' then Some (is_dict v)
      else if name = ''array'' then Some (case v of PList _ \<Rightarrow> True | _ \<Rightarrow> False)
      else if name = ''string'' then Some (case v of PStr _ \<Rightarrow> True | _ \<Rightarrow> False)
      else if name = ''boolean'' then Some (case v of PBool _ \<Rightarrow> True | _ \<Rightarrow> False)
      else if name = ''null'' then Some (v = PNone)
      else case v of
          PBool _ \<Rightarrow> Some False
        | _ \<Rightarrow>
            if name = ''integer''
            then Some (case v of PInt _ \<Rightarrow> True | PFloat f \<Rightarrow> whole_number f | _ \<Rightarrow> False)
            else if name = ''number''
            then Some (case v of PInt _ \<Rightarrow> True | PFloat _ \<Rightarrow> True | _ \<Rightarrow> False)
            else None)"

text \<open>\<open>any(_is_type(value, n) for n in names)\<close>.\<close>

fun any_type :: "pyval \<Rightarrow> string list \<Rightarrow> bool option" where
  "any_type v [] = Some False"
| "any_type v (n # ns) =
     (case is_type v n of None \<Rightarrow> None | Some True \<Rightarrow> Some True | Some False \<Rightarrow> any_type v ns)"

definition float_eq :: "pyfloat \<Rightarrow> pyfloat \<Rightarrow> bool" where
  "float_eq f g \<longleftrightarrow> f \<noteq> NaN \<and> f = g"

text \<open>
  \<open>_equal\<close>: numbers by value, booleans only with booleans, objects by their keys in any
  order. Objects hold a key once.
\<close>

fun json_equal :: "pyval \<Rightarrow> pyval \<Rightarrow> bool"
  and json_equals :: "pyval list \<Rightarrow> pyval list \<Rightarrow> bool"
  and json_entries :: "pydict \<Rightarrow> pydict \<Rightarrow> bool" where
  "json_equal PNone b = (b = PNone)"
| "json_equal (PBool x) b = (b = PBool x)"
| "json_equal (PStr s) b = (b = PStr s)"
| "json_equal (PInt n) b =
     (case b of PInt m \<Rightarrow> n = m | PFloat f \<Rightarrow> float_eq (Fin (of_int n)) f | _ \<Rightarrow> False)"
| "json_equal (PFloat f) b =
     (case b of PInt m \<Rightarrow> float_eq f (Fin (of_int m)) | PFloat g \<Rightarrow> float_eq f g | _ \<Rightarrow> False)"
| "json_equal (PList xs) b = (case b of PList ys \<Rightarrow> json_equals xs ys | _ \<Rightarrow> False)"
| "json_equal (PDict d) b =
     (case b of
        PDict e \<Rightarrow> list_all (\<lambda>kv. map_of d (fst kv) \<noteq> None) e \<and> json_entries d e
      | _ \<Rightarrow> False)"
| "json_equals [] ys = (ys = [])"
| "json_equals (x # xs) ys = (case ys of [] \<Rightarrow> False | y # ys' \<Rightarrow> json_equal x y \<and> json_equals xs ys')"
| "json_entries [] e = True"
| "json_entries (kv # d) e =
     (case map_of e (fst kv) of None \<Rightarrow> False | Some w \<Rightarrow> json_equal (snd kv) w \<and> json_entries d e)"

section \<open>One keyword object\<close>

text \<open>Results in sequence: the first exception, or all errors in order.\<close>

fun seq_checks :: "(schema_exn + 'a) list \<Rightarrow> schema_exn + 'a list" where
  "seq_checks [] = Inr []"
| "seq_checks (r # rs) =
     (case r of
        Inl e \<Rightarrow> Inl e
      | Inr x \<Rightarrow> (case seq_checks rs of Inl e \<Rightarrow> Inl e | Inr xs \<Rightarrow> Inr (x # xs)))"

definition all_checks :: "checked list \<Rightarrow> checked" where
  "all_checks rs = (case seq_checks rs of Inl e \<Rightarrow> Inl e | Inr ess \<Rightarrow> Inr (concat ess))"

definition join_path :: "string \<Rightarrow> string \<Rightarrow> string" where
  "join_path path key = (if path = '''' then key else path @ ''/'' @ key)"

definition err_if :: "bool \<Rightarrow> 'a \<Rightarrow> 'a list" where
  "err_if b x = (if b then [x] else [])"

definition numeric :: "pyval \<Rightarrow> pyfloat option" where
  "numeric v = (case v of PInt n \<Rightarrow> Some (Fin (of_int n)) | PFloat f \<Rightarrow> Some f | _ \<Rightarrow> None)"

text \<open>\<open>value < bound\<close> and \<open>value > bound\<close> for a finite bound; NaN is neither.\<close>

definition below :: "pyfloat \<Rightarrow> rat \<Rightarrow> bool" where
  "below f b = (case f of Fin x \<Rightarrow> x < b | NegInf \<Rightarrow> True | _ \<Rightarrow> False)"

definition above :: "pyfloat \<Rightarrow> rat \<Rightarrow> bool" where
  "above f b = (case f of Fin x \<Rightarrow> b < x | Inf \<Rightarrow> True | _ \<Rightarrow> False)"

definition some_and :: "'a option \<Rightarrow> ('a \<Rightarrow> bool) \<Rightarrow> bool" where
  "some_and a P = (case a of None \<Rightarrow> False | Some x \<Rightarrow> P x)"

text \<open>The index of the first item that repeats an earlier one.\<close>

fun first_repeat :: "pyval list \<Rightarrow> pyval list \<Rightarrow> nat option" where
  "first_repeat seen [] = None"
| "first_repeat seen (x # xs) =
     (if list_ex (json_equal x) seen then Some (length seen)
      else first_repeat (seen @ [x]) xs)"

definition const_errors :: "leaf_rules \<Rightarrow> pyval \<Rightarrow> string \<Rightarrow> contract_error list" where
  "const_errors r v path =
     err_if (some_and (lr_const r) (\<lambda>c. \<not> json_equal v c)) (path, ''const'') @
     err_if (some_and (lr_enum r) (\<lambda>cs. \<not> list_ex (json_equal v) cs)) (path, ''enum'')"

definition string_errors :: "leaf_rules \<Rightarrow> string \<Rightarrow> string \<Rightarrow> contract_error list" where
  "string_errors r s path =
     err_if (some_and (lr_min_length r) (\<lambda>n. int (length s) < n)) (path, ''minLength'') @
     err_if (some_and (lr_max_length r) (\<lambda>n. int (length s) > n)) (path, ''maxLength'') @
     (case lr_pattern r of
        None \<Rightarrow> []
      | Some (txt, rx) \<Rightarrow>
          if \<not> rx_search rx s then [(path, ''pattern'')]
          else err_if (last_opt txt = Some (CHR ''$'') \<and> last_opt s = Some (CHR 0x0A))
                 (path, ''rule:trailing_newline''))"

definition number_errors :: "leaf_rules \<Rightarrow> pyfloat \<Rightarrow> string \<Rightarrow> contract_error list" where
  "number_errors r f path =
     err_if (some_and (lr_minimum r) (below f)) (path, ''minimum'') @
     err_if (some_and (lr_maximum r) (above f)) (path, ''maximum'')"

definition list_errors :: "leaf_rules \<Rightarrow> pyval list \<Rightarrow> string \<Rightarrow> contract_error list" where
  "list_errors r xs path =
     err_if (some_and (lr_min_items r) (\<lambda>n. int (length xs) < n)) (path, ''minItems'') @
     err_if (some_and (lr_max_items r) (\<lambda>n. int (length xs) > n)) (path, ''maxItems'') @
     (if lr_unique r then
        (case first_repeat [] xs of
           None \<Rightarrow> [] | Some i \<Rightarrow> [(join_path path (decimal i), ''uniqueItems'')])
      else [])"

definition required_errors :: "leaf_rules \<Rightarrow> pydict \<Rightarrow> string \<Rightarrow> contract_error list" where
  "required_errors r d path =
     map (\<lambda>k. (join_path path k, ''required'')) (filter (\<lambda>k. map_of d k = None) (lr_required r))"

text \<open>The keywords without schemas inside, in the code's order.\<close>

definition leaf_errors :: "leaf_rules \<Rightarrow> pyval \<Rightarrow> string \<Rightarrow> contract_error list" where
  "leaf_errors r v path =
     const_errors r v path @
     (case v of PStr s \<Rightarrow> string_errors r s path | _ \<Rightarrow> []) @
     (case numeric v of Some f \<Rightarrow> number_errors r f path | None \<Rightarrow> []) @
     (case v of PList xs \<Rightarrow> list_errors r xs path | _ \<Rightarrow> []) @
     (case v of PDict d \<Rightarrow> required_errors r d path | _ \<Rightarrow> [])"

section \<open>The checker\<close>

definition resolve :: "defs \<Rightarrow> string \<Rightarrow> schema_exn + schema" where
  "resolve defs ref =
     (if \<not> starts_with ref ''#/$defs/'' then Inl ContractError
      else case map_of defs (drop 8 ref) of None \<Rightarrow> Inl ContractError | Some s \<Rightarrow> Inr s)"

fun shortest :: "'a list list \<Rightarrow> 'a list" where
  "shortest [] = []"
| "shortest [x] = x"
| "shortest (x # xs) = (let b = shortest xs in if length x \<le> length b then x else b)"

type_synonym sub_check = "pyval \<Rightarrow> schema \<Rightarrow> string \<Rightarrow> checked"

text \<open>\<open>anyOf\<close>: \<open>Inr None\<close> when a branch fits and the other keywords count.\<close>

definition any_of_check ::
  "sub_check \<Rightarrow> pyval \<Rightarrow> schema list option \<Rightarrow> string \<Rightarrow> schema_exn + contract_error list option" where
  "any_of_check rec v branches path =
     (case branches of
        None \<Rightarrow> Inr None
      | Some bs \<Rightarrow>
          (case seq_checks (map (\<lambda>b. rec v b path) bs) of
             Inl e \<Rightarrow> Inl e
           | Inr ess \<Rightarrow>
               if \<not> list_all (\<lambda>es. es \<noteq> []) ess then Inr None
               else if ess = [] then Inl EmptyAnyOf
               else Inr (Some (if list_all (\<lambda>e. starts_with (snd e) ''rule:'') (shortest ess)
                               then shortest ess else [(path, ''anyOf'')]))))"

definition item_checks :: "sub_check \<Rightarrow> pyval \<Rightarrow> schema option \<Rightarrow> string \<Rightarrow> checked list" where
  "item_checks rec v items path =
     (case (v, items) of
        (PList xs, Some s) \<Rightarrow> map (\<lambda>i. rec (xs ! i) s (join_path path (decimal i))) [0..<length xs]
      | _ \<Rightarrow> [])"

definition entry_checks ::
  "sub_check \<Rightarrow> (string \<times> schema) list \<Rightarrow> schema option \<Rightarrow> schema option \<Rightarrow> string \<Rightarrow>
   string \<times> pyval \<Rightarrow> checked list" where
  "entry_checks rec props names extra path kv =
     (let here = join_path path (fst kv)
      in (case names of
            None \<Rightarrow> []
          | Some nm \<Rightarrow>
              [case rec (PStr (fst kv)) nm here of
                 Inl e \<Rightarrow> Inl e
               | Inr bad \<Rightarrow> Inr (err_if (bad \<noteq> []) (here, ''propertyNames''))]) @
         (case map_of props (fst kv) of
            Some p \<Rightarrow> [rec (snd kv) p here]
          | None \<Rightarrow> (case extra of Some e \<Rightarrow> [rec (snd kv) e here] | None \<Rightarrow> [])))"

definition type_check :: "leaf_rules \<Rightarrow> pyval \<Rightarrow> bool option" where
  "type_check r v = (case lr_types r of None \<Rightarrow> Some True | Some names \<Rightarrow> any_type v names)"

definition keyword_checks ::
  "sub_check \<Rightarrow> pyval \<Rightarrow> leaf_rules \<Rightarrow> schema option \<Rightarrow> (string \<times> schema) list \<Rightarrow> schema option \<Rightarrow>
   schema option \<Rightarrow> string \<Rightarrow> checked" where
  "keyword_checks rec v rules items props names extra path =
     (case type_check rules v of
        None \<Rightarrow> Inl ContractError
      | Some False \<Rightarrow> Inr [(path, ''type'')]
      | Some True \<Rightarrow>
          all_checks
            (Inr (leaf_errors rules v path) # item_checks rec v items path @
             (case v of PDict d \<Rightarrow> concat (map (entry_checks rec props names extra path) d) | _ \<Rightarrow> [])))"

text \<open>\<open>schema_errors\<close>; the number is how many nested calls Python's stack still takes.\<close>

primrec schema_errors :: "nat \<Rightarrow> defs \<Rightarrow> sub_check" where
  "schema_errors 0 defs = (\<lambda>v s path. Inl RecursionError)"
| "schema_errors (Suc n) defs =
     (\<lambda>v s path.
        case s of
          Flat b \<Rightarrow> Inr (if b then [] else [(path, ''false'')])
        | Keywords ref any_of rules items props names extra \<Rightarrow>
            (case ref of
               Some r \<Rightarrow>
                 (case resolve defs r of Inl e \<Rightarrow> Inl e | Inr t \<Rightarrow> schema_errors n defs v t path)
             | None \<Rightarrow>
                 (case any_of_check (schema_errors n defs) v any_of path of
                    Inl e \<Rightarrow> Inl e
                  | Inr (Some es) \<Rightarrow> Inr es
                  | Inr None \<Rightarrow> keyword_checks (schema_errors n defs) v rules items props names extra path)))"

section \<open>What schemas mean\<close>

definition in_bounds :: "int \<Rightarrow> int option \<Rightarrow> int option \<Rightarrow> bool" where
  "in_bounds n lo hi \<longleftrightarrow> (\<forall>l. lo = Some l \<longrightarrow> l \<le> n) \<and> (\<forall>h. hi = Some h \<longrightarrow> n \<le> h)"

definition no_repeats :: "pyval list \<Rightarrow> bool" where
  "no_repeats xs \<longleftrightarrow> (\<forall>i<length xs. \<forall>j<i. \<not> json_equal (xs ! i) (xs ! j))"

text \<open>The rules a value must satisfy by itself, one line per keyword.\<close>

definition leaf_valid :: "leaf_rules \<Rightarrow> pyval \<Rightarrow> bool" where
  "leaf_valid r v \<longleftrightarrow>
     (\<forall>names. lr_types r = Some names \<longrightarrow> (\<exists>n\<in>set names. is_type v n = Some True)) \<and>
     (\<forall>c. lr_const r = Some c \<longrightarrow> json_equal v c) \<and>
     (\<forall>cs. lr_enum r = Some cs \<longrightarrow> (\<exists>c\<in>set cs. json_equal v c)) \<and>
     (\<forall>s. v = PStr s \<longrightarrow>
        in_bounds (int (length s)) (lr_min_length r) (lr_max_length r) \<and>
        (\<forall>txt rx. lr_pattern r = Some (txt, rx) \<longrightarrow>
           rx_search rx s \<and> \<not> (last_opt txt = Some (CHR ''$'') \<and> last_opt s = Some (CHR 0x0A)))) \<and>
     (\<forall>f. numeric v = Some f \<longrightarrow>
        (\<forall>b. lr_minimum r = Some b \<longrightarrow> \<not> below f b) \<and> (\<forall>b. lr_maximum r = Some b \<longrightarrow> \<not> above f b)) \<and>
     (\<forall>xs. v = PList xs \<longrightarrow>
        in_bounds (int (length xs)) (lr_min_items r) (lr_max_items r) \<and> (lr_unique r \<longrightarrow> no_repeats xs)) \<and>
     (\<forall>d. v = PDict d \<longrightarrow> (\<forall>k\<in>set (lr_required r). map_of d k \<noteq> None))"

text \<open>\<open>$ref\<close> stands alone; otherwise one branch of \<open>anyOf\<close> and every other keyword must accept the value.\<close>

inductive accepts :: "defs \<Rightarrow> pyval \<Rightarrow> schema \<Rightarrow> bool" for defs :: defs where
  flat: "accepts defs v (Flat True)"
| ref: "resolve defs r = Inr t \<Longrightarrow> accepts defs v t \<Longrightarrow>
    accepts defs v (Keywords (Some r) any_of rules items props names extra)"
| full: "(\<forall>bs. any_of = Some bs \<longrightarrow> (\<exists>b\<in>set bs. accepts defs v b)) \<Longrightarrow>
    leaf_valid rules v \<Longrightarrow>
    (\<forall>xs s. v = PList xs \<longrightarrow> items = Some s \<longrightarrow> (\<forall>x\<in>set xs. accepts defs x s)) \<Longrightarrow>
    (\<forall>d. v = PDict d \<longrightarrow>
       (\<forall>kv\<in>set d.
          (\<forall>nm. names = Some nm \<longrightarrow> accepts defs (PStr (fst kv)) nm) \<and>
          (\<forall>p. map_of props (fst kv) = Some p \<longrightarrow> accepts defs (snd kv) p) \<and>
          (\<forall>e. map_of props (fst kv) = None \<longrightarrow> extra = Some e \<longrightarrow> accepts defs (snd kv) e))) \<Longrightarrow>
    accepts defs v (Keywords None any_of rules items props names extra)"

inductive_cases accepts_flatE: "accepts defs v (Flat b)"
inductive_cases accepts_refE: "accepts defs v (Keywords (Some r) any_of rules items props names extra)"
inductive_cases accepts_keywordsE: "accepts defs v (Keywords None any_of rules items props names extra)"

section \<open>The checker accepts exactly the meaning\<close>

lemma first_repeat_None:
  "first_repeat seen xs = None \<longleftrightarrow>
     (\<forall>i<length xs. \<not> list_ex (json_equal (xs ! i)) (seen @ take i xs))"
proof (induction xs arbitrary: seen)
  case (Cons x xs)
  show ?case
    unfolding first_repeat.simps using Cons [of "seen @ [x]"]
    by (auto simp: All_less_Suc2)
qed simp

lemma first_repeat_no_repeats: "first_repeat [] xs = None \<longleftrightarrow> no_repeats xs"
proof -
  have "list_ex P (take i xs) \<longleftrightarrow> (\<exists>j<i. P (xs ! j))" if "i < length xs" for P i
    using that by (auto simp: list_ex_iff nth_image [symmetric])
  then show ?thesis by (auto simp: first_repeat_None no_repeats_def)
qed

lemma err_if_Nil [simp]: "err_if b x = [] \<longleftrightarrow> \<not> b"
  by (simp add: err_if_def)

lemma any_type_True: "any_type v names = Some True \<longleftrightarrow> (\<exists>n\<in>set names. is_type v n = Some True) \<and> any_type v names \<noteq> None"
  by (induction names) (auto split: option.splits bool.splits)

lemma any_type_False: "any_type v names = Some False \<Longrightarrow> n \<in> set names \<Longrightarrow> is_type v n \<noteq> Some True"
  by (induction names) (auto split: option.splits bool.splits)

lemma leaf_errors_Nil:
  assumes "type_check r v = Some True"
  shows "leaf_errors r v path = [] \<longleftrightarrow> leaf_valid r v"
proof -
  have t: "\<forall>names. lr_types r = Some names \<longrightarrow> (\<exists>n\<in>set names. is_type v n = Some True)"
    using assms any_type_True by (auto simp: type_check_def)
  have c: "const_errors r v path = [] \<longleftrightarrow> (\<forall>c. lr_const r = Some c \<longrightarrow> json_equal v c) \<and>
      (\<forall>cs. lr_enum r = Some cs \<longrightarrow> (\<exists>c\<in>set cs. json_equal v c))"
    by (auto simp: const_errors_def some_and_def list_ex_iff split: option.splits)
  have s: "string_errors r s path = [] \<longleftrightarrow> in_bounds (int (length s)) (lr_min_length r) (lr_max_length r) \<and>
        (\<forall>txt rx. lr_pattern r = Some (txt, rx) \<longrightarrow>
           rx_search rx s \<and> \<not> (last_opt txt = Some (CHR ''$'') \<and> last_opt s = Some (CHR 0x0A)))" for s
    by (auto simp: string_errors_def some_and_def in_bounds_def split: option.splits)
  have n: "number_errors r f path = [] \<longleftrightarrow>
        (\<forall>b. lr_minimum r = Some b \<longrightarrow> \<not> below f b) \<and> (\<forall>b. lr_maximum r = Some b \<longrightarrow> \<not> above f b)" for f
    by (auto simp: number_errors_def some_and_def split: option.splits)
  have l: "list_errors r xs path = [] \<longleftrightarrow>
        in_bounds (int (length xs)) (lr_min_items r) (lr_max_items r) \<and> (lr_unique r \<longrightarrow> no_repeats xs)" for xs
    by (auto simp: list_errors_def some_and_def in_bounds_def first_repeat_no_repeats [symmetric] split: option.splits)
  have d: "required_errors r d path = [] \<longleftrightarrow> (\<forall>k\<in>set (lr_required r). map_of d k \<noteq> None)" for d
    by (auto simp: required_errors_def filter_empty_conv)
  show ?thesis
    unfolding leaf_errors_def leaf_valid_def append_is_Nil_conv c using t s n l d
    by (cases v) (auto simp: numeric_def)
qed

lemma seq_checks_Inr: "seq_checks rs = Inr xs \<longleftrightarrow> rs = map Inr xs"
proof
  show "seq_checks rs = Inr xs \<Longrightarrow> rs = map Inr xs"
    by (induction rs arbitrary: xs) (auto split: sum.splits)
  have "seq_checks (map Inr xs) = Inr xs"
    by (induction xs) auto
  then show "rs = map Inr xs \<Longrightarrow> seq_checks rs = Inr xs" by simp
qed

lemma all_checks_Inr:
  assumes "all_checks rs = Inr es"
  shows "(\<forall>r\<in>set rs. \<exists>x. r = Inr x) \<and> (es = [] \<longleftrightarrow> (\<forall>r\<in>set rs. r = Inr []))"
  using assms by (auto simp: all_checks_def seq_checks_Inr split: sum.splits)

lemma shortest_in: "xs \<noteq> [] \<Longrightarrow> shortest xs \<in> set xs"
  by (induction xs rule: shortest.induct) (auto simp: Let_def)

lemma any_of_check_None:
  assumes "any_of_check rec v any_of path = Inr None"
  shows "\<forall>bs. any_of = Some bs \<longrightarrow> (\<exists>b\<in>set bs. rec v b path = Inr [])"
proof (intro allI impI)
  fix bs
  assume bs: "any_of = Some bs"
  with assms obtain ess where "map (\<lambda>b. rec v b path) bs = map Inr ess" "\<not> list_all (\<lambda>es. es \<noteq> []) ess"
    by (auto simp: any_of_check_def seq_checks_Inr split: sum.splits if_splits)
  then have "Inr [] \<in> set (map (\<lambda>b. rec v b path) bs)" by (auto simp: list_all_iff)
  then show "\<exists>b\<in>set bs. rec v b path = Inr []" by auto
qed

lemma any_of_check_Some:
  assumes "any_of_check rec v any_of path = Inr (Some es)"
  obtains bs where "any_of = Some bs" "es \<noteq> []" "\<forall>b\<in>set bs. \<exists>e. rec v b path = Inr e \<and> e \<noteq> []"
proof -
  from assms obtain bs ess where b: "any_of = Some bs" "map (\<lambda>b. rec v b path) bs = map Inr ess"
      "list_all (\<lambda>es. es \<noteq> []) ess" "ess \<noteq> []" "es = shortest ess \<or> es = [(path, ''anyOf'')]"
    by (auto simp: any_of_check_def seq_checks_Inr split: option.splits sum.splits if_splits)
  have "shortest ess \<noteq> []" using b(3) shortest_in [OF b(4)] by (auto simp: list_all_iff)
  then have "es \<noteq> []" using b(5) by auto
  moreover have "\<exists>e. rec v x path = Inr e \<and> e \<noteq> []" if "x \<in> set bs" for x
  proof -
    have "rec v x path \<in> set (map Inr ess)" using that b(2) [symmetric] by simp
    then show ?thesis using b(3) by (auto simp: list_all_iff)
  qed
  ultimately show thesis using that b(1) by blast
qed

lemma name_check_Nil:
  "(case c of Inl e \<Rightarrow> Inl e | Inr bad \<Rightarrow> Inr (err_if (bad \<noteq> []) x)) = Inr [] \<longleftrightarrow> c = Inr []"
  by (cases c) (auto simp: err_if_def)

lemma entry_checks_all:
  "(\<forall>r\<in>set (entry_checks rec props names extra path kv). r = Inr []) \<longleftrightarrow>
     (\<forall>nm. names = Some nm \<longrightarrow> rec (PStr (fst kv)) nm (join_path path (fst kv)) = Inr []) \<and>
     (\<forall>p. map_of props (fst kv) = Some p \<longrightarrow> rec (snd kv) p (join_path path (fst kv)) = Inr []) \<and>
     (\<forall>e. map_of props (fst kv) = None \<longrightarrow> extra = Some e \<longrightarrow> rec (snd kv) e (join_path path (fst kv)) = Inr [])"
  by (cases names; cases "map_of props (fst kv)"; cases extra)
    (simp_all add: entry_checks_def Let_def name_check_Nil)

lemma item_checks_all:
  "(\<forall>r\<in>set (item_checks rec v items path). r = Inr []) \<longleftrightarrow>
     (\<forall>xs s. v = PList xs \<longrightarrow> items = Some s \<longrightarrow>
        (\<forall>i<length xs. rec (xs ! i) s (join_path path (decimal i)) = Inr []))"
  by (cases v; cases items) (auto simp: item_checks_def)

text \<open>What a completed check ran: every sub-check it needed has an answer.\<close>

lemma keyword_checks_Inr:
  assumes "keyword_checks rec v rules items props names extra path = Inr es"
  obtains (bad_type) "type_check rules v = Some False" "es \<noteq> []"
  | (ran) "type_check rules v = Some True"
      "es = [] \<longleftrightarrow> leaf_errors rules v path = [] \<and>
         (\<forall>r\<in>set (item_checks rec v items path). r = Inr []) \<and>
         (\<forall>d. v = PDict d \<longrightarrow> (\<forall>kv\<in>set d. \<forall>r\<in>set (entry_checks rec props names extra path kv). r = Inr []))"
      "\<forall>r\<in>set (item_checks rec v items path). \<exists>x. r = Inr x"
      "\<forall>d. v = PDict d \<longrightarrow> (\<forall>kv\<in>set d. \<forall>r\<in>set (entry_checks rec props names extra path kv). \<exists>x. r = Inr x)"
proof (cases "type_check rules v")
  case None
  with assms show thesis by (simp add: keyword_checks_def)
next
  case (Some ok)
  show thesis
  proof (cases ok)
    case False
    with assms Some bad_type show thesis by (auto simp: keyword_checks_def)
  next
    case True
    let ?rs = "Inr (leaf_errors rules v path) # item_checks rec v items path @
             (case v of PDict d \<Rightarrow> concat (map (entry_checks rec props names extra path) d) | _ \<Rightarrow> [])"
    have "all_checks ?rs = Inr es" using assms Some True by (simp add: keyword_checks_def)
    note rs = all_checks_Inr [OF this]
    have split_rs: "(\<forall>r\<in>set ?rs. P r) \<longleftrightarrow> P (Inr (leaf_errors rules v path)) \<and>
        (\<forall>r\<in>set (item_checks rec v items path). P r) \<and>
        (\<forall>d. v = PDict d \<longrightarrow> (\<forall>kv\<in>set d. \<forall>r\<in>set (entry_checks rec props names extra path kv). P r))" for P
      by (cases v) (simp_all add: ball_Un)
    note rs' = rs [unfolded split_rs sum.inject]
    show thesis
    proof (rule ran)
      show "type_check rules v = Some True" using Some True by simp
    qed (use rs' in blast)+
  qed
qed

text \<open>A sub-check decides \<open>accepts\<close> wherever it has an answer.\<close>

definition decides :: "defs \<Rightarrow> sub_check \<Rightarrow> bool" where
  "decides defs rec \<longleftrightarrow> (\<forall>v s path es. rec v s path = Inr es \<longrightarrow> (es = [] \<longleftrightarrow> accepts defs v s))"

lemma decidesD: "decides defs rec \<Longrightarrow> rec v s path = Inr es \<Longrightarrow> es = [] \<longleftrightarrow> accepts defs v s"
  by (auto simp: decides_def)

lemma accepts_full_iff:
  assumes "\<forall>bs. any_of = Some bs \<longrightarrow> (\<exists>b\<in>set bs. accepts defs v b)"
  shows "accepts defs v (Keywords None any_of rules items props names extra) \<longleftrightarrow> leaf_valid rules v \<and>
    (\<forall>xs s. v = PList xs \<longrightarrow> items = Some s \<longrightarrow> (\<forall>x\<in>set xs. accepts defs x s)) \<and>
    (\<forall>d. v = PDict d \<longrightarrow> (\<forall>kv\<in>set d.
      (\<forall>nm. names = Some nm \<longrightarrow> accepts defs (PStr (fst kv)) nm) \<and>
      (\<forall>p. map_of props (fst kv) = Some p \<longrightarrow> accepts defs (snd kv) p) \<and>
      (\<forall>e. map_of props (fst kv) = None \<longrightarrow> extra = Some e \<longrightarrow> accepts defs (snd kv) e)))"
    (is "?acc \<longleftrightarrow> ?R")
proof
  assume ?acc
  then show ?R by (rule accepts_keywordsE) (intro conjI, assumption, simp_all only: simp_thms all_simps)
next
  assume ?R
  then show ?acc by (elim conjE) (rule accepts.full [OF assms])
qed

lemma keyword_checks_decide:
  assumes "decides defs rec" "keyword_checks rec v rules items props names extra path = Inr es"
    and "any_of_check rec v any_of path = Inr None"
  shows "es = [] \<longleftrightarrow> accepts defs v (Keywords None any_of rules items props names extra)"
proof -
  note dec = decidesD [OF assms(1)]
  have any: "\<forall>bs. any_of = Some bs \<longrightarrow> (\<exists>b\<in>set bs. accepts defs v b)"
    using any_of_check_None [OF assms(3)] dec by blast
  from assms(2) show ?thesis
  proof (cases rule: keyword_checks_Inr)
    case bad_type
    then have "\<not> leaf_valid rules v"
      using any_type_False by (fastforce simp: type_check_def leaf_valid_def split: option.splits)
    with bad_type show ?thesis by (auto elim: accepts_keywordsE)
  next
    case ran
    have items: "(\<forall>r\<in>set (item_checks rec v items path). r = Inr []) \<longleftrightarrow>
        (\<forall>xs s. v = PList xs \<longrightarrow> items = Some s \<longrightarrow> (\<forall>x\<in>set xs. accepts defs x s))"
    proof -
      have "rec (xs ! i) s (join_path path (decimal i)) = Inr [] \<longleftrightarrow> accepts defs (xs ! i) s"
        if "v = PList xs" "items = Some s" "i < length xs" for xs s i
      proof -
        have "rec (xs ! i) s (join_path path (decimal i)) \<in> set (item_checks rec v items path)"
          using that by (simp add: item_checks_def)
        with ran(3) obtain x where "rec (xs ! i) s (join_path path (decimal i)) = Inr x" by blast
        with dec show ?thesis by auto
      qed
      then show ?thesis unfolding item_checks_all by (auto simp: all_set_conv_all_nth)
    qed
    have entries: "(\<forall>r\<in>set (entry_checks rec props names extra path kv). r = Inr []) \<longleftrightarrow>
        (\<forall>nm. names = Some nm \<longrightarrow> accepts defs (PStr (fst kv)) nm) \<and>
        (\<forall>p. map_of props (fst kv) = Some p \<longrightarrow> accepts defs (snd kv) p) \<and>
        (\<forall>e. map_of props (fst kv) = None \<longrightarrow> extra = Some e \<longrightarrow> accepts defs (snd kv) e)"
      if "v = PDict d" "kv \<in> set d" for d kv
    proof -
      have all: "\<forall>r\<in>set (entry_checks rec props names extra path kv). \<exists>x. r = Inr x"
        using ran(4) that by blast
      have "rec (PStr (fst kv)) nm (join_path path (fst kv)) = Inr [] \<longleftrightarrow> accepts defs (PStr (fst kv)) nm"
        if "names = Some nm" for nm
      proof -
        from all that obtain x where "rec (PStr (fst kv)) nm (join_path path (fst kv)) = Inr x"
          by (auto simp: entry_checks_def Let_def split: sum.splits)
        with dec show ?thesis by auto
      qed
      moreover have "rec (snd kv) p (join_path path (fst kv)) = Inr [] \<longleftrightarrow> accepts defs (snd kv) p"
        if "map_of props (fst kv) = Some p \<or> map_of props (fst kv) = None \<and> extra = Some p" for p
      proof -
        from all that obtain x where "rec (snd kv) p (join_path path (fst kv)) = Inr x"
          by (auto simp: entry_checks_def Let_def split: sum.splits)
        with dec show ?thesis by auto
      qed
      ultimately show ?thesis unfolding entry_checks_all by simp
    qed
    have "es = [] \<longleftrightarrow> leaf_valid rules v \<and>
        (\<forall>xs s. v = PList xs \<longrightarrow> items = Some s \<longrightarrow> (\<forall>x\<in>set xs. accepts defs x s)) \<and>
        (\<forall>d. v = PDict d \<longrightarrow> (\<forall>kv\<in>set d.
          (\<forall>nm. names = Some nm \<longrightarrow> accepts defs (PStr (fst kv)) nm) \<and>
          (\<forall>p. map_of props (fst kv) = Some p \<longrightarrow> accepts defs (snd kv) p) \<and>
          (\<forall>e. map_of props (fst kv) = None \<longrightarrow> extra = Some e \<longrightarrow> accepts defs (snd kv) e)))"
      unfolding ran(2) leaf_errors_Nil [OF ran(1)] items
      by (intro conj_cong refl all_cong1 imp_cong ball_cong entries)
    also have "\<dots> \<longleftrightarrow> accepts defs v (Keywords None any_of rules items props names extra)"
      using accepts_full_iff [OF any] by (rule sym)
    finally show ?thesis .
  qed
qed

lemma schema_errors_decide: "decides defs (schema_errors n defs)"
proof (induction n)
  case (Suc n)
  have "es = [] \<longleftrightarrow> accepts defs v s" if run: "schema_errors (Suc n) defs v s path = Inr es" for v s path es
  proof (cases s)
    case (Flat b)
    with run show ?thesis by (cases b) (auto intro: accepts.flat elim: accepts_flatE)
  next
    case (Keywords r any_of rules items props names extra)
    show ?thesis
    proof (cases r)
      case (Some ref)
      with run Keywords obtain t where t: "resolve defs ref = Inr t" "schema_errors n defs v t path = Inr es"
        by (auto split: sum.splits)
      have "accepts defs v s \<longleftrightarrow> accepts defs v t"
        unfolding Keywords Some using t(1) by (auto intro: accepts.ref elim: accepts_refE)
      with decidesD [OF Suc t(2)] show ?thesis by simp
    next
      case None
      show ?thesis
      proof (cases "any_of_check (schema_errors n defs) v any_of path")
        case (Inl e)
        with run Keywords None show ?thesis by simp
      next
        case (Inr res)
        show ?thesis
        proof (cases res)
          case plain: None
          with run Keywords None Inr have
            "keyword_checks (schema_errors n defs) v rules items props names extra path = Inr es" by simp
          from keyword_checks_decide [OF Suc this] Inr plain show ?thesis by (simp add: Keywords None)
        next
          case (Some es')
          with run Keywords None Inr have "any_of_check (schema_errors n defs) v any_of path = Inr (Some es)" by simp
          then obtain bs where bs: "any_of = Some bs" "es \<noteq> []"
              "\<forall>b\<in>set bs. \<exists>e. schema_errors n defs v b path = Inr e \<and> e \<noteq> []"
            by (rule any_of_check_Some)
          then have "\<forall>b\<in>set bs. \<not> accepts defs v b" using decidesD [OF Suc] by blast
          with bs show ?thesis by (auto simp: Keywords None elim: accepts_keywordsE)
        qed
      qed
    qed
  qed
  then show ?case by (simp only: decides_def) blast
qed (simp add: decides_def)

text \<open>
  C11: Whenever the checker answers, it reports no error exactly for the values that the
  schema accepts, for every schema of the supported subset, its definitions included.
\<close>

theorem schema_check_correct:
  assumes "schema_errors n defs v s path = Inr es"
  shows "es = [] \<longleftrightarrow> accepts defs v s"
  using decidesD [OF schema_errors_decide assms] .

text \<open>A list of integers from 0 on that may end a chain of references.\<close>

definition counts_schema :: schema where
  "counts_schema =
     Keywords None None (no_rules \<lparr>lr_types := Some [''array''], lr_max_items := Some 2\<rparr>)
       (Some (Keywords (Some ''#/$defs/count'') None no_rules None [] None None)) [] None None"

definition counts_defs :: defs where
  "counts_defs =
     [(''count'',
       Keywords None None (no_rules \<lparr>lr_types := Some [''integer''], lr_minimum := Some 0\<rparr>) None [] None None)]"

lemma schema_check_correct_witness:
  "accepts counts_defs (PList [PInt 0, PInt 4]) counts_schema \<and>
   \<not> accepts counts_defs (PList [PInt 0, PInt (-1)]) counts_schema"
proof -
  have "schema_errors 3 counts_defs (PList [PInt 0, PInt 4]) counts_schema '''' = Inr []"
    by code_simp
  moreover have "schema_errors 3 counts_defs (PList [PInt 0, PInt (-1)]) counts_schema '''' =
      Inr [(''1'', ''minimum'')]"
    by code_simp
  ultimately show ?thesis
    using schema_check_correct [of 3 counts_defs _ counts_schema "''''"] by blast
qed

section \<open>The checker always answers\<close>

text \<open>
  What the loader of a contract leaves unchecked: known type names, an \<open>anyOf\<close> with a
  branch, and references that resolve to definitions of a lower rank (so no cycle).
\<close>

definition type_names :: "string list" where
  "type_names = [''object'', ''array'', ''string'', ''boolean'', ''null'', ''integer'', ''number'']"

primrec all_opt :: "bool option \<Rightarrow> bool" where
  "all_opt None = True"
| "all_opt (Some b) = b"

primrec schema_ok :: "defs \<Rightarrow> (string \<Rightarrow> nat) \<Rightarrow> nat \<Rightarrow> schema \<Rightarrow> bool" where
  "schema_ok defs rank k (Flat b) = True"
| "schema_ok defs rank k (Keywords ref any_of rules items props names extra) =
     ((case ref of None \<Rightarrow> True
       | Some r \<Rightarrow> starts_with r ''#/$defs/'' \<and> map_of defs (drop 8 r) \<noteq> None \<and> rank (drop 8 r) < k) \<and>
      any_of \<noteq> Some [] \<and>
      (case lr_types rules of None \<Rightarrow> True | Some names \<Rightarrow> list_all (\<lambda>n. n \<in> set type_names) names) \<and>
      (case map_option (map (schema_ok defs rank k)) any_of of None \<Rightarrow> True | Some bs \<Rightarrow> list_all id bs) \<and>
      all_opt (map_option (schema_ok defs rank k) items) \<and>
      list_all snd (map (map_prod id (schema_ok defs rank k)) props) \<and>
      all_opt (map_option (schema_ok defs rank k) names) \<and>
      all_opt (map_option (schema_ok defs rank k) extra))"

definition max_nat :: "nat list \<Rightarrow> nat" where
  "max_nat ns = foldr max ns 0"

primrec zero_or :: "nat option \<Rightarrow> nat" where
  "zero_or None = 0"
| "zero_or (Some n) = n"

text \<open>How deep schemas nest.\<close>

primrec depth :: "schema \<Rightarrow> nat" where
  "depth (Flat b) = 0"
| "depth (Keywords ref any_of rules items props names extra) =
     Suc (max_nat
       [zero_or (map_option max_nat (map_option (map depth) any_of)), zero_or (map_option depth items),
        max_nat (map snd (map (map_prod id depth) props)), zero_or (map_option depth names),
        zero_or (map_option depth extra)])"

definition defs_ok :: "defs \<Rightarrow> (string \<Rightarrow> nat) \<Rightarrow> nat \<Rightarrow> bool" where
  "defs_ok defs rank bound \<longleftrightarrow>
     list_all (\<lambda>nt. schema_ok defs rank (rank (fst nt)) (snd nt) \<and> depth (snd nt) \<le> bound) defs"

lemma max_nat_member: "n \<in> set ns \<Longrightarrow> n \<le> max_nat ns"
  unfolding max_nat_def by (induction ns) auto

lemma max_nat_below: "max_nat ns < k \<Longrightarrow> n \<in> set ns \<Longrightarrow> n < k"
  using max_nat_member le_less_trans by blast

lemma type_check_known:
  assumes "case lr_types r of None \<Rightarrow> True | Some names \<Rightarrow> list_all (\<lambda>n. n \<in> set type_names) names"
  shows "\<exists>ok. type_check r v = Some ok"
proof -
  have "\<exists>ok. is_type v n = Some ok" if "n \<in> set type_names" for n
    using that by (auto simp: is_type_def type_names_def split: pyval.split)
  then have "any_type v names \<noteq> None" if "list_all (\<lambda>n. n \<in> set type_names) names" for names
    using that by (induction names) (fastforce split: option.split bool.split)+
  then show ?thesis using assms by (auto simp: type_check_def split: option.splits)
qed

lemma seq_checks_total: "\<forall>r\<in>set rs. \<exists>x. r = Inr x \<Longrightarrow> \<exists>xs. seq_checks rs = Inr xs"
  by (induction rs) (auto split: sum.splits)

text \<open>The schemas inside one keyword object.\<close>

definition inside ::
  "schema list option \<Rightarrow> schema option \<Rightarrow> (string \<times> schema) list \<Rightarrow> schema option \<Rightarrow> schema option \<Rightarrow> schema set" where
  "inside any_of items props names extra =
     (case any_of of None \<Rightarrow> {} | Some bs \<Rightarrow> set bs) \<union> set_option items \<union> snd ` set props \<union>
     set_option names \<union> set_option extra"

lemma inside_ok:
  assumes "schema_ok defs rank k (Keywords ref any_of rules items props names extra)"
    and "t \<in> inside any_of items props names extra"
  shows "schema_ok defs rank k t"
  using assms unfolding inside_def
  by (cases any_of; cases items; cases names; cases extra)
    (auto simp: list_all_iff)

lemma inside_depth:
  assumes "t \<in> inside any_of items props names extra"
  shows "depth t < depth (Keywords ref any_of rules items props names extra)"
proof -
  let ?ns = "[zero_or (map_option max_nat (map_option (map depth) any_of)), zero_or (map_option depth items),
        max_nat (map snd (map (map_prod id depth) props)), zero_or (map_option depth names),
        zero_or (map_option depth extra)]"
  consider bs where "any_of = Some bs" "t \<in> set bs" | "items = Some t" | key where "(key, t) \<in> set props"
    | "names = Some t" | "extra = Some t"
    using assms by (auto simp: inside_def split: option.splits)
  then have "\<exists>n\<in>set ?ns. depth t \<le> n"
  proof cases
    case (3 key)
    then have "depth t \<in> set (map snd (map (map_prod id depth) props))" by force
    then show ?thesis by (simp add: max_nat_member)
  qed (simp_all add: max_nat_member)
  then show ?thesis using max_nat_member [of _ ?ns] by (auto simp only: depth.simps less_Suc_eq_le intro: order_trans)
qed

lemma keyword_checks_total:
  assumes sub: "\<And>w t p. t \<in> inside any_of items props names extra \<Longrightarrow> \<exists>es. rec w t p = Inr es"
    and known: "case lr_types rules of None \<Rightarrow> True | Some ns \<Rightarrow> list_all (\<lambda>n. n \<in> set type_names) ns"
  shows "\<exists>es. keyword_checks rec v rules items props names extra path = Inr es"
proof -
  have i: "\<exists>x. r = Inr x" if "r \<in> set (item_checks rec v items path)" for r
    using that sub by (cases v; cases items) (auto simp: item_checks_def inside_def)
  have p: "\<exists>es. rec w t q = Inr es" if "map_of props key = Some t" for w t q key
    using sub map_of_SomeD [OF that] by (force simp: inside_def)
  have nm: "\<exists>es. rec w t q = Inr es" if "names = Some t \<or> extra = Some t" for w t q
    using sub that by (auto simp: inside_def)
  have e: "\<exists>x. r = Inr x" if "r \<in> set (entry_checks rec props names extra path kv)" for r kv
  proof -
    let ?here = "join_path path (fst kv)"
    from that consider t where "names = Some t" "r = (case rec (PStr (fst kv)) t ?here of
          Inl e \<Rightarrow> Inl e | Inr bad \<Rightarrow> Inr (err_if (bad \<noteq> []) (?here, ''propertyNames'')))"
      | t where "map_of props (fst kv) = Some t" "r = rec (snd kv) t ?here"
      | t where "extra = Some t" "r = rec (snd kv) t ?here"
      by (auto simp: entry_checks_def Let_def split: option.splits)
    then show ?thesis
    proof cases
      case (1 t)
      with nm [of t "PStr (fst kv)" ?here] show ?thesis by auto
    qed (use p nm in blast)+
  qed
  have "\<forall>r\<in>set (Inr (leaf_errors rules v path) # item_checks rec v items path @
             (case v of PDict d \<Rightarrow> concat (map (entry_checks rec props names extra path) d) | _ \<Rightarrow> [])).
          \<exists>x. r = Inr x"
    using i e by (cases v) auto
  from seq_checks_total [OF this] type_check_known [OF known, of v] show ?thesis
    by (auto simp: keyword_checks_def all_checks_def split: bool.splits)
qed

lemma any_of_check_total:
  assumes "\<And>bs b. any_of = Some bs \<Longrightarrow> b \<in> set bs \<Longrightarrow> \<exists>es. rec v b path = Inr es" "any_of \<noteq> Some []"
  shows "\<exists>res. any_of_check rec v any_of path = Inr res"
proof (cases any_of)
  case None
  then show ?thesis by (simp add: any_of_check_def)
next
  case (Some bs)
  then have "\<forall>r\<in>set (map (\<lambda>b. rec v b path) bs). \<exists>x. r = Inr x" using assms(1) by auto
  from seq_checks_total [OF this] obtain ess where ess: "seq_checks (map (\<lambda>b. rec v b path) bs) = Inr ess" ..
  then have "length ess = length bs" by (metis length_map seq_checks_Inr)
  with assms(2) Some have "ess \<noteq> []" by auto
  with ess Some show ?thesis by (simp add: any_of_check_def)
qed

lemma defs_ok_resolve:
  assumes "defs_ok defs rank bound" "resolve defs r = Inr t"
  shows "schema_ok defs rank (rank (drop 8 r)) t" "depth t \<le> bound"
proof -
  from assms(2) have "(drop 8 r, t) \<in> set defs"
    by (auto simp: resolve_def dest: map_of_SomeD split: if_splits option.splits)
  with assms(1) show "schema_ok defs rank (rank (drop 8 r)) t" "depth t \<le> bound"
    by (auto simp: defs_ok_def list_all_iff)
qed

lemma schema_check_total:
  assumes "defs_ok defs rank bound" "schema_ok defs rank k s"
    and "depth s + k * Suc bound < n"
  shows "\<exists>es. schema_errors n defs v s path = Inr es"
  using assms(2,3)
proof (induction n arbitrary: k v s path)
  case (Suc n)
  show ?case
  proof (cases s)
    case (Flat b)
    then show ?thesis by simp
  next
    case (Keywords ref any_of rules items props names extra)
    show ?thesis
    proof (cases ref)
      case (Some r)
      with Suc.prems(1) Keywords obtain t where t: "resolve defs r = Inr t" "rank (drop 8 r) < k"
        by (auto simp: resolve_def)
      have "depth t + rank (drop 8 r) * Suc bound < Suc (rank (drop 8 r)) * Suc bound"
        using defs_ok_resolve(2) [OF assms(1) t(1)] by simp
      also have "\<dots> \<le> k * Suc bound" using t(2) by (intro mult_le_mono1) simp
      also have "\<dots> < n" using Suc.prems(2) Keywords by (simp only: depth.simps)
      finally have "\<exists>es. schema_errors n defs v t path = Inr es"
        using Suc.IH defs_ok_resolve(1) [OF assms(1) t(1)] by blast
      with t(1) Keywords Some show ?thesis by simp
    next
      case None
      have sub: "\<exists>es. schema_errors n defs w t p = Inr es" if "t \<in> inside any_of items props names extra" for w t p
      proof (rule Suc.IH)
        show "schema_ok defs rank k t" using inside_ok that Suc.prems(1) Keywords by blast
        have "depth t < depth s" using inside_depth that unfolding Keywords .
        with Suc.prems(2) show "depth t + k * Suc bound < n" by linarith
      qed
      have "any_of \<noteq> Some []" using Suc.prems(1) Keywords by simp
      then obtain res where res: "any_of_check (schema_errors n defs) v any_of path = Inr res"
        using any_of_check_total [of any_of "schema_errors n defs" v path] sub by (auto simp: inside_def)
      have "\<exists>es. keyword_checks (schema_errors n defs) v rules items props names extra path = Inr es"
      proof (rule keyword_checks_total)
        show "case lr_types rules of None \<Rightarrow> True | Some ns \<Rightarrow> list_all (\<lambda>n. n \<in> set type_names) ns"
          using Suc.prems(1) unfolding Keywords schema_ok.simps by blast
      qed (rule sub)
      with res Keywords None show ?thesis by (auto split: option.split)
    qed
  qed
qed simp

lemma schema_errors_accepts:
  assumes "defs_ok defs rank bound" "schema_ok defs rank k s" "depth s + k * Suc bound < n" "accepts defs v s"
  shows "schema_errors n defs v s path = Inr []"
  using schema_check_total [OF assms(1-3)] decidesD [OF schema_errors_decide] assms(4) by metis

text \<open>
  C15: The check always ends with an answer, and the answer decides what the schema means.
  The recursion is through references as well as through the schema, so this needs
  definitions without cycles (a rank that falls along references); a stack of the depth
  of the schema plus one definition's depth per rank is enough, whatever the value is.
\<close>

theorem schema_check_terminates:
  assumes "defs_ok defs rank bound" "schema_ok defs rank k s"
    and "depth s + k * Suc bound < n"
  shows "\<exists>es. schema_errors n defs v s path = Inr es \<and> (es = [] \<longleftrightarrow> accepts defs v s)"
  using schema_check_total [OF assms] decidesD [OF schema_errors_decide] by blast

lemma schema_check_terminates_witness:
  "\<exists>es. schema_errors 5 counts_defs (PList [PInt 3]) counts_schema '''' = Inr es \<and> (es = [] \<longleftrightarrow> accepts counts_defs (PList [PInt 3]) counts_schema)"
proof (rule schema_check_terminates)
  show "defs_ok counts_defs (\<lambda>_. 0) 1" by code_simp
  show "schema_ok counts_defs (\<lambda>_. 0) 1 counts_schema" by code_simp
  show "depth counts_schema + 1 * Suc 1 < 5" by code_simp
qed

end
