(* ===== verification/Event_Time.thy ===== *)
theory Event_Time
  imports Agent_Identity Py_Text
begin

text \<open>
  Times in events: \<open>utc_text\<close> of \<open>agent_mes_spool.py\<close> writes them, \<open>parse_timestamp\<close> of
  the event contract reads them. Dates are the Gregorian calendar; a point in time is a
  number of microseconds since 1970, so that times compare as the code's datetimes do.
\<close>

section \<open>The calendar\<close>

definition is_leap :: "nat \<Rightarrow> bool" where
  "is_leap y \<longleftrightarrow> 4 dvd y \<and> (\<not> 100 dvd y \<or> 400 dvd y)"

definition year_len :: "nat \<Rightarrow> nat" where
  "year_len y = (if is_leap y then 366 else 365)"

definition month_lens :: "nat \<Rightarrow> nat list" where
  "month_lens y = [31, if is_leap y then 29 else 28, 31, 30, 31, 30, 31, 31, 30, 31, 30, 31]"

text \<open>Days before a year, counted from 0001-01-01 (\<open>datetime.toordinal\<close>).\<close>

definition days_before_year :: "nat \<Rightarrow> int" where
  "days_before_year y =
     (let z = y - 1 in 365 * int z + int (z div 4) - int (z div 100) + int (z div 400))"

definition epoch_days :: int where "epoch_days = 719162"

text \<open>Days since 1970-01-01 of a date.\<close>

definition date_days :: "nat \<Rightarrow> nat \<Rightarrow> nat \<Rightarrow> int" where
  "date_days y m d =
     days_before_year y - epoch_days + int (sum_list (take (m - 1) (month_lens y))) + int d - 1"

text \<open>The date of a day: count off years from 1970, then months.\<close>

function split_year :: "nat \<Rightarrow> nat \<Rightarrow> nat \<times> nat" where
  "split_year y d = (if d < year_len y then (y, d) else split_year (Suc y) (d - year_len y))"
  by pat_completeness auto
termination
  by (relation "measure snd") (auto simp: year_len_def)

declare split_year.simps [simp del]

fun split_month :: "nat list \<Rightarrow> nat \<Rightarrow> nat \<times> nat" where
  "split_month [] d = (0, d)"
| "split_month (l # ls) d =
     (if d < l then (0, d) else (case split_month ls (d - l) of (m, r) \<Rightarrow> (Suc m, r)))"

definition date_of :: "nat \<Rightarrow> nat \<times> nat \<times> nat" where
  "date_of days =
     (case split_year 1970 days of
        (y, r) \<Rightarrow> (case split_month (month_lens y) r of (m, d) \<Rightarrow> (y, m + 1, d + 1)))"

lemma days_before_Suc:
  assumes "1 \<le> y"
  shows "days_before_year (Suc y) = days_before_year y + int (year_len y)"
proof -
  obtain z where y: "y = Suc z" using assms by (cases y) auto
  have step: "int (Suc z div k) = int (z div k) + (if k dvd Suc z then 1 else 0)" for k
    by (simp add: div_Suc dvd_eq_mod_eq_0)
  obtain a b c where abc: "a \<longleftrightarrow> 4 dvd Suc z" "b \<longleftrightarrow> 100 dvd Suc z" "c \<longleftrightarrow> 400 dvd Suc z" by blast
  have "(4::nat) dvd 100" "(100::nat) dvd 400" by (rule dvdI [of _ _ 25], simp, rule dvdI [of _ _ 4], simp)
  then have "b \<Longrightarrow> a" "c \<Longrightarrow> b" unfolding abc by (blast intro: dvd_trans)+
  then have "int (year_len y) = 365 + (if a then 1 else 0) - (if b then 1 else 0) + (if c then 1 else 0)"
    unfolding year_len_def is_leap_def y abc [symmetric] by auto
  then show ?thesis
    unfolding days_before_year_def y diff_Suc_1 Let_def step abc [symmetric]
    by (simp only: of_nat_Suc algebra_simps distrib_left)
qed

lemma split_year_date:
  assumes "split_year y d = (y', r)" "1 \<le> y"
  shows "r < year_len y' \<and> y \<le> y' \<and> days_before_year y' + int r = days_before_year y + int d"
  using assms
proof (induction y d rule: split_year.induct)
  case (1 y d)
  show ?case
  proof (cases "d < year_len y")
    case True
    with 1 show ?thesis by (simp add: split_year.simps)
  next
    case False
    with "1.prems" have "split_year (Suc y) (d - year_len y) = (y', r)" by (simp add: split_year.simps)
    from "1.IH" [OF False this] days_before_Suc [OF "1.prems"(2)] False show ?thesis by simp
  qed
qed

lemma split_month_day:
  "split_month ls d = (m, r) \<Longrightarrow> d < sum_list ls \<Longrightarrow>
   m < length ls \<and> r < ls ! m \<and> sum_list (take m ls) + r = d"
proof (induction ls arbitrary: d m)
  case (Cons l ls)
  show ?case
  proof (cases "d < l")
    case False
    with Cons.prems obtain k where k: "split_month ls (d - l) = (k, r)" "m = Suc k"
      by (auto split: prod.splits)
    have "d - l < sum_list ls" using Cons.prems(2) False by simp
    from Cons.IH [OF k(1) this] have "k < length ls" "r < ls ! k" "sum_list (take k ls) + r = d - l" by simp_all
    with k(2) False show ?thesis by simp
  qed (use Cons.prems in auto)
qed simp

lemma sum_month_lens: "sum_list (month_lens y) = year_len y" "length (month_lens y) = 12"
  by (simp_all add: month_lens_def year_len_def)

lemma date_of_days:
  assumes "date_of n = (y, m, d)"
  shows "1970 \<le> y \<and> 1 \<le> m \<and> m \<le> 12 \<and> 1 \<le> d \<and> d \<le> month_lens y ! (m - 1) \<and> date_days y m d = int n"
proof -
  obtain r where s: "split_year 1970 n = (y, r)" and k: "split_month (month_lens y) r = (m - 1, d - 1)"
      and md: "1 \<le> m" "1 \<le> d"
    using assms by (auto simp: date_of_def split: prod.splits)
  have b: "days_before_year 1970 = epoch_days" by (simp add: days_before_year_def epoch_days_def)
  from split_year_date [OF s] b
  have y: "r < year_len y" "1970 \<le> y" "days_before_year y + int r = epoch_days + int n" by simp_all
  from split_month_day [OF k] y(1) have
    "m - 1 < 12" "d - 1 < month_lens y ! (m - 1)" "sum_list (take (m - 1) (month_lens y)) + (d - 1) = r"
    by (simp_all add: sum_month_lens)
  with y md show ?thesis by (auto simp: date_days_def)
qed

lemma date_of_month_len: "month_lens y ! k \<le> 31" if "k < 12" for k
proof -
  have "\<forall>l\<in>set (month_lens y). l \<le> 31" by (simp add: month_lens_def)
  then show ?thesis using that by (simp add: sum_month_lens)
qed

text \<open>Years up to 9999 are the days below this number.\<close>

definition day_limit :: nat where "day_limit = 2932897"

lemma split_year_mono: "days_before_year y \<le> days_before_year (y + k)" if "1 \<le> y" for k
proof (induction k)
  case (Suc k)
  then show ?case using days_before_Suc [of "y + k"] that by simp
qed simp

lemma date_of_year: "date_of n = (y, m, d) \<Longrightarrow> n < day_limit \<Longrightarrow> y < 10000"
proof (rule ccontr)
  assume a: "date_of n = (y, m, d)" "n < day_limit" "\<not> y < 10000"
  obtain r where s: "split_year 1970 n = (y, r)"
    using a(1) by (auto simp: date_of_def split: prod.splits)
  have "days_before_year 10000 \<le> days_before_year y"
    using split_year_mono [of 10000 "y - 10000"] a(3) by simp
  moreover have "days_before_year y + int r = days_before_year 1970 + int n"
    using split_year_date [OF s] by simp
  ultimately show False using a(2) by (simp add: days_before_year_def day_limit_def)
qed

section \<open>Writing times\<close>

text \<open>A number with at least \<open>k\<close> digits, cut to its last \<open>k\<close>: \<open>%02d\<close>, \<open>%03d\<close>, \<open>%Y\<close> of years 1000 to 9999.\<close>

primrec padded :: "nat \<Rightarrow> nat \<Rightarrow> string" where
  "padded 0 n = []"
| "padded (Suc k) n = padded k (n div 10) @ [char_of (48 + n mod 10)]"

text \<open>\<open>utc_text\<close>: to the nearest millisecond. Clocks are after 1970 and years have four digits.\<close>

definition utc_text :: "seconds \<Rightarrow> string" where
  "utc_text ts =
     (let ms = nat (round_half_even (ts * 1000)); sec = ms div 1000
      in case date_of (sec div 86400) of
           (y, m, d) \<Rightarrow>
             padded 4 y @ ''-'' @ padded 2 m @ ''-'' @ padded 2 d @ ''T'' @
             padded 2 (sec mod 86400 div 3600) @ '':'' @ padded 2 (sec mod 3600 div 60) @ '':'' @
             padded 2 (sec mod 60) @ ''.'' @ padded 3 (ms mod 1000) @ ''Z'')"

section \<open>Reading times\<close>

text \<open>\<open>_TS\<close>: the shape of a timestamp; its first 19 characters, then the fraction.\<close>

definition stamp_classes :: "(char \<Rightarrow> bool) list" where
  "stamp_classes =
     (let sep = (\<lambda>s c. c = s)
      in replicate 4 is_digit @ [sep (CHR ''-'')] @ replicate 2 is_digit @ [sep (CHR ''-'')] @
         replicate 2 is_digit @ [sep (CHR ''T'')] @ replicate 2 is_digit @ [sep (CHR '':'')] @
         replicate 2 is_digit @ [sep (CHR '':'')] @ replicate 2 is_digit)"

text \<open>\<open>[0-9]{1,n}\<close>.\<close>

primrec digits_rx :: "nat \<Rightarrow> rx" where
  "digits_rx 0 = Eps"
| "digits_rx (Suc n) = Sequ (Cls is_digit) (opt_rx (digits_rx n))"

definition stamp_re :: rx where
  "stamp_re = seqs [AtStart, class_seq stamp_classes,
     opt_rx (Sequ (one_of ''.'') (digits_rx 6)), one_of ''Z'', AtEnd]"

definition stamp_match :: "string \<Rightarrow> bool" where
  "stamp_match s = rx_match stamp_re s"

definition num_at :: "string \<Rightarrow> nat \<Rightarrow> nat \<Rightarrow> nat" where
  "num_at s i k = nat (parse_digits (take k (drop i s)))"

text \<open>\<open>datetime.strptime\<close> of the first 19 characters: seconds since 1970, if the date exists.\<close>

definition read_datetime :: "string \<Rightarrow> int option" where
  "read_datetime s =
     (let y = num_at s 0 4; m = num_at s 5 2; d = num_at s 8 2;
          hh = num_at s 11 2; mm = num_at s 14 2; ss = num_at s 17 2
      in if 1 \<le> y \<and> 1 \<le> m \<and> m \<le> 12 \<and> 1 \<le> d \<and> d \<le> month_lens y ! (m - 1) \<and>
            hh < 24 \<and> mm < 60 \<and> ss < 60
         then Some (date_days y m d * 86400 + int hh * 3600 + int mm * 60 + int ss) else None)"

text \<open>\<open>parse_timestamp\<close>: microseconds since 1970.\<close>

definition parse_timestamp :: "string \<Rightarrow> int option" where
  "parse_timestamp s =
     (if \<not> stamp_match s \<or> last_opt s = Some (CHR 0x0A) then None
      else case read_datetime s of
          None \<Rightarrow> None
        | Some sec \<Rightarrow>
            (let frac = (if drop 19 s = ''Z'' then ''.0'' else butlast (drop 19 s))
             in Some (sec * 1000000 + parse_digits (take 6 (tl frac @ ''000000'')))))"

section \<open>Round trip\<close>

lemma length_padded [simp]: "length (padded k n) = k"
  by (induction k arbitrary: n) simp_all

lemma digit_chars:
  "list_all (\<lambda>d. is_digit (char_of (48 + d :: nat)) \<and> digit_value (char_of (48 + d)) = int d) [0..<10]"
  by code_simp

lemma digit_char:
  assumes "d < 10"
  shows "is_digit (char_of (48 + d))" "digit_value (char_of (48 + d)) = int d"
  using digit_chars assms by (simp_all add: list_all_iff)

lemma padded_digits: "list_all is_digit (padded k n)"
  by (induction k arbitrary: n) (simp_all add: digit_char)

lemma parse_digits_snoc: "parse_digits (s @ [c]) = 10 * parse_digits s + digit_value c"
  by (simp add: parse_digits_def)

lemma parse_padded: "n < 10 ^ k \<Longrightarrow> parse_digits (padded k n) = int n"
proof (induction k arbitrary: n)
  case (Suc k)
  have "n div 10 < 10 ^ k" using Suc.prems by (simp add: div_less_iff_less_mult)
  from Suc.IH [OF this] show ?case
    by (simp add: parse_digits_snoc digit_char zdiv_int zmod_int flip: of_nat_mod of_nat_div)
qed (simp add: parse_digits_def)

text \<open>Where the parts of a written time stand.\<close>

lemma num_at_here: "n < 10 ^ k \<Longrightarrow> num_at (pre @ padded k n @ post) (length pre) k = n"
  by (simp add: num_at_def parse_padded)

lemma num_at_skip: "length pre \<le> i \<Longrightarrow> num_at (pre @ s) i k = num_at s (i - length pre) k"
  by (simp add: num_at_def)

lemma list_all2_padded: "list_all2 (\<lambda>P c. P c) (replicate k is_digit) (padded k n)"
  using padded_digits [of k n] by (simp add: list_all2_conv_all_nth list_all_length)

lemma stamp_match_iff_frac:
  assumes "list_all2 (\<lambda>P c. P c) stamp_classes u" "list_all is_digit f" "length f = 3"
  shows "stamp_match (u @ ''.'' @ f @ ''Z'')"
proof -
  have len: "length stamp_classes = length u" using assms(1) by (rule list_all2_lengthD)
  have "map snd (rx_run (class_seq stamp_classes) (None, u @ ''.'' @ f @ ''Z'')) = [''.'' @ f @ ''Z'']"
    using assms(1) by (simp add: class_seq_run len)
  then obtain p where run: "rx_run (class_seq stamp_classes) (None, u @ ''.'' @ f @ ''Z'') = [(p, ''.'' @ f @ ''Z'')]"
    by (cases "rx_run (class_seq stamp_classes) (None, u @ ''.'' @ f @ ''Z'')") auto
  obtain a b c where f: "f = [a, b, c]" using assms(3) by (auto simp: length_Suc_conv eval_nat_numeral)
  have "\<not> is_digit (CHR ''Z'')" by (simp add: is_digit_def)
  then have "rx_run (seqs [opt_rx (Sequ (one_of ''.'') (digits_rx 6)), one_of ''Z'', AtEnd])
      (p, ''.'' @ f @ ''Z'') \<noteq> []"
    using assms(2) by (simp add: f opt_rx_def one_of_def eval_nat_numeral)
  with run show ?thesis
    by (simp add: stamp_match_def rx_match_def stamp_re_def)
qed

lemma utc_text_read:
  assumes "0 \<le> ts" "nat (round_half_even (ts * 1000)) div 1000 div 86400 < day_limit"
  shows "parse_timestamp (utc_text ts) = Some (round_half_even (ts * 1000) * 1000)"
proof -
  define ms where "ms = nat (round_half_even (ts * 1000))"
  define sec where "sec = ms div 1000"
  obtain y m d where date: "date_of (sec div 86400) = (y, m, d)" by (cases "date_of (sec div 86400)")
  note ok = date_of_days [OF date]
  have y: "y < 10000" using date_of_year [OF date] assms(2) by (simp add: ms_def sec_def)
  have "month_lens y ! (m - 1) \<le> 31" using ok by (intro date_of_month_len) linarith
  then have d: "d < 100" "m < 100" using ok by linarith+
  define hh mm ss where "hh = sec mod 86400 div 3600" and "mm = sec mod 3600 div 60" and "ss = sec mod 60"
  have hms: "hh < 24" "mm < 60" "ss < 60" by (simp_all add: hh_def mm_def ss_def div_less_iff_less_mult)
  have whole: "sec = sec div 86400 * 86400 + hh * 3600 + mm * 60 + ss"
  proof -
    have dv: "(3600::nat) dvd 86400" "(60::nat) dvd 3600"
      by (rule dvdI [of _ _ 24], simp, rule dvdI [of _ _ 60], simp)
    have "sec mod 86400 = hh * 3600 + sec mod 3600"
      using div_mult_mod_eq [of "sec mod 86400" 3600] by (simp add: hh_def mod_mod_cancel [OF dv(1)])
    moreover have "sec mod 3600 = mm * 60 + ss"
      using div_mult_mod_eq [of "sec mod 3600" 60] by (simp add: mm_def ss_def mod_mod_cancel [OF dv(2)])
    ultimately show ?thesis using div_mult_mod_eq [of sec 86400] by linarith
  qed
  define u where "u = padded 4 y @ ''-'' @ padded 2 m @ ''-'' @ padded 2 d @ ''T'' @
      padded 2 hh @ '':'' @ padded 2 mm @ '':'' @ padded 2 ss"
  have written: "utc_text ts = u @ ''.'' @ padded 3 (ms mod 1000) @ ''Z''"
    using date by (simp add: utc_text_def u_def ms_def sec_def hh_def mm_def ss_def Let_def)
  have len: "length u = 19" by (simp add: u_def)
  have shape: "list_all2 (\<lambda>P c. P c) stamp_classes u"
    unfolding stamp_classes_def u_def Let_def
    by (intro list_all2_appendI list_all2_padded) simp_all
  have match: "stamp_match (utc_text ts)"
    unfolding written using shape padded_digits length_padded by (rule stamp_match_iff_frac)
  let ?s = "u @ ''.'' @ padded 3 (ms mod 1000) @ ''Z''"
  have "num_at ?s 0 4 = y" "num_at ?s 5 2 = m" "num_at ?s 8 2 = d" "num_at ?s 11 2 = hh"
      "num_at ?s 14 2 = mm" "num_at ?s 17 2 = ss"
    using y d hms by (simp_all add: num_at_def u_def parse_padded)
  moreover have "date_days y m d * 86400 + int hh * 3600 + int mm * 60 + int ss = int sec"
    using ok whole by linarith
  ultimately have date_read: "read_datetime ?s = Some (int sec)"
    using ok hms by (simp add: read_datetime_def Let_def)
  have frac: "drop 19 ?s = ''.'' @ padded 3 (ms mod 1000) @ ''Z''" using len by simp
  have "ms mod 1000 < 10 ^ 3" by simp
  then have "parse_digits (padded 3 (ms mod 1000) @ ''000'') = 1000 * int (ms mod 1000)"
    using parse_padded [of "ms mod 1000" 3]
    by (simp add: parse_digits_def digit_value_def)
  then have "parse_digits (take 6 (tl (butlast (drop 19 ?s)) @ ''000000'')) = 1000 * int (ms mod 1000)"
    unfolding frac by (simp add: butlast_append)
  moreover have "last_opt ?s \<noteq> Some (CHR 0x0A)" "drop 19 ?s \<noteq> ''Z''"
    using frac by (simp_all add: last_opt_def)
  ultimately have "parse_timestamp ?s = Some (int sec * 1000000 + 1000 * int (ms mod 1000))"
    using match date_read unfolding written by (simp add: parse_timestamp_def Let_def)
  also have "int sec * 1000000 + 1000 * int (ms mod 1000) = int ms * 1000"
    unfolding sec_def using div_mult_mod_eq [of ms 1000] by linarith
  also have "int ms = round_half_even (ts * 1000)"
    using round_half_even_mono [of 0 "ts * 1000"] round_half_even_of_int [of 0] assms(1) by (simp add: ms_def)
  finally show ?thesis unfolding written .
qed

lemma utc_text_shape:
  assumes "0 \<le> ts" "nat (round_half_even (ts * 1000)) div 1000 div 86400 < day_limit"
  shows "stamp_match (utc_text ts)" "last_opt (utc_text ts) \<noteq> Some (CHR 0x0A)"
  using utc_text_read [OF assms] by (auto simp: parse_timestamp_def split: if_splits)

text \<open>
  C34: times survive the trip. What \<open>utc_text\<close> writes for a time before the year 10000
  is a real timestamp of the contract, and reading it gives that time to the nearest
  millisecond.
\<close>

theorem timestamp_roundtrip:
  assumes "0 \<le> ts" "nat (round_half_even (ts * 1000)) div 1000 div 86400 < day_limit"
  shows "parse_timestamp (utc_text ts) = Some (round_half_even (ts * 1000) * 1000)"
  using assms by (rule utc_text_read)

lemma timestamp_roundtrip_witness:
  "parse_timestamp (utc_text (1793000000123 / 1000)) = Some 1793000000123000 \<and>
   parse_timestamp ''2026-02-29T00:00:00Z'' = None"
proof -
  have r: "round_half_even ((1793000000123 / 1000) * 1000) = 1793000000123"
    using round_half_even_of_int [of 1793000000123] by simp
  have "parse_timestamp (utc_text (1793000000123 / 1000)) = Some (round_half_even (1793000000123 / 1000 * 1000) * 1000)"
    by (rule timestamp_roundtrip) (simp, simp only: r, simp add: day_limit_def)
  moreover have "parse_timestamp ''2026-02-29T00:00:00Z'' = None" by code_simp
  ultimately show ?thesis using r by simp
qed

end
