(* ===== verification/Mes_Contract.thy ===== *)
theory Mes_Contract
  imports Contract_Schema Event_Time Mes_Spool
begin

text \<open>
  The event contract as the event store uses it (\<open>contracts/mes/v1/validate.py\<close>:
  \<open>validate_event\<close>, \<open>_payload_rules\<close>, \<open>decode\<close>, \<open>encode\<close>; \<open>agent_mes_spool.py\<close>:
  \<open>make_event\<close>). The spool takes what the contract makes of an event as a parameter;
  here that parameter is the contract itself, and the events the agent makes of its own
  cycles are shown to pass it. JSON text and UTF-8 decoding are what one text read as.
\<close>

section \<open>The contract folder\<close>

text \<open>An entry of \<open>catalogue.json\<close> with its payload schema, and what \<open>Contract\<close> loads.\<close>

record type_info =
  ti_producers :: "string list"
  ti_requires :: "string list"
  ti_schema :: schema
  ti_defs :: defs

record contract =
  ct_envelope :: schema
  ct_envelope_defs :: defs
  ct_types :: "(string \<times> type_info) list"
  ct_max_event_bytes :: int
  ct_max_raw_bytes :: int

section \<open>Rules on events\<close>

definition rule_error :: "string \<Rightarrow> string \<Rightarrow> contract_error" where
  "rule_error path name = (path, ''rule:'' @ name)"

definition rule_if :: "bool \<Rightarrow> string \<Rightarrow> string \<Rightarrow> contract_error list" where
  "rule_if b path name = err_if b (rule_error path name)"

definition timestamp_fields :: "(string \<times> string list) list" where
  "timestamp_fields =
     [(''cycle.observed'', [''started_at'', ''ended_at'']), (''program.version'', [''seen_at''])]"

text \<open>A text in the shape of a timestamp.\<close>

definition shaped_time :: "pyval \<Rightarrow> string option" where
  "shaped_time v = (case v of PStr s \<Rightarrow> if stamp_match s then Some s else None | _ \<Rightarrow> None)"

text \<open>\<open>times.get(name)\<close>: the time of a field that has one.\<close>

definition field_time :: "string \<Rightarrow> pydict \<Rightarrow> string \<Rightarrow> int option" where
  "field_time etype p name =
     (if name \<in> set (or_else (map_of timestamp_fields etype) [])
      then Option.bind (shaped_time (dict_get p name)) parse_timestamp else None)"

text \<open>
  \<open>base64.b64decode(raw, validate=True)\<close> as far as its length goes: only digits, then
  at most two \<open>=\<close>; a last group of one digit, or one that its padding does not fill,
  is an error (Python 3.7 to 3.10, which ignore padding after a full group).
\<close>

definition is_base64 :: "char \<Rightarrow> bool" where
  "is_base64 c \<longleftrightarrow> is_upper c \<or> is_lower c \<or> is_digit c \<or> c = CHR ''+'' \<or> c = CHR ''/''"

definition base64_bytes :: "string \<Rightarrow> int option" where
  "base64_bytes s =
     (let ds = takeWhile is_base64 s; pad = dropWhile is_base64 s; k = length ds mod 4
      in if \<not> list_all (\<lambda>c. c = CHR ''='') pad \<or> length pad > 2 then None
         else if k = 1 \<or> (k = 2 \<and> length pad < 2) \<or> (k = 3 \<and> length pad < 1) then None
         else Some (int (length ds * 3 div 4)))"

text \<open>\<open>len(raw.encode("utf-8"))\<close> for code points up to U+00FF.\<close>

definition utf8_bytes :: "string \<Rightarrow> int" where
  "utf8_bytes s = sum_list (map (\<lambda>c. if code_point c < 128 then 1 else 2) s)"

definition raw_bytes :: "string \<Rightarrow> pyval \<Rightarrow> int option" where
  "raw_bytes raw enc =
     (if enc = PStr ''base64'' then base64_bytes raw
      else if enc = PStr ''utf8''
      then (if list_ex (\<lambda>c. code_point c < 32 \<or> code_point c = 127) raw then None else Some (utf8_bytes raw))
      else Some 0)"

definition time_rules :: "string \<Rightarrow> pydict \<Rightarrow> contract_error list" where
  "time_rules etype p =
     concat (map (\<lambda>name. rule_if (shaped_time (dict_get p name) \<noteq> None \<and> field_time etype p name = None)
                           (''payload/'' @ name) ''timestamp'')
       (or_else (map_of timestamp_fields etype) [])) @
     rule_if (etype = ''cycle.observed'' \<and>
              (case (field_time etype p ''started_at'', field_time etype p ''ended_at'') of
                 (Some a, Some b) \<Rightarrow> b < a | _ \<Rightarrow> False))
       ''payload/ended_at'' ''time_order''"

definition scan_rules :: "contract \<Rightarrow> string \<Rightarrow> pydict \<Rightarrow> contract_error list" where
  "scan_rules c etype p =
     (case (etype = ''scan.received'', dict_get p ''raw'') of
        (True, PStr raw) \<Rightarrow>
          rule_if (case raw_bytes raw (dict_get p ''raw_encoding'') of
                     None \<Rightarrow> True | Some n \<Rightarrow> n > ct_max_raw_bytes c) ''payload/raw'' ''raw''
      | _ \<Rightarrow> [])"

definition binding_rules :: "string \<Rightarrow> pydict \<Rightarrow> contract_error list" where
  "binding_rules etype p =
     (case (etype = ''binding.requested'', dict_get p ''fixture_positions'', dict_get p ''scan_ids'') of
        (True, PDict positions, PList scans) \<Rightarrow>
          concat (map (\<lambda>kv. rule_if (\<not> list_ex (py_eq (snd kv)) scans)
                              (''payload/fixture_positions/'' @ fst kv) ''fixture_position'') positions)
      | _ \<Rightarrow> [])"

definition payload_rules :: "contract \<Rightarrow> string \<Rightarrow> pydict \<Rightarrow> contract_error list" where
  "payload_rules c etype p = time_rules etype p @ scan_rules c etype p @ binding_rules etype p"

text \<open>The rules on producer, correlation, site, machine and time.\<close>

definition dict_or_empty :: "pyval \<Rightarrow> pydict" where
  "dict_or_empty v = (case v of PDict d \<Rightarrow> d | _ \<Rightarrow> [])"

definition event_rules :: "type_info \<Rightarrow> pydict \<Rightarrow> contract_error list" where
  "event_rules info d =
     (let kind = dict_get (dict_or_empty (dict_get d ''producer'')) ''kind'';
          corr = dict_or_empty (dict_get d ''correlation'')
      in rule_if (kind \<in> PStr ` set [''agent'', ''millwright'', ''service''] \<and>
                  kind \<notin> PStr ` set (ti_producers info)) ''producer/kind'' ''producer'' @
         concat (map (\<lambda>key. rule_if (map_of corr key = Some PNone)
                              (join_path ''correlation'' key) ''correlation_required'') (ti_requires info)) @
         rule_if (map_of d ''site_id'' = Some PNone \<and> kind = PStr ''service'') ''site_id'' ''site_id_required'' @
         rule_if (map_of d ''machine_id'' = Some PNone \<and> kind \<in> {PStr ''agent'', PStr ''service''})
           ''machine_id'' ''machine_id_required'' @
         rule_if (case shaped_time (dict_get d ''occurred_at'') of
                    None \<Rightarrow> False | Some s \<Rightarrow> parse_timestamp s = None) ''occurred_at'' ''timestamp'')"

definition event_info :: "contract \<Rightarrow> pydict \<Rightarrow> (string \<times> type_info) option" where
  "event_info c d =
     (case dict_get d ''type'' of
        PStr t \<Rightarrow> map_option (Pair t) (map_of (ct_types c) t) | _ \<Rightarrow> None)"

definition payload_error :: "contract_error \<Rightarrow> contract_error" where
  "payload_error e = (if fst e = '''' then ''payload'' else join_path ''payload'' (fst e), snd e)"

definition payload_check :: "nat \<Rightarrow> type_info \<Rightarrow> pyval \<Rightarrow> checked" where
  "payload_check n info payload =
     (if is_dict payload
      then (case schema_errors n (ti_defs info) payload (ti_schema info) '''' of
              Inl e \<Rightarrow> Inl e | Inr es \<Rightarrow> Inr (map payload_error es))
      else Inr [])"

text \<open>\<open>validate_event\<close>.\<close>

definition validate_event :: "nat \<Rightarrow> contract \<Rightarrow> pyval \<Rightarrow> checked" where
  "validate_event n c event =
     (case schema_errors n (ct_envelope_defs c) event (ct_envelope c) '''' of
        Inl e \<Rightarrow> Inl e
      | Inr errors \<Rightarrow>
          (case event of
             PDict d \<Rightarrow>
               (case event_info c d of
                  None \<Rightarrow> Inr (errors @ rule_if (\<not> list_ex (\<lambda>e. fst e = ''type'') errors) ''type'' ''unknown_type'')
                | Some (etype, info) \<Rightarrow>
                    (case payload_check n info (dict_get d ''payload'') of
                       Inl e \<Rightarrow> Inl e
                     | Inr perrors \<Rightarrow>
                         Inr (errors @ perrors @ event_rules info d @
                              (case dict_get d ''payload'' of PDict p \<Rightarrow> payload_rules c etype p | _ \<Rightarrow> []))))
           | _ \<Rightarrow> Inr errors))"

section \<open>Bytes\<close>

text \<open>
  What the bytes of an event read as: not UTF-8, a key twice, no JSON (or NaN), or a
  value, with whether it holds a lone surrogate that cannot be written back.
\<close>

datatype text_read = NotUtf8 | DuplicateKey | NotJson | Loaded pyval bool

definition decode :: "(string \<Rightarrow> text_read) \<Rightarrow> contract \<Rightarrow> string \<Rightarrow> pydict option \<times> contract_error list" where
  "decode loads c data =
     (if int (length data) > ct_max_event_bytes c then (None, [rule_error '''' ''too_large''])
      else case loads data of
          NotUtf8 \<Rightarrow> (None, [rule_error '''' ''encoding''])
        | DuplicateKey \<Rightarrow> (None, [rule_error '''' ''duplicate_key''])
        | NotJson \<Rightarrow> (None, [rule_error '''' ''json''])
        | Loaded v surrogate \<Rightarrow>
            (case v of
               PDict d \<Rightarrow> if surrogate then (None, [rule_error '''' ''encoding'']) else (Some d, [])
             | _ \<Rightarrow> (None, [rule_error '''' ''json''])))"

definition validate_bytes :: "nat \<Rightarrow> (string \<Rightarrow> text_read) \<Rightarrow> contract \<Rightarrow> string \<Rightarrow> checked" where
  "validate_bytes n loads c data =
     (case decode loads c data of
        (None, es) \<Rightarrow> Inr es | (Some d, _) \<Rightarrow> validate_event n c (PDict d))"

text \<open>\<open>encode\<close>: NaN and infinities raise; \<open>dumps\<close> writes the canonical bytes.\<close>

fun all_finite :: "pyval \<Rightarrow> bool" where
  "all_finite (PFloat f) = (case f of Fin _ \<Rightarrow> True | _ \<Rightarrow> False)"
| "all_finite (PList xs) = list_all all_finite xs"
| "all_finite (PDict d) = list_all (\<lambda>kv. all_finite (snd kv)) d"
| "all_finite _ = True"

definition encode :: "(pydict \<Rightarrow> string) \<Rightarrow> pydict \<Rightarrow> string option" where
  "encode dumps ev = (if all_finite (PDict ev) then Some (dumps ev) else None)"

section \<open>Events of the agent's own\<close>

text \<open>What \<open>make_event\<close> takes from outside: a fresh id, the clock, the boot, the version.\<close>

record own_env =
  oe_event_id :: string
  oe_synced :: bool
  oe_boot_id :: string
  oe_mono_ms :: int
  oe_version :: string

definition app_name :: string where "app_name = ''linuxcnc-status-agent''"

definition opt_str :: "string option \<Rightarrow> pyval" where
  "opt_str v = (case v of None \<Rightarrow> PNone | Some s \<Rightarrow> PStr s)"

text \<open>\<open>corr.update(correlation or {})\<close>.\<close>

definition no_correlation :: pydict where
  "no_correlation = [(''execution_id'', PNone), (''scan_id'', PNone), (''operator_session_id'', PNone)]"

definition correlate :: "pyval \<Rightarrow> pydict" where
  "correlate corr = foldl (\<lambda>d kv. AList.update (fst kv) (snd kv) d) no_correlation (dict_or_empty corr)"

text \<open>\<open>make_event\<close> with the \<open>source.record\<close> that \<open>_append_locked\<close> adds.\<close>

definition make_event ::
  "own_env \<Rightarrow> string \<Rightarrow> string \<Rightarrow> string option \<Rightarrow> string \<Rightarrow> int \<Rightarrow> int \<Rightarrow> string \<Rightarrow> pyval \<Rightarrow> rat \<Rightarrow> pyval \<Rightarrow>
   pydict" where
  "make_event env producer epoch site machine seq rowseq etype payload occurred corr =
     [(''schema'', PStr ''fw.mes.event/1''),
      (''event_id'', PStr (oe_event_id env)),
      (''type'', PStr etype),
      (''producer'', PDict [(''kind'', PStr ''agent''), (''id'', PStr producer), (''epoch'', PStr epoch),
                           (''seq'', PInt seq)]),
      (''site_id'', opt_str site),
      (''machine_id'', PStr machine),
      (''occurred_at'', PStr (utc_text occurred)),
      (''clock'', PDict [(''synced'', PBool (oe_synced env)), (''boot_id'', PStr (oe_boot_id env)),
                        (''mono_ms'', PInt (oe_mono_ms env))]),
      (''correlation'', PDict (correlate corr)),
      (''source'', PDict [(''app'', PStr app_name), (''version'', PStr (oe_version env)),
                         (''record'', PStr (''spool:'' @ decimal (nat rowseq)))]),
      (''payload'', payload)]"

text \<open>\<open>int(round(occurred * 1000))\<close>.\<close>

definition milliseconds :: "rat \<Rightarrow> int" where
  "milliseconds t = round_half_even (t * 1000)"

text \<open>
  The contract as the spool's codec. \<open>envs\<close> gives what a new event takes from outside,
  by row number; \<open>None\<close> is an event that is not stored: refused, or its check or its
  encoding raised.
\<close>

definition own_event ::
  "nat \<Rightarrow> contract \<Rightarrow> (pydict \<Rightarrow> string) \<Rightarrow> (int \<Rightarrow> own_env) \<Rightarrow> string \<Rightarrow> string \<Rightarrow> string option \<Rightarrow>
   string \<Rightarrow> int \<Rightarrow> int \<Rightarrow> spool_item \<Rightarrow> (event_facts \<times> string) option" where
  "own_event n c dumps envs producer epoch site machine seq rowseq item =
     (case item of
        RawEvent _ \<Rightarrow> None
      | OwnEvent etype payload occurred corr \<Rightarrow>
          (let ev = make_event (envs rowseq) producer epoch site machine seq rowseq etype payload occurred corr
           in if validate_event n c (PDict ev) \<noteq> Inr [] then None
              else map_option (Pair \<lparr>ev_id = oe_event_id (envs rowseq), ev_type = etype,
                                     ev_occurred = milliseconds occurred\<rparr>) (encode dumps ev)))"

definition read_event :: "nat \<Rightarrow> contract \<Rightarrow> (string \<Rightarrow> text_read) \<Rightarrow> string \<Rightarrow> event_facts option" where
  "read_event n c loads body =
     (case decode loads c body of
        (None, _) \<Rightarrow> None
      | (Some d, _) \<Rightarrow>
          if validate_event n c (PDict d) \<noteq> Inr [] then None
          else (case (dict_get d ''event_id'', dict_get d ''type'', dict_get d ''occurred_at'') of
                  (PStr i, PStr t, PStr stamp) \<Rightarrow>
                    map_option (\<lambda>us. \<lparr>ev_id = i, ev_type = t, ev_occurred = milliseconds (of_int us / 1000000)\<rparr>)
                      (parse_timestamp stamp)
                | _ \<Rightarrow> None))"

definition contract_codec ::
  "nat \<Rightarrow> contract \<Rightarrow> (pydict \<Rightarrow> string) \<Rightarrow> (string \<Rightarrow> text_read) \<Rightarrow> (int \<Rightarrow> own_env) \<Rightarrow> event_codec" where
  "contract_codec n c dumps loads envs =
     \<lparr>ec_make = own_event n c dumps envs, ec_read = read_event n c loads\<rparr>"

section \<open>What the spool holds\<close>

text \<open>
  A row of the spool is the encoding of a valid event, as the agent wrote it or as
  another producer sent it, and the row's id and type are the event's.
\<close>

definition holds_event ::
  "nat \<Rightarrow> contract \<Rightarrow> (pydict \<Rightarrow> string) \<Rightarrow> (string \<Rightarrow> text_read) \<Rightarrow> pydict \<Rightarrow> string \<Rightarrow> string \<Rightarrow> string \<Rightarrow> bool" where
  "holds_event n c dumps loads ev body i t \<longleftrightarrow>
     (encode dumps ev = Some body \<or> decode loads c body = (Some ev, [])) \<and>
     validate_event n c (PDict ev) = Inr [] \<and>
     dict_get ev ''event_id'' = PStr i \<and> dict_get ev ''type'' = PStr t"

definition valid_row ::
  "nat \<Rightarrow> contract \<Rightarrow> (pydict \<Rightarrow> string) \<Rightarrow> (string \<Rightarrow> text_read) \<Rightarrow> spool_row \<Rightarrow> bool" where
  "valid_row n c dumps loads r \<longleftrightarrow>
     (\<exists>ev. holds_event n c dumps loads ev (sr_body r) (sr_event_id r) (sr_type r))"

lemma own_event_valid:
  assumes "own_event n c dumps envs p e site m k rowseq item = Some (ev, body)"
  shows "valid_row n c dumps loads (new_row seq ev body)"
proof (cases item)
  case (OwnEvent etype payload occurred corr)
  let ?ev = "make_event (envs rowseq) p e site m k rowseq etype payload occurred corr"
  have "validate_event n c (PDict ?ev) = Inr []" "encode dumps ?ev = Some body"
      "ev_id ev = oe_event_id (envs rowseq)" "ev_type ev = etype"
    using assms OwnEvent by (auto simp: own_event_def Let_def split: if_splits)
  moreover have "dict_get ?ev ''event_id'' = PStr (oe_event_id (envs rowseq))"
      "dict_get ?ev ''type'' = PStr etype"
    by (simp_all add: make_event_def dict_get_def)
  ultimately show ?thesis
    unfolding valid_row_def holds_event_def new_row_def by (intro exI [of _ ?ev]) simp
next
  case (RawEvent body)
  with assms show ?thesis by (simp add: own_event_def)
qed

lemma decode_Some: "decode loads c body = (Some d, es) \<Longrightarrow> es = []"
  by (auto simp: decode_def split: text_read.splits if_splits pyval.splits)

lemma read_event_valid:
  assumes "read_event n c loads body = Some ev"
  shows "valid_row n c dumps loads (new_row seq ev body)"
proof -
  from assms obtain d es where d: "decode loads c body = (Some d, es)" "validate_event n c (PDict d) = Inr []"
    by (auto simp: read_event_def split: prod.splits option.splits if_splits)
  with assms have "dict_get d ''event_id'' = PStr (ev_id ev)" "dict_get d ''type'' = PStr (ev_type ev)"
    by (auto simp: read_event_def split: pyval.splits)
  with d decode_Some [OF d(1)] show ?thesis
    unfolding valid_row_def holds_event_def new_row_def by (intro exI [of _ d]) simp
qed

text \<open>Appending keeps a property of rows that the codec gives to every new one.\<close>

lemma append_items_rows:
  assumes "append_items cd s items db pseq nos = Inr (db', pseq', nos')" "\<forall>r\<in>set (sd_rows db). P r"
    and "\<And>p e site m k rowseq item ev body seq.
           ec_make cd p e site m k rowseq item = Some (ev, body) \<Longrightarrow> P (new_row seq ev body)"
    and "\<And>ev body seq. ec_read cd body = Some ev \<Longrightarrow> P (new_row seq ev body)"
  shows "\<forall>r\<in>set (sd_rows db'). P r"
  using assms(1,2)
proof (induction items arbitrary: db pseq nos)
  case (Cons item items)
  obtain ev body db1 p1 where step:
    "insert_row ev body db = Inr db1"
    "append_items cd s items db1 p1 (nos @ [sd_sequence db + 1]) = Inr (db', pseq', nos')"
    "P (new_row (sd_sequence db + 1) ev body)"
    using Cons.prems(1) assms(3,4)
    by (cases item) (auto simp: Let_def split: option.splits prod.splits sum.splits)
  have "\<forall>r\<in>set (sd_rows db1). P r" using insert_row_Inr(1) [OF step(1)] step(3) Cons.prems(2) by auto
  from Cons.IH [OF step(2) this] show ?case .
qed simp

lemma valid_row_states [simp]:
  "valid_row n c dumps loads (r\<lparr>sr_state := st, sr_acked_at := at'\<rparr>) = valid_row n c dumps loads r"
  "valid_row n c dumps loads (r\<lparr>sr_state := st, sr_acked_at := at', sr_reason := why\<rparr>) = valid_row n c dumps loads r"
  by (simp_all add: valid_row_def)

definition rows_valid ::
  "nat \<Rightarrow> contract \<Rightarrow> (pydict \<Rightarrow> string) \<Rightarrow> (string \<Rightarrow> text_read) \<Rightarrow> spool \<Rightarrow> bool" where
  "rows_valid n c dumps loads s \<longleftrightarrow> (\<forall>r\<in>set (sd_rows (sp_db s)). valid_row n c dumps loads r)"

text \<open>One operation on the spool, with what a new event takes from outside during it.\<close>

definition contract_step ::
  "nat \<Rightarrow> contract \<Rightarrow> (pydict \<Rightarrow> string) \<Rightarrow> (string \<Rightarrow> text_read) \<Rightarrow> (string \<Rightarrow> string option) \<Rightarrow>
   spool \<Rightarrow> (int \<Rightarrow> own_env) \<times> spool_op \<Rightarrow> spool" where
  "contract_step n c dumps loads site_of s x =
     spool_step (contract_codec n c dumps loads (fst x)) site_of s (snd x)"

lemma contract_step_valid:
  assumes "rows_valid n c dumps loads s"
  shows "rows_valid n c dumps loads (contract_step n c dumps loads site_of s (envs, op))"
proof (cases op)
  case (OpAppend env items cursor force)
  let ?cd = "contract_codec n c dumps loads envs"
  show ?thesis
  proof (cases rule: append_locked_cases
      [where cd = ?cd and env = env and items = items and cursor = cursor and force = force and s = s])
    case (refused e full)
    with assms OpAppend show ?thesis by (simp add: contract_step_def rows_valid_def)
  next
    case (stored db pseq nos s')
    have "\<forall>r\<in>set (sd_rows db). valid_row n c dumps loads r"
      by (rule append_items_rows [OF stored(1)])
        (use assms own_event_valid read_event_valid in \<open>auto simp: rows_valid_def contract_codec_def\<close>)
    with stored OpAppend show ?thesis
      by (auto simp: contract_step_def rows_valid_def set_cursor_def split: option.split prod.split)
  qed
qed (use assms in \<open>auto simp: contract_step_def rows_valid_def mark_acked_def ack_row_def spool_prune_def
       drop_waiting_for_other_site_def drop_row_def set_site_id_def Let_def\<close>)

interpretation cs: invariant_machine "contract_step n c dumps loads site_of" "rows_valid n c dumps loads"
  for n c dumps loads site_of
  by unfold_locales (metis contract_step_valid surj_pair)

text \<open>
  C9: the spool holds nothing but events of the contract. After any operations on a new
  spool - appends of the agent's own or of MillWright's events, restarts, pruning,
  re-enrolment - every row is a valid event as encoded, under its own id and type.
\<close>

theorem spool_holds_valid_events:
  assumes "r \<in> set (sd_rows (sp_db
      (foldl (contract_step n c dumps loads site_of) (open_spool b m fp fe spool_db_empty side bytes) ops)))"
  shows "\<exists>ev. (encode dumps ev = Some (sr_body r) \<or> decode loads c (sr_body r) = (Some ev, [])) \<and>
    validate_event n c (PDict ev) = Inr [] \<and>
    dict_get ev ''event_id'' = PStr (sr_event_id r) \<and> dict_get ev ''type'' = PStr (sr_type r)"
proof -
  have "rows_valid n c dumps loads (open_spool b m fp fe spool_db_empty side bytes)"
    by (simp add: rows_valid_def spool_db_empty_def)
  from cs.run_inv [OF this] assms show ?thesis by (auto simp: rows_valid_def valid_row_def holds_event_def)
qed

definition open_contract :: contract where
  "open_contract =
     \<lparr>ct_envelope = Flat True, ct_envelope_defs = [],
      ct_types = [(''program.version'',
        \<lparr>ti_producers = [''agent''], ti_requires = [], ti_schema = Flat True, ti_defs = []\<rparr>)],
      ct_max_event_bytes = 16384, ct_max_raw_bytes = 4096\<rparr>"

definition sent_event :: pydict where
  "sent_event =
     [(''event_id'', PStr ''e''), (''type'', PStr ''program.version''), (''occurred_at'', PStr ''0001-01-01T00:00:01Z'')]"

definition one_append :: "(int \<Rightarrow> own_env) \<times> spool_op" where
  "one_append =
     (\<lambda>_. \<lparr>oe_event_id = ''e'', oe_synced = True, oe_boot_id = ''b'', oe_mono_ms = 0, oe_version = ''1''\<rparr>,
      OpAppend \<lparr>so_bytes = 0, so_commit_ok = True, so_sidecar_ok = True, so_bytes_after = 0\<rparr>
        [RawEvent ''{}''] None False)"

lemma sent_event_read:
  "read_event 2 open_contract (\<lambda>_. Loaded (PDict sent_event) False) ''{}'' =
     Some \<lparr>ev_id = ''e'', ev_type = ''program.version'', ev_occurred = - 62135596799000\<rparr>"
proof -
  have at: "parse_timestamp ''0001-01-01T00:00:01Z'' = Some (- 62135596799000000)" by code_simp
  have "validate_event 2 open_contract (PDict sent_event) = Inr []" by code_simp
  then show "read_event 2 open_contract (\<lambda>_. Loaded (PDict sent_event) False) ''{}'' =
      Some \<lparr>ev_id = ''e'', ev_type = ''program.version'', ev_occurred = - 62135596799000\<rparr>"
    using at round_half_even_of_int [of "- 62135596799000"]
    by (simp add: read_event_def decode_def open_contract_def sent_event_def dict_get_def milliseconds_def)
qed

lemma spool_holds_valid_events_witness:
  "\<exists>ev. (encode (\<lambda>_. ''[]'') ev = Some ''{}'' \<or>
        decode (\<lambda>_. Loaded (PDict sent_event) False) open_contract ''{}'' = (Some ev, [])) \<and>
     validate_event 2 open_contract (PDict ev) = Inr [] \<and>
     dict_get ev ''event_id'' = PStr ''e'' \<and> dict_get ev ''type'' = PStr ''program.version''"
proof -
  let ?spool = "foldl (contract_step 2 open_contract (\<lambda>_. ''[]'') (\<lambda>_. Loaded (PDict sent_event) False) (\<lambda>_. None))
      (open_spool 100 ''m'' ''p'' ''q'' spool_db_empty None 0) [one_append]"
  let ?r = "\<lparr>sr_seq = 1, sr_event_id = ''e'', sr_type = ''program.version'', sr_occurred_at = - 62135596799000,
      sr_body = ''{}'', sr_state = Pending, sr_acked_at = None, sr_reason = None\<rparr>"
  have "?r \<in> set (sd_rows (sp_db ?spool))"
    using sent_event_read
    by (simp add: contract_step_def one_append_def append_locked_def append_tx_def contract_codec_def
        open_spool_def spool_db_empty_def insert_row_def new_row_def set_cursor_def Let_def)
  from spool_holds_valid_events [OF this] show ?thesis by simp
qed

end
