(* ===== verification/Contract_V1.thy ===== *)
theory Contract_V1
  imports Mes_Contract
begin

text \<open>
  The schemas of contract \<open>fw.mes.event/1\<close> that the agent's own cycle events are checked
  against (\<open>envelope.schema.json\<close>, \<open>events/cycle.observed.schema.json\<close>), and that the
  events it makes are accepted.
\<close>

section \<open>Schemas\<close>

text \<open>\<open>envelope.schema.json\<close> and the payload schemas of the agent's own events.\<close>

definition ref_to :: "string \<Rightarrow> schema" where
  "ref_to name = Keywords (Some (''#/$defs/'' @ name)) None no_rules None [] None None"

definition either :: "schema list \<Rightarrow> schema" where
  "either bs = Keywords None (Some bs) no_rules None [] None None"

definition plain :: "leaf_rules \<Rightarrow> schema" where
  "plain rules = Keywords None None rules None [] None None"

definition object_with :: "string list \<Rightarrow> (string \<times> schema) list \<Rightarrow> schema" where
  "object_with required props =
     Keywords None None (no_rules\<lparr>lr_types := Some [''object''], lr_required := required\<rparr>) None props None None"

definition typed :: "string \<Rightarrow> leaf_rules" where
  "typed name = no_rules\<lparr>lr_types := Some [name]\<rparr>"

definition one_value :: "string list \<Rightarrow> leaf_rules" where
  "one_value vs = no_rules\<lparr>lr_enum := Some (map PStr vs)\<rparr>"

definition whole_from :: "rat \<Rightarrow> leaf_rules" where
  "whole_from lo = (typed ''integer'')\<lparr>lr_minimum := Some lo, lr_maximum := Some 9007199254740991\<rparr>"

definition type_name_re :: rx where
  "type_name_re =
     (let low = is_lower; tail = Many (\<lambda>c. is_lower c \<or> c = CHR ''_'')
      in seqs [AtStart, Cls low, tail, one_of ''.'', Cls low, tail, AtEnd])"

definition is_boot_char :: "char \<Rightarrow> bool" where
  "is_boot_char c \<longleftrightarrow> is_alpha c \<or> is_digit c \<or> c \<in> set ''_.:-''"

definition boot_id_re :: rx where
  "boot_id_re = seqs [AtStart, Cls is_boot_char, Many is_boot_char, AtEnd]"

definition uuid_schema :: schema where
  "uuid_schema = plain ((typed ''string'')\<lparr>lr_pattern :=
     Some (''^[0-9a-f]{8}-[0-9a-f]{4}-4[0-9a-f]{3}-[89ab][0-9a-f]{3}-[0-9a-f]{12}$'', uuid4_re)\<rparr>)"

definition timestamp_schema :: schema where
  "timestamp_schema = plain ((typed ''string'')\<lparr>lr_pattern :=
     Some (''^[0-9]{4}-[0-9]{2}-[0-9]{2}T[0-9]{2}:[0-9]{2}:[0-9]{2}('' @ [CHR 0x5C] @ ''.[0-9]{1,6})?Z$'', stamp_re)\<rparr>)"

definition envelope_defs :: defs where
  "envelope_defs =
     [(''uuid'', uuid_schema),
      (''uuid_or_null'', either [ref_to ''uuid'', plain (typed ''null'')]),
      (''timestamp'', timestamp_schema)]"

definition text_between :: "int \<Rightarrow> int \<Rightarrow> leaf_rules" where
  "text_between lo hi = (typed ''string'')\<lparr>lr_min_length := Some lo, lr_max_length := Some hi\<rparr>"

definition envelope_schema :: schema where
  "envelope_schema =
     object_with [''schema'', ''event_id'', ''type'', ''producer'', ''site_id'', ''machine_id'',
                  ''occurred_at'', ''clock'', ''correlation'', ''source'', ''payload'']
       [(''schema'', plain (no_rules\<lparr>lr_const := Some (PStr ''fw.mes.event/1'')\<rparr>)),
        (''event_id'', ref_to ''uuid''),
        (''type'', plain ((typed ''string'')\<lparr>lr_pattern := Some (''^[a-z][a-z_]*'' @ [CHR 0x5C] @ ''.[a-z][a-z_]*$'', type_name_re),
                                            lr_max_length := Some 64\<rparr>)),
        (''producer'',
         object_with [''kind'', ''id'', ''epoch'', ''seq'']
           [(''kind'', plain (one_value [''agent'', ''millwright'', ''service''])),
            (''id'', ref_to ''uuid''), (''epoch'', ref_to ''uuid''), (''seq'', plain (whole_from 1))]),
        (''site_id'', ref_to ''uuid_or_null''),
        (''machine_id'', ref_to ''uuid_or_null''),
        (''station_id'', ref_to ''uuid_or_null''),
        (''occurred_at'', ref_to ''timestamp''),
        (''clock'',
         object_with [''synced'', ''boot_id'', ''mono_ms'']
           [(''synced'', plain (typed ''boolean'')),
            (''boot_id'', plain ((text_between 1 64)\<lparr>lr_pattern := Some (''^[0-9A-Za-z_.:-]+$'', boot_id_re)\<rparr>)),
            (''mono_ms'', plain (whole_from 0))]),
        (''correlation'',
         object_with [''execution_id'', ''scan_id'', ''operator_session_id'']
           [(''execution_id'', ref_to ''uuid_or_null''), (''scan_id'', ref_to ''uuid_or_null''),
            (''operator_session_id'', ref_to ''uuid_or_null'')]),
        (''source'',
         object_with [''app'', ''version'']
           [(''app'', plain (text_between 1 64)), (''version'', plain (text_between 1 32)),
            (''record'', plain ((typed ''string'')\<lparr>lr_max_length := Some 128\<rparr>))]),
        (''payload'', plain (typed ''object''))]"

definition cycle_observed_info :: type_info where
  "cycle_observed_info =
     \<lparr>ti_producers = [''agent''], ti_requires = [''execution_id''],
      ti_schema =
        object_with [''started_at'', ''ended_at'', ''outcome'', ''program_path'', ''correlation_method'']
          [(''started_at'', ref_to ''timestamp''), (''ended_at'', ref_to ''timestamp''),
           (''outcome'', plain (one_value [''completed'', ''aborted'', ''unknown''])),
           (''program_path'', either [ref_to ''path'', plain (typed ''null'')]),
           (''correlation_method'', plain (one_value [''explicit'', ''time_window'', ''none'']))],
      ti_defs = [(''timestamp'', timestamp_schema), (''path'', plain (text_between 1 1024))]\<rparr>"

section \<open>Accepting values\<close>

lemma accepts_plain: "leaf_valid rules v \<Longrightarrow> accepts defs v (plain rules)"
  unfolding plain_def by (rule accepts.full) simp_all

lemma accepts_ref_to: "map_of defs name = Some t \<Longrightarrow> accepts defs v t \<Longrightarrow> accepts defs v (ref_to name)"
  unfolding ref_to_def by (rule accepts.ref) (simp add: resolve_def)

lemma leaf_valid_no_rules [simp]: "leaf_valid no_rules v"
  by (simp add: leaf_valid_def no_rules_def in_bounds_def)

lemma accepts_either: "b \<in> set bs \<Longrightarrow> accepts defs v b \<Longrightarrow> accepts defs v (either bs)"
  unfolding either_def by (rule accepts.full) auto

lemma accepts_object:
  assumes "\<forall>k\<in>set required. map_of d k \<noteq> None"
    and "\<And>k x p. (k, x) \<in> set d \<Longrightarrow> map_of props k = Some p \<Longrightarrow> accepts defs x p"
  shows "accepts defs (PDict d) (object_with required props)"
  unfolding object_with_def
proof (rule accepts.full)
  show "leaf_valid (no_rules\<lparr>lr_types := Some [''object''], lr_required := required\<rparr>) (PDict d)"
    using assms(1) by (simp add: leaf_valid_def no_rules_def in_bounds_def is_type_def is_dict_def numeric_def)
  show "\<forall>d'. PDict d = PDict d' \<longrightarrow>
     (\<forall>kv\<in>set d'. (\<forall>nm. None = Some nm \<longrightarrow> accepts defs (PStr (fst kv)) nm) \<and>
        (\<forall>p. map_of props (fst kv) = Some p \<longrightarrow> accepts defs (snd kv) p) \<and>
        (\<forall>e. map_of props (fst kv) = None \<longrightarrow> None = Some e \<longrightarrow> accepts defs (snd kv) e))"
    using assms(2) by auto
qed simp_all

lemma accepts_text:
  "in_bounds (int (length s)) (lr_min_length r) (lr_max_length r) \<Longrightarrow>
   lr_types r = Some [''string''] \<Longrightarrow> lr_const r = None \<Longrightarrow> lr_enum r = None \<Longrightarrow>
   (\<forall>txt rx. lr_pattern r = Some (txt, rx) \<longrightarrow> rx_match rx s \<and> last_opt s \<noteq> Some (CHR 0x0A)) \<Longrightarrow>
   accepts defs (PStr s) (plain r)"
  by (rule accepts_plain, cases s)
    (auto simp: leaf_valid_def is_type_def numeric_def rx_search_def rx_match_def)

lemma accepts_null: "accepts defs PNone (plain (typed ''null''))"
  by (rule accepts_plain) (simp add: leaf_valid_def typed_def no_rules_def is_type_def numeric_def)

lemma accepts_bool: "accepts defs (PBool b) (plain (typed ''boolean''))"
  by (rule accepts_plain) (simp add: leaf_valid_def typed_def no_rules_def is_type_def numeric_def)

lemma accepts_whole:
  "lo \<le> of_int k \<Longrightarrow> k \<le> 9007199254740991 \<Longrightarrow> accepts defs (PInt k) (plain (whole_from lo))"
proof (rule accepts_plain)
  assume a: "lo \<le> of_int k" "k \<le> 9007199254740991"
  then have "(of_int k :: rat) \<le> of_int 9007199254740991" by (simp only: of_int_le_iff)
  with a show "leaf_valid (whole_from lo) (PInt k)"
    by (simp add: leaf_valid_def whole_from_def typed_def no_rules_def is_type_def numeric_def below_def above_def)
qed

lemma accepts_one: "s \<in> set vs \<Longrightarrow> accepts defs (PStr s) (plain (one_value vs))"
  by (rule accepts_plain)
    (auto simp: leaf_valid_def one_value_def no_rules_def numeric_def in_bounds_def)

lemma accepts_const: "accepts defs (PStr s) (plain (no_rules\<lparr>lr_const := Some (PStr s)\<rparr>))"
  by (rule accepts_plain) (simp add: leaf_valid_def no_rules_def numeric_def in_bounds_def)

section \<open>Ids and texts\<close>

text \<open>A proper id: the pattern, with nothing after it.\<close>

definition uuid4 :: "string \<Rightarrow> bool" where
  "uuid4 s \<longleftrightarrow> uuid4_match s \<and> last_opt s \<noteq> Some (CHR 0x0A)"

definition uuid4_or_none :: "string option \<Rightarrow> bool" where
  "uuid4_or_none v = (case v of None \<Rightarrow> True | Some s \<Rightarrow> uuid4 s)"

lemma accepts_uuid: "uuid4 s \<Longrightarrow> accepts defs (PStr s) uuid_schema"
  unfolding uuid_schema_def
  by (rule accepts_text) (auto simp: typed_def no_rules_def in_bounds_def uuid4_def uuid4_match_def)

lemma accepts_stamp:
  assumes "stamp_match s" "last_opt s \<noteq> Some (CHR 0x0A)"
  shows "accepts defs (PStr s) timestamp_schema"
  unfolding timestamp_schema_def
  by (rule accepts_text) (use assms in \<open>auto simp: typed_def no_rules_def in_bounds_def stamp_match_def\<close>)

lemma accepts_uuid_ref: "uuid4 s \<Longrightarrow> accepts envelope_defs (PStr s) (ref_to ''uuid'')"
  by (rule accepts_ref_to [of _ _ uuid_schema]) (simp_all add: envelope_defs_def accepts_uuid)

lemma accepts_uuid_or_null: "uuid4_or_none v \<Longrightarrow> accepts envelope_defs (opt_str v) (ref_to ''uuid_or_null'')"
proof (rule accepts_ref_to)
  show "map_of envelope_defs ''uuid_or_null'' = Some (either [ref_to ''uuid'', plain (typed ''null'')])"
    by (simp add: envelope_defs_def)
  assume "uuid4_or_none v"
  then show "accepts envelope_defs (opt_str v) (either [ref_to ''uuid'', plain (typed ''null'')])"
  proof (cases v)
    case None
    have "accepts envelope_defs PNone (either [ref_to ''uuid'', plain (typed ''null'')])"
      by (rule accepts_either [OF _ accepts_null]) simp
    with None show ?thesis by (simp add: opt_str_def)
  next
    case (Some s)
    assume "uuid4_or_none v"
    with Some have "accepts envelope_defs (PStr s) (ref_to ''uuid'')"
      by (simp add: uuid4_or_none_def accepts_uuid_ref)
    then have "accepts envelope_defs (PStr s) (either [ref_to ''uuid'', plain (typed ''null'')])"
      by (rule accepts_either [rotated]) simp
    with Some show ?thesis by (simp add: opt_str_def)
  qed
qed

definition boot_id_ok :: "string \<Rightarrow> bool" where
  "boot_id_ok s \<longleftrightarrow> s \<noteq> [] \<and> length s \<le> 64 \<and> list_all is_boot_char s"

lemma many_run_all: "list_all P s \<Longrightarrow> \<exists>q. (q, []) \<in> set (many_run P prev s)"
  by (induction s arbitrary: prev) auto

lemma boot_id_match:
  assumes "boot_id_ok s"
  shows "rx_match boot_id_re s" "last_opt s \<noteq> Some (CHR 0x0A)"
proof -
  obtain c cs where s: "s = c # cs" "is_boot_char c" "list_all is_boot_char cs"
    using assms by (cases s) (auto simp: boot_id_ok_def)
  obtain q where "(q, []) \<in> set (many_run is_boot_char (Some c) cs)" using many_run_all [OF s(3)] by blast
  then have "(q, []) \<in> set (rx_run boot_id_re (None, s))" using s(2) by (simp add: boot_id_re_def s(1))
  then show "rx_match boot_id_re s" unfolding rx_match_def by auto
  have "\<not> is_boot_char (CHR 0x0A)" by code_simp
  then show "last_opt s \<noteq> Some (CHR 0x0A)"
    using assms last_opt_in_set [of s] by (auto simp: boot_id_ok_def list_all_iff)
qed

lemma length_decimal: "n < 10 ^ Suc k \<Longrightarrow> length (decimal n) \<le> Suc k"
proof (induction k arbitrary: n)
  case 0
  then show ?case by (simp add: decimal.simps)
next
  case (Suc k)
  show ?case
  proof (cases "n < 10")
    case False
    have "n div 10 < 10 ^ Suc k" using Suc.prems by (simp add: div_less_iff_less_mult)
    from Suc.IH [OF this] False show ?thesis by (subst decimal.simps) simp
  qed (simp add: decimal.simps)
qed

section \<open>The agent's cycle events\<close>

text \<open>What an event needs from outside, and from the spool, to be accepted.\<close>

definition own_env_ok :: "own_env \<Rightarrow> bool" where
  "own_env_ok env \<longleftrightarrow>
     uuid4 (oe_event_id env) \<and> boot_id_ok (oe_boot_id env) \<and>
     0 \<le> oe_mono_ms env \<and> oe_mono_ms env \<le> 9007199254740991 \<and>
     oe_version env \<noteq> [] \<and> length (oe_version env) \<le> 32"

definition time_ok :: "rat \<Rightarrow> bool" where
  "time_ok ts \<longleftrightarrow> 0 \<le> ts \<and> nat (round_half_even (ts * 1000)) div 1000 div 86400 < day_limit"

definition origin_ok :: "string \<Rightarrow> string \<Rightarrow> string option \<Rightarrow> string \<Rightarrow> int \<Rightarrow> int \<Rightarrow> bool" where
  "origin_ok producer epoch site machine seq rowseq \<longleftrightarrow>
     uuid4 producer \<and> uuid4 epoch \<and> uuid4_or_none site \<and> uuid4 machine \<and>
     1 \<le> seq \<and> seq \<le> 9007199254740991 \<and> nat rowseq < 10 ^ 19"

definition cycle_correlation :: "string \<Rightarrow> string option \<Rightarrow> pyval" where
  "cycle_correlation execution operator =
     PDict [(''execution_id'', PStr execution), (''operator_session_id'', opt_str operator)]"

lemma correlate_cycle:
  "correlate (cycle_correlation execution operator) =
     [(''execution_id'', PStr execution), (''scan_id'', PNone), (''operator_session_id'', opt_str operator)]"
  by (simp add: correlate_def cycle_correlation_def dict_or_empty_def no_correlation_def)

lemma accepts_stamp_ref:
  "time_ok ts \<Longrightarrow> map_of defs ''timestamp'' = Some timestamp_schema \<Longrightarrow>
   accepts defs (PStr (utc_text ts)) (ref_to ''timestamp'')"
  by (rule accepts_ref_to, assumption, rule accepts_stamp)
    (simp_all add: utc_text_shape time_ok_def)

lemma accepts_short_text:
  "lo \<le> int (length s) \<Longrightarrow> int (length s) \<le> hi \<Longrightarrow> accepts defs (PStr s) (plain (text_between lo hi))"
  by (rule accepts_text) (simp_all add: text_between_def typed_def no_rules_def in_bounds_def)

lemma accepts_producer:
  assumes "uuid4 producer" "uuid4 epoch" "1 \<le> seq" "seq \<le> 9007199254740991"
  shows "accepts envelope_defs (PDict [(''kind'', PStr ''agent''), (''id'', PStr producer), (''epoch'', PStr epoch),
      (''seq'', PInt seq)])
    (object_with [''kind'', ''id'', ''epoch'', ''seq'']
       [(''kind'', plain (one_value [''agent'', ''millwright'', ''service''])),
        (''id'', ref_to ''uuid''), (''epoch'', ref_to ''uuid''), (''seq'', plain (whole_from 1))])"
  by (rule accepts_object)
    (use assms in \<open>auto simp: accepts_uuid_ref accepts_whole accepts_one split: if_splits\<close>)

lemma accepts_clock:
  assumes "own_env_ok env"
  shows "accepts envelope_defs (PDict [(''synced'', PBool (oe_synced env)), (''boot_id'', PStr (oe_boot_id env)),
      (''mono_ms'', PInt (oe_mono_ms env))])
    (object_with [''synced'', ''boot_id'', ''mono_ms'']
       [(''synced'', plain (typed ''boolean'')),
        (''boot_id'', plain ((text_between 1 64)\<lparr>lr_pattern := Some (''^[0-9A-Za-z_.:-]+$'', boot_id_re)\<rparr>)),
        (''mono_ms'', plain (whole_from 0))])"
proof -
  have b: "boot_id_ok (oe_boot_id env)" using assms by (simp add: own_env_ok_def)
  then have len: "1 \<le> int (length (oe_boot_id env))" "int (length (oe_boot_id env)) \<le> 64"
    by (auto simp: boot_id_ok_def Suc_le_eq neq_Nil_conv)
  have "accepts envelope_defs (PStr (oe_boot_id env))
      (plain ((text_between 1 64)\<lparr>lr_pattern := Some (''^[0-9A-Za-z_.:-]+$'', boot_id_re)\<rparr>))"
    by (rule accepts_text)
      (use boot_id_match [OF b] len in \<open>simp_all add: text_between_def typed_def no_rules_def in_bounds_def\<close>)
  moreover have "accepts envelope_defs (PInt (oe_mono_ms env)) (plain (whole_from 0))"
    using assms by (intro accepts_whole) (simp_all add: own_env_ok_def)
  ultimately show ?thesis
    by (intro accepts_object) (auto simp: accepts_bool split: if_splits)
qed

lemma accepts_correlation:
  assumes "uuid4 execution" "uuid4_or_none operator"
  shows "accepts envelope_defs (PDict (correlate (cycle_correlation execution operator)))
    (object_with [''execution_id'', ''scan_id'', ''operator_session_id'']
       [(''execution_id'', ref_to ''uuid_or_null''), (''scan_id'', ref_to ''uuid_or_null''),
        (''operator_session_id'', ref_to ''uuid_or_null'')])"
proof -
  have "accepts envelope_defs (PStr execution) (ref_to ''uuid_or_null'')"
    using accepts_uuid_or_null [of "Some execution"] assms(1) by (simp add: uuid4_or_none_def opt_str_def)
  moreover have "accepts envelope_defs PNone (ref_to ''uuid_or_null'')"
    using accepts_uuid_or_null [of None] by (simp add: uuid4_or_none_def opt_str_def)
  moreover note accepts_uuid_or_null [OF assms(2)]
  ultimately show ?thesis
    unfolding correlate_cycle by (intro accepts_object) (auto split: if_splits)
qed

lemma accepts_source:
  assumes "own_env_ok env" "nat rowseq < 10 ^ 19"
  shows "accepts envelope_defs (PDict [(''app'', PStr app_name), (''version'', PStr (oe_version env)),
      (''record'', PStr (''spool:'' @ decimal (nat rowseq)))])
    (object_with [''app'', ''version'']
       [(''app'', plain (text_between 1 64)), (''version'', plain (text_between 1 32)),
        (''record'', plain ((typed ''string'')\<lparr>lr_max_length := Some 128\<rparr>))])"
proof -
  have "1 \<le> int (length (oe_version env))" "int (length (oe_version env)) \<le> 32"
    using assms(1) by (cases "oe_version env"; simp add: own_env_ok_def)+
  then have "accepts envelope_defs (PStr (oe_version env)) (plain (text_between 1 32))"
    by (rule accepts_short_text)
  moreover have "accepts envelope_defs (PStr app_name) (plain (text_between 1 64))"
    by (rule accepts_short_text) (simp_all add: app_name_def)
  moreover have "accepts envelope_defs (PStr (''spool:'' @ decimal (nat rowseq)))
      (plain ((typed ''string'')\<lparr>lr_max_length := Some 128\<rparr>))"
  proof (rule accepts_text)
    have "length (decimal (nat rowseq)) \<le> Suc 18" by (rule length_decimal) (use assms(2) in simp)
    then show "in_bounds (int (length (''spool:'' @ decimal (nat rowseq))))
       (lr_min_length (typed ''string''\<lparr>lr_max_length := Some 128\<rparr>))
       (lr_max_length (typed ''string''\<lparr>lr_max_length := Some 128\<rparr>))"
      by (simp add: in_bounds_def typed_def no_rules_def)
  qed (simp_all add: typed_def no_rules_def)
  ultimately show ?thesis
    by (intro accepts_object) (auto split: if_splits)
qed

definition cycle_payload_of :: "rat \<Rightarrow> rat \<Rightarrow> string \<Rightarrow> string option \<Rightarrow> string \<Rightarrow> pydict" where
  "cycle_payload_of started ended outcome path how =
     [(''started_at'', PStr (utc_text started)), (''ended_at'', PStr (utc_text ended)),
      (''outcome'', PStr outcome), (''program_path'', opt_str path), (''correlation_method'', PStr how)]"

definition path_ok :: "string option \<Rightarrow> bool" where
  "path_ok path = (case path of None \<Rightarrow> True | Some p \<Rightarrow> p \<noteq> [] \<and> length p \<le> 1024)"

lemma envelope_accepts:
  assumes "own_env_ok env" "origin_ok producer epoch site machine seq rowseq" "time_ok occurred"
    and "uuid4 execution" "uuid4_or_none operator"
  shows "accepts envelope_defs (PDict (make_event env producer epoch site machine seq rowseq
      ''cycle.observed'' (PDict payload) occurred (cycle_correlation execution operator))) envelope_schema"
proof -
  have o: "uuid4 producer" "uuid4 epoch" "uuid4_or_none site" "uuid4 machine" "1 \<le> seq"
      "seq \<le> 9007199254740991" "nat rowseq < 10 ^ 19"
    using assms(2) by (simp_all add: origin_ok_def)
  have e: "uuid4 (oe_event_id env)" using assms(1) by (simp add: own_env_ok_def)
  have m: "accepts envelope_defs (PStr machine) (ref_to ''uuid_or_null'')"
    using accepts_uuid_or_null [of "Some machine"] o(4) by (simp add: uuid4_or_none_def opt_str_def)
  have t: "accepts envelope_defs (PStr (utc_text occurred)) (ref_to ''timestamp'')"
    by (rule accepts_stamp_ref [OF assms(3)]) (simp add: envelope_defs_def)
  have ty: "accepts envelope_defs (PStr ''cycle.observed'')
      (plain ((typed ''string'')\<lparr>lr_pattern := Some (''^[a-z][a-z_]*'' @ [CHR 0x5C] @ ''.[a-z][a-z_]*$'', type_name_re),
                                 lr_max_length := Some 64\<rparr>))"
  proof (rule accepts_text)
    have "rx_match type_name_re ''cycle.observed''" by code_simp
    then show "\<forall>txt rx. lr_pattern ((typed ''string'')\<lparr>lr_pattern := Some (''^[a-z][a-z_]*'' @ [CHR 0x5C] @ ''.[a-z][a-z_]*$'', type_name_re),
                                 lr_max_length := Some 64\<rparr>) = Some (txt, rx) \<longrightarrow>
        rx_match rx ''cycle.observed'' \<and> last_opt ''cycle.observed'' \<noteq> Some (CHR 0x0A)"
      by (simp add: last_opt_def)
  qed (simp_all add: typed_def no_rules_def in_bounds_def)
  have p: "accepts envelope_defs (PDict payload) (plain (typed ''object''))"
    by (rule accepts_plain) (simp add: leaf_valid_def typed_def no_rules_def is_type_def is_dict_def numeric_def)
  note parts = accepts_producer [OF o(1,2,5,6)] accepts_clock [OF assms(1)]
    accepts_correlation [OF assms(4,5)] accepts_source [OF assms(1) o(7)]
    accepts_uuid_ref [OF e] accepts_uuid_or_null [OF o(3)] m t ty p accepts_const
  show ?thesis
    unfolding make_event_def envelope_schema_def
    by (rule accepts_object) (use parts in \<open>auto simp del: of_nat_le_iff split: if_splits\<close>)
qed

lemma cycle_payload_accepts:
  assumes "time_ok started" "time_ok ended" "outcome \<in> set [''completed'', ''aborted'', ''unknown'']"
    and "path_ok path" "how \<in> set [''explicit'', ''time_window'', ''none'']"
  shows "accepts (ti_defs cycle_observed_info) (PDict (cycle_payload_of started ended outcome path how))
    (ti_schema cycle_observed_info)"
proof -
  let ?defs = "ti_defs cycle_observed_info"
  have d: "map_of ?defs ''timestamp'' = Some timestamp_schema"
      "map_of ?defs ''path'' = Some (plain (text_between 1 1024))"
    by (simp_all add: cycle_observed_info_def)
  have "accepts ?defs (opt_str path) (either [ref_to ''path'', plain (typed ''null'')])"
  proof (cases path)
    case None
    have "accepts ?defs PNone (either [ref_to ''path'', plain (typed ''null'')])"
      by (rule accepts_either [OF _ accepts_null]) simp
    with None show ?thesis by (simp add: opt_str_def)
  next
    case (Some p)
    then have "accepts ?defs (PStr p) (plain (text_between 1 1024))"
      using assms(4) by (intro accepts_short_text) (auto simp: path_ok_def Suc_le_eq)
    then have "accepts ?defs (PStr p) (ref_to ''path'')" by (rule accepts_ref_to [OF d(2)])
    then have "accepts ?defs (PStr p) (either [ref_to ''path'', plain (typed ''null'')])"
      by (rule accepts_either [rotated]) simp
    with Some show ?thesis by (simp add: opt_str_def)
  qed
  note parts = this accepts_stamp_ref [OF assms(1) d(1)] accepts_stamp_ref [OF assms(2) d(1)]
    accepts_one [OF assms(3)] accepts_one [OF assms(5)]
  have s: "ti_schema cycle_observed_info =
      object_with [''started_at'', ''ended_at'', ''outcome'', ''program_path'', ''correlation_method'']
          [(''started_at'', ref_to ''timestamp''), (''ended_at'', ref_to ''timestamp''),
           (''outcome'', plain (one_value [''completed'', ''aborted'', ''unknown''])),
           (''program_path'', either [ref_to ''path'', plain (typed ''null'')]),
           (''correlation_method'', plain (one_value [''explicit'', ''time_window'', ''none'']))]"
    by (simp add: cycle_observed_info_def)
  show ?thesis
    unfolding s cycle_payload_of_def
    by (rule accepts_object) (use parts in \<open>auto split: if_splits\<close>)
qed

text \<open>The recursion of the checker on these schemas: ten nested calls are enough.\<close>

lemma envelope_check:
  assumes "10 \<le> n" "accepts envelope_defs v envelope_schema"
  shows "schema_errors n envelope_defs v envelope_schema path = Inr []"
proof (rule schema_errors_accepts [where rank = "\<lambda>name. if name = ''uuid_or_null'' then 1 else 0"
      and bound = 2 and k = 2])
  show "defs_ok envelope_defs (\<lambda>name. if name = ''uuid_or_null'' then 1 else 0) 2" by code_simp
  show "schema_ok envelope_defs (\<lambda>name. if name = ''uuid_or_null'' then 1 else 0) 2 envelope_schema" by code_simp
  have "depth envelope_schema = 3" by code_simp
  with assms(1) show "depth envelope_schema + 2 * Suc 2 < n" by simp
qed (rule assms(2))

lemma cycle_observed_check:
  assumes "10 \<le> n" "accepts (ti_defs cycle_observed_info) v (ti_schema cycle_observed_info)"
  shows "schema_errors n (ti_defs cycle_observed_info) v (ti_schema cycle_observed_info) path = Inr []"
proof (rule schema_errors_accepts [where rank = "\<lambda>_. 0" and bound = 1 and k = 1])
  show "defs_ok (ti_defs cycle_observed_info) (\<lambda>_. 0) 1" by code_simp
  show "schema_ok (ti_defs cycle_observed_info) (\<lambda>_. 0) 1 (ti_schema cycle_observed_info)" by code_simp
  have "depth (ti_schema cycle_observed_info) = 3" by code_simp
  with assms(1) show "depth (ti_schema cycle_observed_info) + 1 * Suc 1 < n" by simp
qed (rule assms(2))

text \<open>A contract with this envelope and this event type; the other types may be anything.\<close>

definition speaks_v1 :: "contract \<Rightarrow> bool" where
  "speaks_v1 c \<longleftrightarrow>
     ct_envelope c = envelope_schema \<and> ct_envelope_defs c = envelope_defs \<and>
     map_of (ct_types c) ''cycle.observed'' = Some cycle_observed_info"

lemma field_time_utc:
  assumes "time_ok ts" "dict_get p name = PStr (utc_text ts)" "name \<in> {''started_at'', ''ended_at''}"
  shows "field_time ''cycle.observed'' p name = Some (round_half_even (ts * 1000) * 1000)"
  using assms utc_text_shape [of ts] utc_text_read [of ts]
  by (auto simp: field_time_def timestamp_fields_def shaped_time_def time_ok_def)

lemma cycle_payload_rules:
  assumes "time_ok started" "time_ok ended" "started \<le> ended"
  shows "payload_rules c ''cycle.observed'' (cycle_payload_of started ended outcome path how) = []"
proof -
  let ?p = "cycle_payload_of started ended outcome path how"
  have get: "dict_get ?p ''started_at'' = PStr (utc_text started)" "dict_get ?p ''ended_at'' = PStr (utc_text ended)"
    by (simp_all add: cycle_payload_of_def dict_get_def)
  have t: "field_time ''cycle.observed'' ?p ''started_at'' = Some (round_half_even (started * 1000) * 1000)"
      "field_time ''cycle.observed'' ?p ''ended_at'' = Some (round_half_even (ended * 1000) * 1000)"
    using field_time_utc assms(1,2) get by blast+
  have "round_half_even (started * 1000) \<le> round_half_even (ended * 1000)"
    using assms(3) by (intro round_half_even_mono) simp
  then have "time_rules ''cycle.observed'' ?p = []"
    using t by (simp add: time_rules_def timestamp_fields_def rule_if_def)
  then show ?thesis by (simp add: payload_rules_def scan_rules_def binding_rules_def)
qed

lemma cycle_event_rules:
  assumes "time_ok occurred"
  shows "event_rules cycle_observed_info (make_event env producer epoch site machine seq rowseq
      ''cycle.observed'' payload occurred (cycle_correlation execution operator)) = []"
proof -
  have p: "parse_timestamp (utc_text occurred) \<noteq> None"
    using assms utc_text_read [of occurred] by (auto simp: time_ok_def)
  show ?thesis
    using p unfolding event_rules_def make_event_def correlate_cycle
    by (auto simp: dict_get_def dict_or_empty_def rule_if_def cycle_observed_info_def shaped_time_def
        opt_str_def split: option.splits)
qed

lemma cycle_event_valid:
  assumes c: "speaks_v1 c" "10 \<le> n"
    and from_outside: "own_env_ok env" "origin_ok producer epoch site machine seq rowseq"
      "uuid4 execution" "uuid4_or_none operator"
    and times: "time_ok started" "time_ok ended" "started \<le> ended"
    and facts: "outcome \<in> set [''completed'', ''aborted'', ''unknown'']" "path_ok path"
      "how \<in> set [''explicit'', ''time_window'', ''none'']"
  shows "validate_event n c (PDict (make_event env producer epoch site machine seq rowseq ''cycle.observed''
      (PDict (cycle_payload_of started ended outcome path how)) ended (cycle_correlation execution operator))) = Inr []"
proof -
  let ?p = "cycle_payload_of started ended outcome path how"
  let ?d = "make_event env producer epoch site machine seq rowseq ''cycle.observed''
      (PDict ?p) ended (cycle_correlation execution operator)"
  have get: "dict_get ?d ''type'' = PStr ''cycle.observed''" "dict_get ?d ''payload'' = PDict ?p"
    by (simp_all add: make_event_def dict_get_def)
  have "schema_errors n envelope_defs (PDict ?d) envelope_schema '''' = Inr []"
    by (rule envelope_check [OF c(2) envelope_accepts [OF from_outside(1,2) times(2) from_outside(3,4)]])
  moreover have "payload_check n cycle_observed_info (PDict ?p) = Inr []"
    using cycle_observed_check [OF c(2) cycle_payload_accepts [OF times(1,2) facts]]
    by (simp add: payload_check_def is_dict_def)
  moreover have "event_info c ?d = Some (''cycle.observed'', cycle_observed_info)"
    using c(1) get by (simp add: event_info_def speaks_v1_def)
  ultimately show ?thesis
    using c(1) get cycle_event_rules [OF times(2)] cycle_payload_rules [OF times]
    by (simp add: validate_event_def speaks_v1_def)
qed

section \<open>What is refused\<close>

lemma accepts_plainD: "accepts defs v (plain rules) \<Longrightarrow> leaf_valid rules v"
  unfolding plain_def by (erule accepts_keywordsE)

lemma accepts_ref_toD: "accepts defs v (ref_to name) \<Longrightarrow> map_of defs name = Some t \<Longrightarrow> accepts defs v t"
  unfolding ref_to_def by (erule accepts_refE) (simp add: resolve_def)

lemma accepts_eitherD: "accepts defs v (either bs) \<Longrightarrow> \<exists>b\<in>set bs. accepts defs v b"
  unfolding either_def by (erule accepts_keywordsE) simp

lemma accepts_objectD:
  assumes "accepts defs (PDict d) (object_with required props)" "(k, x) \<in> set d" "map_of props k = Some p"
  shows "accepts defs x p"
  using assms unfolding object_with_def by (elim accepts_keywordsE) fastforce

lemma leaf_valid_typed: "leaf_valid r v \<Longrightarrow> lr_types r = Some [t] \<Longrightarrow> is_type v t = Some True"
  by (simp add: leaf_valid_def)

lemma accepts_null_only: "accepts defs v (plain (typed ''null'')) \<Longrightarrow> v = PNone"
  using leaf_valid_typed [OF accepts_plainD, of defs v "typed ''null''" "''null''"]
  by (simp add: typed_def no_rules_def is_type_def)

lemma accepts_uuid_no_newline:
  assumes "accepts envelope_defs (PStr s) (ref_to ''uuid_or_null'')"
  shows "last_opt s \<noteq> Some (CHR 0x0A)"
proof -
  have "map_of envelope_defs ''uuid_or_null'' = Some (either [ref_to ''uuid'', plain (typed ''null'')])"
    by (simp add: envelope_defs_def)
  from accepts_eitherD [OF accepts_ref_toD [OF assms this]] accepts_null_only
  have "accepts envelope_defs (PStr s) (ref_to ''uuid'')" by fastforce
  then have "accepts envelope_defs (PStr s) uuid_schema"
    by (rule accepts_ref_toD) (simp add: envelope_defs_def)
  from accepts_plainD [OF this [unfolded uuid_schema_def]] show ?thesis
    by (simp add: leaf_valid_def typed_def no_rules_def last_opt_def)
qed

lemma envelope_correlationD:
  assumes "accepts envelope_defs (PDict d) envelope_schema" "(''correlation'', PDict corr) \<in> set d"
    and "(''operator_session_id'', x) \<in> set corr"
  shows "accepts envelope_defs x (ref_to ''uuid_or_null'')"
proof -
  have "accepts envelope_defs (PDict corr)
    (object_with [''execution_id'', ''scan_id'', ''operator_session_id'']
       [(''execution_id'', ref_to ''uuid_or_null''), (''scan_id'', ref_to ''uuid_or_null''),
        (''operator_session_id'', ref_to ''uuid_or_null'')])"
    by (rule accepts_objectD [OF assms(1) [unfolded envelope_schema_def] assms(2)]) simp
  from accepts_objectD [OF this assms(3)] show ?thesis by simp
qed

text \<open>An operator session whose id ends with a newline: the id pattern of the agent takes it, the contract does not.\<close>

lemma newline_operator_refused:
  assumes "speaks_v1 c"
  shows "own_event n c dumps envs producer epoch site machine seq rowseq
     (OwnEvent ''cycle.observed'' payload occurred (cycle_correlation execution (Some (s @ [CHR 0x0A])))) = None"
proof -
  let ?corr = "cycle_correlation execution (Some (s @ [CHR 0x0A]))"
  let ?d = "make_event (envs rowseq) producer epoch site machine seq rowseq ''cycle.observed'' payload occurred ?corr"
  have "validate_event n c (PDict ?d) \<noteq> Inr []"
  proof
    assume "validate_event n c (PDict ?d) = Inr []"
    then have "schema_errors n envelope_defs (PDict ?d) envelope_schema '''' = Inr []"
      using assms by (auto simp: validate_event_def speaks_v1_def split: sum.splits option.splits)
    from decidesD [OF schema_errors_decide this] have acc: "accepts envelope_defs (PDict ?d) envelope_schema"
      by simp
    have "accepts envelope_defs (PStr (s @ [CHR 0x0A])) (ref_to ''uuid_or_null'')"
      by (rule envelope_correlationD [OF acc, where corr = "correlate ?corr"])
        (simp_all add: make_event_def correlate_cycle opt_str_def)
    from accepts_uuid_no_newline [OF this] show False by simp
  qed
  then show ?thesis by (simp add: own_event_def Let_def)
qed

end
