(* ===== verification/Cycle_Link.thy ===== *)
theory Cycle_Link
  imports Contract_V1
begin

text \<open>
  The sampling loop's side of the MillWright link (\<open>agent_mes_link.py\<close>: \<open>read_current\<close>,
  \<open>match\<close>, \<open>CycleLink\<close>, \<open>cycle_payload\<close>) and what \<open>status.py\<close> does with it on every
  sample. \<open>current_execution.json\<close> is written by another program: its fields can be any
  JSON values, so a \<open>TypeError\<close> is a result here (\<open>None\<close>, or \<open>False\<close> beside a state).
\<close>

section \<open>Which run MillWright saw\<close>

definition match_before_s :: rat where "match_before_s = 3"
definition match_after_s :: rat where "match_after_s = 1"
definition retry_every_s :: rat where "retry_every_s = 1 / 2"
definition retry_for_s :: rat where "retry_for_s = 3"
definition max_json_bytes :: nat where "max_json_bytes = 1024"
definition queue_size :: nat where "queue_size = 256"

text \<open>\<open>os.path.normpath\<close>.\<close>

definition norm_part :: "bool \<Rightarrow> string list \<Rightarrow> string \<Rightarrow> string list" where
  "norm_part absolute parts p =
     (if p = '''' \<or> p = ''.'' then parts
      else if p \<noteq> ''..'' \<or> (\<not> absolute \<and> parts = []) \<or> last_opt parts = Some ''..'' then parts @ [p]
      else butlast parts)"

definition leading_slashes :: "string \<Rightarrow> nat" where
  "leading_slashes p =
     (if \<not> starts_with p ''/'' then 0
      else if starts_with p ''//'' \<and> \<not> starts_with p ''///'' then 2 else 1)"

definition normpath :: "string \<Rightarrow> string" where
  "normpath p =
     (let k = leading_slashes p;
          q = replicate k (CHR ''/'') @ join_with ''/'' (foldl (norm_part (k > 0)) [] (split_at (CHR ''/'') p))
      in if p = '''' \<or> q = '''' then ''.'' else q)"

text \<open>\<open>_same_file\<close>; \<open>None\<close> when a path is not text.\<close>

definition same_file :: "pyval \<Rightarrow> pyval \<Rightarrow> bool option" where
  "same_file a b =
     (if \<not> truthy a \<or> \<not> truthy b then Some False
      else case (a, b) of (PStr p, PStr q) \<Rightarrow> Some (normpath p = normpath q) | _ \<Rightarrow> None)"

text \<open>
  The file as it was read: \<open>None\<close> when it cannot be opened, else its bytes with what
  they decode to (\<open>None\<close>: not UTF-8 or not JSON).
\<close>

type_synonym current_file = "(nat \<times> pyval option) option"

definition read_current :: "string \<Rightarrow> current_file \<Rightarrow> pydict option" where
  "read_current mw_data f =
     (if mw_data = '''' then None
      else case f of
          None \<Rightarrow> None
        | Some (bytes, doc) \<Rightarrow>
            if bytes > max_json_bytes then None
            else (case doc of Some (PDict d) \<Rightarrow> Some d | _ \<Rightarrow> None))"

text \<open>The execution and operator session of a usable document.\<close>

definition run_ids :: "pydict \<Rightarrow> (string \<times> string option) option" where
  "run_ids d =
     (case dict_get d ''execution_id'' of
        PStr eid \<Rightarrow>
          if \<not> uuid4_match eid then None
          else (case dict_get d ''operator_session_id'' of
                  PNone \<Rightarrow> Some (eid, None)
                | PStr sid \<Rightarrow> if uuid4_match sid then Some (eid, Some sid) else None
                | _ \<Rightarrow> None)
      | _ \<Rightarrow> None)"

definition started_near :: "pydict \<Rightarrow> rat \<Rightarrow> bool" where
  "started_near d agent_start =
     (case dict_get d ''started_at'' of
        PStr s \<Rightarrow>
          (case parse_timestamp s of
             None \<Rightarrow> False
           | Some us \<Rightarrow>
               (let delta = of_int us / 1000000 - agent_start
                in - match_before_s \<le> delta \<and> delta \<le> match_after_s))
      | _ \<Rightarrow> False)"

text \<open>\<open>match\<close>.\<close>

definition match_run :: "pydict option \<Rightarrow> pyval \<Rightarrow> rat \<Rightarrow> bool \<Rightarrow> bool option" where
  "match_run doc file agent_start any_file =
     (case doc of
        None \<Rightarrow> Some False
      | Some d \<Rightarrow>
          if d = [] \<or> truthy (dict_get d ''ended_at'') \<or> run_ids d = None \<or> \<not> started_near d agent_start
          then Some False
          else if any_file then Some True
          else (case same_file (dict_get d ''program_path'') file of
                  None \<Rightarrow> None
                | Some True \<Rightarrow> Some True
                | Some False \<Rightarrow> same_file (dict_get d ''run_file'') file))"

section \<open>CycleLink\<close>

datatype link_method = NoMatch | Explicit | TimeWindow

primrec method_text :: "link_method \<Rightarrow> string" where
  "method_text NoMatch = ''none''"
| "method_text Explicit = ''explicit''"
| "method_text TimeWindow = ''time_window''"

record link_cycle =
  lc_started :: rat
  lc_program :: pyval
  lc_execution :: string
  lc_method :: link_method
  lc_operator :: "string option"
  lc_next_try :: rat
  lc_uncertain :: bool

record cycle_fact =
  cf_started :: rat
  cf_ended :: rat
  cf_outcome :: string
  cf_program :: pyval
  cf_execution :: string
  cf_method :: link_method
  cf_operator :: "string option"

record cycle_link =
  cl_mw_data :: string
  cl_out :: "cycle_fact list"
  cl_cycle :: "link_cycle option"
  cl_dropped :: nat

definition cycle_link_init :: "string \<Rightarrow> cycle_link" where
  "cycle_link_init mw_data = \<lparr>cl_mw_data = mw_data, cl_out = [], cl_cycle = None, cl_dropped = 0\<rparr>"

text \<open>\<open>c.update(...)\<close> of a match; \<open>d\<close> is the document and its ids are there.\<close>

definition take_ids :: "pydict \<Rightarrow> link_method \<Rightarrow> link_cycle \<Rightarrow> link_cycle" where
  "take_ids d how c =
     (case run_ids d of
        None \<Rightarrow> c
      | Some (eid, sid) \<Rightarrow> c\<lparr>lc_execution := eid, lc_method := how, lc_operator := sid\<rparr>)"

definition adopt_run :: "pydict \<Rightarrow> link_cycle \<Rightarrow> link_cycle" where
  "adopt_run d c =
     (take_ids d TimeWindow c)
       \<lparr>lc_program := val_or (val_or (dict_get d ''run_file'') (dict_get d ''program_path'')) (lc_program c)\<rparr>"

text \<open>\<open>_try\<close>; \<open>None\<close> when \<open>match\<close> raised.\<close>

definition link_try :: "pydict option \<Rightarrow> link_cycle \<Rightarrow> link_cycle option" where
  "link_try doc c =
     (case match_run doc (lc_program c) (lc_started c) False of
        None \<Rightarrow> None
      | Some True \<Rightarrow> Some (take_ids (or_else doc []) Explicit c)
      | Some False \<Rightarrow>
          Some (if lc_uncertain c \<and> match_run doc (lc_program c) (lc_started c) True = Some True
                then adopt_run (or_else doc []) c else c))"

text \<open>What one call of the link gets from outside: wall time, a fresh id, the file.\<close>

record link_env =
  le_now :: rat
  le_fresh :: string
  le_file :: current_file

definition try_in :: "link_env \<Rightarrow> link_cycle \<Rightarrow> cycle_link \<Rightarrow> bool \<times> cycle_link" where
  "try_in env c l =
     (case link_try (read_current (cl_mw_data l) (le_file env)) c of
        None \<Rightarrow> (False, l\<lparr>cl_cycle := Some c\<rparr>)
      | Some c' \<Rightarrow> (True, l\<lparr>cl_cycle := Some c'\<rparr>))"

definition link_start :: "link_env \<Rightarrow> string \<Rightarrow> bool \<Rightarrow> cycle_link \<Rightarrow> bool \<times> cycle_link" where
  "link_start env file uncertain l =
     try_in env
       \<lparr>lc_started = le_now env, lc_program = (if file = '''' then PNone else PStr file),
        lc_execution = le_fresh env, lc_method = NoMatch, lc_operator = None,
        lc_next_try = le_now env + retry_every_s, lc_uncertain = uncertain\<rparr> l"

definition link_poll :: "link_env \<Rightarrow> cycle_link \<Rightarrow> bool \<times> cycle_link" where
  "link_poll env l =
     (case cl_cycle l of
        None \<Rightarrow> (True, l)
      | Some c \<Rightarrow>
          if lc_method c \<noteq> NoMatch \<or> cl_mw_data l = '''' then (True, l)
          else if lc_next_try c \<le> le_now env \<and> le_now env - lc_started c \<le> retry_for_s + retry_every_s
          then try_in env (c\<lparr>lc_next_try := le_now env + retry_every_s\<rparr>) l
          else (True, l))"

definition adopted_program :: "cycle_link \<Rightarrow> pyval" where
  "adopted_program l =
     (case cl_cycle l of
        None \<Rightarrow> PNone
      | Some c \<Rightarrow> if lc_method c = TimeWindow then lc_program c else PNone)"

definition link_set_program :: "link_env \<Rightarrow> string \<Rightarrow> cycle_link \<Rightarrow> bool \<times> cycle_link" where
  "link_set_program env file l =
     (case cl_cycle l of
        None \<Rightarrow> (True, l)
      | Some c \<Rightarrow>
          if file = '''' then (True, l)
          else case same_file (PStr file) (lc_program c) of
              None \<Rightarrow> (False, l)
            | Some True \<Rightarrow> (True, l)
            | Some False \<Rightarrow>
                (let c1 = c\<lparr>lc_program := PStr file, lc_uncertain := False\<rparr>
                 in if lc_method c \<noteq> Explicit \<and> cl_mw_data l \<noteq> '''' then try_in env c1 l
                    else (True, l\<lparr>cl_cycle := Some c1\<rparr>)))"

definition fact_of :: "link_env \<Rightarrow> string \<Rightarrow> link_cycle \<Rightarrow> cycle_fact" where
  "fact_of env outcome c =
     \<lparr>cf_started = lc_started c, cf_ended = max (le_now env) (lc_started c), cf_outcome = outcome,
      cf_program = lc_program c, cf_execution = lc_execution c, cf_method = lc_method c,
      cf_operator = lc_operator c\<rparr>"

text \<open>\<open>end\<close>: the fact goes into the worker's queue, or is dropped when that is full.\<close>

definition link_end :: "link_env \<Rightarrow> string \<Rightarrow> cycle_link \<Rightarrow> cycle_link" where
  "link_end env outcome l =
     (case cl_cycle l of
        None \<Rightarrow> l
      | Some c \<Rightarrow>
          if length (cl_out l) < queue_size
          then l\<lparr>cl_cycle := None, cl_out := cl_out l @ [fact_of env outcome c]\<rparr>
          else l\<lparr>cl_cycle := None, cl_dropped := cl_dropped l + 1\<rparr>)"

definition cycle_payload :: "cycle_fact \<Rightarrow> pydict" where
  "cycle_payload f =
     [(''started_at'', PStr (utc_text (cf_started f))), (''ended_at'', PStr (utc_text (cf_ended f))),
      (''outcome'', PStr (cf_outcome f)), (''program_path'', cf_program f),
      (''correlation_method'', PStr (method_text (cf_method f)))]"

section \<open>The status loop\<close>

text \<open>
  The part of the main loop that drives the link: the counts when the cycle started, the
  cycle's program, and the program taken over from MillWright on this sample.
\<close>

record mes_loop =
  ml_link :: cycle_link
  ml_counts :: "int \<times> int"
  ml_program :: pyval
  ml_adopted :: "pyval option"

text \<open>One sample: cycle state before and after, the file shown, the part counts, the file system.\<close>

record mes_sample =
  ms_before :: string
  ms_after :: string
  ms_file :: string
  ms_in_sub :: bool
  ms_parts :: int
  ms_aborts :: int
  ms_env :: link_env
  ms_env_program :: link_env
  ms_is_file :: "pyval \<Rightarrow> bool"

definition cycle_on :: "string \<Rightarrow> bool" where
  "cycle_on st \<longleftrightarrow> st = ''RUNNING'' \<or> st = ''PAUSED''"

definition run_outcome :: "mes_sample \<Rightarrow> int \<times> int \<Rightarrow> string" where
  "run_outcome m counts =
     (if ms_parts m > fst counts then ''completed''
      else if ms_aborts m > snd counts then ''aborted'' else ''unknown'')"

text \<open>Inside \<open>try\<close>: an exception is logged.\<close>

definition drive_link :: "mes_sample \<Rightarrow> mes_loop \<Rightarrow> mes_loop" where
  "drive_link m w =
     (if ms_before m = ''IDLE'' \<and> ms_after m = ''RUNNING''
      then w\<lparr>ml_counts := (ms_parts m, ms_aborts m),
             ml_link := snd (link_start (ms_env m) (ms_file m) (ms_in_sub m) (ml_link w))\<rparr>
      else if cycle_on (ms_before m) \<and> ms_after m = ''IDLE''
      then w\<lparr>ml_link := link_end (ms_env m) (run_outcome m (ml_counts w)) (ml_link w)\<rparr>
      else w\<lparr>ml_link := snd (link_poll (ms_env m) (ml_link w))\<rparr>)"

text \<open>Outside \<open>try\<close>: the cycle's program. \<open>False\<close> is an exception that ends the agent.\<close>

definition drive_program :: "mes_sample \<Rightarrow> mes_loop \<Rightarrow> bool \<times> mes_loop" where
  "drive_program m w =
     (if \<not> cycle_on (ms_before m) then (True, w\<lparr>ml_program := PStr (ms_file m)\<rparr>)
      else if ms_file m \<noteq> '''' \<and> PStr (ms_file m) \<noteq> ml_program w \<and> \<not> ms_in_sub m
      then (case link_set_program (ms_env_program m) (ms_file m) (ml_link w) of
              (ok, l) \<Rightarrow> (ok, w\<lparr>ml_program := PStr (ms_file m), ml_link := l\<rparr>))
      else (True, w))"

text \<open>\<open>os.path.isfile\<close> takes text, a file descriptor (also \<open>True\<close>), and nothing else.\<close>

definition path_like :: "pyval \<Rightarrow> bool" where
  "path_like v = (case v of PStr _ \<Rightarrow> True | PInt _ \<Rightarrow> True | PBool _ \<Rightarrow> True | _ \<Rightarrow> False)"

definition adopt_program :: "mes_sample \<Rightarrow> mes_loop \<Rightarrow> bool \<times> mes_loop" where
  "adopt_program m w =
     (let a = adopted_program (ml_link w)
      in if \<not> truthy a \<or> py_eq a (ml_program w) then (True, w)
         else if \<not> path_like a then (False, w)
         else if ms_is_file m a then (True, w\<lparr>ml_program := a, ml_adopted := Some a\<rparr>)
         else (True, w))"

definition mes_step :: "mes_sample \<Rightarrow> mes_loop \<Rightarrow> bool \<times> mes_loop" where
  "mes_step m w =
     (let w1 = drive_link m (w\<lparr>ml_adopted := None\<rparr>)
      in if \<not> cycle_on (ms_after m) then (True, w1)
         else case drive_program m w1 of
             (False, w2) \<Rightarrow> (False, w2)
           | (True, w2) \<Rightarrow> adopt_program m w2)"

text \<open>LinuxCNC going away, and a clean shutdown, end the cycle with an unknown outcome.\<close>

definition mes_disconnect :: "link_env \<Rightarrow> mes_loop \<Rightarrow> mes_loop" where
  "mes_disconnect env w = w\<lparr>ml_link := link_end env ''unknown'' (ml_link w)\<rparr>"

section \<open>Where a recorded cycle's ids come from\<close>

text \<open>
  The calls of the link. A cycle's ids are its own fresh id and no operator, or those
  of a document that was read and that fits the cycle.
\<close>

datatype link_op =
    LinkStart link_env string bool
  | LinkPoll link_env
  | LinkSetProgram link_env string
  | LinkEnd link_env string

primrec op_env :: "link_op \<Rightarrow> link_env" where
  "op_env (LinkStart env file uncertain) = env"
| "op_env (LinkPoll env) = env"
| "op_env (LinkSetProgram env file) = env"
| "op_env (LinkEnd env outcome) = env"

fun link_step :: "cycle_link \<Rightarrow> link_op \<Rightarrow> cycle_link" where
  "link_step l (LinkStart env file uncertain) = snd (link_start env file uncertain l)"
| "link_step l (LinkPoll env) = snd (link_poll env l)"
| "link_step l (LinkSetProgram env file) = snd (link_set_program env file l)"
| "link_step l (LinkEnd env outcome) = link_end env outcome l"

definition fits_cycle :: "pydict \<Rightarrow> rat \<Rightarrow> link_method \<Rightarrow> bool" where
  "fits_cycle d started how \<longleftrightarrow>
     \<not> truthy (dict_get d ''ended_at'') \<and> started_near d started \<and>
     (how = Explicit \<longrightarrow> (\<exists>file. same_file (dict_get d ''program_path'') file = Some True \<or>
                                same_file (dict_get d ''run_file'') file = Some True))"

definition ids_from :: "string \<Rightarrow> link_env set \<Rightarrow> rat \<Rightarrow> string \<Rightarrow> link_method \<Rightarrow> string option \<Rightarrow> bool" where
  "ids_from mw envs started eid how sid \<longleftrightarrow>
     (if how = NoMatch then eid \<in> le_fresh ` envs \<and> sid = None
      else \<exists>env\<in>envs. \<exists>d. read_current mw (le_file env) = Some d \<and> run_ids d = Some (eid, sid) \<and>
             fits_cycle d started how)"

definition link_inv :: "string \<Rightarrow> link_env set \<Rightarrow> cycle_link \<Rightarrow> bool" where
  "link_inv mw envs l \<longleftrightarrow>
     cl_mw_data l = mw \<and>
     (\<forall>c. cl_cycle l = Some c \<longrightarrow> ids_from mw envs (lc_started c) (lc_execution c) (lc_method c) (lc_operator c)) \<and>
     (\<forall>f\<in>set (cl_out l). cf_started f \<le> cf_ended f \<and>
        ids_from mw envs (cf_started f) (cf_execution f) (cf_method f) (cf_operator f))"

lemma ids_from_mono: "ids_from mw envs s e h o' \<Longrightarrow> envs \<subseteq> envs' \<Longrightarrow> ids_from mw envs' s e h o'"
  by (auto simp: ids_from_def split: if_splits)

lemma link_inv_mono: "link_inv mw envs l \<Longrightarrow> envs \<subseteq> envs' \<Longrightarrow> link_inv mw envs' l"
  unfolding link_inv_def using ids_from_mono by metis

lemma link_try_started: "link_try doc c = Some c' \<Longrightarrow> lc_started c' = lc_started c"
  by (auto simp: link_try_def adopt_run_def take_ids_def split: option.splits bool.splits if_splits)

lemma match_run_True:
  assumes "match_run doc file start any = Some True"
  obtains d eid sid where "doc = Some d" "run_ids d = Some (eid, sid)"
    "fits_cycle d start (if any then TimeWindow else Explicit)"
proof -
  from assms obtain d where d: "doc = Some d" "d \<noteq> []" "\<not> truthy (dict_get d ''ended_at'')"
      "run_ids d \<noteq> None" "started_near d start"
    by (auto simp: match_run_def split: option.splits if_splits)
  then obtain eid sid where "run_ids d = Some (eid, sid)" by fastforce
  moreover have "fits_cycle d start (if any then TimeWindow else Explicit)"
    using assms d by (auto simp: fits_cycle_def match_run_def split: option.splits bool.splits if_splits)
  ultimately show thesis using that d(1) by blast
qed

lemma link_try_cases:
  assumes "link_try doc c = Some c'"
  obtains "c' = c"
  | "match_run doc (lc_program c) (lc_started c) False = Some True" "c' = take_ids (or_else doc []) Explicit c"
  | "match_run doc (lc_program c) (lc_started c) True = Some True" "c' = adopt_run (or_else doc []) c"
proof (cases "match_run doc (lc_program c) (lc_started c) False")
  case None
  with assms show thesis by (simp add: link_try_def)
next
  case (Some matched)
  show thesis
  proof (cases matched)
    case True
    with assms Some have "c' = take_ids (or_else doc []) Explicit c" by (simp add: link_try_def)
    with True Some that(2) show thesis by simp
  next
    case False
    with assms Some have c': "c' = (if lc_uncertain c \<and> match_run doc (lc_program c) (lc_started c) True = Some True
        then adopt_run (or_else doc []) c else c)"
      by (simp add: link_try_def)
    show thesis
    proof (cases "lc_uncertain c \<and> match_run doc (lc_program c) (lc_started c) True = Some True")
      case True
      with c' that(3) show thesis by simp
    next
      case False
      with c' that(1) show thesis by simp
    qed
  qed
qed

lemma link_try_ids:
  assumes "link_try (read_current mw (le_file env)) c = Some c'" "env \<in> envs"
    and "ids_from mw envs (lc_started c) (lc_execution c) (lc_method c) (lc_operator c)"
  shows "ids_from mw envs (lc_started c') (lc_execution c') (lc_method c') (lc_operator c')"
proof -
  let ?doc = "read_current mw (le_file env)"
  have own: "ids_from mw envs s eid how sid"
    if "?doc = Some d" "run_ids d = Some (eid, sid)" "fits_cycle d s how" "how \<noteq> NoMatch" for d eid sid s how
    using that assms(2) by (auto simp: ids_from_def)
  from assms(1) show ?thesis
  proof (cases rule: link_try_cases)
    case 1
    with assms(3) show ?thesis by simp
  next
    case 2
    from match_run_True [OF 2(1)] obtain d eid sid where
      d: "?doc = Some d" "run_ids d = Some (eid, sid)" "fits_cycle d (lc_started c) Explicit" by auto
    from own [OF this] d(1,2) 2(2) show ?thesis by (simp add: take_ids_def)
  next
    case 3
    from match_run_True [OF 3(1)] obtain d eid sid where
      d: "?doc = Some d" "run_ids d = Some (eid, sid)" "fits_cycle d (lc_started c) TimeWindow" by auto
    from own [OF this] d(1,2) 3(2) show ?thesis by (simp add: take_ids_def adopt_run_def)
  qed
qed

lemma try_in_inv:
  assumes "link_inv mw envs l" "env \<in> envs"
    and "ids_from mw envs (lc_started c) (lc_execution c) (lc_method c) (lc_operator c)"
  shows "link_inv mw envs (snd (try_in env c l))"
proof (cases "link_try (read_current mw (le_file env)) c")
  case None
  with assms show ?thesis by (auto simp: try_in_def link_inv_def)
next
  case (Some c')
  with link_try_ids [OF Some assms(2,3)] assms(1) show ?thesis by (auto simp: try_in_def link_inv_def)
qed

lemma link_step_inv:
  assumes "link_inv mw envs l" "op_env op \<in> envs"
  shows "link_inv mw envs (link_step l op)"
proof (cases op)
  case (LinkStart env path uncertain)
  with assms show ?thesis by (auto simp: link_start_def ids_from_def intro!: try_in_inv)
next
  case (LinkPoll env)
  show ?thesis
  proof (cases "cl_cycle l")
    case (Some c)
    let ?c = "c\<lparr>lc_next_try := le_now env + retry_every_s\<rparr>"
    have "link_inv mw envs (snd (try_in env ?c l))"
      using assms LinkPoll Some by (intro try_in_inv) (simp_all add: link_inv_def)
    with assms(1) Some LinkPoll show ?thesis by (simp add: link_poll_def)
  qed (use assms LinkPoll in \<open>simp add: link_poll_def\<close>)
next
  case (LinkSetProgram env path)
  show ?thesis
  proof (cases "cl_cycle l")
    case (Some c)
    have ids: "ids_from mw envs (lc_started c) (lc_execution c) (lc_method c) (lc_operator c)"
      using assms(1) Some by (simp add: link_inv_def)
    let ?c = "c\<lparr>lc_program := PStr path, lc_uncertain := False\<rparr>"
    have "link_inv mw envs (snd (try_in env ?c l))"
      using assms LinkSetProgram ids by (intro try_in_inv) simp_all
    moreover have "link_inv mw envs (l\<lparr>cl_cycle := Some ?c\<rparr>)"
      using assms(1) ids by (simp add: link_inv_def)
    ultimately show ?thesis
      using assms(1) Some LinkSetProgram
      by (auto simp: link_set_program_def Let_def split: option.split bool.split)
  qed (use assms LinkSetProgram in \<open>simp add: link_set_program_def\<close>)
next
  case (LinkEnd env outcome)
  with assms show ?thesis
    by (auto simp: link_end_def link_inv_def fact_of_def split: option.splits)
qed


text \<open>A document of a run that started with the agent's cycle.\<close>

definition demo_id :: string where "demo_id = ''00000000-0000-4000-8000-000000000000''"

definition demo_run :: "pyval \<Rightarrow> string \<Rightarrow> pydict" where
  "demo_run run_file operator =
     [(''execution_id'', PStr demo_id), (''operator_session_id'', PStr operator),
      (''started_at'', PStr ''0001-01-01T00:00:01Z''), (''program_path'', PStr ''/nc/./a.ngc''),
      (''run_file'', run_file)]"

definition demo_link_env :: "pyval \<Rightarrow> string \<Rightarrow> link_env" where
  "demo_link_env run_file operator =
     \<lparr>le_now = - 62135596800, le_fresh = ''f'', le_file = Some (200, Some (PDict (demo_run run_file operator)))\<rparr>"

lemma demo_id_match: "uuid4_match demo_id" "uuid4_match (demo_id @ [CHR 0x0A])"
  by code_simp+

lemma demo_run_ids:
  "uuid4_match operator \<Longrightarrow> run_ids (demo_run run_file operator) = Some (demo_id, Some operator)"
  "started_near (demo_run run_file operator) (- 62135596800)"
proof -
  have t: "parse_timestamp ''0001-01-01T00:00:01Z'' = Some (- 62135596799000000)" by code_simp
  show "uuid4_match operator \<Longrightarrow> run_ids (demo_run run_file operator) = Some (demo_id, Some operator)"
    using demo_id_match(1) by (simp add: run_ids_def demo_run_def dict_get_def)
  show "started_near (demo_run run_file operator) (- 62135596800)"
    using t by (simp add: started_near_def demo_run_def dict_get_def match_before_s_def match_after_s_def)
qed

lemma demo_normpath: "normpath ''/nc/./a.ngc'' = ''/nc/a.ngc''" "normpath ''/nc/a.ngc'' = ''/nc/a.ngc''"
  by code_simp+

lemma demo_match:
  assumes "uuid4_match operator"
  shows "match_run (Some (demo_run run_file operator)) (PStr ''/nc/a.ngc'') (- 62135596800) False = Some True"
    and "match_run (Some (demo_run run_file operator)) PNone (- 62135596800) True = Some True"
  using demo_run_ids(1) [OF assms, of run_file] demo_run_ids(2) demo_normpath
  by (simp_all add: match_run_def same_file_def) (simp_all add: demo_run_def dict_get_def)

lemma demo_read:
  "read_current ''/mw'' (le_file (demo_link_env run_file operator)) = Some (demo_run run_file operator)"
  by (simp add: read_current_def demo_link_env_def max_json_bytes_def)

definition demo_fact :: "string \<Rightarrow> cycle_fact" where
  "demo_fact operator =
     \<lparr>cf_started = - 62135596800, cf_ended = - 62135596800, cf_outcome = ''completed'',
      cf_program = PStr ''/nc/a.ngc'', cf_execution = demo_id, cf_method = Explicit, cf_operator = Some operator\<rparr>"

lemma demo_fact_recorded:
  assumes "uuid4_match operator"
  shows "cl_out (foldl link_step (cycle_link_init ''/mw'')
      [LinkStart (demo_link_env PNone operator) ''/nc/a.ngc'' False,
       LinkEnd (demo_link_env PNone operator) ''completed'']) = [demo_fact operator]"
  using demo_match(1) [OF assms, of PNone] demo_run_ids(1) [OF assms, of PNone]
    demo_read [of PNone operator]
  by (simp add: link_start_def try_in_def link_try_def take_ids_def cycle_link_init_def link_end_def
      fact_of_def demo_fact_def queue_size_def)
    (simp add: demo_link_env_def fact_of_def take_ids_def queue_size_def)


section \<open>What a malformed document does\<close>

text \<open>
  The fields that name files are not checked. A \<open>run_file\<close> that is a list is adopted as
  the program of a run that started inside a subroutine, and \<open>os.path.isfile\<close> raises in
  the main loop, outside any \<open>try\<close>.
\<close>

definition demo_mes_sample :: "pyval \<Rightarrow> mes_sample" where
  "demo_mes_sample run_file =
     \<lparr>ms_before = ''IDLE'', ms_after = ''RUNNING'', ms_file = '''', ms_in_sub = True, ms_parts = 0,
      ms_aborts = 0, ms_env = demo_link_env run_file demo_id, ms_env_program = demo_link_env run_file demo_id,
      ms_is_file = (\<lambda>_. True)\<rparr>"

definition mes_loop_init :: "string \<Rightarrow> mes_loop" where
  "mes_loop_init mw =
     \<lparr>ml_link = cycle_link_init mw, ml_counts = (0, 0), ml_program = PStr '''', ml_adopted = None\<rparr>"

lemma malformed_run_file_stops_agent:
  "fst (mes_step (demo_mes_sample (PList [PNone])) (mes_loop_init ''/mw'')) = False"
proof -
  let ?rf = "PList [PNone]"
  have start: "link_start (demo_link_env ?rf demo_id) '''' True (cycle_link_init ''/mw'') =
     (True, (cycle_link_init ''/mw'')\<lparr>cl_cycle := Some \<lparr>lc_started = - 62135596800, lc_program = ?rf,
        lc_execution = demo_id, lc_method = TimeWindow, lc_operator = Some demo_id,
        lc_next_try = - 62135596800 + retry_every_s, lc_uncertain = True\<rparr>\<rparr>)"
    using demo_match(2) [OF demo_id_match(1), of ?rf] demo_run_ids(1) [OF demo_id_match(1), of ?rf]
      demo_read [of ?rf demo_id] demo_run_ids(2) [of ?rf demo_id]
    by (simp add: link_start_def try_in_def link_try_def take_ids_def adopt_run_def cycle_link_init_def
        match_run_def same_file_def)
      (simp add: demo_link_env_def demo_run_def dict_get_def val_or_def)
  then show ?thesis
    by (simp add: mes_step_def drive_link_def demo_mes_sample_def mes_loop_init_def cycle_on_def
        drive_program_def adopt_program_def adopted_program_def path_like_def)
qed

end
