(* ===== verification/Mes_Outbox.thy ===== *)
theory Mes_Outbox
  imports Cycle_Link "HOL-Library.Multiset"
begin

text \<open>
  The MES worker thread (\<open>agent_mes_link.py\<close>: \<open>OutboxReader\<close>, \<open>MesWorker\<close>): cycle facts
  become events in the spool, MillWright's outbox is copied into it batch by batch with
  its cursor, and \<open>mes_ack.json\<close> tells MillWright how far. MillWright's database is what
  one read of it gives; whether a commit or a file write works comes with each call.
\<close>

section \<open>Cycle facts into the spool\<close>

text \<open>The contract and its codec, as everything in the worker uses it.\<close>

record mes_codec =
  mx_fuel :: nat
  mx_contract :: contract
  mx_dumps :: "pydict \<Rightarrow> string"
  mx_loads :: "string \<Rightarrow> text_read"

record add_env =
  ae_spool :: spool_env
  ae_own :: "int \<Rightarrow> own_env"

definition codec_of :: "mes_codec \<Rightarrow> add_env \<Rightarrow> event_codec" where
  "codec_of mx env = contract_codec (mx_fuel mx) (mx_contract mx) (mx_dumps mx) (mx_loads mx) (ae_own env)"

definition add_fact :: "mes_codec \<Rightarrow> add_env \<Rightarrow> cycle_fact \<Rightarrow> spool \<Rightarrow> (spool_error + int list) \<times> spool" where
  "add_fact mx env f s =
     spool_add (codec_of mx env) (ae_spool env) ''cycle.observed'' (PDict (cycle_payload f)) (cf_ended f)
       (cycle_correlation (cf_execution f) (cf_operator f)) False s"

text \<open>What became of a fact: in the spool, refused by the contract, or given up by a full spool.\<close>

datatype fate = Stored | Refused | GivenUp

text \<open>
  The second loop of \<open>_store_facts\<close>. Result: what was settled, what still waits, whether
  it ended without an exception, the spool.
\<close>

fun store_waiting ::
  "mes_codec \<Rightarrow> (nat \<Rightarrow> add_env) \<Rightarrow> cycle_fact list \<Rightarrow> spool \<Rightarrow>
   (cycle_fact \<times> fate) list \<times> cycle_fact list \<times> bool \<times> spool" where
  "store_waiting mx envs [] s = ([], [], True, s)"
| "store_waiting mx envs (f # fs) s =
     (let next = (\<lambda>what s'.
            case store_waiting mx (\<lambda>k. envs (Suc k)) fs s' of
              (settled, waiting, ok, s'') \<Rightarrow> ((f, what) # settled, waiting, ok, s''))
      in case add_fact mx (envs 0) f s of
           (Inr _, s') \<Rightarrow> next Stored s'
         | (Inl SpoolRejected, s') \<Rightarrow> next Refused s'
         | (Inl SpoolFull, s') \<Rightarrow>
             if length (f # fs) > queue_size then ([(f, GivenUp)], fs, True, s')
             else ([], f # fs, True, s')
         | (Inl _, s') \<Rightarrow> ([], f # fs, False, s'))"

section \<open>The outbox\<close>

definition outbox_source :: string where "outbox_source = ''millwright''"
definition operator_types :: "string list" where
  "operator_types = [''operator.session_started'', ''operator.session_ended'']"
definition outbox_batch :: nat where "outbox_batch = 200"

text \<open>One read of \<open>millwright.db\<close>: the epoch, the rows, whether the query for the rows worked.\<close>

record outbox_row =
  or_seq :: int
  or_type :: string
  or_body :: string

record outbox_view =
  ov_epoch :: "string option"
  ov_rows :: "outbox_row list"
  ov_rows_ok :: bool

record operator_info =
  oi_name :: pyval
  oi_role :: pyval
  oi_assurance :: pyval
  oi_session :: pyval
  oi_since :: pyval

record outbox_reader =
  rd_operator :: "operator_info option"
  rd_epoch :: "string option"
  rd_seq :: int

definition outbox_reader_init :: outbox_reader where
  "outbox_reader_init = \<lparr>rd_operator = None, rd_epoch = None, rd_seq = 0\<rparr>"

text \<open>
  The login state an event gives (\<open>Some None\<close>: nobody), \<open>None\<close> when it is no login event
  or cannot be read. \<open>parse\<close> is \<open>json.loads\<close>.
\<close>

definition login_of :: "pyval \<Rightarrow> operator_info option option" where
  "login_of ev =
     (case ev of
        PDict d \<Rightarrow>
          if dict_get d ''type'' = PStr ''operator.session_started'' then
            (case (val_or (dict_get d ''payload'') (PDict []), val_or (dict_get d ''correlation'') (PDict [])) of
               (PDict p, PDict c) \<Rightarrow>
                 Some (Some \<lparr>oi_name = dict_get p ''operator_name'', oi_role = dict_get p ''role'',
                             oi_assurance = dict_get p ''assurance'',
                             oi_session = dict_get c ''operator_session_id'',
                             oi_since = dict_get d ''occurred_at''\<rparr>)
             | _ \<Rightarrow> None)
          else if dict_get d ''type'' = PStr ''operator.session_ended'' then Some None
          else None
      | _ \<Rightarrow> None)"

definition see_operator :: "(string \<Rightarrow> pyval option) \<Rightarrow> outbox_row \<Rightarrow> outbox_reader \<Rightarrow> outbox_reader" where
  "see_operator parse r rd =
     (if or_seq r \<le> rd_seq rd then rd
      else case Option.bind (parse (or_body r)) login_of of
          None \<Rightarrow> rd
        | Some op \<Rightarrow> rd\<lparr>rd_seq := or_seq r, rd_operator := op\<rparr>)"

text \<open>A new epoch starts from the latest login event.\<close>

definition follow_epoch :: "(string \<Rightarrow> pyval option) \<Rightarrow> string \<Rightarrow> outbox_row list \<Rightarrow> outbox_reader \<Rightarrow> outbox_reader" where
  "follow_epoch parse epoch rows rd =
     (if rd_epoch rd = Some epoch then rd
      else
        (let rd1 = \<lparr>rd_operator = None, rd_epoch = Some epoch, rd_seq = 0\<rparr>
         in case last_opt (sort_key or_seq (filter (\<lambda>r. or_type r \<in> set operator_types) rows)) of
              None \<Rightarrow> rd1
            | Some r \<Rightarrow> see_operator parse r rd1))"

text \<open>\<open>b.encode("utf-8")\<close> for code points up to U+00FF.\<close>

definition utf8_char :: "char \<Rightarrow> string" where
  "utf8_char c =
     (let n = code_point c
      in if n < 128 then [c] else [char_of (0xC0 + n div 64), char_of (0x80 + n mod 64)])"

definition utf8 :: "string \<Rightarrow> string" where
  "utf8 s = concat (map utf8_char s)"

record outbox_side =
  ob_reader :: outbox_reader
  ob_spool :: spool
  ob_ack :: "(string \<times> int) option"

record outbox_env =
  oe_add :: add_env
  oe_ack_ok :: bool

definition write_ack :: "outbox_env \<Rightarrow> string \<Rightarrow> int \<Rightarrow> outbox_side \<Rightarrow> bool \<times> outbox_side" where
  "write_ack env epoch seq w =
     (if oe_ack_ok env then (True, w\<lparr>ob_ack := Some (epoch, seq)\<rparr>) else (False, w))"

text \<open>The position to read on from, and the rows of one batch.\<close>

definition outbox_position :: "string \<Rightarrow> spool \<Rightarrow> int" where
  "outbox_position epoch s =
     (case spool_cursor outbox_source (sp_db s) of
        Some (e, pos) \<Rightarrow> if e = epoch then pos else 0 | None \<Rightarrow> 0)"

definition next_rows :: "int \<Rightarrow> outbox_row list \<Rightarrow> outbox_row list" where
  "next_rows pos rows = take outbox_batch (sort_key or_seq (filter (\<lambda>r. or_seq r > pos) rows))"

text \<open>The end of \<open>step\<close>: one batch into the spool with its cursor, then the acknowledgement.\<close>

definition copy_rows ::
  "mes_codec \<Rightarrow> outbox_env \<Rightarrow> string \<Rightarrow> outbox_row list \<Rightarrow> outbox_side \<Rightarrow> nat option \<times> outbox_side" where
  "copy_rows mx env epoch rows w =
     (case spool_append (codec_of mx (oe_add env)) (ae_spool (oe_add env))
             (map (\<lambda>r. utf8 (or_body r)) rows)
             (Some (outbox_source, epoch, or_seq (last rows))) (ob_spool w) of
        (Inl e, s) \<Rightarrow> (if e = SpoolFull \<or> e = SpoolRejected then Some 0 else None, w\<lparr>ob_spool := s\<rparr>)
      | (Inr _, s) \<Rightarrow>
          (case write_ack env epoch (or_seq (last rows)) (w\<lparr>ob_spool := s\<rparr>) of
             (ok, w') \<Rightarrow> (if ok then Some (length rows) else None, w')))"

text \<open>\<open>step\<close>: how many events were stored; \<open>None\<close> is an exception.\<close>

definition outbox_step ::
  "mes_codec \<Rightarrow> (string \<Rightarrow> pyval option) \<Rightarrow> outbox_env \<Rightarrow> outbox_view option \<Rightarrow> outbox_side \<Rightarrow>
   nat option \<times> outbox_side" where
  "outbox_step mx parse env view w =
     (case view of
        None \<Rightarrow> (Some 0, w)
      | Some v \<Rightarrow>
          (case ov_epoch v of
             None \<Rightarrow> (Some 0, w)
           | Some epoch \<Rightarrow>
               (let w1 = w\<lparr>ob_reader := follow_epoch parse epoch (ov_rows v) (ob_reader w)\<rparr>;
                    pos = outbox_position epoch (ob_spool w);
                    rows = next_rows pos (ov_rows v);
                    w2 = w1\<lparr>ob_reader := foldl (\<lambda>rd r. see_operator parse r rd) (ob_reader w1) rows\<rparr>
                in if \<not> ov_rows_ok v then (Some 0, w1)
                   else if rows = [] then
                     (if map_option fst (spool_cursor outbox_source (sp_db (ob_spool w))) = Some epoch
                      then (case write_ack env epoch pos w2 of (ok, w3) \<Rightarrow> (if ok then Some 0 else None, w3))
                      else (Some 0, w2))
                   else copy_rows mx env epoch rows w2)))"

text \<open>
  \<open>while step() == BATCH\<close>: one read of the database and its environment per round;
  \<open>None\<close> when the rounds given did not suffice, else whether it ended without an exception.
\<close>

fun outbox_loop ::
  "mes_codec \<Rightarrow> (string \<Rightarrow> pyval option) \<Rightarrow> (outbox_env \<times> outbox_view option) list \<Rightarrow> outbox_side \<Rightarrow>
   bool option \<times> outbox_side" where
  "outbox_loop mx parse [] w = (None, w)"
| "outbox_loop mx parse (x # xs) w =
     (case outbox_step mx parse (fst x) (snd x) w of
        (None, w') \<Rightarrow> (Some False, w')
      | (Some k, w') \<Rightarrow> if k = outbox_batch then outbox_loop mx parse xs w' else (Some True, w'))"

section \<open>The worker\<close>

definition worker_prune_s :: rat where "worker_prune_s = 3600"

record mes_worker =
  wk_side :: outbox_side
  wk_has_reader :: bool
  wk_waiting :: "cycle_fact list"
  wk_last_prune :: rat

text \<open>What one round gets from outside: for the facts, the outbox reads, and the clocks.\<close>

record worker_env =
  we_facts :: "nat \<Rightarrow> add_env"
  we_reads :: "(outbox_env \<times> outbox_view option) list"
  we_clock :: rat
  we_wall_ms :: int

definition store_facts ::
  "mes_codec \<Rightarrow> (nat \<Rightarrow> add_env) \<Rightarrow> cycle_fact list \<Rightarrow> mes_worker \<Rightarrow>
   (cycle_fact \<times> fate) list \<times> bool \<times> mes_worker" where
  "store_facts mx envs queued wk =
     (case store_waiting mx envs (wk_waiting wk @ queued) (ob_spool (wk_side wk)) of
        (settled, waiting, ok, s) \<Rightarrow>
          (settled, ok, wk\<lparr>wk_waiting := waiting, wk_side := (wk_side wk)\<lparr>ob_spool := s\<rparr>\<rparr>))"

definition prune_due :: "worker_env \<Rightarrow> mes_worker \<Rightarrow> mes_worker" where
  "prune_due env wk =
     (if worker_prune_s \<le> we_clock env - wk_last_prune wk
      then wk\<lparr>wk_last_prune := we_clock env,
              wk_side := (wk_side wk)\<lparr>ob_spool := (ob_spool (wk_side wk))
                \<lparr>sp_db := spool_prune (we_wall_ms env) (sp_db (ob_spool (wk_side wk)))\<rparr>\<rparr>\<rparr>
      else wk)"

text \<open>
  \<open>run_once\<close>; an exception leaves the rest of the round undone (\<open>run\<close> logs it), and a
  round whose reads are still going on has not pruned yet.
\<close>

definition run_once ::
  "mes_codec \<Rightarrow> (string \<Rightarrow> pyval option) \<Rightarrow> worker_env \<Rightarrow> cycle_fact list \<Rightarrow> mes_worker \<Rightarrow>
   (cycle_fact \<times> fate) list \<times> mes_worker" where
  "run_once mx parse env queued wk =
     (case store_facts mx (we_facts env) queued wk of
        (settled, ok, wk1) \<Rightarrow>
          if \<not> ok then (settled, wk1)
          else if \<not> wk_has_reader wk then (settled, prune_due env wk1)
          else (case outbox_loop mx parse (we_reads env) (wk_side wk1) of
                  (ended, side) \<Rightarrow>
                    (let wk2 = wk1\<lparr>wk_side := side\<rparr>
                     in (settled, if ended = Some True then prune_due env wk2 else wk2))))"

section \<open>Every cycle is stored\<close>

text \<open>A fact as the sampling loop makes it from proper ids, and a spool with proper ids and numbers left.\<close>

definition fact_ok :: "cycle_fact \<Rightarrow> bool" where
  "fact_ok f \<longleftrightarrow>
     time_ok (cf_started f) \<and> time_ok (cf_ended f) \<and> cf_started f \<le> cf_ended f \<and>
     cf_outcome f \<in> set [''completed'', ''aborted'', ''unknown''] \<and>
     (case cf_program f of PNone \<Rightarrow> True | PStr p \<Rightarrow> p \<noteq> [] \<and> length p \<le> 1024 | _ \<Rightarrow> False) \<and>
     uuid4 (cf_execution f) \<and> uuid4_or_none (cf_operator f)"

definition spool_ready :: "nat \<Rightarrow> spool \<Rightarrow> bool" where
  "spool_ready n s \<longleftrightarrow>
     uuid4 (sp_producer_id s) \<and> uuid4 (sp_epoch s) \<and> uuid4_or_none (sd_site_id (sp_db s)) \<and>
     uuid4 (sp_machine_id s) \<and> 0 \<le> sp_producer_seq s \<and>
     sp_producer_seq s + int n \<le> 9007199254740991 \<and>
     nat (sd_sequence (sp_db s) + int n) < 10 ^ 19"

definition env_ready :: "int \<Rightarrow> string \<Rightarrow> add_env \<Rightarrow> bool" where
  "env_ready budget i env \<longleftrightarrow>
     so_bytes (ae_spool env) < budget \<and> so_commit_ok (ae_spool env) \<and>
     (\<forall>r. own_env_ok (ae_own env r) \<and> oe_event_id (ae_own env r) = i)"

definition records :: "mes_codec \<Rightarrow> cycle_fact \<Rightarrow> spool_row \<Rightarrow> bool" where
  "records mx f r \<longleftrightarrow>
     is_pending r \<and> sr_type r = ''cycle.observed'' \<and>
     (\<exists>ev. sr_body r = mx_dumps mx ev \<and> dict_get ev ''payload'' = PDict (cycle_payload f) \<and>
        dict_get ev ''correlation'' =
          PDict [(''execution_id'', PStr (cf_execution f)), (''scan_id'', PNone),
                 (''operator_session_id'', opt_str (cf_operator f))])"

lemma program_text:
  "(case v of PNone \<Rightarrow> True | PStr p \<Rightarrow> p \<noteq> [] \<and> length p \<le> 1024 | _ \<Rightarrow> False) \<Longrightarrow>
   \<exists>path. v = opt_str path \<and> path_ok path"
proof (cases v)
  case PNone
  then show ?thesis by (intro exI [of _ None]) (simp add: opt_str_def path_ok_def)
next
  case (PStr p)
  assume "case v of PNone \<Rightarrow> True | PStr p \<Rightarrow> p \<noteq> [] \<and> length p \<le> 1024 | _ \<Rightarrow> False"
  with PStr show ?thesis by (intro exI [of _ "Some p"]) (simp add: opt_str_def path_ok_def)
qed simp_all

lemma make_event_finite:
  "all_finite payload \<Longrightarrow>
   all_finite (PDict (make_event env p e site m k r ty payload t (cycle_correlation ex sid)))"
  unfolding make_event_def correlate_cycle by (cases site; cases sid) (simp_all add: opt_str_def)

lemma add_fact_stored:
  assumes mx: "speaks_v1 (mx_contract mx)" "10 \<le> mx_fuel mx"
    and f: "fact_ok f" and s: "spool_ready (Suc n) s"
    and env: "env_ready (sp_budget s) i env" "i \<notin> sr_event_id ` set (sd_rows (sp_db s))"
  obtains s' r where "add_fact mx env f s = (Inr [sd_sequence (sp_db s) + 1], s')"
    "sd_rows (sp_db s') = sd_rows (sp_db s) @ [r]" "records mx f r" "sr_event_id r = i"
    "spool_ready n s'" "sp_budget s' = sp_budget s"
proof -
  let ?row = "sd_sequence (sp_db s) + 1" and ?site = "sd_site_id (sp_db s)"
  let ?own = "ae_own env ?row"
  let ?corr = "cycle_correlation (cf_execution f) (cf_operator f)"
  let ?item = "OwnEvent ''cycle.observed'' (PDict (cycle_payload f)) (cf_ended f) ?corr"
  let ?ev = "make_event ?own (sp_producer_id s) (sp_epoch s) ?site (sp_machine_id s) (sp_producer_seq s + 1) ?row
      ''cycle.observed'' (PDict (cycle_payload f)) (cf_ended f) ?corr"
  from f obtain path where path: "cf_program f = opt_str path" "path_ok path"
    using program_text by (auto simp: fact_ok_def)
  have pay: "cycle_payload f = cycle_payload_of (cf_started f) (cf_ended f) (cf_outcome f) path (method_text (cf_method f))"
    by (simp add: cycle_payload_def cycle_payload_of_def path(1))
  have origin: "origin_ok (sp_producer_id s) (sp_epoch s) ?site (sp_machine_id s) (sp_producer_seq s + 1) ?row"
    using s by (auto simp: spool_ready_def origin_ok_def)
  have own: "own_env_ok ?own" "oe_event_id ?own = i" using env(1) by (simp_all add: env_ready_def)
  have how: "method_text (cf_method f) \<in> set [''explicit'', ''time_window'', ''none'']"
    by (cases "cf_method f") simp_all
  have valid: "validate_event (mx_fuel mx) (mx_contract mx) (PDict ?ev) = Inr []"
    unfolding pay
    by (rule cycle_event_valid [OF mx own(1) origin _ _ _ _ _ _ path(2) how]) (use f in \<open>simp_all add: fact_ok_def\<close>)
  have "all_finite (PDict (cycle_payload f))"
    unfolding pay cycle_payload_of_def by (cases path) (simp_all add: opt_str_def)
  from make_event_finite [OF this] have enc: "encode (mx_dumps mx) ?ev = Some (mx_dumps mx ?ev)"
    unfolding encode_def by (simp del: all_finite.simps)
  let ?facts = "\<lparr>ev_id = i, ev_type = ''cycle.observed'', ev_occurred = milliseconds (cf_ended f)\<rparr>"
  let ?r = "new_row ?row ?facts (mx_dumps mx ?ev)"
  have made: "ec_make (codec_of mx env) (sp_producer_id s) (sp_epoch s) ?site (sp_machine_id s)
      (sp_producer_seq s + 1) ?row ?item = Some (?facts, mx_dumps mx ?ev)"
    using valid enc own(2) by (simp add: codec_of_def contract_codec_def own_event_def Let_def)
  obtain s' where s': "add_fact mx env f s = (Inr [?row], s')"
      "sd_rows (sp_db s') = sd_rows (sp_db s) @ [?r]" "sd_sequence (sp_db s') = ?row"
      "sp_producer_seq s' = sp_producer_seq s + 1" "sp_producer_id s' = sp_producer_id s"
      "sp_epoch s' = sp_epoch s" "sp_machine_id s' = sp_machine_id s" "sd_site_id (sp_db s') = ?site"
      "sp_budget s' = sp_budget s"
    using made env own(2)
    by (simp add: add_fact_def spool_add_def append_locked_def append_tx_def insert_row_def env_ready_def
        set_cursor_def Let_def)
  have "records mx f ?r"
    unfolding records_def new_row_def is_pending_def
    by (intro conjI exI [of _ ?ev]) (simp_all add: make_event_def dict_get_def correlate_cycle)
  moreover have "sr_event_id ?r = i" by (simp add: new_row_def)
  moreover have "spool_ready n s'" using s s'(3-8) by (simp add: spool_ready_def algebra_simps)
  ultimately show thesis using that s'(1,2,9) by blast
qed

lemma store_waiting_all:
  assumes mx: "speaks_v1 (mx_contract mx)" "10 \<le> mx_fuel mx"
    and "\<forall>f\<in>set fs. fact_ok f" "spool_ready (length fs) s"
    and "\<forall>k<length fs. env_ready (sp_budget s) (ids k) (envs k)" "inj_on ids {..<length fs}"
    and "\<forall>k<length fs. ids k \<notin> sr_event_id ` set (sd_rows (sp_db s))"
  shows "\<exists>s' new. store_waiting mx envs fs s = (map (\<lambda>f. (f, Stored)) fs, [], True, s') \<and>
    sd_rows (sp_db s') = sd_rows (sp_db s) @ new \<and> list_all2 (records mx) fs new"
  using assms(3-7)
proof (induction fs arbitrary: s envs ids)
  case (Cons f fs)
  have "fact_ok f" "spool_ready (Suc (length fs)) s" "env_ready (sp_budget s) (ids 0) (envs 0)"
      "ids 0 \<notin> sr_event_id ` set (sd_rows (sp_db s))"
    using Cons.prems by simp_all
  from add_fact_stored [OF mx this] obtain s1 r where
    s1: "add_fact mx (envs 0) f s = (Inr [sd_sequence (sp_db s) + 1], s1)"
      "sd_rows (sp_db s1) = sd_rows (sp_db s) @ [r]" "records mx f r" "sr_event_id r = ids 0"
      "spool_ready (length fs) s1" "sp_budget s1 = sp_budget s" by metis
  let ?ids = "\<lambda>k. ids (Suc k)" and ?envs = "\<lambda>k. envs (Suc k)"
  have "\<forall>f\<in>set fs. fact_ok f" "\<forall>k<length fs. env_ready (sp_budget s1) (?ids k) (?envs k)"
      "inj_on ?ids {..<length fs}"
    using Cons.prems s1(6) by (auto simp: inj_on_def)
  moreover have "\<forall>k<length fs. ?ids k \<notin> sr_event_id ` set (sd_rows (sp_db s1))"
    using Cons.prems(4,5) s1(2,4) by (auto simp: inj_on_def)
  ultimately have "\<forall>f\<in>set fs. fact_ok f" "\<forall>k<length fs. env_ready (sp_budget s1) (?ids k) (?envs k)"
      "inj_on ?ids {..<length fs}" "\<forall>k<length fs. ?ids k \<notin> sr_event_id ` set (sd_rows (sp_db s1))"
    by simp_all
  from Cons.IH [OF this(1) s1(5) this(2-4)] obtain s' new where
    "store_waiting mx ?envs fs s1 = (map (\<lambda>f. (f, Stored)) fs, [], True, s')"
    "sd_rows (sp_db s') = sd_rows (sp_db s1) @ new" "list_all2 (records mx) fs new" by blast
  with s1 show ?case by (intro exI [of _ s'] exI [of _ "r # new"]) (simp add: Let_def)
qed simp


definition v1_contract :: contract where
  "v1_contract =
     \<lparr>ct_envelope = envelope_schema, ct_envelope_defs = envelope_defs,
      ct_types = [(''cycle.observed'', cycle_observed_info)], ct_max_event_bytes = 16384, ct_max_raw_bytes = 4096\<rparr>"

definition demo_mx :: mes_codec where
  "demo_mx = \<lparr>mx_fuel = 10, mx_contract = v1_contract, mx_dumps = (\<lambda>_. ''{}''), mx_loads = (\<lambda>_. NotJson)\<rparr>"

definition demo_worker :: mes_worker where
  "demo_worker =
     \<lparr>wk_side = \<lparr>ob_reader = outbox_reader_init,
        ob_spool = open_spool 100 demo_id demo_id demo_id spool_db_empty None 0, ob_ack = None\<rparr>,
      wk_has_reader = True, wk_waiting = [], wk_last_prune = 0\<rparr>"

definition demo_add_env :: add_env where
  "demo_add_env =
     \<lparr>ae_spool = \<lparr>so_bytes = 0, so_commit_ok = True, so_sidecar_ok = True, so_bytes_after = 0\<rparr>,
      ae_own = (\<lambda>_. \<lparr>oe_event_id = demo_id, oe_synced = True, oe_boot_id = ''b'', oe_mono_ms = 0,
                    oe_version = ''1''\<rparr>)\<rparr>"

definition todays_fact :: cycle_fact where
  "todays_fact =
     \<lparr>cf_started = 0, cf_ended = 60, cf_outcome = ''completed'', cf_program = PStr ''/nc/a.ngc'',
      cf_execution = demo_id, cf_method = NoMatch, cf_operator = None\<rparr>"

lemma demo_uuid: "uuid4 demo_id"
  using demo_id_match(1) by (simp add: uuid4_def demo_id_def last_opt_def)


section \<open>No cycle disappears\<close>

text \<open>
  The sampling loop and the worker together: calls of the link, rounds of the worker, and
  anything else that happens to the spool. The facts made so far are followed.
\<close>

record fact_flow =
  ff_link :: cycle_link
  ff_worker :: mes_worker
  ff_made :: "cycle_fact list"
  ff_unqueued :: "cycle_fact list"
  ff_settled :: "(cycle_fact \<times> fate) list"

datatype flow_event =
    FlowLink link_op
  | FlowStore "nat \<Rightarrow> add_env"
  | FlowSpool "spool \<Rightarrow> spool"

definition flow_start :: "string \<Rightarrow> mes_worker \<Rightarrow> fact_flow" where
  "flow_start mw wk =
     \<lparr>ff_link = cycle_link_init mw, ff_worker = wk\<lparr>wk_waiting := []\<rparr>, ff_made = [], ff_unqueued = [],
      ff_settled = []\<rparr>"

text \<open>The fact a call of the link makes, if it ends a cycle.\<close>

definition made_fact :: "cycle_link \<Rightarrow> link_op \<Rightarrow> cycle_fact list" where
  "made_fact l op =
     (case op of
        LinkEnd env outcome \<Rightarrow> (case cl_cycle l of None \<Rightarrow> [] | Some c \<Rightarrow> [fact_of env outcome c])
      | _ \<Rightarrow> [])"

fun flow_step :: "mes_codec \<Rightarrow> fact_flow \<Rightarrow> flow_event \<Rightarrow> fact_flow" where
  "flow_step mx w (FlowLink op) =
     (let l' = link_step (ff_link w) op; made = made_fact (ff_link w) op
      in w\<lparr>ff_link := l', ff_made := ff_made w @ made,
           ff_unqueued := (if cl_dropped l' > cl_dropped (ff_link w) then ff_unqueued w @ made
                           else ff_unqueued w)\<rparr>)"
| "flow_step mx w (FlowStore envs) =
     (case store_facts mx envs (cl_out (ff_link w)) (ff_worker w) of
        (settled, ok, wk) \<Rightarrow>
          w\<lparr>ff_link := (ff_link w)\<lparr>cl_out := []\<rparr>, ff_worker := wk, ff_settled := ff_settled w @ settled\<rparr>)"
| "flow_step mx w (FlowSpool g) =
     w\<lparr>ff_worker := (ff_worker w)\<lparr>wk_side := (wk_side (ff_worker w))
        \<lparr>ob_spool := g (ob_spool (wk_side (ff_worker w)))\<rparr>\<rparr>\<rparr>"

lemma store_waiting_settles:
  "store_waiting mx envs fs s = (settled, waiting, ok, s') \<Longrightarrow> fs = map fst settled @ waiting"
proof (induction mx envs fs s arbitrary: settled waiting ok s' rule: store_waiting.induct)
  case (2 mx envs f fs s)
  obtain r s1 where r: "add_fact mx (envs 0) f s = (r, s1)" by (cases "add_fact mx (envs 0) f s")
  obtain st wt k s2 where rest: "store_waiting mx (\<lambda>k. envs (Suc k)) fs s1 = (st, wt, k, s2)"
    by (cases "store_waiting mx (\<lambda>k. envs (Suc k)) fs s1")
  have "fs = map fst st @ wt"
    using "2.IH" [of s1 st wt k s2] rest by simp
  with "2.prems" r rest show ?case
    by (cases r) (auto simp: Let_def split: spool_error.splits if_splits)
qed simp

lemma try_in_flow [simp]:
  "cl_out (snd (try_in env c l)) = cl_out l" "cl_dropped (snd (try_in env c l)) = cl_dropped l"
  by (simp_all add: try_in_def split: option.split)

lemma link_step_flow:
  "cl_dropped (link_step l op) = cl_dropped l \<and> cl_out (link_step l op) = cl_out l @ made_fact l op \<or>
   cl_dropped (link_step l op) = cl_dropped l + 1 \<and> cl_out (link_step l op) = cl_out l \<and>
     length (made_fact l op) = 1"
  by (cases op)
    (auto simp: link_start_def link_poll_def link_set_program_def link_end_def made_fact_def Let_def
      split: option.splits bool.splits)

definition flow_ok :: "fact_flow \<Rightarrow> bool" where
  "flow_ok w \<longleftrightarrow>
     mset (ff_made w) = mset (ff_unqueued w) + mset (map fst (ff_settled w)) +
       mset (wk_waiting (ff_worker w)) + mset (cl_out (ff_link w)) \<and>
     length (ff_unqueued w) = cl_dropped (ff_link w) \<and>
     (cl_dropped (ff_link w) = 0 \<longrightarrow>
        ff_made w = map fst (ff_settled w) @ wk_waiting (ff_worker w) @ cl_out (ff_link w))"

lemma flow_step_ok:
  assumes "flow_ok w"
  shows "flow_ok (flow_step mx w e)"
proof (cases e)
  case (FlowLink op)
  from link_step_flow [of "ff_link w" op] assms FlowLink show ?thesis
    by (auto simp: flow_ok_def Let_def)
next
  case (FlowStore envs)
  obtain settled waiting ok s where st: "store_waiting mx envs (wk_waiting (ff_worker w) @ cl_out (ff_link w))
      (ob_spool (wk_side (ff_worker w))) = (settled, waiting, ok, s)"
    by (cases "store_waiting mx envs (wk_waiting (ff_worker w) @ cl_out (ff_link w))
      (ob_spool (wk_side (ff_worker w)))")
  from store_waiting_settles [OF this]
  have all: "wk_waiting (ff_worker w) @ cl_out (ff_link w) = map fst settled @ waiting" .
  then have "mset (wk_waiting (ff_worker w)) + mset (cl_out (ff_link w)) = mset (map fst settled) + mset waiting"
    by (metis mset_append)
  with assms st all show ?thesis
    by (auto simp: flow_ok_def FlowStore store_facts_def ac_simps)
next
  case (FlowSpool g)
  with assms show ?thesis by (simp add: flow_ok_def)
qed

interpretation ff: invariant_machine "flow_step mx" flow_ok for mx
  by unfold_locales (rule flow_step_ok)


definition demo_ops :: "link_op list" where
  "demo_ops =
     [LinkStart (demo_link_env PNone demo_id) ''/nc/a.ngc'' False, LinkEnd (demo_link_env PNone demo_id) ''completed'']"


section \<open>MillWright's outbox\<close>

text \<open>
  MillWright's side: its epoch, every event it wrote in it, up to where it has pruned (a
  prune needs an acknowledgement of that epoch). \<open>mw_copied\<close> follows the bodies that
  arrived in the spool in this epoch.
\<close>

record mw_world =
  mw_epoch :: string
  mw_epochs :: "string list"
  mw_log :: "outbox_row list"
  mw_pruned :: int
  mw_side :: outbox_side
  mw_copied :: "string list"

definition outbox_rows :: "mw_world \<Rightarrow> outbox_row list" where
  "outbox_rows w = filter (\<lambda>r. or_seq r > mw_pruned w) (mw_log w)"

definition arrived :: "spool \<Rightarrow> spool \<Rightarrow> string list" where
  "arrived s s' = map sr_body (drop (length (sd_rows (sp_db s))) (sd_rows (sp_db s')))"

definition set_spool :: "spool \<Rightarrow> mw_world \<Rightarrow> mw_world" where
  "set_spool s w = w\<lparr>mw_side := (mw_side w)\<lparr>ob_spool := s\<rparr>\<rparr>"

definition own_op :: "spool_op \<Rightarrow> bool" where
  "own_op op \<longleftrightarrow> (case op of OpAppend _ _ cursor _ \<Rightarrow> cursor = None | _ \<Rightarrow> True)"

text \<open>
  Reachable worlds. The agent reads the outbox, not at all or completely, with any outcome
  of its commit and its acknowledgement; it can restart at any time, and everything else
  done to the spool leaves the outbox cursor to this reader.
\<close>

inductive outbox_reach :: "mes_codec \<Rightarrow> (string \<Rightarrow> pyval option) \<Rightarrow> mw_world \<Rightarrow> bool"
  for mx :: mes_codec and parse :: "string \<Rightarrow> pyval option" where
  begun: "outbox_reach mx parse
    \<lparr>mw_epoch = e, mw_epochs = [e], mw_log = [], mw_pruned = 0,
     mw_side = \<lparr>ob_reader = outbox_reader_init, ob_spool = open_spool b m fp fe spool_db_empty side bytes, ob_ack = None\<rparr>,
     mw_copied = []\<rparr>"
| written: "outbox_reach mx parse w \<Longrightarrow> 0 < or_seq r \<Longrightarrow> (\<forall>x\<in>set (mw_log w). or_seq x < or_seq r) \<Longrightarrow>
    outbox_reach mx parse (w\<lparr>mw_log := mw_log w @ [r]\<rparr>)"
| pruned: "outbox_reach mx parse w \<Longrightarrow> ob_ack (mw_side w) = Some (mw_epoch w, k) \<Longrightarrow> p \<le> k \<Longrightarrow>
    outbox_reach mx parse (w\<lparr>mw_pruned := max (mw_pruned w) p\<rparr>)"
| replaced: "outbox_reach mx parse w \<Longrightarrow> e \<notin> set (mw_epochs w) \<Longrightarrow>
    outbox_reach mx parse
      (w\<lparr>mw_epoch := e, mw_epochs := e # mw_epochs w, mw_log := [], mw_pruned := 0, mw_copied := []\<rparr>)"
| read_out: "outbox_reach mx parse w \<Longrightarrow>
    v = None \<or> v = Some \<lparr>ov_epoch = Some (mw_epoch w), ov_rows = outbox_rows w, ov_rows_ok = ok\<rparr> \<Longrightarrow>
    outbox_step mx parse env v (mw_side w) = (res, side') \<Longrightarrow>
    outbox_reach mx parse
      (w\<lparr>mw_side := side', mw_copied := mw_copied w @ arrived (ob_spool (mw_side w)) (ob_spool side')\<rparr>)"
| restarted: "outbox_reach mx parse w \<Longrightarrow>
    outbox_reach mx parse (w\<lparr>mw_side := (mw_side w)\<lparr>ob_reader := outbox_reader_init\<rparr>\<rparr>)"
| own: "outbox_reach mx parse w \<Longrightarrow> own_op op \<Longrightarrow>
    s = spool_step (codec_of mx add) site_of (ob_spool (mw_side w)) op \<Longrightarrow>
    outbox_reach mx parse (set_spool s w)"

definition outbox_inv :: "mw_world \<Rightarrow> bool" where
  "outbox_inv w \<longleftrightarrow>
     (let pos = outbox_position (mw_epoch w) (ob_spool (mw_side w))
      in sorted_wrt (<) (map or_seq (mw_log w)) \<and> (\<forall>r\<in>set (mw_log w). 0 < or_seq r) \<and>
         mw_copied w = map (\<lambda>r. utf8 (or_body r)) (filter (\<lambda>r. or_seq r \<le> pos) (mw_log w)) \<and>
         mw_pruned w \<le> pos \<and> mw_epoch w \<in> set (mw_epochs w) \<and>
         (pos = 0 \<or> pos \<in> or_seq ` set (mw_log w)) \<and>
         (\<forall>k. ob_ack (mw_side w) = Some (mw_epoch w, k) \<longrightarrow> k \<le> pos) \<and>
         (\<forall>e k. ob_ack (mw_side w) = Some (e, k) \<longrightarrow> e \<in> set (mw_epochs w)) \<and>
         (\<forall>e k. spool_cursor outbox_source (sp_db (ob_spool (mw_side w))) = Some (e, k) \<longrightarrow> e \<in> set (mw_epochs w)))"

text \<open>The next batch continues where the copied part of a log ends.\<close>

lemma sorted_split:
  assumes "sorted_wrt (<) (map or_seq lg)"
  shows "filter (\<lambda>r. or_seq r \<le> pos) lg @ filter (\<lambda>r. or_seq r > pos) lg = lg"
  using assms
proof (induction lg)
  case (Cons r lg)
  then show ?case
  proof (cases "or_seq r \<le> pos")
    case False
    then have "filter (\<lambda>r. or_seq r \<le> pos) lg = []" using Cons.prems by (auto simp: filter_empty_conv)
    with False Cons show ?thesis by simp
  qed simp
qed simp

lemma batch_continues:
  assumes "sorted_wrt (<) (map or_seq lg)" "rows = take n (filter (\<lambda>r. or_seq r > pos) lg)" "rows \<noteq> []"
  shows "filter (\<lambda>r. or_seq r \<le> or_seq (last rows)) lg = filter (\<lambda>r. or_seq r \<le> pos) lg @ rows"
    "pos < or_seq (last rows)"
proof -
  let ?lo = "filter (\<lambda>r. or_seq r \<le> pos) lg" and ?hi = "filter (\<lambda>r. or_seq r > pos) lg"
  have lg: "lg = ?lo @ rows @ drop n ?hi" using sorted_split [OF assms(1), of pos] assms(2) by simp
  have l: "last rows \<in> set rows" using assms(3) by simp
  then show gt: "pos < or_seq (last rows)" using assms(2) by (auto dest: in_set_takeD)
  have s: "sorted_wrt (<) (map or_seq (?lo @ rows @ drop n ?hi))" using assms(1) lg by simp
  have "filter (\<lambda>r. or_seq r \<le> or_seq (last rows)) (?lo @ rows @ drop n ?hi) = ?lo @ rows"
  proof -
    have lo: "filter (\<lambda>r. or_seq r \<le> or_seq (last rows)) ?lo = ?lo"
      by (rule filter_True) (use gt in auto)
    obtain ys where ys: "rows = ys @ [last rows]" using append_butlast_last_id [OF assms(3)] by metis
    have "sorted_wrt (<) (map or_seq rows)" using s by (simp add: sorted_wrt_append)
    then have "sorted_wrt (<) (map or_seq (ys @ [last rows]))" using ys by simp
    then have "\<forall>r\<in>set (ys @ [last rows]). or_seq r \<le> or_seq (last rows)"
      by (auto simp: sorted_wrt_append)
    then have "\<forall>r\<in>set rows. or_seq r \<le> or_seq (last rows)" using ys by simp
    then have mid: "filter (\<lambda>r. or_seq r \<le> or_seq (last rows)) rows = rows" by simp
    have "\<forall>r\<in>set (drop n ?hi). or_seq (last rows) < or_seq r"
      using s l by (auto simp: sorted_wrt_append)
    then have "filter (\<lambda>r. or_seq r \<le> or_seq (last rows)) (drop n ?hi) = []"
      by (auto simp: filter_empty_conv)
    with lo mid show ?thesis by simp
  qed
  with lg show "filter (\<lambda>r. or_seq r \<le> or_seq (last rows)) lg = ?lo @ rows" by metis
qed

lemma arrived_same [simp]: "sd_rows (sp_db s') = sd_rows (sp_db s) \<Longrightarrow> arrived s s' = []"
  by (simp add: arrived_def)

lemma see_operator_only_reader: "spool_cursor c (sp_db (ob_spool (w\<lparr>ob_reader := rd\<rparr>))) = spool_cursor c (sp_db (ob_spool w))"
  by simp

text \<open>What an append of bodies does to the rows and the cursors.\<close>

lemma spool_append_effect:
  assumes "spool_append cd env bodies (Some (src, e, p)) s = (res, s')"
  shows "(\<exists>x. res = Inl x) \<and> sd_rows (sp_db s') = sd_rows (sp_db s) \<and>
      sd_cursors (sp_db s') = sd_cursors (sp_db s) \<or>
    (\<exists>x. res = Inr x) \<and> arrived s s' = bodies \<and>
      sd_cursors (sp_db s') = AList.update src (e, p) (sd_cursors (sp_db s))"
proof (cases rule: append_locked_cases [where cd = cd and env = env and items = "map RawEvent bodies"
      and cursor = "Some (src, e, p)" and force = False and s = s])
  case (refused x full)
  with assms have "res = Inl x" "s' = s\<lparr>sp_full := full\<rparr>" by (simp_all add: spool_append_def)
  then show ?thesis by simp
next
  case (stored db pseq nos s1)
  from append_items_Inr [OF stored(1)] obtain new where
    new: "sd_rows db = sd_rows (sp_db s) @ new" "map sr_body new = bodies"
      "sd_cursors db = sd_cursors (sp_db s)" by blast
  have "sd_rows (sp_db s') = sd_rows db" "sd_cursors (sp_db s') = AList.update src (e, p) (sd_cursors db)"
    using stored(3,4) assms by (auto simp: spool_append_def set_cursor_def)
  with new stored(3) assms show ?thesis by (auto simp: spool_append_def arrived_def)
qed

lemma write_ack_effect:
  "write_ack env e k w = (ok, w') \<Longrightarrow>
   ob_spool w' = ob_spool w \<and> (ob_ack w' = ob_ack w \<or> ob_ack w' = Some (e, k))"
  by (auto simp: write_ack_def split: if_splits)

lemma copy_rows_effect:
  assumes "copy_rows mx env e rows w = (res, w')"
  shows "sd_rows (sp_db (ob_spool w')) = sd_rows (sp_db (ob_spool w)) \<and>
      sd_cursors (sp_db (ob_spool w')) = sd_cursors (sp_db (ob_spool w)) \<and> ob_ack w' = ob_ack w \<or>
    arrived (ob_spool w) (ob_spool w') = map (\<lambda>r. utf8 (or_body r)) rows \<and>
      sd_cursors (sp_db (ob_spool w')) =
        AList.update outbox_source (e, or_seq (last rows)) (sd_cursors (sp_db (ob_spool w))) \<and>
      (ob_ack w' = ob_ack w \<or> ob_ack w' = Some (e, or_seq (last rows)))"
proof -
  let ?app = "spool_append (codec_of mx (oe_add env)) (ae_spool (oe_add env)) (map (\<lambda>r. utf8 (or_body r)) rows)
      (Some (outbox_source, e, or_seq (last rows))) (ob_spool w)"
  obtain r s where app: "?app = (r, s)" by (cases ?app)
  show ?thesis
  proof (cases r)
    case (Inl x)
    with assms app have "w' = w\<lparr>ob_spool := s\<rparr>" by (simp add: copy_rows_def)
    with spool_append_effect [OF app] Inl show ?thesis by auto
  next
    case (Inr x)
    with assms app obtain ok where "write_ack env e (or_seq (last rows)) (w\<lparr>ob_spool := s\<rparr>) = (ok, w')"
      by (auto simp: copy_rows_def split: prod.splits)
    from write_ack_effect [OF this] spool_append_effect [OF app] Inr show ?thesis by auto
  qed
qed

text \<open>One step of the reader: nothing, an acknowledgement of the position, or one batch.\<close>

lemma outbox_step_cases:
  assumes "outbox_step mx parse env (Some \<lparr>ov_epoch = Some e, ov_rows = vrows, ov_rows_ok = ok\<rparr>) w = (res, w')"
  defines "pos \<equiv> outbox_position e (ob_spool w)"
  obtains (same) "sd_rows (sp_db (ob_spool w')) = sd_rows (sp_db (ob_spool w))"
      "sd_cursors (sp_db (ob_spool w')) = sd_cursors (sp_db (ob_spool w))"
      "ob_ack w' = ob_ack w \<or> ob_ack w' = Some (e, pos)"
  | (batch) "next_rows pos vrows \<noteq> []"
      "arrived (ob_spool w) (ob_spool w') = map (\<lambda>r. utf8 (or_body r)) (next_rows pos vrows)"
      "sd_cursors (sp_db (ob_spool w')) =
         AList.update outbox_source (e, or_seq (last (next_rows pos vrows))) (sd_cursors (sp_db (ob_spool w)))"
      "ob_ack w' = ob_ack w \<or> ob_ack w' = Some (e, or_seq (last (next_rows pos vrows)))"
proof -
  let ?rows = "next_rows pos vrows"
  define w1 where "w1 = w\<lparr>ob_reader := follow_epoch parse e vrows (ob_reader w)\<rparr>"
  define w2 where "w2 = w1\<lparr>ob_reader := foldl (\<lambda>rd r. see_operator parse r rd) (ob_reader w1) ?rows\<rparr>"
  have w: "ob_spool w1 = ob_spool w" "ob_ack w1 = ob_ack w" "ob_spool w2 = ob_spool w" "ob_ack w2 = ob_ack w"
    by (simp_all add: w1_def w2_def)
  have step: "outbox_step mx parse env (Some \<lparr>ov_epoch = Some e, ov_rows = vrows, ov_rows_ok = ok\<rparr>) w =
      (if \<not> ok then (Some 0, w1)
       else if ?rows = [] then
         (if map_option fst (spool_cursor outbox_source (sp_db (ob_spool w))) = Some e
          then (case write_ack env e pos w2 of (k, w3) \<Rightarrow> (if k then Some 0 else None, w3)) else (Some 0, w2))
       else copy_rows mx env e ?rows w2)"
    by (simp only: outbox_step_def Let_def option.case outbox_view.simps pos_def w1_def w2_def)
  show thesis
  proof (cases "ok \<and> ?rows \<noteq> []")
    case True
    with assms(1) step have "copy_rows mx env e ?rows w2 = (res, w')" by simp
    from copy_rows_effect [OF this] w True show thesis by (elim disjE) (auto intro: same batch)
  next
    case False
    with assms(1) step have "w' = w1 \<or> w' = w2 \<or> (\<exists>k. write_ack env e pos w2 = (k, w'))"
      by (auto split: if_splits prod.splits)
    with w write_ack_effect [of env e pos w2 _ w'] show thesis by (intro same) auto
  qed
qed

lemma own_op_cursors:
  assumes "own_op op"
  shows "sd_cursors (sp_db (spool_step cd site_of s op)) = sd_cursors (sp_db s)"
proof (cases op)
  case (OpAppend env items cursor force)
  then have c: "cursor = None" using assms by (simp add: own_op_def)
  show ?thesis
  proof (cases rule: append_locked_cases
      [where cd = cd and env = env and items = items and cursor = cursor and force = force and s = s])
    case (refused e full)
    with OpAppend show ?thesis by simp
  next
    case (stored db pseq nos s')
    with append_items_Inr [OF stored(1)] OpAppend c show ?thesis by (auto simp: set_cursor_def)
  qed
qed (auto simp: mark_acked_def spool_prune_def drop_waiting_for_other_site_def set_site_id_def open_spool_def Let_def)

lemma position_cursors:
  "sd_cursors (sp_db s') = sd_cursors (sp_db s) \<Longrightarrow> outbox_position e s' = outbox_position e s"
  by (simp add: outbox_position_def spool_cursor_def)

lemma position_updated:
  "sd_cursors (sp_db s') = AList.update outbox_source (e, p) (sd_cursors (sp_db s)) \<Longrightarrow>
   outbox_position e s' = p \<and> spool_cursor outbox_source (sp_db s') = Some (e, p)"
  by (simp add: outbox_position_def spool_cursor_def update_conv')

lemma next_rows_log:
  assumes "sorted_wrt (<) (map or_seq (mw_log w))" "mw_pruned w \<le> pos"
  shows "next_rows pos (outbox_rows w) = take outbox_batch (filter (\<lambda>r. or_seq r > pos) (mw_log w))"
proof -
  have "filter (\<lambda>r. or_seq r > pos) (outbox_rows w) = filter (\<lambda>r. or_seq r > pos) (mw_log w)"
    using assms(2) unfolding outbox_rows_def filter_filter by (intro filter_cong) auto
  moreover have "sorted (map or_seq (filter (\<lambda>r. or_seq r > pos) (mw_log w)))"
    using assms(1) by (intro sorted_filter strict_sorted_imp_sorted) simp
  ultimately show ?thesis by (simp add: next_rows_def sort_key_id_if_sorted)
qed

lemma read_out_inv:
  assumes inv: "outbox_inv w"
    and step: "outbox_step mx parse env (Some \<lparr>ov_epoch = Some (mw_epoch w), ov_rows = outbox_rows w, ov_rows_ok = ok\<rparr>)
      (mw_side w) = (res, side')"
  shows "outbox_inv (w\<lparr>mw_side := side', mw_copied := mw_copied w @ arrived (ob_spool (mw_side w)) (ob_spool side')\<rparr>)"
proof -
  let ?e = "mw_epoch w" and ?pos = "outbox_position (mw_epoch w) (ob_spool (mw_side w))"
  note i = inv [unfolded outbox_inv_def Let_def]
  have next_eq: "next_rows ?pos (outbox_rows w) = take outbox_batch (filter (\<lambda>r. or_seq r > ?pos) (mw_log w))"
    using i by (intro next_rows_log) simp_all
  from step show ?thesis
  proof (cases rule: outbox_step_cases)
    case same
    have "outbox_position ?e (ob_spool side') = ?pos" using position_cursors [OF same(2)] .
    moreover have "spool_cursor outbox_source (sp_db (ob_spool side')) =
        spool_cursor outbox_source (sp_db (ob_spool (mw_side w)))"
      using same(2) by (simp add: spool_cursor_def)
    moreover have "ob_ack side' = Some (e, k) \<Longrightarrow> ob_ack (mw_side w) = Some (e, k) \<or> e = ?e \<and> k = ?pos" for e k
      using same(3) by auto
    ultimately show ?thesis using i same(1) unfolding outbox_inv_def by (simp add: Let_def) blast
  next
    case batch
    let ?rows = "next_rows ?pos (outbox_rows w)" and ?new = "or_seq (last (next_rows ?pos (outbox_rows w)))"
    note c = batch_continues [OF _ next_eq batch(1)]
    have cont: "filter (\<lambda>r. or_seq r \<le> ?new) (mw_log w) = filter (\<lambda>r. or_seq r \<le> ?pos) (mw_log w) @ ?rows"
        "?pos < ?new"
      using c i by blast+
    note pos' = position_updated [OF batch(3)]
    have "mw_copied w @ arrived (ob_spool (mw_side w)) (ob_spool side') =
        map (\<lambda>r. utf8 (or_body r)) (filter (\<lambda>r. or_seq r \<le> ?new) (mw_log w))"
      unfolding cont(1) batch(2) using i by simp
    moreover have ack: "ob_ack (mw_side w) = Some (e, k) \<or> e = ?e \<and> k = ?new" if "ob_ack side' = Some (e, k)" for e k
      using batch(4) that by auto
    have "k \<le> ?new" if "ob_ack side' = Some (?e, k)" for k
      using ack [OF that] i cont(2) by fastforce
    moreover have "e \<in> set (mw_epochs w)" if "ob_ack side' = Some (e, k)" for e k
      using ack [OF that] i by blast
    moreover have "last ?rows \<in> set (mw_log w)"
      using last_in_set [OF batch(1)] next_eq by (auto dest: in_set_takeD)
    ultimately show ?thesis using i pos' cont(2) by (simp add: outbox_inv_def Let_def)
  qed
qed

lemma outbox_reach_inv: "outbox_reach mx parse w \<Longrightarrow> outbox_inv w"
proof (induction rule: outbox_reach.induct)
  case (begun e b m fp fe side bytes)
  have "sd_cursors (sp_db (open_spool b m fp fe spool_db_empty side bytes)) = []"
    by (simp add: open_spool_def spool_db_empty_def Let_def)
  then show ?case by (simp add: outbox_inv_def outbox_position_def spool_cursor_def)
next
  case (written w r)
  let ?pos = "outbox_position (mw_epoch w) (ob_spool (mw_side w))"
  have "\<not> or_seq r \<le> ?pos" using written by (auto simp: outbox_inv_def Let_def)
  with written show ?case by (auto simp: outbox_inv_def Let_def sorted_wrt_append)
next
  case (pruned w k p)
  then show ?case by (auto simp: outbox_inv_def Let_def)
next
  case (replaced w e)
  then show ?case by (auto simp: outbox_inv_def Let_def outbox_position_def split: option.splits)
next
  case (read_out w v ok env res side')
  show ?case
  proof (cases v)
    case None
    with read_out(3) have "side' = mw_side w" by (simp add: outbox_step_def)
    with read_out(4) show ?thesis by (simp add: outbox_inv_def)
  next
    case (Some v')
    with read_out show ?thesis by (auto intro: read_out_inv)
  qed
next
  case (restarted w)
  then show ?case by (simp add: outbox_inv_def)
next
  case (own w op s add site_of)
  have "sd_cursors (sp_db s) = sd_cursors (sp_db (ob_spool (mw_side w)))"
    using own_op_cursors [OF own(2)] own(3) by simp
  with own(4) position_cursors [OF this] show ?case
    by (simp add: outbox_inv_def set_spool_def spool_cursor_def)
qed

text \<open>
  C6: MillWright's events are copied exactly once, in order, and none is lost. Whatever
  reads, failed commits, failed acknowledgements, restarts, prunes and new epochs happen,
  the spool received of the current epoch exactly a first part of what MillWright wrote,
  byte for byte; everything after it is still in the outbox, and the acknowledgement never
  covers an event that has not arrived.
\<close>

theorem outbox_copied_in_order:
  assumes "outbox_reach mx parse w"
  shows "\<exists>k. mw_copied w = map (\<lambda>r. utf8 (or_body r)) (take k (mw_log w)) \<and>
    (\<forall>r\<in>set (drop k (mw_log w)). r \<in> set (outbox_rows w)) \<and>
    (\<forall>a. ob_ack (mw_side w) = Some (mw_epoch w, a) \<longrightarrow> (\<forall>r\<in>set (drop k (mw_log w)). a < or_seq r))"
proof -
  let ?pos = "outbox_position (mw_epoch w) (ob_spool (mw_side w))"
  let ?lo = "filter (\<lambda>r. or_seq r \<le> ?pos) (mw_log w)" and ?hi = "filter (\<lambda>r. or_seq r > ?pos) (mw_log w)"
  note i = outbox_reach_inv [OF assms, unfolded outbox_inv_def Let_def]
  have "?lo @ ?hi = mw_log w" using i by (intro sorted_split) simp
  then have "take (length ?lo) (mw_log w) = ?lo" "drop (length ?lo) (mw_log w) = ?hi"
    by (metis append_eq_conv_conj)+
  then show ?thesis
    using i by (intro exI [of _ "length ?lo"]) (auto simp: outbox_rows_def)
qed

lemma outbox_copied_in_order_witness:
  "\<exists>k. [] = map (\<lambda>r. utf8 (or_body r)) (take k [\<lparr>or_seq = 1, or_type = ''t'', or_body = ''{}''\<rparr>]) \<and> k = 0"
proof -
  let ?r = "\<lparr>or_seq = 1, or_type = ''t'', or_body = ''{}''\<rparr>"
  let ?w0 = "\<lparr>mw_epoch = ''e'', mw_epochs = [''e''], mw_log = [], mw_pruned = 0,
     mw_side = \<lparr>ob_reader = outbox_reader_init, ob_spool = open_spool 1 ''m'' ''p'' ''q'' spool_db_empty None 0,
       ob_ack = None\<rparr>, mw_copied = []\<rparr>"
  have "outbox_reach demo_mx (\<lambda>_. None) (?w0\<lparr>mw_log := mw_log ?w0 @ [?r]\<rparr>)"
    by (rule outbox_reach.written [OF outbox_reach.begun]) simp_all
  from outbox_copied_in_order [OF this] show ?thesis by auto
qed

section \<open>The outbox empties\<close>

text \<open>A codec and environment that take every row of the outbox.\<close>

definition takes_all :: "mes_codec \<Rightarrow> int \<Rightarrow> outbox_env \<Rightarrow> bool" where
  "takes_all mx budget env \<longleftrightarrow>
     oe_ack_ok env \<and> so_commit_ok (ae_spool (oe_add env)) \<and> so_bytes (ae_spool (oe_add env)) < budget"

text \<open>Rows the contract accepts, under ids that the spool does not know yet.\<close>

definition rows_fresh :: "mes_codec \<Rightarrow> outbox_row list \<Rightarrow> spool \<Rightarrow> bool" where
  "rows_fresh mx rows s \<longleftrightarrow>
     (\<exists>facts. map (\<lambda>r. read_event (mx_fuel mx) (mx_contract mx) (mx_loads mx) (utf8 (or_body r))) rows = map Some facts \<and>
        distinct (map ev_id facts) \<and> ev_id ` set facts \<inter> sr_event_id ` set (sd_rows (sp_db s)) = {})"

lemma append_raw_succeeds:
  assumes "map (ec_read cd) bodies = map Some facts" "distinct (map ev_id facts)"
    and "ev_id ` set facts \<inter> sr_event_id ` set (sd_rows db) = {}"
  shows "\<exists>db' p nos'. append_items cd s (map RawEvent bodies) db pseq nos = Inr (db', p, nos') \<and>
    sr_event_id ` set (sd_rows db') = sr_event_id ` set (sd_rows db) \<union> ev_id ` set facts"
  using assms
proof (induction bodies arbitrary: facts db pseq nos)
  case (Cons b bodies)
  then obtain ev facts' where f: "facts = ev # facts'" "ec_read cd b = Some ev" "map (ec_read cd) bodies = map Some facts'"
    by (cases facts) auto
  let ?db = "db\<lparr>sd_rows := sd_rows db @ [new_row (sd_sequence db + 1) ev b], sd_sequence := sd_sequence db + 1\<rparr>"
  have "distinct (map ev_id facts')" "ev_id ` set facts' \<inter> sr_event_id ` set (sd_rows ?db) = {}"
    using Cons.prems(2,3) f(1) by (auto simp: new_row_def)
  from Cons.IH [OF f(3) this] obtain db' p nos' where
    "append_items cd s (map RawEvent bodies) ?db pseq (nos @ [sd_sequence db + 1]) = Inr (db', p, nos')"
    "sr_event_id ` set (sd_rows db') = sr_event_id ` set (sd_rows ?db) \<union> ev_id ` set facts'" by blast
  moreover have "ev_id ev \<notin> sr_event_id ` set (sd_rows db)" using Cons.prems(3) f(1) by auto
  ultimately show ?case using f by (auto simp: insert_row_def Let_def new_row_def)
qed simp

definition left_over :: "string \<Rightarrow> outbox_row list \<Rightarrow> outbox_side \<Rightarrow> outbox_row list" where
  "left_over e rows w = filter (\<lambda>r. or_seq r > outbox_position e (ob_spool w)) rows"

lemma map_Some_append:
  assumes "map f (xs @ ys) = map Some zs"
  shows "\<exists>fs gs. zs = fs @ gs \<and> map f xs = map Some fs \<and> map f ys = map Some gs"
proof -
  have "length zs = length xs + length ys" using arg_cong [OF assms, of length] by simp
  then have "map f xs = map Some (take (length xs) zs)" "map f ys = map Some (drop (length xs) zs)"
    using arg_cong [OF assms, of "take (length xs)"] arg_cong [OF assms, of "drop (length xs)"]
    by (simp_all add: take_map drop_map)
  then show ?thesis by (intro exI [of _ "take (length xs) zs"] exI [of _ "drop (length xs) zs"]) simp
qed

lemma map_Some_inj: "map Some xs = map Some ys \<Longrightarrow> xs = ys"
  by (induction xs arbitrary: ys) auto

lemma copy_rows_succeeds:
  assumes "takes_all mx (sp_budget (ob_spool w)) env" "rows_fresh mx rows (ob_spool w)"
  obtains w' where "copy_rows mx env e rows w = (Some (length rows), w')"
    "arrived (ob_spool w) (ob_spool w') = map (\<lambda>r. utf8 (or_body r)) rows"
    "sd_rows (sp_db (ob_spool w')) =
       sd_rows (sp_db (ob_spool w)) @ drop (length (sd_rows (sp_db (ob_spool w)))) (sd_rows (sp_db (ob_spool w')))"
    "outbox_position e (ob_spool w') = or_seq (last rows)" "sp_budget (ob_spool w') = sp_budget (ob_spool w)"
    "ob_ack w' = Some (e, or_seq (last rows))"
    "\<forall>more. rows_fresh mx (rows @ more) (ob_spool w) \<longrightarrow> rows_fresh mx more (ob_spool w')"
proof -
  let ?s = "ob_spool w" and ?cd = "codec_of mx (oe_add env)"
  let ?bodies = "map (\<lambda>r. utf8 (or_body r)) rows"
  have read: "ec_read ?cd = read_event (mx_fuel mx) (mx_contract mx) (mx_loads mx)"
    by (simp add: codec_of_def contract_codec_def)
  from assms(2) obtain facts where facts: "map (ec_read ?cd) ?bodies = map Some facts"
      "distinct (map ev_id facts)" "ev_id ` set facts \<inter> sr_event_id ` set (sd_rows (sp_db ?s)) = {}"
    by (auto simp: rows_fresh_def read comp_def)
  let ?t = "?s\<lparr>sp_full := so_bytes (ae_spool (oe_add env)) \<ge> sp_budget ?s\<rparr>"
  from append_raw_succeeds [OF facts, of ?t "sp_producer_seq ?s" "[]"] obtain db p nos where
    db: "append_items ?cd ?t (map RawEvent ?bodies) (sp_db ?s) (sp_producer_seq ?s) [] = Inr (db, p, nos)"
      "sr_event_id ` set (sd_rows db) = sr_event_id ` set (sd_rows (sp_db ?s)) \<union> ev_id ` set facts" by blast
  let ?c = "Some (outbox_source, e, or_seq (last rows))"
  obtain s' where s': "spool_append ?cd (ae_spool (oe_add env)) ?bodies ?c ?s = (Inr nos, s')"
      "sp_budget s' = sp_budget ?s" "sd_rows (sp_db s') = sd_rows db"
    using db(1) assms(1)
    by (auto simp: spool_append_def append_locked_def append_tx_def takes_all_def set_cursor_def Let_def)
  let ?w' = "w\<lparr>ob_spool := s', ob_ack := Some (e, or_seq (last rows))\<rparr>"
  note eff = spool_append_effect [OF s'(1)]
  have rows: "\<exists>new. sd_rows db = sd_rows (sp_db ?s) @ new"
    using append_items_Inr [OF db(1)] by blast
  have more: "rows_fresh mx more s'" if "rows_fresh mx (rows @ more) ?s" for more
  proof -
    from that obtain all where all: "map (ec_read ?cd) (map (\<lambda>r. utf8 (or_body r)) (rows @ more)) = map Some all"
        "distinct (map ev_id all)" "ev_id ` set all \<inter> sr_event_id ` set (sd_rows (sp_db ?s)) = {}"
      by (auto simp: rows_fresh_def read comp_def)
    have "map (ec_read ?cd) (?bodies @ map (\<lambda>r. utf8 (or_body r)) more) = map Some all"
      using all(1) by (simp only: map_append)
    from map_Some_append [OF this] obtain fs gs where split: "all = fs @ gs"
        "map (ec_read ?cd) ?bodies = map Some fs"
        "map (ec_read ?cd) (map (\<lambda>r. utf8 (or_body r)) more) = map Some gs" by blast
    have "fs = facts" by (rule map_Some_inj [OF trans [OF split(2) [symmetric] facts(1)]])
    with split(1) have all_eq: "all = facts @ gs" by simp
    have "distinct (map ev_id gs)" using all(2) unfolding all_eq by simp
    moreover have "ev_id ` set gs \<inter> (sr_event_id ` set (sd_rows (sp_db ?s)) \<union> ev_id ` set facts) = {}"
      using all(2,3) unfolding all_eq by (auto simp: disjoint_iff)
    ultimately have "distinct (map ev_id gs)" "ev_id ` set gs \<inter> sr_event_id ` set (sd_rows (sp_db s')) = {}"
      unfolding s'(3) db(2) .
    with split(3) show ?thesis unfolding rows_fresh_def read map_map comp_def by blast
  qed
  have run: "copy_rows mx env e rows w = (Some (length rows), ?w')"
    using s'(1) assms(1) by (simp add: copy_rows_def write_ack_def takes_all_def)
  have new: "arrived ?s s' = ?bodies" "sd_cursors (sp_db s') = AList.update outbox_source (e, or_seq (last rows)) (sd_cursors (sp_db ?s))"
    using eff by auto
  show thesis
  proof (rule that [of ?w'])
    show "sd_rows (sp_db (ob_spool ?w')) = sd_rows (sp_db ?s) @ drop (length (sd_rows (sp_db ?s))) (sd_rows (sp_db (ob_spool ?w')))"
      using rows s'(3) by auto
    show "outbox_position e (ob_spool ?w') = or_seq (last rows)" using position_updated [OF new(2)] by simp
  qed (use run new s'(2) more in simp_all)
qed

lemma left_after_batch:
  assumes "sorted_wrt (<) (map or_seq rs)" "batch = take n (filter (\<lambda>r. or_seq r > pos) rs)" "batch \<noteq> []"
  shows "filter (\<lambda>r. or_seq r > or_seq (last batch)) rs = drop n (filter (\<lambda>r. or_seq r > pos) rs)"
proof -
  have "filter (\<lambda>r. or_seq r \<le> or_seq (last batch)) rs @ filter (\<lambda>r. or_seq r > or_seq (last batch)) rs = rs"
    using sorted_split [OF assms(1)] .
  moreover have "filter (\<lambda>r. or_seq r \<le> pos) rs @ batch @ drop n (filter (\<lambda>r. or_seq r > pos) rs) = rs"
    using sorted_split [OF assms(1), of pos] unfolding assms(2) append_take_drop_id .
  ultimately have "(filter (\<lambda>r. or_seq r \<le> pos) rs @ batch) @ filter (\<lambda>r. or_seq r > or_seq (last batch)) rs =
      (filter (\<lambda>r. or_seq r \<le> pos) rs @ batch) @ drop n (filter (\<lambda>r. or_seq r > pos) rs)"
    unfolding batch_continues(1) [OF assms] append_assoc by (rule trans [OF _ sym])
  then show ?thesis unfolding same_append_eq .
qed

lemma follow_side [simp]:
  "sp_budget (ob_spool (w\<lparr>ob_reader := rd\<rparr>)) = sp_budget (ob_spool w)"
  by simp

lemma outbox_step_takes:
  assumes rows: "sorted_wrt (<) (map or_seq rows)"
    and env: "takes_all mx (sp_budget (ob_spool w)) env" "rows_fresh mx (left_over e rows w) (ob_spool w)"
  obtains k w' where
    "outbox_step mx parse env (Some \<lparr>ov_epoch = Some e, ov_rows = rows, ov_rows_ok = True\<rparr>) w = (Some k, w')"
    "k = length (take outbox_batch (left_over e rows w))"
    "left_over e rows w' = drop outbox_batch (left_over e rows w)"
    "sp_budget (ob_spool w') = sp_budget (ob_spool w)"
    "sd_rows (sp_db (ob_spool w')) = sd_rows (sp_db (ob_spool w)) @
       drop (length (sd_rows (sp_db (ob_spool w)))) (sd_rows (sp_db (ob_spool w')))"
    "arrived (ob_spool w) (ob_spool w') = map (\<lambda>r. utf8 (or_body r)) (take outbox_batch (left_over e rows w))"
    "rows_fresh mx (left_over e rows w') (ob_spool w')"
    "left_over e rows w \<noteq> [] \<Longrightarrow>
       ob_ack w' = Some (e, or_seq (last (take outbox_batch (left_over e rows w)))) \<and>
       outbox_position e (ob_spool w') = or_seq (last (take outbox_batch (left_over e rows w)))"
    "left_over e rows w = [] \<Longrightarrow> ob_ack w' = ob_ack w \<or> ob_ack w' = Some (e, outbox_position e (ob_spool w))"
proof -
  let ?pos = "outbox_position e (ob_spool w)" and ?left = "left_over e rows w"
  let ?batch = "take outbox_batch ?left"
  have srt: "sorted (map or_seq ?left)"
    unfolding left_over_def using rows by (intro sorted_filter strict_sorted_imp_sorted) simp
  have next_eq: "next_rows ?pos rows = ?batch"
    using srt by (simp add: next_rows_def left_over_def sort_key_id_if_sorted)
  define w2 where "w2 = w\<lparr>ob_reader := foldl (\<lambda>rd r. see_operator parse r rd)
      (follow_epoch parse e rows (ob_reader w)) ?batch\<rparr>"
  have w2: "ob_spool w2 = ob_spool w" by (simp add: w2_def)
  have step: "outbox_step mx parse env (Some \<lparr>ov_epoch = Some e, ov_rows = rows, ov_rows_ok = True\<rparr>) w =
      (if ?batch = [] then
         (if map_option fst (spool_cursor outbox_source (sp_db (ob_spool w))) = Some e
          then (Some 0, w2\<lparr>ob_ack := Some (e, ?pos)\<rparr>) else (Some 0, w2))
       else copy_rows mx env e ?batch w2)"
    using env(1) by (simp add: outbox_step_def next_eq w2_def write_ack_def takes_all_def Let_def)
  show thesis
  proof (cases "?left = []")
    case True
    define w' where "w' = (if map_option fst (spool_cursor outbox_source (sp_db (ob_spool w))) = Some e
        then w2\<lparr>ob_ack := Some (e, ?pos)\<rparr> else w2)"
    have w': "ob_spool w' = ob_spool w" "ob_ack w' = ob_ack w \<or> ob_ack w' = Some (e, ?pos)"
      by (simp_all add: w'_def w2_def)
    have "left_over e rows w' = ?left" by (simp add: left_over_def w')
    with step True w' env(2) show thesis
      by (intro that [of 0 w']) (simp_all add: w'_def [symmetric], simp add: w'_def)
  next
    case False
    have pos_batch: "0 < outbox_batch" by (simp add: outbox_batch_def)
    with False have ne: "?batch \<noteq> []" by simp
    have fresh: "rows_fresh mx ?batch (ob_spool w2)"
    proof -
      from env(2) obtain facts where "map (\<lambda>r. read_event (mx_fuel mx) (mx_contract mx) (mx_loads mx) (utf8 (or_body r))) ?left = map Some facts"
        "distinct (map ev_id facts)" "ev_id ` set facts \<inter> sr_event_id ` set (sd_rows (sp_db (ob_spool w))) = {}"
        by (auto simp: rows_fresh_def)
      then show ?thesis unfolding rows_fresh_def w2
        by (intro exI [of _ "take outbox_batch facts"])
          (auto simp: take_map distinct_take simp flip: take_map dest: in_set_takeD)
    qed
    have takes: "takes_all mx (sp_budget (ob_spool w2)) env" using env(1) w2 by simp
    from copy_rows_succeeds [OF takes fresh, of e] obtain w' where
      w': "copy_rows mx env e ?batch w2 = (Some (length ?batch), w')"
        "arrived (ob_spool w) (ob_spool w') = map (\<lambda>r. utf8 (or_body r)) ?batch"
        "sd_rows (sp_db (ob_spool w')) = sd_rows (sp_db (ob_spool w)) @
           drop (length (sd_rows (sp_db (ob_spool w)))) (sd_rows (sp_db (ob_spool w')))"
        "outbox_position e (ob_spool w') = or_seq (last ?batch)" "sp_budget (ob_spool w') = sp_budget (ob_spool w)"
        "ob_ack w' = Some (e, or_seq (last ?batch))"
        "\<forall>more. rows_fresh mx (?batch @ more) (ob_spool w) \<longrightarrow> rows_fresh mx more (ob_spool w')"
      unfolding w2 by blast
    have "left_over e rows w' = drop outbox_batch ?left"
      using left_after_batch [OF rows, of ?batch outbox_batch ?pos] ne w'(4) by (simp add: left_over_def)
    moreover have "rows_fresh mx (drop outbox_batch ?left) (ob_spool w')"
      using w'(7) env(2) by (metis append_take_drop_id)
    ultimately show thesis
      using step ne w' by (intro that [of "length ?batch" w']) simp_all
  qed
qed

definition grows :: "spool \<Rightarrow> spool \<Rightarrow> string list \<Rightarrow> bool" where
  "grows s s' bodies \<longleftrightarrow> (\<exists>new. sd_rows (sp_db s') = sd_rows (sp_db s) @ new \<and> map sr_body new = bodies)"

lemma grows_arrived: "grows s s' bodies \<Longrightarrow> arrived s s' = bodies"
  by (auto simp: grows_def arrived_def)

lemma grows_trans: "grows s s' bs \<Longrightarrow> grows s' s'' bs' \<Longrightarrow> grows s s'' (bs @ bs')"
  by (auto simp: grows_def)

lemma outbox_loop_drains:
  assumes rows: "sorted_wrt (<) (map or_seq rows)"
    and "\<forall>x\<in>set xs. takes_all mx (sp_budget (ob_spool w)) (fst x) \<and>
           snd x = Some \<lparr>ov_epoch = Some e, ov_rows = rows, ov_rows_ok = True\<rparr>"
    and "rows_fresh mx (left_over e rows w) (ob_spool w)"
    and "length (left_over e rows w) div outbox_batch < length xs"
  shows "\<exists>w'. outbox_loop mx parse xs w = (Some True, w') \<and>
    grows (ob_spool w) (ob_spool w') (map (\<lambda>r. utf8 (or_body r)) (left_over e rows w)) \<and>
    (left_over e rows w \<noteq> [] \<longrightarrow> ob_ack w' = Some (e, or_seq (last (left_over e rows w)))) \<and>
    (left_over e rows w = [] \<longrightarrow> ob_ack w' = ob_ack w \<or> ob_ack w' = Some (e, outbox_position e (ob_spool w)))"
  using assms(2-4)
proof (induction xs arbitrary: w)
  case (Cons x xs)
  have x: "takes_all mx (sp_budget (ob_spool w)) (fst x)"
      "snd x = Some \<lparr>ov_epoch = Some e, ov_rows = rows, ov_rows_ok = True\<rparr>"
    using Cons.prems(1) by simp_all
  let ?left = "left_over e rows w"
  from outbox_step_takes [OF rows x(1) Cons.prems(2), of parse] obtain k w1 where
    step: "outbox_step mx parse (fst x) (snd x) w = (Some k, w1)" "k = length (take outbox_batch ?left)"
      "left_over e rows w1 = drop outbox_batch ?left" "sp_budget (ob_spool w1) = sp_budget (ob_spool w)"
      "sd_rows (sp_db (ob_spool w1)) = sd_rows (sp_db (ob_spool w)) @
         drop (length (sd_rows (sp_db (ob_spool w)))) (sd_rows (sp_db (ob_spool w1)))"
      "arrived (ob_spool w) (ob_spool w1) = map (\<lambda>r. utf8 (or_body r)) (take outbox_batch ?left)"
      "rows_fresh mx (left_over e rows w1) (ob_spool w1)"
      "?left \<noteq> [] \<Longrightarrow> ob_ack w1 = Some (e, or_seq (last (take outbox_batch ?left))) \<and>
         outbox_position e (ob_spool w1) = or_seq (last (take outbox_batch ?left))"
      "?left = [] \<Longrightarrow> ob_ack w1 = ob_ack w \<or> ob_ack w1 = Some (e, outbox_position e (ob_spool w))"
    unfolding x(2) by metis
  have grown: "grows (ob_spool w) (ob_spool w1) (map (\<lambda>r. utf8 (or_body r)) (take outbox_batch ?left))"
    using step(5,6) unfolding grows_def arrived_def by blast
  show ?case
  proof (cases "k = outbox_batch")
    case False
    with step(2) have "length ?left < outbox_batch" by simp
    then have "take outbox_batch ?left = ?left" by simp
    with step False grown show ?thesis by simp
  next
    case True
    then have long: "outbox_batch \<le> length ?left" using step(2) by simp
    have pos_batch: "0 < outbox_batch" by (simp add: outbox_batch_def)
    have "length (left_over e rows w1) div outbox_batch < length xs"
      using Cons.prems(3) long pos_batch by (simp add: step(3) div_if [of "length ?left"])
    moreover have "\<forall>x\<in>set xs. takes_all mx (sp_budget (ob_spool w1)) (fst x) \<and>
        snd x = Some \<lparr>ov_epoch = Some e, ov_rows = rows, ov_rows_ok = True\<rparr>"
      using Cons.prems(1) step(4) by simp
    ultimately obtain w' where w': "outbox_loop mx parse xs w1 = (Some True, w')"
        "grows (ob_spool w1) (ob_spool w') (map (\<lambda>r. utf8 (or_body r)) (left_over e rows w1))"
        "left_over e rows w1 \<noteq> [] \<longrightarrow> ob_ack w' = Some (e, or_seq (last (left_over e rows w1)))"
        "left_over e rows w1 = [] \<longrightarrow> ob_ack w' = ob_ack w1 \<or> ob_ack w' = Some (e, outbox_position e (ob_spool w1))"
      using Cons.IH [of w1] step(7) by blast
    have "grows (ob_spool w) (ob_spool w') (map (\<lambda>r. utf8 (or_body r)) ?left)"
      using grows_trans [OF grown w'(2)] unfolding step(3) by (simp flip: map_append)
    moreover have "outbox_loop mx parse (x # xs) w = (Some True, w')"
      using step(1) True w'(1) by simp
    moreover have "ob_ack w' = Some (e, or_seq (last ?left))" if "?left \<noteq> []"
    proof (cases "drop outbox_batch ?left = []")
      case True
      then have "take outbox_batch ?left = ?left" by simp
      with step(3,8) w'(4) that True show ?thesis by auto
    next
      case False
      with w'(3) step(3) show ?thesis by (simp add: last_drop)
    qed
    moreover have "?left \<noteq> []" using long pos_batch by auto
    ultimately show ?thesis by blast
  qed
qed simp

text \<open>
  C20: the outbox empties. When the spool has room, the contract accepts MillWright's
  events and writes work, one round of the worker reads batches until none is left: the
  round ends, everything after the cursor has arrived in the spool in order, and the
  acknowledgement names the last event.
\<close>

theorem outbox_drains:
  assumes "sorted_wrt (<) (map or_seq rows)"
    and "\<forall>x\<in>set xs. takes_all mx (sp_budget (ob_spool w)) (fst x) \<and>
           snd x = Some \<lparr>ov_epoch = Some e, ov_rows = rows, ov_rows_ok = True\<rparr>"
    and "rows_fresh mx (left_over e rows w) (ob_spool w)"
    and "length (left_over e rows w) div outbox_batch < length xs"
  shows "\<exists>w'. outbox_loop mx parse xs w = (Some True, w') \<and>
    arrived (ob_spool w) (ob_spool w') = map (\<lambda>r. utf8 (or_body r)) (left_over e rows w) \<and>
    (left_over e rows w \<noteq> [] \<longrightarrow> ob_ack w' = Some (e, or_seq (last (left_over e rows w))))"
  using outbox_loop_drains [OF assms] grows_arrived by blast

lemma outbox_drains_witness:
  "\<exists>w'. outbox_loop (demo_mx\<lparr>mx_fuel := 2, mx_contract := open_contract, mx_loads := \<lambda>_. Loaded (PDict sent_event) False\<rparr>)
       (\<lambda>_. None)
       [(\<lparr>oe_add = demo_add_env, oe_ack_ok = True\<rparr>,
         Some \<lparr>ov_epoch = Some ''x'', ov_rows = [\<lparr>or_seq = 7, or_type = ''t'', or_body = ''{}''\<rparr>], ov_rows_ok = True\<rparr>)]
       (wk_side demo_worker) = (Some True, w') \<and>
     arrived (ob_spool (wk_side demo_worker)) (ob_spool w') = [''{}''] \<and> ob_ack w' = Some (''x'', 7)"
proof -
  let ?mx = "demo_mx\<lparr>mx_fuel := 2, mx_contract := open_contract, mx_loads := \<lambda>_. Loaded (PDict sent_event) False\<rparr>"
  let ?rows = "[\<lparr>or_seq = 7, or_type = ''t'', or_body = ''{}''\<rparr>]" and ?w = "wk_side demo_worker"
  have utf: "utf8 ''{}'' = ''{}''" by code_simp
  have none: "sd_rows (sp_db (ob_spool ?w)) = []" "outbox_position ''x'' (ob_spool ?w) = 0"
    by (simp_all add: demo_worker_def open_spool_def spool_db_empty_def outbox_position_def spool_cursor_def Let_def)
  then have left: "left_over ''x'' ?rows ?w = ?rows" by (simp add: left_over_def)
  have fresh: "rows_fresh ?mx ?rows (ob_spool ?w)"
    unfolding rows_fresh_def using none utf sent_event_read
    by (intro exI [of _ "[\<lparr>ev_id = ''e'', ev_type = ''program.version'', ev_occurred = - 62135596799000\<rparr>]"]) simp
  have takes: "takes_all ?mx (sp_budget (ob_spool ?w)) \<lparr>oe_add = demo_add_env, oe_ack_ok = True\<rparr>"
    by (simp add: takes_all_def demo_add_env_def demo_worker_def open_spool_def Let_def)
  show ?thesis
    using outbox_drains [of ?rows "[(\<lparr>oe_add = demo_add_env, oe_ack_ok = True\<rparr>,
         Some \<lparr>ov_epoch = Some ''x'', ov_rows = ?rows, ov_rows_ok = True\<rparr>)]" ?mx ?w "''x''"]
      takes fresh left utf by (simp add: outbox_batch_def)
qed

text \<open>
  A session id that ends with a newline passes the agent's own check
  (\<open>demo_fact_recorded\<close>, \<open>demo_id_match\<close>), and the contract refuses the cycle: it is lost.
\<close>

lemma newline_operator_loses_cycle:
  assumes "speaks_v1 (mx_contract mx)" "cf_operator f = Some (i @ [CHR 0x0A])"
    and "so_bytes (ae_spool (envs 0)) < sp_budget s"
  shows "\<exists>s'. store_waiting mx envs [f] s = ([(f, Refused)], [], True, s') \<and> sd_rows (sp_db s') = sd_rows (sp_db s)"
proof -
  have "ec_make (codec_of mx (envs 0)) p e site m k r
      (OwnEvent ''cycle.observed'' (PDict (cycle_payload f)) (cf_ended f)
         (cycle_correlation (cf_execution f) (cf_operator f))) = None" for p e site m k r
    using newline_operator_refused [OF assms(1)] by (simp add: codec_of_def contract_codec_def assms(2))
  then show ?thesis
    using assms(3) by (simp add: add_fact_def spool_add_def append_locked_def append_tx_def Let_def)
qed

end
