(* ===== verification/Status_Loop.thy ===== *)
theory Status_Loop
  imports Cycle_Machine Cycle_Link
begin

text \<open>
  The status loop with the MES side switched on (\<open>status.py\<close>, \<open>main\<close>: the part of each
  sample from \<open>scanner.load\<close> to the cycle's program, and \<open>_disconnect_linuxcnc\<close>): the cycle
  state machine and the MillWright link run side by side, and what one sample makes of a
  cycle must be the same in both.
\<close>

section \<open>One sample\<close>

record status_loop =
  sl_machine :: cycle_machine
  sl_mes :: mes_loop
  sl_dead :: bool

primrec phase_text :: "cycle_phase \<Rightarrow> string" where
  "phase_text Idle = ''IDLE''"
| "phase_text Running = ''RUNNING''"
| "phase_text Paused = ''PAUSED''"

record status_sample =
  ls_cycle :: cycle_sample
  ls_file :: string
  ls_env :: link_env
  ls_env_program :: link_env
  ls_is_file :: "pyval \<Rightarrow> bool"

definition mes_sample_of :: "status_sample \<Rightarrow> cycle_machine \<Rightarrow> cycle_machine \<Rightarrow> mes_sample" where
  "mes_sample_of s m m' =
     \<lparr>ms_before = phase_text (cm_state m), ms_after = phase_text (cm_state m'), ms_file = ls_file s,
      ms_in_sub = cy_in_sub (ls_cycle s), ms_parts = ct_parts_produced (cm_calc m'),
      ms_aborts = ct_abort_count (cm_calc m'), ms_env = ls_env s, ms_env_program = ls_env_program s,
      ms_is_file = ls_is_file s\<rparr>"

text \<open>\<open>calculator.set_program\<close> when the cycle's program turns out to be another file.\<close>

definition program_turned_out :: "mes_sample \<Rightarrow> mes_loop \<Rightarrow> bool" where
  "program_turned_out x w \<longleftrightarrow>
     cycle_on (ms_after x) \<and> cycle_on (ms_before x) \<and> ms_file x \<noteq> '''' \<and>
     PStr (ms_file x) \<noteq> ml_program w \<and> \<not> ms_in_sub x"

definition load_program :: "interp_consts \<Rightarrow> status_sample \<Rightarrow> string \<Rightarrow> cycle_machine \<Rightarrow> cycle_machine" where
  "load_program ic s p m = machine_step ic m (Scanner (LoadFile (cy_files (ls_cycle s)) p))"

definition adopt_in_machine :: "interp_consts \<Rightarrow> status_sample \<Rightarrow> pyval option \<Rightarrow> cycle_machine \<Rightarrow> cycle_machine" where
  "adopt_in_machine ic s adopted m =
     (case adopted of
        Some (PStr p) \<Rightarrow> load_program ic s p (machine_step ic m (ProgramKnown (Some p)))
      | _ \<Rightarrow> m)"

definition status_sample_step :: "interp_consts \<Rightarrow> status_sample \<Rightarrow> status_loop \<Rightarrow> status_loop" where
  "status_sample_step ic s w =
     (let m = load_program ic s (ls_file s) (sl_machine w);
          m' = machine_step ic m (Update (ls_cycle s));
          x = mes_sample_of s m m'
      in case mes_step x (sl_mes w) of
           (ok, mes) \<Rightarrow>
             (let m1 = (if program_turned_out x (sl_mes w)
                        then machine_step ic m' (ProgramKnown (Some (ls_file s))) else m')
              in w\<lparr>sl_machine := adopt_in_machine ic s (ml_adopted mes) m1, sl_mes := mes, sl_dead := \<not> ok\<rparr>))"

text \<open>
  What happens to the loop: samples, scan threads that end, LinuxCNC going away, and the
  worker taking the queued facts. A loop that an exception ended stays where it is.
\<close>

datatype loop_event =
    LoopSample status_sample
  | LoopScan scanner_event
  | LoopGone ns link_env
  | LoopTake

fun loop_step :: "interp_consts \<Rightarrow> status_loop \<Rightarrow> loop_event \<Rightarrow> status_loop" where
  "loop_step ic w (LoopSample s) = (if sl_dead w then w else status_sample_step ic s w)"
| "loop_step ic w (LoopScan e) = w\<lparr>sl_machine := machine_step ic (sl_machine w) (Scanner e)\<rparr>"
| "loop_step ic w (LoopGone now env) =
     (if sl_dead w then w
      else w\<lparr>sl_machine := machine_step ic (sl_machine w) (Disconnect now),
             sl_mes := mes_disconnect env (sl_mes w)\<rparr>)"
| "loop_step ic w LoopTake =
     w\<lparr>sl_mes := (sl_mes w)\<lparr>ml_link := (ml_link (sl_mes w))\<lparr>cl_out := []\<rparr>\<rparr>\<rparr>"

definition loop_start :: "int \<Rightarrow> string \<Rightarrow> status_loop" where
  "loop_start background mw =
     \<lparr>sl_machine = machine_start background, sl_mes = mes_loop_init mw, sl_dead = False\<rparr>"

section \<open>The machine and the link agree\<close>

definition link_open :: "mes_loop \<Rightarrow> bool" where
  "link_open w \<longleftrightarrow> cl_cycle (ml_link w) \<noteq> None"

definition loop_inv :: "status_loop \<Rightarrow> bool" where
  "loop_inv w \<longleftrightarrow>
     machine_inv (sl_machine w) \<and>
     (\<not> sl_dead w \<longrightarrow>
        link_open (sl_mes w) = (cm_state (sl_machine w) \<noteq> Idle) \<and>
        (cm_state (sl_machine w) \<noteq> Idle \<longrightarrow>
           fst (ml_counts (sl_mes w)) = ct_parts_produced (cm_calc (sl_machine w))))"

lemma phase_text_simps [simp]:
  "cycle_on (phase_text p) = (p \<noteq> Idle)" "(phase_text p = ''IDLE'') = (p = Idle)"
  "(phase_text p = ''RUNNING'') = (p = Running)"
  by (cases p; simp add: cycle_on_def)+

lemma load_program_fields [simp]:
  "cm_state (load_program ic s p m) = cm_state m" "cm_calc (load_program ic s p m) = cm_calc m"
  by (simp_all add: load_program_def)

lemma program_known_fields:
  assumes "machine_inv m"
  shows "cm_state (machine_step ic m (ProgramKnown p)) = cm_state m"
    "ct_parts_produced (cm_calc (machine_step ic m (ProgramKnown p))) = ct_parts_produced (cm_calc m)"
  using machine_parts [OF assms, of ic "ProgramKnown p"] by (simp_all add: part_due_def)

lemma adopt_fields:
  assumes "machine_inv m"
  shows "cm_state (adopt_in_machine ic s a m) = cm_state m"
    "ct_parts_produced (cm_calc (adopt_in_machine ic s a m)) = ct_parts_produced (cm_calc m)"
    "machine_inv (adopt_in_machine ic s a m)"
  using assms program_known_fields [OF assms] cym.step_inv
  by (auto simp: adopt_in_machine_def load_program_def simp del: machine_step.simps
      split: option.split pyval.split) (simp_all add: machine_step.simps(2))

text \<open>A machine that is idle stays so or starts running.\<close>

lemma update_from_idle:
  "cm_state m = Idle \<Longrightarrow> cm_state (cycle_update ic x m) \<noteq> Paused"
  by (erule update_idle [where x = x and ic = ic]) simp_all

text \<open>What the link does on one sample.\<close>

lemma try_in_cycle [simp]: "\<exists>c'. cl_cycle (snd (try_in env c l)) = Some c'"
  by (simp add: try_in_def split: option.split)

lemma try_in_queue [simp]:
  "cl_out (snd (try_in env c l)) = cl_out l" "cl_dropped (snd (try_in env c l)) = cl_dropped l"
  by (simp_all add: try_in_def split: option.split)

lemma poll_keeps:
  "(cl_cycle (snd (link_poll env l)) = None) = (cl_cycle l = None)"
  "cl_out (snd (link_poll env l)) = cl_out l" "cl_dropped (snd (link_poll env l)) = cl_dropped l"
  by (simp_all add: link_poll_def split: option.split)

lemma set_program_keeps:
  "(cl_cycle (snd (link_set_program env f l)) = None) = (cl_cycle l = None)"
  "cl_out (snd (link_set_program env f l)) = cl_out l"
  "cl_dropped (snd (link_set_program env f l)) = cl_dropped l"
  by (simp_all add: link_set_program_def Let_def split: option.split bool.split)

lemma start_opens:
  "\<exists>c. cl_cycle (snd (link_start env f u l)) = Some c"
  "cl_out (snd (link_start env f u l)) = cl_out l" "cl_dropped (snd (link_start env f u l)) = cl_dropped l"
  by (simp_all add: link_start_def)

text \<open>The facts a sample adds: \<open>mes_step\<close> after \<open>drive_link\<close> leaves queue and cycle alone.\<close>

lemma after_drive:
  assumes "mes_step x w = (ok, w')"
  defines "w1 \<equiv> drive_link x (w\<lparr>ml_adopted := None\<rparr>)"
  shows "link_open w' = link_open w1" "cl_out (ml_link w') = cl_out (ml_link w1)"
    "cl_dropped (ml_link w') = cl_dropped (ml_link w1)" "ml_counts w' = ml_counts w1"
proof -
  have p: "link_open (snd (drive_program x v)) = link_open v"
      "cl_out (ml_link (snd (drive_program x v))) = cl_out (ml_link v)"
      "cl_dropped (ml_link (snd (drive_program x v))) = cl_dropped (ml_link v)"
      "ml_counts (snd (drive_program x v)) = ml_counts v" for v
    using set_program_keeps [of "ms_env_program x" "ms_file x" "ml_link v"]
    by (auto simp: drive_program_def link_open_def split: prod.split)
  have a: "ml_link (snd (adopt_program x v)) = ml_link v" "ml_counts (snd (adopt_program x v)) = ml_counts v"
      "link_open (snd (adopt_program x v)) = link_open v" for v
    by (simp_all add: adopt_program_def link_open_def Let_def)
  have "w' = w1 \<or> w' = snd (drive_program x w1) \<or> w' = snd (adopt_program x (snd (drive_program x w1)))"
    using assms(1) unfolding mes_step_def w1_def Let_def
    by (auto split: if_splits prod.splits bool.splits)
  then show "link_open w' = link_open w1" "cl_out (ml_link w') = cl_out (ml_link w1)"
    "cl_dropped (ml_link w') = cl_dropped (ml_link w1)" "ml_counts w' = ml_counts w1"
    using p a by auto
qed

text \<open>The fact of a cycle that ends on a sample.\<close>

definition sample_ends :: "mes_sample \<Rightarrow> bool" where
  "sample_ends x \<longleftrightarrow> cycle_on (ms_before x) \<and> ms_after x = ''IDLE''"

lemma drive_link_cases:
  assumes "link_open w = cycle_on (ms_before x)" "ms_before x = ''IDLE'' \<longrightarrow> ms_after x \<noteq> ''PAUSED''"
    and "ms_before x \<in> {''IDLE'', ''RUNNING'', ''PAUSED''}" "ms_after x \<in> {''IDLE'', ''RUNNING'', ''PAUSED''}"
  shows "link_open (drive_link x w) = cycle_on (ms_after x)"
    and "sample_ends x \<Longrightarrow> \<exists>c. cl_cycle (ml_link w) = Some c \<and>
       ml_link (drive_link x w) = link_end (ms_env x) (run_outcome x (ml_counts w)) (ml_link w)"
    and "\<not> sample_ends x \<Longrightarrow> cl_out (ml_link (drive_link x w)) = cl_out (ml_link w) \<and>
       cl_dropped (ml_link (drive_link x w)) = cl_dropped (ml_link w)"
    and "ml_counts (drive_link x w) =
       (if ms_before x = ''IDLE'' \<and> ms_after x = ''RUNNING'' then (ms_parts x, ms_aborts x) else ml_counts w)"
proof -
  show "ml_counts (drive_link x w) =
       (if ms_before x = ''IDLE'' \<and> ms_after x = ''RUNNING'' then (ms_parts x, ms_aborts x) else ml_counts w)"
    by (simp add: drive_link_def)
  show "\<not> sample_ends x \<Longrightarrow> cl_out (ml_link (drive_link x w)) = cl_out (ml_link w) \<and>
       cl_dropped (ml_link (drive_link x w)) = cl_dropped (ml_link w)"
    by (auto simp: drive_link_def sample_ends_def start_opens poll_keeps)
  show "sample_ends x \<Longrightarrow> \<exists>c. cl_cycle (ml_link w) = Some c \<and>
       ml_link (drive_link x w) = link_end (ms_env x) (run_outcome x (ml_counts w)) (ml_link w)"
    using assms(1) by (auto simp: drive_link_def sample_ends_def link_open_def cycle_on_def)
  consider (start) "ms_before x = ''IDLE''" "ms_after x = ''RUNNING''"
    | (finish) "cycle_on (ms_before x)" "ms_after x = ''IDLE''"
    | (poll) "cycle_on (ms_before x) = cycle_on (ms_after x)"
        "\<not> (ms_before x = ''IDLE'' \<and> ms_after x = ''RUNNING'')" "\<not> (cycle_on (ms_before x) \<and> ms_after x = ''IDLE'')"
    using assms(2-4) by (auto simp: cycle_on_def)
  then show "link_open (drive_link x w) = cycle_on (ms_after x)"
  proof cases
    case start
    then show ?thesis using start_opens(1) by (simp add: drive_link_def link_open_def cycle_on_def)
  next
    case finish
    then show ?thesis
      by (auto simp: drive_link_def link_open_def cycle_on_def link_end_def split: option.split)
  next
    case poll
    have "drive_link x w = w\<lparr>ml_link := snd (link_poll (ms_env x) (ml_link w))\<rparr>"
      using poll(2,3) by (simp only: drive_link_def if_False simp_thms)
    with assms(1) poll(1) poll_keeps(1) show ?thesis by (simp add: link_open_def)
  qed
qed

lemma part_due_ends:
  "part_due ic m (Update x) \<Longrightarrow> cm_state m = Running \<and> cm_state (machine_step ic m (Update x)) = Idle"
  by (simp add: part_due_def update_running)

lemma sample_step_link:
  fixes s :: status_sample and ic :: interp_consts
  assumes inv: "loop_inv w" "\<not> sl_dead w"
  defines "m \<equiv> load_program ic s (ls_file s) (sl_machine w)"
  defines "m' \<equiv> machine_step ic m (Update (ls_cycle s))"
  defines "x \<equiv> mes_sample_of s m m'" and "w' \<equiv> status_sample_step ic s w"
  shows "machine_inv (sl_machine w')" "cm_state (sl_machine w') = cm_state m'"
    "ct_parts_produced (cm_calc (sl_machine w')) = ct_parts_produced (cm_calc m')"
    "ct_parts_produced (cm_calc m') = ct_parts_produced (cm_calc m) + (if part_due ic m (Update (ls_cycle s)) then 1 else 0)"
    "\<exists>ok. mes_step x (sl_mes w) = (ok, sl_mes w')"
    "link_open (sl_mes w) = cycle_on (ms_before x)" "ms_before x = ''IDLE'' \<longrightarrow> ms_after x \<noteq> ''PAUSED''"
    "ms_before x \<in> {''IDLE'', ''RUNNING'', ''PAUSED''}" "ms_after x \<in> {''IDLE'', ''RUNNING'', ''PAUSED''}"
    "cm_state m = cm_state (sl_machine w)"
    "ct_parts_produced (cm_calc m) = ct_parts_produced (cm_calc (sl_machine w))"
proof -
  have mi: "machine_inv (sl_machine w)" using inv(1) by (simp add: loop_inv_def)
  then have mm: "machine_inv m" unfolding m_def load_program_def by (rule cym.step_inv)
  then have mm': "machine_inv m'" unfolding m'_def by (rule cym.step_inv)
  show st: "cm_state m = cm_state (sl_machine w)"
    and "ct_parts_produced (cm_calc m) = ct_parts_produced (cm_calc (sl_machine w))"
    by (simp_all add: m_def)
  obtain ok mes where run: "mes_step x (sl_mes w) = (ok, mes)" by (cases "mes_step x (sl_mes w)")
  define m1 where "m1 = (if program_turned_out x (sl_mes w) then machine_step ic m' (ProgramKnown (Some (ls_file s))) else m')"
  have m1: "machine_inv m1" "cm_state m1 = cm_state m'" "ct_parts_produced (cm_calc m1) = ct_parts_produced (cm_calc m')"
    using mm' program_known_fields [OF mm'] cym.step_inv [OF mm'] by (simp_all add: m1_def del: machine_step.simps)
  have w': "sl_machine w' = adopt_in_machine ic s (ml_adopted mes) m1" "sl_mes w' = mes"
    using run unfolding w'_def status_sample_step_def Let_def m_def [symmetric] m'_def [symmetric] x_def [symmetric]
    by (simp_all add: m1_def)
  show "machine_inv (sl_machine w')" "cm_state (sl_machine w') = cm_state m'"
    "ct_parts_produced (cm_calc (sl_machine w')) = ct_parts_produced (cm_calc m')"
    unfolding w'(1) using adopt_fields [OF m1(1)] m1(2,3) by simp_all
  show "\<exists>ok. mes_step x (sl_mes w) = (ok, sl_mes w')" using run w'(2) by blast
  show "ct_parts_produced (cm_calc m') = ct_parts_produced (cm_calc m) + (if part_due ic m (Update (ls_cycle s)) then 1 else 0)"
    unfolding m'_def by (rule machine_parts [OF mm])
  show "link_open (sl_mes w) = cycle_on (ms_before x)"
    using inv st by (simp add: loop_inv_def x_def mes_sample_of_def)
  show "ms_before x = ''IDLE'' \<longrightarrow> ms_after x \<noteq> ''PAUSED''"
    using update_from_idle [of m ic "ls_cycle s"] by (cases "cm_state m'") (auto simp: x_def mes_sample_of_def m'_def)
  show "ms_before x \<in> {''IDLE'', ''RUNNING'', ''PAUSED''}" "ms_after x \<in> {''IDLE'', ''RUNNING'', ''PAUSED''}"
    by (cases "cm_state m"; simp add: x_def mes_sample_of_def)
      (cases "cm_state m'"; simp add: x_def mes_sample_of_def)
qed

lemma sample_keeps_inv:
  assumes inv: "loop_inv w" "\<not> sl_dead w"
  shows "loop_inv (status_sample_step ic s w)"
proof -
  note f = sample_step_link [OF inv, where ic = ic and s = s]
  let ?w' = "status_sample_step ic s w"
  let ?m = "load_program ic s (ls_file s) (sl_machine w)"
  let ?m' = "machine_step ic ?m (Update (ls_cycle s))"
  let ?x = "mes_sample_of s ?m ?m'"
  obtain ok where run: "mes_step ?x (sl_mes w) = (ok, sl_mes ?w')" using f(5) by blast
  note a = after_drive [OF run]
  have open0: "link_open ((sl_mes w)\<lparr>ml_adopted := None\<rparr>) = cycle_on (ms_before ?x)"
    using f(6) by (simp add: link_open_def)
  note d = drive_link_cases [OF open0 f(7-9)]
  have "link_open (sl_mes ?w') = (cm_state ?m' \<noteq> Idle)"
    using a(1) d(1) by (simp add: mes_sample_of_def)
  moreover have "fst (ml_counts (sl_mes ?w')) = ct_parts_produced (cm_calc ?m')" if "cm_state ?m' \<noteq> Idle"
  proof (cases "cm_state ?m = Idle")
    case True
    then have "cm_state ?m' = Running" using update_from_idle [of ?m ic "ls_cycle s"] that by (cases "cm_state ?m'") auto
    with True show ?thesis using a(4) d(4) by (simp add: mes_sample_of_def)
  next
    case False
    have "\<not> part_due ic ?m (Update (ls_cycle s))" using part_due_ends that by fastforce
    then have "ct_parts_produced (cm_calc ?m') = ct_parts_produced (cm_calc (sl_machine w))"
      using f(4,11) by simp
    moreover have "fst (ml_counts (sl_mes w)) = ct_parts_produced (cm_calc (sl_machine w))"
      using inv False f(10) by (simp add: loop_inv_def)
    ultimately show ?thesis using a(4) d(4) False by (simp add: mes_sample_of_def)
  qed
  ultimately show ?thesis using f(1-3) by (simp add: loop_inv_def)
qed

lemma loop_step_inv:
  assumes "loop_inv w"
  shows "loop_inv (loop_step ic w e)"
proof (cases e)
  case (LoopSample s)
  with assms sample_keeps_inv show ?thesis by simp
next
  case (LoopScan e)
  with assms cym.step_inv [of "sl_machine w" ic "Scanner e"] show ?thesis by (simp add: loop_inv_def)
next
  case (LoopGone now env)
  have "link_open (mes_disconnect env v) = False" for v
    by (simp add: link_open_def mes_disconnect_def link_end_def split: option.split)
  with LoopGone assms cym.step_inv [of "sl_machine w" ic "Disconnect now"] show ?thesis
    by (simp add: loop_inv_def linuxcnc_gone_def machine_reset_def)
next
  case LoopTake
  with assms show ?thesis by (simp add: loop_inv_def link_open_def)
qed

interpretation lp: invariant_machine "loop_step ic" loop_inv for ic
  by unfold_locales (rule loop_step_inv)

lemma loop_start_inv: "loop_inv (loop_start b mw)"
  using machine_start_inv [of b]
  by (simp add: loop_inv_def loop_start_def link_open_def mes_loop_init_def cycle_link_init_def)
    (simp add: machine_start_def cycle_machine_init_def)

text \<open>
  C3: every cycle leaves one record, and it says what the counters say. In any state the
  loop can reach, a sample hands exactly one fact to the MES worker when it ends a cycle
  (or counts one as dropped when the queue is full), and none otherwise; the fact is
  marked completed exactly when that same sample counted a part.
\<close>

theorem one_record_per_cycle:
  fixes es :: "loop_event list" and ic :: interp_consts and s :: status_sample
    and background :: int and mw :: string
  defines "w \<equiv> foldl (loop_step ic) (loop_start background mw) es"
  defines "w' \<equiv> loop_step ic w (LoopSample s)"
  defines "part \<equiv> part_due ic (load_program ic s (ls_file s) (sl_machine w)) (Update (ls_cycle s))"
  defines "l \<equiv> ml_link (sl_mes w)" and "l' \<equiv> ml_link (sl_mes w')"
  assumes "\<not> sl_dead w"
  shows "if cm_state (sl_machine w) \<noteq> Idle \<and> cm_state (sl_machine w') = Idle
    then (if length (cl_out l) < queue_size
          then \<exists>f. cl_out l' = cl_out l @ [f] \<and> cl_dropped l' = cl_dropped l \<and>
                 (cf_outcome f = ''completed'') = part
          else cl_out l' = cl_out l \<and> cl_dropped l' = cl_dropped l + 1)
    else cl_out l' = cl_out l \<and> cl_dropped l' = cl_dropped l \<and> \<not> part"
proof -
  have inv: "loop_inv w" unfolding w_def by (rule lp.run_inv [OF loop_start_inv])
  have w': "w' = status_sample_step ic s w" using assms(6) by (simp add: w'_def)
  note f = sample_step_link [OF inv assms(6), where ic = ic and s = s, folded w']
  let ?m = "load_program ic s (ls_file s) (sl_machine w)"
  let ?m' = "machine_step ic ?m (Update (ls_cycle s))"
  let ?x = "mes_sample_of s ?m ?m'"
  obtain ok where run: "mes_step ?x (sl_mes w) = (ok, sl_mes w')" using f(5) by blast
  note a = after_drive [OF run]
  have open0: "link_open ((sl_mes w)\<lparr>ml_adopted := None\<rparr>) = cycle_on (ms_before ?x)"
    using f(6) by (simp add: link_open_def)
  note d = drive_link_cases [OF open0 f(7-9)]
  have ends: "sample_ends ?x = (cm_state (sl_machine w) \<noteq> Idle \<and> cm_state (sl_machine w') = Idle)"
    using f(2,10) by (simp add: sample_ends_def mes_sample_of_def)
  show ?thesis
  proof (cases "sample_ends ?x")
    case True
    have counts: "fst (ml_counts (sl_mes w)) = ct_parts_produced (cm_calc ?m)"
      using inv assms(6) True ends f(11) by (simp add: loop_inv_def)
    have counted: "(run_outcome ?x (ml_counts (sl_mes w)) = ''completed'') = part"
      using counts f(4) by (simp add: run_outcome_def mes_sample_of_def part_def)
    from d(2) [OF True] obtain c where "cl_cycle l = Some c"
        "ml_link (drive_link ?x ((sl_mes w)\<lparr>ml_adopted := None\<rparr>)) =
           link_end (ms_env ?x) (run_outcome ?x (ml_counts (sl_mes w))) l"
      by (auto simp: l_def)
    then have "cl_out l' = (if length (cl_out l) < queue_size
          then cl_out l @ [fact_of (ms_env ?x) (run_outcome ?x (ml_counts (sl_mes w))) c] else cl_out l)"
        "cl_dropped l' = (if length (cl_out l) < queue_size then cl_dropped l else cl_dropped l + 1)"
      using a(2,3) by (simp_all add: l'_def link_end_def)
    with True ends counted show ?thesis by (auto simp: fact_of_def)
  next
    case False
    have "\<not> part" unfolding part_def
      using part_due_ends [of ic ?m "ls_cycle s"] False ends f(2,10) by auto
    with False ends d(3) [OF False] a(2,3) show ?thesis by (auto simp: l_def l'_def)
  qed
qed

definition demo_status_sample :: "ns \<Rightarrow> bool \<Rightarrow> status_sample" where
  "demo_status_sample now running =
     \<lparr>ls_cycle = demo_cycle_sample now running, ls_file = ''a.ngc'', ls_env = demo_link_env PNone demo_id,
      ls_env_program = demo_link_env PNone demo_id, ls_is_file = (\<lambda>_. True)\<rparr>"

lemma demo_phases:
  "cm_state m = Idle \<Longrightarrow> cm_state (cycle_update demo_consts (demo_cycle_sample now True) m) = Running"
  "cm_state m = Running \<Longrightarrow> cm_state (cycle_update demo_consts (demo_cycle_sample now False) m) = Idle"
proof -
  have run: "sees_running demo_consts (demo_cycle_sample now True)"
    and stop: "\<not> sees_running demo_consts (demo_cycle_sample now False)" "\<not> sees_paused (demo_cycle_sample now False)"
    by (simp_all add: demo_cycle_sample_def demo_stat_def demo_consts_def is_program_running_def
        is_program_paused_def state_on_def mode_auto_def)
  show "cm_state (cycle_update demo_consts (demo_cycle_sample now True) m) = Running" if "cm_state m = Idle"
    using that
  proof (cases rule: update_idle [where x = "demo_cycle_sample now True" and ic = demo_consts])
    case (start u p)
    show ?thesis unfolding start(4) by simp
  qed (use run in simp)
  show "cm_state m = Running \<Longrightarrow> cm_state (cycle_update demo_consts (demo_cycle_sample now False) m) = Idle"
    using stop by (simp add: update_running)
qed

lemma starts_without_millwright:
  assumes "cl_mw_data (ml_link w) = ''''" "ms_before x = ''IDLE''" "ms_after x = ''RUNNING''"
  shows "fst (mes_step x w)"
  using assms
  by (simp add: mes_step_def drive_link_def drive_program_def adopt_program_def adopted_program_def cycle_on_def
      link_start_def try_in_def link_try_def read_current_def match_run_def Let_def)

text \<open>A cycle that starts and ends: one record.\<close>

lemma one_record_per_cycle_witness:
  "\<exists>f. cl_out (ml_link (sl_mes (foldl (loop_step demo_consts) (loop_start 5 '''')
     [LoopSample (demo_status_sample 1 True), LoopSample (demo_status_sample 2 False)]))) = [f]"
proof -
  let ?s1 = "demo_status_sample 1 True" and ?s2 = "demo_status_sample 2 False"
  let ?w0 = "loop_start 5 ''''"
  let ?w1 = "foldl (loop_step demo_consts) ?w0 [LoopSample ?s1]"
  have w0: "loop_inv ?w0" "\<not> sl_dead ?w0" "cm_state (sl_machine ?w0) = Idle"
    using loop_start_inv by (simp_all add: loop_start_def machine_start_def cycle_machine_init_def)
  note f = sample_step_link [OF w0(1,2), where ic = demo_consts and s = ?s1]
  have w1: "cm_state (sl_machine ?w1) = Running"
    using f(2) w0(2,3) demo_phases(1) by (simp add: demo_status_sample_def loop_start_def)
  have m: "ml_link (sl_mes ?w0) = cycle_link_init ''''" by (simp add: loop_start_def mes_loop_init_def)
  have alive: "\<not> sl_dead ?w1"
    using w1 w0(3) demo_phases(1) [of "load_program demo_consts ?s1 ''a.ngc'' (sl_machine ?w0)" 1] m
    by (simp add: status_sample_step_def Let_def case_prod_beta demo_status_sample_def)
      (simp add: loop_start_def starts_without_millwright mes_sample_of_def mes_loop_init_def cycle_link_init_def)
  have inv1: "loop_inv ?w1" by (rule lp.run_inv [OF loop_start_inv])
  have out1: "cl_out (ml_link (sl_mes ?w1)) = []"
    using one_record_per_cycle [where background = 5 and mw = "''''" and ic = demo_consts and es = "[]" and s = ?s1] w0 m by (simp add: cycle_link_init_def)
  have w2: "cm_state (sl_machine (loop_step demo_consts ?w1 (LoopSample ?s2))) = Idle"
    using sample_step_link(2) [OF inv1 alive, where ic = demo_consts and s = ?s2] alive w1 demo_phases(2)
    by (simp add: demo_status_sample_def)
  show ?thesis
    using one_record_per_cycle [where background = 5 and mw = "''''" and ic = demo_consts and es = "[LoopSample ?s1]" and s = ?s2] alive w1 w2 out1
    by (auto simp: queue_size_def)
qed

section \<open>When the loop survives\<close>

definition is_text :: "pyval \<Rightarrow> bool" where
  "is_text v \<longleftrightarrow> v = PNone \<or> (\<exists>s. v = PStr s)"

text \<open>The file fields of whatever document is read are text or missing.\<close>

definition env_typed :: "string \<Rightarrow> link_env \<Rightarrow> bool" where
  "env_typed mw env \<longleftrightarrow>
     (\<forall>d. read_current mw (le_file env) = Some d \<longrightarrow>
        is_text (dict_get d ''program_path'') \<and> is_text (dict_get d ''run_file''))"

definition link_typed :: "string \<Rightarrow> cycle_link \<Rightarrow> bool" where
  "link_typed mw l \<longleftrightarrow> cl_mw_data l = mw \<and> (\<forall>c. cl_cycle l = Some c \<longrightarrow> is_text (lc_program c))"

lemma same_file_text: "is_text a \<Longrightarrow> is_text b \<Longrightarrow> \<exists>r. same_file a b = Some r"
  by (auto simp: is_text_def same_file_def)

lemma is_text_val_or: "is_text a \<Longrightarrow> is_text b \<Longrightarrow> is_text (val_or a b)"
  by (simp add: val_or_def)

lemma link_try_typed:
  assumes "env_typed mw env" "is_text (lc_program c)"
  shows "\<exists>c'. link_try (read_current mw (le_file env)) c = Some c' \<and> is_text (lc_program c')"
proof -
  let ?doc = "read_current mw (le_file env)"
  have doc: "is_text (dict_get (or_else ?doc []) ''program_path'')" "is_text (dict_get (or_else ?doc []) ''run_file'')"
    using assms(1) by (cases ?doc; simp add: env_typed_def dict_get_def is_text_def)+
  have "match_run ?doc (lc_program c) (lc_started c) False \<noteq> None"
  proof (cases ?doc)
    case (Some d)
    with same_file_text [OF doc(1) assms(2)] same_file_text [OF doc(2) assms(2)] show ?thesis
      by (auto simp: match_run_def split: bool.split)
  qed (simp add: match_run_def)
  then obtain matched where m: "match_run ?doc (lc_program c) (lc_started c) False = Some matched" by blast
  have "is_text (lc_program (adopt_run (or_else ?doc []) c))"
    unfolding adopt_run_def using doc assms(2) by (simp add: is_text_val_or)
  moreover have "lc_program (take_ids d how c) = lc_program c" for d how
    by (simp add: take_ids_def split: option.split)
  ultimately show ?thesis using m assms(2) by (cases matched) (simp_all add: link_try_def)
qed

lemma try_in_typed:
  assumes "env_typed mw env" "is_text (lc_program c)" "cl_mw_data l = mw"
  shows "fst (try_in env c l) \<and> link_typed mw (snd (try_in env c l))"
  using link_try_typed [OF assms(1,2)] assms(3) by (auto simp: try_in_def link_typed_def)

lemma link_typed_ops:
  assumes "link_typed mw l" "env_typed mw env"
  shows "link_typed mw (snd (link_start env f u l))" "link_typed mw (snd (link_poll env l))"
    "fst (link_set_program env f l) \<and> link_typed mw (snd (link_set_program env f l))"
    "link_typed mw (link_end env' outcome l)"
proof -
  have mw: "cl_mw_data l = mw" using assms(1) by (simp add: link_typed_def)
  note tried = try_in_typed [OF assms(2) _ mw]
  show "link_typed mw (snd (link_start env f u l))"
    unfolding link_start_def by (rule conjunct2 [OF tried]) (simp add: is_text_def)
  show "link_typed mw (link_end env' outcome l)"
    using assms(1) by (auto simp: link_end_def link_typed_def split: option.split)
  show "link_typed mw (snd (link_poll env l))"
  proof (cases "cl_cycle l")
    case (Some c)
    then have "is_text (lc_program (c\<lparr>lc_next_try := le_now env + retry_every_s\<rparr>))"
      using assms(1) by (simp add: link_typed_def)
    from tried [OF this] assms(1) Some show ?thesis by (simp add: link_poll_def)
  qed (use assms(1) in \<open>simp add: link_poll_def\<close>)
  show "fst (link_set_program env f l) \<and> link_typed mw (snd (link_set_program env f l))"
  proof (cases "cl_cycle l")
    case (Some c)
    then have "is_text (lc_program c)" using assms(1) by (simp add: link_typed_def)
    then obtain r where r: "same_file (PStr f) (lc_program c) = Some r"
      using same_file_text [of "PStr f"] by (auto simp: is_text_def)
    have "is_text (lc_program (c\<lparr>lc_program := PStr f, lc_uncertain := False\<rparr>))" by (simp add: is_text_def)
    note t = tried [OF this]
    have "link_typed mw (l\<lparr>cl_cycle := Some (c\<lparr>lc_program := PStr f, lc_uncertain := False\<rparr>)\<rparr>)"
      using assms(1) by (simp add: link_typed_def is_text_def)
    with t assms(1) r Some show ?thesis
      by (cases r) (simp_all add: link_set_program_def Let_def)
  qed (use assms(1) in \<open>simp add: link_set_program_def\<close>)
qed

lemma mes_step_survives:
  assumes "link_typed mw (ml_link w)" "env_typed mw (ms_env x)" "env_typed mw (ms_env_program x)"
  shows "fst (mes_step x w) \<and> link_typed mw (ml_link (snd (mes_step x w)))"
proof -
  let ?w1 = "drive_link x (w\<lparr>ml_adopted := None\<rparr>)"
  note ops = link_typed_ops [OF assms(1)]
  have w1: "link_typed mw (ml_link ?w1)"
    using ops(1,2) [OF assms(2)] ops(4) [OF assms(2)] by (simp add: drive_link_def)
  have prog: "fst (drive_program x ?w1) \<and> link_typed mw (ml_link (snd (drive_program x ?w1)))"
    using w1 link_typed_ops(3) [OF w1 assms(3), of "ms_file x"]
    by (simp add: drive_program_def case_prod_beta)
  have adopt: "fst (adopt_program x v) \<and> ml_link (snd (adopt_program x v)) = ml_link v"
    if "link_typed mw (ml_link v)" for v
  proof -
    have "is_text (adopted_program (ml_link v))"
      using that by (auto simp: adopted_program_def link_typed_def is_text_def split: option.split)
    then have "\<not> truthy (adopted_program (ml_link v)) \<or> path_like (adopted_program (ml_link v))"
      by (auto simp: is_text_def path_like_def)
    then show ?thesis by (auto simp: adopt_program_def Let_def)
  qed
  show ?thesis
    using w1 prog adopt by (auto simp: mes_step_def Let_def split: prod.split bool.split)
qed

definition event_typed :: "string \<Rightarrow> loop_event \<Rightarrow> bool" where
  "event_typed mw e =
     (case e of LoopSample s \<Rightarrow> env_typed mw (ls_env s) \<and> env_typed mw (ls_env_program s) | _ \<Rightarrow> True)"

text \<open>
  Only a malformed document can stop the agent here. As long as the file fields of
  every \<open>current_execution.json\<close> it reads are text or missing, no sample of the status loop
  ends with an exception, whatever else the document holds and whatever LinuxCNC does.
\<close>

theorem loop_survives_text_paths:
  assumes "\<forall>e\<in>set es. event_typed mw e"
  shows "\<not> sl_dead (foldl (loop_step ic) (loop_start background mw) es)"
proof -
  have "\<not> sl_dead (foldl (loop_step ic) w es)"
    if "\<not> sl_dead w" "link_typed mw (ml_link (sl_mes w))" "\<forall>e\<in>set es. event_typed mw e" for w
    using that
  proof (induction es arbitrary: w)
    case (Cons e es)
    have "\<not> sl_dead (loop_step ic w e) \<and> link_typed mw (ml_link (sl_mes (loop_step ic w e)))"
    proof (cases e)
      case (LoopSample s)
      then have typed: "env_typed mw (ls_env s)" "env_typed mw (ls_env_program s)"
        using Cons.prems(3) by (simp_all add: event_typed_def)
      have "fst (mes_step (mes_sample_of s m m') (sl_mes w)) \<and>
          link_typed mw (ml_link (snd (mes_step (mes_sample_of s m m') (sl_mes w))))" for m m'
        by (rule mes_step_survives [OF Cons.prems(2)]) (simp_all add: mes_sample_of_def typed)
      with LoopSample Cons.prems(1) show ?thesis
        by (simp add: status_sample_step_def Let_def case_prod_beta)
    next
      case (LoopGone now env)
      have "link_typed mw (link_end env outcome l)" if "link_typed mw l" for outcome l
        using that by (auto simp: link_end_def link_typed_def split: option.split)
      with LoopGone Cons.prems show ?thesis by (simp add: mes_disconnect_def)
    qed (use Cons.prems in \<open>simp_all add: link_typed_def\<close>)
    with Cons show ?case by simp
  qed simp
  moreover have "link_typed mw (ml_link (sl_mes (loop_start background mw)))"
    by (simp add: loop_start_def mes_loop_init_def cycle_link_init_def link_typed_def)
  ultimately show ?thesis using assms by (simp add: loop_start_def)
qed

lemma loop_survives_text_paths_witness:
  "\<not> sl_dead (foldl (loop_step demo_consts) (loop_start 5 ''/mw'')
     [LoopSample (demo_status_sample 1 True), LoopSample (demo_status_sample 2 False)])"
proof (rule loop_survives_text_paths)
  have "env_typed ''/mw'' (demo_link_env PNone demo_id)"
    unfolding env_typed_def demo_read by (simp add: is_text_def demo_run_def dict_get_def)
  then show "\<forall>e\<in>set [LoopSample (demo_status_sample 1 True), LoopSample (demo_status_sample 2 False)].
      event_typed ''/mw'' e"
    by (simp add: event_typed_def demo_status_sample_def)
qed

end
