(* ===== verification/Agent_Net.thy ===== *)
theory Agent_Net
  imports Py_Text Py_Value Packet_Auth "HOL-Library.Word"
begin

text \<open>
  Where packets go (\<open>agent_net.py\<close>): reading the interfaces and the ARP table, the plan of
  \<open>monitor_interface\<close>, resolving the destinations, and \<open>UdpSender\<close>, whose refresh thread
  changes plan, socket and destinations one after the other while the main loop sends.

  The \<open>ip\<close> command, the ARP table, name lookup and the sockets are given by what they
  answer. Addresses are 32-bit words with their dotted text; leading zeros in an octet are
  refused, as they are since Python 3.9.5.
\<close>

unbundle bit_operations_syntax

section \<open>IPv4 addresses\<close>

type_synonym ipv4 = "32 word"

definition octet :: "string \<Rightarrow> int option" where
  "octet s =
     (if s = [] \<or> \<not> list_all is_digit s \<or> 3 < length s then None
      else if hd s = CHR ''0'' \<and> s \<noteq> ''0'' then None
      else if 255 < parse_digits s then None
      else Some (parse_digits s))"

definition ipv4_of :: "int \<Rightarrow> int \<Rightarrow> int \<Rightarrow> int \<Rightarrow> ipv4" where
  "ipv4_of a b c d = word_of_int (((a * 256 + b) * 256 + c) * 256 + d)"

text \<open>\<open>ipaddress.IPv4Address(s)\<close>, \<open>None\<close> where it raises \<open>ValueError\<close>, and its text.\<close>

definition parse_ipv4 :: "string \<Rightarrow> ipv4 option" where
  "parse_ipv4 s =
     (case map octet (split_at CHR ''.'' s) of
        [Some a, Some b, Some c, Some d] \<Rightarrow> Some (ipv4_of a b c d)
      | _ \<Rightarrow> None)"

definition ipv4_text :: "ipv4 \<Rightarrow> string" where
  "ipv4_text w =
     (let n = uint w
      in join_with ''.'' (map (decimal \<circ> nat)
           [n div 16777216, n div 65536 mod 256, n div 256 mod 256, n mod 256]))"

text \<open>The broadcast address of \<open>local/prefix\<close>: all host bits set.\<close>

definition network_broadcast :: "ipv4 \<Rightarrow> nat \<Rightarrow> ipv4" where
  "network_broadcast w prefix = w OR mask (32 - prefix)"

definition broadcast_text :: "string \<Rightarrow> int \<Rightarrow> string option" where
  "broadcast_text local_addr prefix =
     (case parse_ipv4 local_addr of
        Some w \<Rightarrow> if 0 \<le> prefix \<and> prefix \<le> 32 then Some (ipv4_text (network_broadcast w (nat prefix))) else None
      | None \<Rightarrow> None)"

section \<open>Interfaces\<close>

text \<open>What \<open>ip -j addr\<close> prints of an interface and its addresses.\<close>

record addr_info =
  ai_family :: string
  ai_prefixlen :: "int option"
  ai_local :: "string option"
  ai_broadcast :: "string option"

record iface =
  if_name :: string
  if_flags :: "string list"
  if_addrs :: "addr_info list"

definition mesa_oui :: string where "mesa_oui = ''00:60:1b''"
definition limited_broadcast :: string where "limited_broadcast = ''255.255.255.255''"
definition auto_words :: "string list" where "auto_words = ['''', ''auto'', ''broadcast'']"

definition mesa_interfaces :: "string \<Rightarrow> string set" where
  "mesa_interfaces arp =
     set (concat (map (\<lambda>l. let parts = text_fields l
                           in if 6 \<le> length parts \<and> starts_with (py_lower (parts ! 3)) mesa_oui
                              then [parts ! 5] else [])
                      (drop 1 (split_lines arp))))"

definition lan_interface :: "string set \<Rightarrow> iface \<Rightarrow> bool" where
  "lan_interface skip i \<longleftrightarrow>
     if_name i \<noteq> '''' \<and> if_name i \<noteq> ''lo'' \<and> if_name i \<notin> skip \<and> ''LOOPBACK'' \<notin> set (if_flags i) \<and>
     ''BROADCAST'' \<in> set (if_flags i) \<and> ''UP'' \<in> set (if_flags i)"

text \<open>The given broadcast address, if there is one that is not empty, or the computed one.\<close>

definition own_broadcast :: "addr_info \<Rightarrow> string \<Rightarrow> int \<Rightarrow> string option" where
  "own_broadcast a local_addr prefix =
     (case ai_broadcast a of
        Some b \<Rightarrow> if b = '''' then broadcast_text local_addr prefix else Some b
      | None \<Rightarrow> broadcast_text local_addr prefix)"

definition address_source :: "addr_info \<Rightarrow> (string \<times> string) option" where
  "address_source a =
     (let prefix = or_else (ai_prefixlen a) 32
      in if ai_family a \<noteq> ''inet'' \<or> 31 \<le> prefix then None
         else case map_option ipv4_text (Option.bind (ai_local a) parse_ipv4) of
             None \<Rightarrow> None
           | Some own \<Rightarrow> map_option (Pair own) (own_broadcast a own prefix))"

definition broadcast_sources :: "iface list \<Rightarrow> string set \<Rightarrow> (string \<times> string \<times> string) list" where
  "broadcast_sources ifs skip =
     concat (map (\<lambda>i. map (Pair (if_name i)) (List.map_filter address_source (if_addrs i)))
                 (filter (lan_interface skip) ifs))"

fun first_per_broadcast :: "string set \<Rightarrow> (string \<times> string \<times> string) list \<Rightarrow> (string \<times> string) list" where
  "first_per_broadcast seen [] = []"
| "first_per_broadcast seen ((name, own, bcast) # rest) =
     (if bcast \<in> seen then first_per_broadcast seen rest
      else (name, bcast) # first_per_broadcast (insert bcast seen) rest)"

definition broadcast_addresses :: "iface list \<Rightarrow> string set \<Rightarrow> (string \<times> string) list" where
  "broadcast_addresses ifs skip = first_per_broadcast {} (broadcast_sources ifs skip)"

text \<open>
  What the outside world answers during one look: the ARP table (empty if unreadable), the
  interfaces that are up and those of one name (\<open>None\<close> if the command fails), the device the
  kernel routes a destination through from a source address, and name lookup.
\<close>

record net_env =
  ne_arp :: string
  ne_up :: "iface list option"
  ne_dev :: "string \<Rightarrow> iface list option"
  ne_route :: "string \<Rightarrow> string \<Rightarrow> string option"
  ne_host :: "string \<Rightarrow> string option"

definition list_broadcast_sources :: "net_env \<Rightarrow> string set \<Rightarrow> (string \<times> string \<times> string) list" where
  "list_broadcast_sources e exclude =
     (case ne_up e of None \<Rightarrow> [] | Some ifs \<Rightarrow> broadcast_sources ifs (exclude \<union> mesa_interfaces (ne_arp e)))"

definition discover_broadcast_targets :: "net_env \<Rightarrow> string set \<Rightarrow> string list" where
  "discover_broadcast_targets e exclude =
     (case ne_up e of
        None \<Rightarrow> [limited_broadcast]
      | Some ifs \<Rightarrow>
          (case broadcast_addresses ifs (exclude \<union> mesa_interfaces (ne_arp e)) of
             [] \<Rightarrow> [limited_broadcast]
           | pairs \<Rightarrow> map snd pairs))"

definition address_of :: "addr_info \<Rightarrow> (string \<times> string option) option" where
  "address_of a =
     (let prefix = or_else (ai_prefixlen a) 32; own = or_else (ai_local a) ''''
      in if ai_family a \<noteq> ''inet'' \<or> own = '''' then None
         else case parse_ipv4 own of
             None \<Rightarrow> None
           | Some w \<Rightarrow>
               if prefix < 31 then map_option (\<lambda>b. (ipv4_text w, Some b)) (own_broadcast a own prefix)
               else Some (ipv4_text w, None))"

fun interface_ipv4 :: "iface list \<Rightarrow> string \<Rightarrow> (string \<times> string option) option" where
  "interface_ipv4 [] name = None"
| "interface_ipv4 (i # ifs) name =
     (if if_name i = name \<and> ''UP'' \<in> set (if_flags i) then
        (case List.map_filter address_of (if_addrs i) of [] \<Rightarrow> interface_ipv4 ifs name | x # _ \<Rightarrow> Some x)
      else interface_ipv4 ifs name)"

section \<open>The interface plan and the destinations\<close>

datatype net_problem = ExcludedInterface | MesaBoard | CannotListInterfaces | NoAddress

record interface_plan =
  pl_interface :: string
  pl_address :: "string option"
  pl_broadcast :: "string option"
  pl_problem :: "net_problem option"

definition plan_problem :: "string \<Rightarrow> net_problem \<Rightarrow> interface_plan" where
  "plan_problem name p =
     \<lparr>pl_interface = name, pl_address = None, pl_broadcast = None, pl_problem = Some p\<rparr>"

definition plan_interface :: "net_env \<Rightarrow> string \<Rightarrow> string set \<Rightarrow> interface_plan" where
  "plan_interface e name exclude =
     (if name \<in> exclude then plan_problem name ExcludedInterface
      else if name \<in> mesa_interfaces (ne_arp e) then plan_problem name MesaBoard
      else case ne_dev e name of
          None \<Rightarrow> plan_problem name CannotListInterfaces
        | Some ifs \<Rightarrow>
            (case interface_ipv4 ifs name of
               None \<Rightarrow> plan_problem name NoAddress
             | Some (own, bcast) \<Rightarrow>
                 \<lparr>pl_interface = name, pl_address = Some own, pl_broadcast = bcast, pl_problem = None\<rparr>))"

definition comma_list :: "string \<Rightarrow> string list" where
  "comma_list s = filter (\<lambda>x. x \<noteq> '''') (map strip (split_at CHR '','' s))"

definition parse_targets :: "string \<Rightarrow> string list" where
  "parse_targets setting = (case comma_list setting of [] \<Rightarrow> [''auto''] | xs \<Rightarrow> xs)"

definition resolve_item :: "net_env \<Rightarrow> string set \<Rightarrow> interface_plan option \<Rightarrow> string \<Rightarrow> string list" where
  "resolve_item e exclude plan item =
     (if py_lower item \<in> set auto_words then
        (case plan of
           None \<Rightarrow> discover_broadcast_targets e exclude
         | Some p \<Rightarrow> (case pl_broadcast p of Some b \<Rightarrow> if b = '''' then [] else [b] | None \<Rightarrow> []))
      else case parse_ipv4 item of
          Some w \<Rightarrow> [ipv4_text w]
        | None \<Rightarrow> (case ne_host e item of Some ip \<Rightarrow> [ip] | None \<Rightarrow> []))"

text \<open>Whether the plan lets packets go to a destination.\<close>

definition reached_through :: "net_env \<Rightarrow> interface_plan \<Rightarrow> string \<Rightarrow> bool" where
  "reached_through e p ip \<longleftrightarrow>
     Some ip = pl_broadcast p \<or>
     (case pl_address p of Some own \<Rightarrow> ne_route e ip own = Some (pl_interface p) | None \<Rightarrow> False)"

definition resolve_targets :: "net_env \<Rightarrow> string \<Rightarrow> string set \<Rightarrow> interface_plan option \<Rightarrow> string list" where
  "resolve_targets e setting exclude plan =
     (let found = uniq (concat (map (resolve_item e exclude plan) (parse_targets setting)))
      in case plan of
           None \<Rightarrow> found
         | Some p \<Rightarrow> if pl_problem p \<noteq> None then [] else filter (reached_through e p) found)"

section \<open>UdpSender\<close>

text \<open>A socket is the address it is bound to, \<open>None\<close> if it is not bound.\<close>

record udp_sender =
  us_setting :: string
  us_interface :: string
  us_exclude :: "string set"
  us_key :: "string option"
  us_plan :: "interface_plan option"
  us_source :: "string option"
  us_targets :: "string list"
  us_sock :: "string option option"
  us_would_block :: nat

text \<open>\<open>_create_socket\<close>: the old socket is closed; \<open>ok\<close> is whether making a new one succeeds.\<close>

definition no_socket_allowed :: "udp_sender \<Rightarrow> bool" where
  "no_socket_allowed s \<longleftrightarrow> us_interface s \<noteq> '''' \<and> us_source s = None"

definition create_socket :: "bool \<Rightarrow> udp_sender \<Rightarrow> udp_sender" where
  "create_socket ok s =
     s\<lparr>us_sock := (if no_socket_allowed s \<or> \<not> ok then None else Some (us_source s))\<rparr>"

definition udp_sender_new :: "string \<Rightarrow> string \<Rightarrow> string option \<Rightarrow> string \<Rightarrow> udp_sender" where
  "udp_sender_new setting exclude key interface =
     \<lparr>us_setting = setting, us_interface = strip interface, us_exclude = set (comma_list exclude),
      us_key = key, us_plan = None, us_source = None, us_targets = [], us_sock = None, us_would_block = 0\<rparr>"

datatype send_outcome = SentOk | WouldBlock | SendFails

text \<open>A datagram that left: the address its socket was bound to, its destination, its bytes.\<close>

type_synonym datagram = "string option \<times> string \<times> string"

definition udp_send ::
  "mac \<Rightarrow> bool \<Rightarrow> bool \<Rightarrow> (string \<Rightarrow> send_outcome) \<Rightarrow> string \<Rightarrow> udp_sender \<Rightarrow>
   (sign_error + bool) \<times> datagram list \<times> udp_sender" where
  "udp_send mac ok1 ok2 outcome payload s =
     (case sign mac payload (us_key s) of
        Inl e \<Rightarrow> (Inl e, [], s)
      | Inr raw \<Rightarrow>
          (let s1 = (if us_sock s = None \<and> \<not> no_socket_allowed s then create_socket ok1 s else s)
           in case us_sock s1 of
                None \<Rightarrow> (Inr False, [], s1)
              | Some bound \<Rightarrow>
                  if us_targets s1 = [] then (Inr False, [], s1)
                  else
                    (let sent = filter (\<lambda>t. outcome t = SentOk) (us_targets s1);
                         busy = filter (\<lambda>t. outcome t = WouldBlock) (us_targets s1);
                         s2 = s1\<lparr>us_would_block := us_would_block s1 + length busy\<rparr>
                     in (Inr (sent \<noteq> []), map (\<lambda>t. (bound, t, raw)) sent,
                         if sent = [] \<and> busy = [] then create_socket ok2 s2 else s2))))"

definition udp_close :: "udp_sender \<Rightarrow> udp_sender" where
  "udp_close s = s\<lparr>us_sock := None\<rparr>"

text \<open>
  \<open>refresh\<close> in the pieces between which the main loop can run: look and resolve, store the
  plan, store the source address, make the socket, store the destinations.
\<close>

datatype refresh_pc =
    Resting
  | Looked "interface_plan option" "string list"
  | PlanStored interface_plan "string list"
  | SourceStored "string list"
  | SocketMade "string list"

definition net_look :: "net_env \<Rightarrow> udp_sender \<Rightarrow> refresh_pc" where
  "net_look e s =
     (let plan = (if us_interface s = '''' then None
                  else Some (plan_interface e (us_interface s) (us_exclude s)))
      in Looked plan (resolve_targets e (us_setting s) (us_exclude s) plan))"

fun refresh_next :: "bool \<Rightarrow> refresh_pc \<Rightarrow> udp_sender \<Rightarrow> refresh_pc \<times> udp_sender" where
  "refresh_next ok Resting s = (Resting, s)"
| "refresh_next ok (Looked None new) s = (Resting, if new = [] then s else s\<lparr>us_targets := new\<rparr>)"
| "refresh_next ok (Looked (Some p) new) s = (PlanStored p new, s\<lparr>us_plan := Some p\<rparr>)"
| "refresh_next ok (PlanStored p new) s =
     (if pl_address p \<noteq> us_source s then (SourceStored new, s\<lparr>us_source := pl_address p\<rparr>)
      else (SocketMade new, s))"
| "refresh_next ok (SourceStored new) s = (SocketMade new, create_socket ok s)"
| "refresh_next ok (SocketMade new) s = (Resting, s\<lparr>us_targets := new\<rparr>)"

text \<open>
  The sender with its two threads. \<open>nt_seen\<close> is what the looks of the refresh thread saw,
  the latest first; \<open>nt_out\<close> what left since the last step.
\<close>

record net_state =
  nt_sender :: udp_sender
  nt_pc :: refresh_pc
  nt_seen :: "net_env list"
  nt_out :: "datagram list"

definition net_start :: "udp_sender \<Rightarrow> net_state" where
  "net_start s = \<lparr>nt_sender = s, nt_pc = Resting, nt_seen = [], nt_out = []\<rparr>"

inductive net_step :: "mac \<Rightarrow> net_state \<Rightarrow> net_state \<Rightarrow> bool" for mac where
  Look: "nt_pc w = Resting \<Longrightarrow>
     net_step mac w (w\<lparr>nt_pc := net_look e (nt_sender w), nt_seen := e # nt_seen w, nt_out := []\<rparr>)"
| LookRaises: "nt_pc w = Resting \<Longrightarrow> net_step mac w (w\<lparr>nt_out := []\<rparr>)"
| Refresh: "refresh_next ok (nt_pc w) (nt_sender w) = (pc, s) \<Longrightarrow> nt_pc w \<noteq> Resting \<Longrightarrow>
     net_step mac w (w\<lparr>nt_sender := s, nt_pc := pc, nt_out := []\<rparr>)"
| Send: "udp_send mac ok1 ok2 outcome payload (nt_sender w) = (r, out, s) \<Longrightarrow>
     net_step mac w (w\<lparr>nt_sender := s, nt_out := out\<rparr>)"
| Close: "net_step mac w (w\<lparr>nt_sender := udp_close (nt_sender w), nt_out := []\<rparr>)"

inductive net_reach :: "mac \<Rightarrow> net_state \<Rightarrow> net_state \<Rightarrow> bool" for mac where
  Start: "net_reach mac w w"
| Next: "net_reach mac w w' \<Longrightarrow> net_step mac w' w'' \<Longrightarrow> net_reach mac w w''"

section \<open>With monitor\_interface set\<close>

text \<open>
  The plan that a look gives, and when it permits an own address and a destination: the
  interface is neither excluded nor one with a Mesa board, it is up and has that address,
  and the destination is its broadcast address or is routed through it.
\<close>

definition planned :: "udp_sender \<Rightarrow> net_env \<Rightarrow> interface_plan" where
  "planned s e = plan_interface e (us_interface s) (us_exclude s)"

definition permits :: "udp_sender \<Rightarrow> net_env \<Rightarrow> string \<Rightarrow> bool" where
  "permits s e own \<longleftrightarrow>
     us_interface s \<notin> us_exclude s \<and> us_interface s \<notin> mesa_interfaces (ne_arp e) \<and>
     (\<exists>ifs bcast. ne_dev e (us_interface s) = Some ifs \<and> interface_ipv4 ifs (us_interface s) = Some (own, bcast))"

definition permits_to :: "udp_sender \<Rightarrow> net_env \<Rightarrow> string \<Rightarrow> bool" where
  "permits_to s e dst \<longleftrightarrow> pl_problem (planned s e) = None \<and> reached_through e (planned s e) dst"

lemma planned_address: "pl_address (planned s e) = Some own \<longleftrightarrow> permits s e own"
  by (auto simp: planned_def plan_interface_def plan_problem_def permits_def split: option.splits prod.splits)

definition same_settings :: "udp_sender \<Rightarrow> udp_sender \<Rightarrow> bool" where
  "same_settings s s' \<longleftrightarrow> us_interface s' = us_interface s \<and> us_exclude s' = us_exclude s \<and>
     us_setting s' = us_setting s \<and> us_key s' = us_key s"

lemma same_settings_refl [simp]: "same_settings s s"
  by (simp add: same_settings_def)

lemma same_settings_planned: "same_settings s s' \<Longrightarrow> planned s' e = planned s e"
  by (simp add: same_settings_def planned_def)

lemma refresh_settings: "refresh_next ok pc s = (pc', s') \<Longrightarrow> same_settings s s'"
  by (induction ok pc s rule: refresh_next.induct) (auto simp: same_settings_def create_socket_def split: if_splits)

lemma create_socket_fields [simp]:
  "us_interface (create_socket ok s) = us_interface s" "us_exclude (create_socket ok s) = us_exclude s"
  "us_setting (create_socket ok s) = us_setting s" "us_key (create_socket ok s) = us_key s"
  "us_source (create_socket ok s) = us_source s" "us_targets (create_socket ok s) = us_targets s"
  by (simp_all add: create_socket_def)

text \<open>The socket is bound to the stored source address, unless a new one was just stored.\<close>

definition bound_to_source :: "udp_sender \<Rightarrow> bool" where
  "bound_to_source s \<longleftrightarrow> us_sock s = None \<or> (\<exists>a. us_source s = Some a \<and> us_sock s = Some (Some a))"

lemma create_socket_bound: "us_interface s \<noteq> '''' \<Longrightarrow> bound_to_source (create_socket ok s)"
  by (auto simp: create_socket_def bound_to_source_def no_socket_allowed_def)

text \<open>What one send does, whatever happens to the socket.\<close>

lemma udp_send_cases:
  assumes "udp_send mac ok1 ok2 outcome payload s = (r, out, s')"
  obtains s1 where
    "s1 = s \<or> (us_sock s = None \<and> s1 = create_socket ok1 s)"
    "s' = s \<or> (\<exists>n. let s2 = s1\<lparr>us_would_block := n\<rparr> in s' = s1 \<or> s' = s2 \<or> s' = create_socket ok2 s1 \<or> s' = create_socket ok2 s2)"
    "\<forall>(src, dst, raw)\<in>set out. us_sock s1 = Some src \<and> dst \<in> set (us_targets s)"
proof -
  let ?s1 = "if us_sock s = None \<and> \<not> no_socket_allowed s then create_socket ok1 s else s"
  show thesis
  proof (rule that [of ?s1])
    show "?s1 = s \<or> (us_sock s = None \<and> ?s1 = create_socket ok1 s)" by simp
    show "s' = s \<or> (\<exists>n. let s2 = ?s1\<lparr>us_would_block := n\<rparr> in s' = ?s1 \<or> s' = s2 \<or> s' = create_socket ok2 ?s1 \<or> s' = create_socket ok2 s2)"
      using assms unfolding udp_send_def Let_def
      by (cases "sign mac payload (us_key s)"; cases "us_sock ?s1") (auto split: if_splits)
    show "\<forall>(src, dst, raw)\<in>set out. us_sock ?s1 = Some src \<and> dst \<in> set (us_targets s)"
      using assms unfolding udp_send_def Let_def
      by (cases "sign mac payload (us_key s)"; cases "us_sock ?s1") (auto split: if_splits)
  qed
qed

definition net_inv :: "udp_sender \<Rightarrow> net_state \<Rightarrow> bool" where
  "net_inv s0 w \<longleftrightarrow>
     (let s = nt_sender w; seen = nt_seen w;
          chosen = (\<lambda>e. resolve_targets e (us_setting s0) (us_exclude s0) (Some (planned s0 e)))
      in same_settings s0 s \<and>
         (\<forall>a. us_source s = Some a \<longrightarrow> (\<exists>e\<in>set seen. permits s0 e a)) \<and>
         (\<forall>b. us_sock s = Some b \<longrightarrow> (\<exists>a. b = Some a \<and> (\<exists>e\<in>set seen. permits s0 e a))) \<and>
         (\<forall>t\<in>set (us_targets s). \<exists>e\<in>set seen. permits_to s0 e t) \<and>
         (case nt_pc w of
            Resting \<Rightarrow> bound_to_source s \<and>
              (case seen of [] \<Rightarrow> us_source s = None \<and> us_targets s = []
               | e # _ \<Rightarrow> us_source s = pl_address (planned s0 e) \<and> us_targets s = chosen e)
          | Looked plan new \<Rightarrow> seen \<noteq> [] \<and> bound_to_source s \<and> plan = Some (planned s0 (hd seen)) \<and> new = chosen (hd seen)
          | PlanStored p new \<Rightarrow> seen \<noteq> [] \<and> bound_to_source s \<and> p = planned s0 (hd seen) \<and> new = chosen (hd seen)
          | SourceStored new \<Rightarrow> seen \<noteq> [] \<and> us_source s = pl_address (planned s0 (hd seen)) \<and> new = chosen (hd seen)
          | SocketMade new \<Rightarrow> seen \<noteq> [] \<and> bound_to_source s \<and> us_source s = pl_address (planned s0 (hd seen)) \<and>
              new = chosen (hd seen)))"

lemma chosen_permitted:
  "t \<in> set (resolve_targets e setting exclude (Some (planned s0 e))) \<Longrightarrow> permits_to s0 e t"
  by (auto simp: resolve_targets_def permits_to_def Let_def split: if_splits)

lemmas net_inv_parts = net_inv_def Let_def

lemma udp_send_keeps:
  assumes sent: "udp_send mac ok1 ok2 outcome payload s = (r, out, s')" and iface: "us_interface s \<noteq> ''''"
  shows "us_source s' = us_source s \<and> us_targets s' = us_targets s \<and> same_settings s s' \<and>
    (us_sock s' = us_sock s \<or> bound_to_source s')"
proof -
  obtain s1 where s1: "s1 = s \<or> (us_sock s = None \<and> s1 = create_socket ok1 s)"
    "s' = s \<or> (\<exists>n. let s2 = s1\<lparr>us_would_block := n\<rparr> in s' = s1 \<or> s' = s2 \<or> s' = create_socket ok2 s1 \<or> s' = create_socket ok2 s2)"
    using udp_send_cases [OF sent] by metis
  have "us_source s1 = us_source s" "us_targets s1 = us_targets s" "same_settings s s1"
    "us_sock s1 = us_sock s \<or> bound_to_source s1"
    using s1(1) create_socket_bound [OF iface] by (auto simp: same_settings_def)
  moreover from this(3) iface have "us_interface s1 \<noteq> ''''" by (simp add: same_settings_def)
  then have "bound_to_source (create_socket ok2 (s1\<lparr>us_would_block := n\<rparr>))" "bound_to_source (create_socket ok2 s1)" for n
    by (simp_all add: create_socket_bound)
  moreover have "bound_to_source s1 \<Longrightarrow> bound_to_source (s1\<lparr>us_would_block := n\<rparr>)" for n
    by (simp add: bound_to_source_def)
  ultimately show ?thesis
    using s1(2) by (auto simp: Let_def same_settings_def)
qed

lemma net_inv_send:
  assumes inv: "net_inv s0 w" and iface: "us_interface s0 \<noteq> ''''"
    and sent: "udp_send mac ok1 ok2 outcome payload (nt_sender w) = (r, out, s')"
  shows "net_inv s0 (w\<lparr>nt_sender := s', nt_out := out\<rparr>)"
proof -
  let ?s = "nt_sender w"
  have same: "same_settings s0 ?s" using inv by (simp add: net_inv_parts)
  then have iface': "us_interface ?s \<noteq> ''''" using iface by (simp add: same_settings_def)
  have s': "us_source s' = us_source ?s" "us_targets s' = us_targets ?s" "same_settings ?s s'"
    "us_sock s' = us_sock ?s \<or> bound_to_source s'"
    using udp_send_keeps [OF sent iface'] by auto
  from s'(3) same have "same_settings s0 s'" by (simp add: same_settings_def)
  moreover have "bound_to_source ?s \<Longrightarrow> bound_to_source s'"
    using s'(1,4) by (auto simp: bound_to_source_def)
  moreover have "\<exists>a. b = Some a \<and> (\<exists>e\<in>set (nt_seen w). permits s0 e a)" if "us_sock s' = Some b" for b
    using that s'(1,4) inv unfolding net_inv_parts bound_to_source_def by (metis option.distinct(1) option.inject)
  ultimately show ?thesis
    using inv s'(1,2) by (auto simp: net_inv_parts split: refresh_pc.splits list.splits)
qed

lemma net_inv_refresh:
  assumes inv: "net_inv s0 w" and iface: "us_interface s0 \<noteq> ''''"
    and nxt: "refresh_next ok (nt_pc w) (nt_sender w) = (pc, s')" "nt_pc w \<noteq> Resting"
  shows "net_inv s0 (w\<lparr>nt_sender := s', nt_pc := pc, nt_out := []\<rparr>)"
proof -
  let ?s = "nt_sender w"
  have same: "same_settings s0 s'"
    using refresh_settings [OF nxt(1)] inv by (simp add: net_inv_parts same_settings_def)
  have iface': "us_interface ?s \<noteq> ''''" using inv iface by (simp add: net_inv_parts same_settings_def)
  have hd: "nt_seen w \<noteq> [] \<Longrightarrow> hd (nt_seen w) \<in> set (nt_seen w)" by simp
  show ?thesis
  proof (cases "nt_pc w")
    case (Looked plan new)
    with inv nxt same show ?thesis by (auto simp: net_inv_parts bound_to_source_def)
  next
    case (PlanStored p new)
    have "\<exists>e\<in>set (nt_seen w). permits s0 e a" if "nt_seen w \<noteq> []" "pl_address (planned s0 (hd (nt_seen w))) = Some a" for a
      using that hd planned_address by blast
    with PlanStored inv nxt same show ?thesis
      by (auto simp: net_inv_parts bound_to_source_def split: if_splits)
  next
    case (SourceStored new)
    with inv nxt same iface' create_socket_bound [of ?s ok] show ?thesis
      by (auto simp: net_inv_parts bound_to_source_def)
  next
    case (SocketMade new)
    then show ?thesis
      using inv nxt same chosen_permitted hd
      by (auto simp: net_inv_parts bound_to_source_def split: list.splits)
  qed (use nxt in simp)
qed

lemma net_inv_step:
  assumes "net_step mac w w'" "net_inv s0 w" "us_interface s0 \<noteq> ''''"
  shows "net_inv s0 w'"
  using assms
proof (cases rule: net_step.cases)
  case (Look e)
  then show ?thesis using assms(2,3)
    by (auto simp: net_inv_parts net_look_def planned_def same_settings_def split: list.splits)
next
  case LookRaises
  then show ?thesis using assms(2) by (auto simp: net_inv_parts split: list.splits)
next
  case (Refresh ok pc s)
  then show ?thesis using net_inv_refresh assms(2,3) by blast
next
  case (Send ok1 ok2 outcome payload r out s)
  then show ?thesis using net_inv_send assms(2,3) by blast
next
  case Close
  then show ?thesis using assms(2)
    by (auto simp: net_inv_parts udp_close_def same_settings_def bound_to_source_def split: refresh_pc.splits list.splits)
qed

lemma net_inv_reach:
  assumes "net_reach mac w0 w" "net_inv s0 w0" "us_interface s0 \<noteq> ''''"
  shows "net_inv s0 w"
  using assms by (induction rule: net_reach.induct) (auto intro: net_inv_step)

lemma net_inv_start:
  "us_interface s0 \<noteq> '''' \<Longrightarrow> us_source s0 = None \<Longrightarrow> us_targets s0 = [] \<Longrightarrow>
   net_inv s0 (net_start (create_socket ok s0))"
  by (simp add: net_inv_parts net_start_def create_socket_def same_settings_def bound_to_source_def no_socket_allowed_def)

lemma sent_in_step:
  assumes "net_step mac w w'" "d \<in> set (nt_out w')"
  obtains ok1 ok2 outcome payload r s' where
    "udp_send mac ok1 ok2 outcome payload (nt_sender w) = (r, nt_out w', s')"
  using assms by (cases rule: net_step.cases) auto


definition demo_up :: iface where
  "demo_up =
     \<lparr>if_name = ''enp2s0'', if_flags = [''BROADCAST'', ''UP''],
      if_addrs = [\<lparr>ai_family = ''inet'', ai_prefixlen = Some 24, ai_local = Some ''10.0.0.7'', ai_broadcast = None\<rparr>]\<rparr>"

definition demo_net_env :: net_env where
  "demo_net_env =
     \<lparr>ne_arp = '''', ne_up = Some [demo_up], ne_dev = (\<lambda>_. Some [demo_up]), ne_route = (\<lambda>_ _. None),
      ne_host = (\<lambda>_. None)\<rparr>"

definition demo_sender :: udp_sender where
  "demo_sender = udp_sender_new ''auto'' '''' None ''enp2s0''"

definition advance :: "net_state \<Rightarrow> net_state" where
  "advance w =
     (case refresh_next True (nt_pc w) (nt_sender w) of
        (pc, s) \<Rightarrow> w\<lparr>nt_sender := s, nt_pc := pc, nt_out := []\<rparr>)"

definition after_look :: "net_state \<Rightarrow> net_state" where
  "after_look w =
     w\<lparr>nt_pc := net_look demo_net_env (nt_sender w), nt_seen := demo_net_env # nt_seen w, nt_out := []\<rparr>"

definition demo_net :: net_state where
  "demo_net = (advance ^^ 4) (after_look (net_start (create_socket True demo_sender)))"

lemma advance_step: "nt_pc w \<noteq> Resting \<Longrightarrow> net_step mac w (advance w)"
  by (auto simp: advance_def split: prod.split intro: net_step.Refresh)

lemma advance_reach: "net_reach mac w0 w \<Longrightarrow> nt_pc w \<noteq> Resting \<Longrightarrow> net_reach mac w0 (advance w)"
  by (rule net_reach.Next [OF _ advance_step])

lemma demo_net_reached: "net_reach demo_mac (net_start (create_socket True demo_sender)) demo_net"
proof -
  let ?w = "after_look (net_start (create_socket True demo_sender))"
  have "net_step demo_mac (net_start (create_socket True demo_sender)) ?w"
    unfolding after_look_def by (rule net_step.Look) (simp add: net_start_def)
  then have "net_reach demo_mac (net_start (create_socket True demo_sender)) ?w"
    by (rule net_reach.Next [OF net_reach.Start])
  moreover have "nt_pc ?w \<noteq> Resting" "nt_pc (advance ?w) \<noteq> Resting"
    "nt_pc (advance (advance ?w)) \<noteq> Resting" "nt_pc (advance (advance (advance ?w))) \<noteq> Resting"
    by code_simp+
  ultimately show ?thesis
    unfolding demo_net_def by (simp add: numeral_eq_Suc advance_reach)
qed


section \<open>Addresses read back\<close>

lemma split_at_free_part: "c \<notin> set p \<Longrightarrow> split_at c (p @ c # s) = p # split_at c s"
  by (induction p) auto

lemma split_at_whole: "c \<notin> set p \<Longrightarrow> split_at c p = [p]"
  by (induction p) auto

definition digit_char :: "nat \<Rightarrow> char" where "digit_char k = char_of (48 + k)"

lemma octet_chars: "map digit_char [0..<10] = ''0123456789''"
  by code_simp

lemma octet_char:
  assumes "k < 10"
  shows "is_digit (digit_char k)" "digit_value (digit_char k) = int k" "CHR ''.'' \<noteq> digit_char k"
    "digit_char k = CHR ''0'' \<longleftrightarrow> k = 0"
proof -
  have nth: "digit_char i = ''0123456789'' ! i" if "i < 10" for i
    using that arg_cong [OF octet_chars, of "\<lambda>xs. xs ! i"] by simp
  have elem: "digit_char k \<in> set ''0123456789''"
    using nth [OF assms] assms nth_mem [of k "''0123456789''"] by simp
  then show "is_digit (digit_char k)" by (simp only: is_digit_def)
  have "CHR ''.'' \<notin> set ''0123456789''" by simp
  with elem show "CHR ''.'' \<noteq> digit_char k" by metis
  have "distinct ''0123456789''" by simp
  then show "digit_char k = CHR ''0'' \<longleftrightarrow> k = 0"
    using nth [OF assms] assms nth_eq_iff_index_eq [of "''0123456789''" k 0] by simp
  show "digit_value (digit_char k) = int k"
    using assms of_nat_of_char [of "digit_char k", where ?'a = int]
    by (simp add: digit_char_def digit_value_def)
qed

lemma decimal_last: "10 \<le> n \<Longrightarrow> decimal n = decimal (n div 10) @ [digit_char (n mod 10)]"
  by (simp add: decimal.simps [of n] digit_char_def)

lemma decimal_digits:
  "n < 10 \<Longrightarrow> decimal n = [digit_char n]"
  "10 \<le> n \<Longrightarrow> n < 100 \<Longrightarrow> decimal n = [digit_char (n div 10), digit_char (n mod 10)]"
  "100 \<le> n \<Longrightarrow> n < 1000 \<Longrightarrow>
     decimal n = [digit_char (n div 10 div 10), digit_char (n div 10 mod 10), digit_char (n mod 10)]"
proof -
  show one: "decimal n = [digit_char n]" if "n < 10" for n
    using that by (simp add: decimal.simps [of n] digit_char_def)
  show two: "decimal n = [digit_char (n div 10), digit_char (n mod 10)]" if "10 \<le> n" "n < 100" for n
    using that decimal_last [OF that(1)] one [of "n div 10"] by simp
  show "decimal n = [digit_char (n div 10 div 10), digit_char (n div 10 mod 10), digit_char (n mod 10)]"
    if "100 \<le> n" "n < 1000"
    using that decimal_last [of n] two [of "n div 10"] by simp
qed

lemma octet_digits:
  assumes "a < 10" "b < 10" "c < 10"
  shows "octet [digit_char c] = Some (int c)"
    "b \<noteq> 0 \<Longrightarrow> octet [digit_char b, digit_char c] = Some (10 * int b + int c)"
    "a \<noteq> 0 \<Longrightarrow> 100 * a + 10 * b + c < 256 \<Longrightarrow>
       octet [digit_char a, digit_char b, digit_char c] = Some (100 * int a + 10 * int b + int c)"
  using assms by (simp_all add: octet_def parse_digits_def octet_char) auto

lemma octet_decimal_nat:
  assumes "n < 256"
  shows "octet (decimal n) = Some (int n) \<and> CHR ''.'' \<notin> set (decimal n)"
proof -
  define a b c where "a = n div 10 div 10" and "b = n div 10 mod 10" and "c = n mod 10"
  have n: "n div 10 = 10 * a + b" "n = 10 * (n div 10) + c"
    by (simp_all only: a_def b_def c_def mult_div_mod_eq)
  have d: "b < 10" "c < 10" by (simp_all add: b_def c_def)
  consider "n < 10" | "10 \<le> n" "n < 100" | "100 \<le> n" "n < 256" using assms by linarith
  then show ?thesis
  proof cases
    case 1
    then show ?thesis using octet_digits(1) [OF d(2) d(2) 1] octet_char(3) [OF 1] by (simp add: decimal_digits)
  next
    case 2
    then have ten: "n div 10 < 10" "n div 10 \<noteq> 0" using n d by linarith+
    have "int n = 10 * int (n div 10) + int c" using n(2) by linarith
    then show ?thesis
      using octet_digits(2) [OF d(1) ten(1) d(2) ten(2)] octet_char(3) ten(1) d 2
      by (simp only: decimal_digits c_def [symmetric]) simp
  next
    case 3
    then have hundred: "a < 10" "a \<noteq> 0" "100 * a + 10 * b + c < 256" using n d by linarith+
    have "int n = 100 * int a + 10 * int b + int c" using n by linarith
    moreover have "decimal n = [digit_char a, digit_char b, digit_char c]"
      using 3 decimal_digits(3) [of n] by (simp only: a_def b_def c_def)
    ultimately show ?thesis
      using octet_digits(3) [OF hundred(1) d hundred(2,3)] octet_char(3) hundred(1) d
      by (simp only: list.set) auto
  qed
qed

lemma octet_decimal:
  assumes "0 \<le> k" "k < 256"
  shows "octet (decimal (nat k)) = Some k" "CHR ''.'' \<notin> set (decimal (nat k))"
  using octet_decimal_nat [of "nat k"] assms by auto

text \<open>
  Writing an address and reading it again gives the same 32-bit address, so the targets
  that went through \<open>IPv4Address\<close> are equal as texts exactly if they are equal addresses.
\<close>

theorem ipv4_roundtrip: "parse_ipv4 (ipv4_text w) = Some w"
proof -
  define n where "n = uint w"
  have n: "0 \<le> n" "n < 4294967296" using uint_lt2p [of w] by (simp_all add: n_def)
  let ?a = "n div 16777216" and ?b = "n div 65536 mod 256" and ?c = "n div 256 mod 256" and ?d = "n mod 256"
  have range: "0 \<le> ?a" "?a < 256" "0 \<le> ?b" "?b < 256" "0 \<le> ?c" "?c < 256" "0 \<le> ?d" "?d < 256"
    using n by (simp_all add: div_int_pos_iff) linarith?
  note oct = octet_decimal [OF range(1,2)] octet_decimal [OF range(3,4)] octet_decimal [OF range(5,6)]
    octet_decimal [OF range(7,8)]
  have "ipv4_text w = decimal (nat ?a) @ CHR ''.'' # decimal (nat ?b) @ CHR ''.'' # decimal (nat ?c) @ CHR ''.'' #
      decimal (nat ?d)"
    by (simp add: ipv4_text_def n_def Let_def)
  then have "map octet (split_at CHR ''.'' (ipv4_text w)) = [Some ?a, Some ?b, Some ?c, Some ?d]"
    using oct by (simp add: split_at_free_part split_at_whole)
  then have "parse_ipv4 (ipv4_text w) = Some (ipv4_of ?a ?b ?c ?d)"
    by (simp add: parse_ipv4_def)
  moreover have "n div 65536 = n div 256 div 256" "n div 16777216 = n div 256 div 256 div 256"
    by (simp_all only: zdiv_zmult2_eq [symmetric]) simp_all
  then have "((?a * 256 + ?b) * 256 + ?c) * 256 + ?d = n"
    by (simp only: div_mult_mod_eq)
  then have "ipv4_of ?a ?b ?c ?d = word_of_int n"
    unfolding ipv4_of_def by (simp only:)
  ultimately show ?thesis by (simp add: n_def)
qed

section \<open>Broadcasting by default\<close>

lemma first_per_broadcast_from: "(i, b) \<in> set (first_per_broadcast seen xs) \<Longrightarrow> \<exists>own. (i, own, b) \<in> set xs"
  by (induction seen xs rule: first_per_broadcast.induct) (auto split: if_splits)

lemma broadcast_sources_from:
  "(name, own, b) \<in> set (broadcast_sources ifs skip) \<Longrightarrow>
   \<exists>i\<in>set ifs. lan_interface skip i \<and> if_name i = name \<and> (\<exists>a\<in>set (if_addrs i). address_source a = Some (own, b))"
  unfolding broadcast_sources_def List.map_filter_def by fastforce

text \<open>
  Without \<open>monitor_interface\<close>, "auto" sends to broadcast addresses of usable interfaces that
  are neither excluded nor have a Mesa board on them, or to the limited broadcast address.
\<close>

lemma auto_targets:
  assumes "t \<in> set (discover_broadcast_targets e exclude)"
  shows "t = limited_broadcast \<or>
    (\<exists>ifs i a own. ne_up e = Some ifs \<and> i \<in> set ifs \<and> lan_interface (exclude \<union> mesa_interfaces (ne_arp e)) i \<and>
       a \<in> set (if_addrs i) \<and> address_source a = Some (own, t))"
proof (cases "ne_up e")
  case None
  with assms show ?thesis by (simp add: discover_broadcast_targets_def)
next
  case (Some ifs)
  then show ?thesis
  proof (cases "t = limited_broadcast")
    case False
    then have "t \<in> snd ` set (broadcast_addresses ifs (exclude \<union> mesa_interfaces (ne_arp e)))"
      using assms Some by (auto simp: discover_broadcast_targets_def split: list.splits)
    then obtain name where "(name, t) \<in> set (broadcast_addresses ifs (exclude \<union> mesa_interfaces (ne_arp e)))"
      by auto
    then show ?thesis
      using Some first_per_broadcast_from broadcast_sources_from unfolding broadcast_addresses_def by metis
  qed simp
qed

text \<open>
  The limited broadcast address is also what is used when the only interface that is up is
  the one with the Mesa board, and then a packet leaves through it.
\<close>

definition mesa_arp :: string where
  "mesa_arp = ''IP address HW type Flags HW address Mask Device'' @ [CHR 0x0A] @
     ''10.10.10.10 0x1 0x6 00:60:1B:16:22:9b * enp2s0''"

lemma mesa_only_falls_back_to_broadcast:
  "mesa_interfaces mesa_arp = {''enp2s0''}"
  "resolve_targets (demo_net_env\<lparr>ne_arp := mesa_arp\<rparr>) ''auto'' {} None = [limited_broadcast]"
  by code_simp+

end
