(* ===== verification/Mes_Discovery.thy ===== *)
theory Mes_Discovery
  imports Agent_Net Mes_Forward
begin

text \<open>
  Finding the site service at a new address (\<open>agent_mes_discovery.py\<close>): which messages
  count, where probes go, and \<open>Finder\<close>, which collects answers for a few seconds; then the
  forwarder of \<open>Mes_Forward\<close> looking with it.

  JSON text is what it reads as (\<open>None\<close>: not UTF-8 or not JSON). What arrives on the sockets
  and the clock during one call is a list of rounds of the loop.
\<close>

definition look_s :: rat where "look_s = 3"
definition settle_s :: rat where "settle_s = 3 / 10"
definition max_message :: nat where "max_message = 512"
definition beacon :: string where "beacon = ''fw.service_beacon''"

text \<open>The HTTPS port of a beacon for this site and CA.\<close>

definition accept :: "(string \<Rightarrow> pyval option) \<Rightarrow> string \<Rightarrow> string \<Rightarrow> string \<Rightarrow> int option" where
  "accept json data site_id ca_sha256 =
     (if max_message < length data then None
      else case json data of
          Some (PDict msg) \<Rightarrow>
            if \<not> py_eq (dict_get msg ''type'') (PStr beacon) \<or> \<not> py_eq (dict_get msg ''v'') (PInt 1) then None
            else if \<not> py_eq (dict_get msg ''site_id'') (PStr site_id) then None
            else (case dict_get msg ''ca_sha256'' of
                PStr ca \<Rightarrow>
                  if py_lower ca \<noteq> py_lower ca_sha256 then None
                  else (case dict_get msg ''port'' of
                      PInt port \<Rightarrow> if 0 < port \<and> port < 65536 then Some port else None
                    | _ \<Rightarrow> None)
              | _ \<Rightarrow> None)
        | _ \<Rightarrow> None)"

text \<open>Not 0.0.0.0, 224.0.0.0/4, 169.254.0.0/16 or the limited broadcast address.\<close>

definition usable_source :: "string \<Rightarrow> bool" where
  "usable_source ip =
     (case parse_ipv4 ip of
        None \<Rightarrow> False
      | Some w \<Rightarrow> w \<noteq> 0 \<and> drop_bit 28 w \<noteq> 0xE \<and> drop_bit 16 w \<noteq> 0xA9FE \<and> ip \<noteq> limited_broadcast)"

definition lan_targets :: "net_env \<Rightarrow> string \<Rightarrow> string set \<Rightarrow> (string \<times> string) list" where
  "lan_targets e interface skip =
     (if interface \<noteq> '''' then
        (let plan = plan_interface e interface skip
         in case (pl_problem plan, pl_broadcast plan) of
              (None, Some b) \<Rightarrow> if b = '''' then [] else [(or_else (pl_address plan) '''', b)]
            | _ \<Rightarrow> [])
      else (case uniq (map snd (list_broadcast_sources e skip)) of
              [] \<Rightarrow> [('''', limited_broadcast)]
            | targets \<Rightarrow> targets))"

section \<open>Finder\<close>

record finder =
  fd_look_s :: rat
  fd_listen :: bool
  fd_interface :: string
  fd_skip :: "string set"

definition finder_new :: "string \<Rightarrow> string \<Rightarrow> finder" where
  "finder_new interface exclude =
     \<lparr>fd_look_s = look_s, fd_listen = True, fd_interface = strip interface, fd_skip = set (comma_list exclude)\<rparr>"

text \<open>
  One receive: on the listening socket or a probe's, the bytes and the sender (\<open>None\<close>: an
  \<open>OSError\<close>), and the clock when it is taken. One round of the loop: the clock before
  \<open>select\<close>, and what was ready.
\<close>

record arrival =
  ar_listener :: bool
  ar_data :: "(string \<times> string) option"
  ar_clock :: rat

record look_round =
  lo_now :: rat
  lo_ready :: "arrival list"

type_synonym found_table = "((string \<times> int) \<times> string) list"

definition arrival_service ::
  "(string \<Rightarrow> pyval option) \<Rightarrow> string \<Rightarrow> string \<Rightarrow> arrival \<Rightarrow> (string \<times> int) option" where
  "arrival_service json site ca a =
     (case ar_data a of
        None \<Rightarrow> None
      | Some (data, ip) \<Rightarrow>
          (case accept json data site ca of
             None \<Rightarrow> None
           | Some port \<Rightarrow> if usable_source ip then Some (ip, port) else None))"

definition take_arrival ::
  "(string \<Rightarrow> pyval option) \<Rightarrow> string \<Rightarrow> string \<Rightarrow> rat \<times> found_table \<Rightarrow> arrival \<Rightarrow> rat \<times> found_table" where
  "take_arrival json site ca s a =
     (case arrival_service json site ca a of
        None \<Rightarrow> s
      | Some key \<Rightarrow>
          (if snd s = [] then min (fst s) (ar_clock a + settle_s) else fst s,
           if key \<in> fst ` set (snd s) then snd s
           else snd s @ [(key, if ar_listener a then ''announcement'' else ''probe'')]))"

fun collect ::
  "(string \<Rightarrow> pyval option) \<Rightarrow> string \<Rightarrow> string \<Rightarrow> rat \<times> found_table \<Rightarrow> look_round list \<Rightarrow> found_table" where
  "collect json site ca s [] = snd s"
| "collect json site ca s (r # rs) =
     (if fst s - lo_now r \<le> 0 then snd s
      else collect json site ca (foldl (take_arrival json site ca) s (lo_ready r)) rs)"

text \<open>
  What happens during one call: the clock at its start, whether the listening socket opens,
  the network (\<open>None\<close>: listing it raises), which probes can be sent, and the rounds.
\<close>

record finder_env =
  fi_start :: rat
  fi_listens :: bool
  fi_net :: "net_env option"
  fi_probe_ok :: "string \<times> string \<Rightarrow> bool"
  fi_rounds :: "look_round list"

text \<open>The probes sent, as source and destination.\<close>

definition finder_probes :: "finder \<Rightarrow> finder_env \<Rightarrow> (string \<times> string) list" where
  "finder_probes fd env =
     (case fi_net env of
        None \<Rightarrow> []
      | Some e \<Rightarrow> filter (fi_probe_ok env) (lan_targets e (fd_interface fd) (fd_skip fd)))"

definition finder_call ::
  "(string \<Rightarrow> pyval option) \<Rightarrow> finder \<Rightarrow> finder_env \<Rightarrow> string \<Rightarrow> string \<Rightarrow> (string \<times> int \<times> string) list" where
  "finder_call json fd env site ca =
     (let socks = finder_probes fd env \<noteq> [] \<or> (fd_listen fd \<and> fi_listens env);
          found = (if socks then collect json site ca (fi_start env + fd_look_s fd, []) (fi_rounds env) else [])
      in map (\<lambda>((ip, port), via). (ip, port, via)) (sort_key (\<lambda>kv. snd kv \<noteq> ''probe'') found))"

section \<open>What a look can find\<close>

text \<open>A beacon of this site and CA, sent from this address.\<close>

definition genuine :: "(string \<Rightarrow> pyval option) \<Rightarrow> string \<Rightarrow> string \<Rightarrow> arrival \<Rightarrow> string \<Rightarrow> int \<Rightarrow> bool" where
  "genuine json site ca a ip port \<longleftrightarrow>
     (\<exists>data msg ca'. ar_data a = Some (data, ip) \<and> length data \<le> 512 \<and> usable_source ip \<and>
        json data = Some (PDict msg) \<and> dict_get msg ''type'' = PStr beacon \<and>
        dict_get msg ''site_id'' = PStr site \<and>
        dict_get msg ''ca_sha256'' = PStr ca' \<and> py_lower ca' = py_lower ca \<and>
        dict_get msg ''port'' = PInt port \<and> 0 < port \<and> port < 65536)"

lemma py_eq_str: "py_eq v (PStr s) \<longleftrightarrow> v = PStr s"
  by (cases v) (auto split: pyfloat.split)

lemma arrival_genuine:
  "arrival_service json site ca a = Some (ip, port) \<Longrightarrow> genuine json site ca a ip port"
  by (auto simp: arrival_service_def accept_def genuine_def py_eq_str max_message_def
      split: option.splits pyval.splits if_splits prod.splits)

text \<open>
  The table during a call: every entry has its arrival, in a round that began before the
  first end, and no service is in it twice.
\<close>

definition table_ok ::
  "(string \<Rightarrow> pyval option) \<Rightarrow> string \<Rightarrow> string \<Rightarrow> rat \<Rightarrow> look_round set \<Rightarrow> rat \<times> found_table \<Rightarrow> bool" where
  "table_ok json site ca end0 rounds s \<longleftrightarrow>
     fst s \<le> end0 \<and> distinct (map fst (snd s)) \<and>
     (\<forall>((ip, port), via)\<in>set (snd s). \<exists>r\<in>rounds. lo_now r < end0 \<and>
        (\<exists>a\<in>set (lo_ready r). genuine json site ca a ip port \<and>
           via = (if ar_listener a then ''announcement'' else ''probe'')))"

lemma take_arrival_ok:
  assumes "table_ok json site ca end0 rounds s" "r \<in> rounds" "lo_now r < end0" "a \<in> set (lo_ready r)"
  shows "table_ok json site ca end0 rounds (take_arrival json site ca s a)"
proof (cases "arrival_service json site ca a")
  case None
  with assms(1) show ?thesis by (simp add: take_arrival_def)
next
  case (Some key)
  obtain ip port where key: "key = (ip, port)" by (cases key)
  have "genuine json site ca a ip port" using arrival_genuine Some key by simp
  with assms Some key show ?thesis
    unfolding table_ok_def take_arrival_def by (auto simp: image_iff split: if_splits)
qed

lemma take_arrivals_ok:
  assumes "table_ok json site ca end0 rounds s" "r \<in> rounds" "lo_now r < end0" "set as \<subseteq> set (lo_ready r)"
  shows "table_ok json site ca end0 rounds (foldl (take_arrival json site ca) s as)"
  using assms(1,4)
proof (induction as arbitrary: s)
  case (Cons a as)
  then have "table_ok json site ca end0 rounds (take_arrival json site ca s a)"
    using take_arrival_ok [OF _ assms(2,3)] by simp
  then show ?case using Cons.IH Cons.prems(2) by simp
qed simp

lemma collect_ok:
  assumes "table_ok json site ca end0 rounds s" "set rs \<subseteq> rounds"
  shows "\<exists>e. table_ok json site ca end0 rounds (e, collect json site ca s rs)"
  using assms
proof (induction rs arbitrary: s)
  case Nil
  then show ?case by (metis collect.simps(1) prod.collapse)
next
  case (Cons r rs)
  show ?case
  proof (cases "fst s - lo_now r \<le> 0")
    case True
    with Cons.prems(1) show ?thesis by (metis collect.simps(2) prod.collapse)
  next
    case False
    then have "lo_now r < end0" using Cons.prems(1) by (simp add: table_ok_def)
    then have "table_ok json site ca end0 rounds (foldl (take_arrival json site ca) s (lo_ready r))"
      using Cons.prems by (intro take_arrivals_ok) auto
    with Cons False show ?thesis by simp
  qed
qed

lemma finder_found:
  assumes "(ip, port, via) \<in> set (finder_call json fd env site ca)"
  shows "\<exists>r\<in>set (fi_rounds env). lo_now r < fi_start env + fd_look_s fd \<and>
    (\<exists>a\<in>set (lo_ready r). genuine json site ca a ip port \<and>
       via = (if ar_listener a then ''announcement'' else ''probe''))"
proof -
  let ?until = "fi_start env + fd_look_s fd"
  have "table_ok json site ca ?until (set (fi_rounds env)) (?until, [])"
    by (simp add: table_ok_def)
  then obtain e where ok: "table_ok json site ca ?until (set (fi_rounds env))
      (e, collect json site ca (?until, []) (fi_rounds env))"
    using collect_ok by blast
  have "((ip, port), via) \<in> set (collect json site ca (?until, []) (fi_rounds env))"
    using assms by (auto simp: finder_call_def Let_def split: if_splits)
  with ok show ?thesis unfolding table_ok_def by fastforce
qed

text \<open>
  C17: The forwarder moves to another address only after enough failed calls in a row, and
  only to one from which a beacon of its own site with the fingerprint of its pinned CA
  arrived in time and at which the service, over the checked connection, answered 200.
\<close>

theorem moves_only_to_announced_service:
  assumes "look env f files = (True, f', files')"
    and "fe_find env = (\<lambda>site ca. Some (finder_call json fd fenv site ca))"
  shows "\<exists>site ca ip port r a. fw_site f = Some site \<and> fw_ca f = Some ca \<and> look_after_fails \<le> fw_fails f \<and>
    r \<in> set (fi_rounds fenv) \<and> lo_now r < fi_start fenv + fd_look_s fd \<and> a \<in> set (lo_ready r) \<and>
    genuine json site ca a ip port \<and>
    fw_url f' = service_url ip port \<and> fw_url f' \<noteq> fw_url f \<and> fe_probe env (fw_url f') = Some 200"
proof -
  have good: "\<exists>ip port via. (ip, port, via) \<in> set found \<and> url = service_url ip port \<and> url \<noteq> current \<and>
      fe_probe env url = Some 200"
    if "first_good env current found = Some (url, v)" for found current url v
    using that by (induction env current found rule: first_good.induct) (auto simp: Let_def split: if_splits)
  obtain site ca where sc: "non_empty (fw_site f) = Some site" "non_empty (fw_ca f) = Some ca"
    using assms(1) by (auto simp: look_def split: option.splits)
  then have "fw_site f = Some site" "fw_ca f = Some ca"
    by (auto simp: non_empty_def split: option.splits if_splits)
  moreover have fails: "look_after_fails \<le> fw_fails f"
    using assms(1) sc by (auto simp: look_def split: if_splits)
  moreover obtain v where v: "first_good env (fw_url f) (finder_call json fd fenv site ca) = Some (fw_url f', v)"
    using assms sc by (auto simp: look_def split: if_splits option.splits)
  obtain ip port via where "(ip, port, via) \<in> set (finder_call json fd fenv site ca)"
    and url: "fw_url f' = service_url ip port" "fw_url f' \<noteq> fw_url f" "fe_probe env (fw_url f') = Some 200"
    using good [OF v] by blast
  from finder_found [OF this(1)] obtain r a where
    "r \<in> set (fi_rounds fenv)" "lo_now r < fi_start fenv + fd_look_s fd" "a \<in> set (lo_ready r)"
    "genuine json site ca a ip port" by blast
  ultimately show ?thesis using url by blast
qed

lemma sort_distinct: "distinct (map fst xs) \<Longrightarrow> distinct (map fst (sort_key f xs))"
  by (simp add: distinct_map)

text \<open>
  The answer lists no service twice, and the ones that answered a probe come before those
  that were only heard.
\<close>

lemma finder_order:
  "distinct (map (\<lambda>(ip, port, via). (ip, port)) (finder_call json fd env site ca))"
  "sorted (map (\<lambda>(ip, port, via). via \<noteq> ''probe'') (finder_call json fd env site ca))"
proof -
  let ?until = "fi_start env + fd_look_s fd"
  let ?found = "if finder_probes fd env \<noteq> [] \<or> (fd_listen fd \<and> fi_listens env)
    then collect json site ca (?until, []) (fi_rounds env) else []"
  have "table_ok json site ca ?until (set (fi_rounds env)) (?until, [])"
    by (simp add: table_ok_def)
  then have "distinct (map fst ?found)"
    using collect_ok by (fastforce simp: table_ok_def)
  then have "distinct (map fst (sort_key (\<lambda>kv. snd kv \<noteq> ''probe'') ?found))"
    by (rule sort_distinct)
  moreover have "map (\<lambda>(ip, port, via). (ip, port)) (finder_call json fd env site ca) =
      map fst (sort_key (\<lambda>kv. snd kv \<noteq> ''probe'') ?found)"
    by (simp add: finder_call_def Let_def comp_def case_prod_beta)
  ultimately show "distinct (map (\<lambda>(ip, port, via). (ip, port)) (finder_call json fd env site ca))"
    by (simp only:)
  have "map (\<lambda>(ip, port, via). via \<noteq> ''probe'') (finder_call json fd env site ca) =
      map (\<lambda>kv. snd kv \<noteq> ''probe'') (sort_key (\<lambda>kv. snd kv \<noteq> ''probe'') ?found)"
    by (simp add: finder_call_def Let_def comp_def case_prod_beta)
  then show "sorted (map (\<lambda>(ip, port, via). via \<noteq> ''probe'') (finder_call json fd env site ca))"
    by (simp only: sorted_sort_key)
qed

text \<open>With \<open>monitor_interface\<close> set, probes too leave through that interface only.\<close>

lemma probes_through_monitor_interface:
  assumes "(own, dst) \<in> set (finder_probes fd env)" "fd_interface fd \<noteq> ''''"
  shows "\<exists>e ifs. fi_net env = Some e \<and> fd_interface fd \<notin> fd_skip fd \<and>
    fd_interface fd \<notin> mesa_interfaces (ne_arp e) \<and> ne_dev e (fd_interface fd) = Some ifs \<and>
    interface_ipv4 ifs (fd_interface fd) = Some (own, Some dst)"
proof -
  obtain e where e: "fi_net env = Some e" "(own, dst) \<in> set (lan_targets e (fd_interface fd) (fd_skip fd))"
    using assms(1) by (cases "fi_net env") (auto simp: finder_probes_def)
  let ?plan = "plan_interface e (fd_interface fd) (fd_skip fd)"
  have plan: "pl_problem ?plan = None" "pl_broadcast ?plan = Some dst" "own = or_else (pl_address ?plan) ''''"
    using e(2) assms(2) by (auto simp: lan_targets_def Let_def split: option.splits if_splits)
  then show ?thesis
    using e(1) by (auto simp: plan_interface_def plan_problem_def split: option.splits if_splits prod.splits)
qed

definition demo_json :: "string \<Rightarrow> pyval option" where
  "demo_json data =
     (if data = ''b'' then Some (PDict [(''type'', PStr beacon), (''v'', PInt 1), (''site_id'', PStr ''s''),
                                       (''ca_sha256'', PStr ''AB''), (''port'', PInt 8443)])
      else None)"

definition demo_finder_env :: finder_env where
  "demo_finder_env =
     \<lparr>fi_start = 0, fi_listens = True, fi_net = None, fi_probe_ok = (\<lambda>_. True),
      fi_rounds = [\<lparr>lo_now = 1, lo_ready = [\<lparr>ar_listener = True, ar_data = Some (''b'', ''10.0.0.9''), ar_clock = 1\<rparr>]\<rparr>]\<rparr>"

definition demo_lost :: forwarder where
  "demo_lost = (forwarder_init ''https://10.0.0.5:8443'' ''m'' True)\<lparr>fw_site := Some ''s'', fw_ca := Some ''ab'', fw_fails := 100\<rparr>"

definition demo_look_env :: forward_env where
  "demo_look_env = demo_forward_env
     \<lparr>fe_find := (\<lambda>site ca. Some (finder_call demo_json (finder_new '''' '''') demo_finder_env site ca)),
      fe_probe := (\<lambda>u. Some 200)\<rparr>"

lemma moves_only_to_announced_service_witness:
  "\<exists>port a. genuine demo_json ''s'' ''ab'' a ''10.0.0.9'' port \<and>
     fw_url (fst (snd (look demo_look_env demo_lost demo_mes_files))) = service_url ''10.0.0.9'' port"
proof -
  let ?r = "look demo_look_env demo_lost demo_mes_files"
  have found: "finder_call demo_json (finder_new '''' '''') demo_finder_env ''s'' ''ab'' = [(''10.0.0.9'', 8443, ''announcement'')]"
    by code_simp
  have fields: "non_empty (fw_site demo_lost) = Some ''s''" "non_empty (fw_ca demo_lost) = Some ''ab''"
    "fw_finder demo_lost" "look_after_fails \<le> fw_fails demo_lost" "fe_find demo_look_env ''s'' ''ab'' =
       Some (finder_call demo_json (finder_new '''' '''') demo_finder_env ''s'' ''ab'')"
    "fe_probe demo_look_env u = Some 200" for u
    by (simp_all add: demo_lost_def forwarder_init_def non_empty_def look_after_fails_def demo_look_env_def)
  have "fw_url demo_lost = ''https://10.0.0.5:8443''" by code_simp
  then have other: "service_url ''10.0.0.9'' 8443 \<noteq> fw_url demo_lost" by (simp add: service_url_def)
  obtain f' files' where look: "?r = (True, f', files')" "fw_url f' = service_url ''10.0.0.9'' 8443"
    using fields found other by (simp add: look_def Let_def)
  have "fe_find demo_look_env = (\<lambda>site ca. Some (finder_call demo_json (finder_new '''' '''') demo_finder_env site ca))"
    by (simp add: demo_look_env_def)
  from moves_only_to_announced_service [OF look(1) this] obtain ip port a where
    a: "a \<in> set (lo_ready (hd (fi_rounds demo_finder_env)))" "genuine demo_json ''s'' ''ab'' a ip port"
    "fw_url f' = service_url ip port"
    by (auto simp: demo_finder_env_def demo_lost_def)
  then have "ip = ''10.0.0.9''" by (auto simp: demo_finder_env_def genuine_def)
  with a look show ?thesis by auto
qed

end
