(* ===== verification/Agent_Config.thy ===== *)
theory Agent_Config
  imports Py_Text Py_Value "HOL-Library.AList"
begin

text \<open>
  The configuration of \<open>status.py\<close>: the built-in defaults, coercion of loaded values to
  the type of their default, the parser of flat YAML used where PyYAML is not installed,
  \<open>load_config\<close>, the rewriting of one line by \<open>set_config_value\<close>
  (\<open>agent_mes_forward.py\<close>), and the rate limit of the log.

  PyYAML and the text of floats, lists and dictionaries (\<open>repr\<close>) are parameters. Floats
  are exact, but the range of a double is kept: a literal beyond it is an infinity, an
  integer beyond it cannot be converted.
\<close>

section \<open>Numbers in text\<close>

text \<open>Digits with single underscores between them.\<close>

fun digit_part :: "string \<Rightarrow> bool" where
  "digit_part [] = False"
| "digit_part [c] = is_digit c"
| "digit_part (c # d # cs) =
     (is_digit c \<and> (if d = CHR ''_'' then digit_part cs else digit_part (d # cs)))"

definition digits_number :: "string \<Rightarrow> int" where
  "digits_number s = parse_digits (filter (\<lambda>c. c \<noteq> CHR ''_'') s)"

text \<open>An optional sign: whether the number is negative, and the text after the sign.\<close>

definition take_sign :: "string \<Rightarrow> bool \<times> string" where
  "take_sign s =
     (case s of [] \<Rightarrow> (False, [])
      | c # cs \<Rightarrow> if c = CHR ''-'' then (True, cs) else if c = CHR ''+'' then (False, cs) else (False, s))"

definition signed :: "bool \<Rightarrow> 'a :: uminus \<Rightarrow> 'a" where
  "signed negative x = (if negative then - x else x)"

text \<open>\<open>int(s)\<close> of a text, \<open>None\<close> where it raises \<open>ValueError\<close>.\<close>

definition read_int :: "string \<Rightarrow> int option" where
  "read_int s =
     (let (negative, d) = take_sign (strip s)
      in if digit_part d then Some (signed negative (digits_number d)) else None)"

text \<open>\<open>s.partition(c)\<close>: the text before the first \<open>c\<close> and the text after it, if there is one.\<close>

definition partition_at :: "char \<Rightarrow> string \<Rightarrow> string \<times> string option" where
  "partition_at c s =
     (before c s, case dropWhile (\<lambda>x. x \<noteq> c) s of [] \<Rightarrow> None | _ # rest \<Rightarrow> Some rest)"

text \<open>Half way between the largest double and the next power of two.\<close>

definition float_edge :: rat where "float_edge = 2 ^ 1024 - 2 ^ 970"

definition to_double :: "rat \<Rightarrow> pyfloat" where
  "to_double x = (if float_edge \<le> x then Inf else if x \<le> - float_edge then NegInf else Fin x)"

definition read_exponent :: "string option \<Rightarrow> int option" where
  "read_exponent e =
     (case e of None \<Rightarrow> Some 0
      | Some t \<Rightarrow> (let (negative, d) = take_sign t
                  in if digit_part d then Some (signed negative (digits_number d)) else None))"

definition power_of_ten :: "int \<Rightarrow> rat" where
  "power_of_ten k = (if 0 \<le> k then 10 ^ nat k else 1 / 10 ^ nat (- k))"

definition read_mantissa :: "string \<Rightarrow> rat option" where
  "read_mantissa m =
     (case partition_at CHR ''.'' m of
        (whole, None) \<Rightarrow> if digit_part whole then Some (of_int (digits_number whole)) else None
      | (whole, Some decimals) \<Rightarrow>
          if (whole = [] \<or> digit_part whole) \<and> (decimals = [] \<or> digit_part decimals) \<and> whole @ decimals \<noteq> []
          then Some (of_int (digits_number (whole @ decimals)) *
                     power_of_ten (- int (length (filter (\<lambda>c. c \<noteq> CHR ''_'') decimals))))
          else None)"

text \<open>\<open>float(s)\<close> of a text, \<open>None\<close> where it raises \<open>ValueError\<close>.\<close>

definition read_float :: "string \<Rightarrow> pyfloat option" where
  "read_float s =
     (let (negative, d) = take_sign (py_lower (strip s))
      in if d \<in> set [''inf'', ''infinity''] then Some (if negative then NegInf else Inf)
         else if d = ''nan'' then Some NaN
         else case partition_at CHR ''e'' d of (m, e) \<Rightarrow>
           (case (read_mantissa m, read_exponent e) of
              (Some x, Some k) \<Rightarrow> Some (to_double (signed negative (x * power_of_ten k)))
            | _ \<Rightarrow> None))"

section \<open>Defaults\<close>

definition default_config :: pydict where
  "default_config =
     [(''monitor_pc_ip'', PStr ''auto''),
      (''monitor_pc_port'', PInt 5005),
      (''exclude_interfaces'', PStr ''''),
      (''monitor_interface'', PStr ''''),
      (''machine_name'', PStr ''''),
      (''machine_uuid_file'', PStr ''''),
      (''poll_interval_s'', PFloat (Fin 1)),
      (''sample_interval_s'', PFloat (Fin (1 / 10))),
      (''idle_heartbeat_interval_s'', PFloat (Fin 30)),
      (''gcode_chunk_size'', PInt 1000),
      (''gcode_resend_s'', PFloat (Fin 60)),
      (''log_file'', PStr ''/tmp/cnc_status.log''),
      (''log_max_bytes'', PInt (5 * 1024 * 1024)),
      (''log_backup_count'', PInt 3),
      (''journal_days'', PFloat (Fin 14)),
      (''journal_interval_s'', PFloat (Fin 10)),
      (''journal_min_free_mb'', PFloat (Fin 100)),
      (''journal_port'', PInt 5006),
      (''journal_bind'', PStr ''''),
      (''journal_allow'', PStr ''''),
      (''site_key'', PStr ''''),
      (''read_error_channel'', PBool False),
      (''mes_enabled'', PBool False),
      (''mes_spool_mb'', PFloat (Fin 1024)),
      (''mes_millwright_config'', PStr ''''),
      (''mes_service_url'', PStr ''''),
      (''mes_discovery_port'', PInt 5007)]"

section \<open>Coercion\<close>

text \<open>
  What \<open>_coerce\<close> does: a value of the wanted type, an error that \<open>load_config\<close> catches
  (\<open>TypeError\<close>, \<open>ValueError\<close>), or \<open>OverflowError\<close>, which it does not.
\<close>

datatype coerced = Converted pyval | BadValue | Overflows

definition or_bad :: "pyval option \<Rightarrow> coerced" where
  "or_bad v = (case v of None \<Rightarrow> BadValue | Some x \<Rightarrow> Converted x)"

definition to_int :: "pyval \<Rightarrow> coerced" where
  "to_int v =
     (case v of
        PBool b \<Rightarrow> Converted (PInt (of_bool b))
      | PInt n \<Rightarrow> Converted (PInt n)
      | PFloat (Fin x) \<Rightarrow> Converted (PInt (if 0 \<le> x then \<lfloor>x\<rfloor> else \<lceil>x\<rceil>))
      | PFloat NaN \<Rightarrow> BadValue
      | PFloat _ \<Rightarrow> Overflows
      | PStr s \<Rightarrow> or_bad (map_option PInt (read_int s))
      | _ \<Rightarrow> BadValue)"

definition to_float :: "pyval \<Rightarrow> coerced" where
  "to_float v =
     (case v of
        PBool b \<Rightarrow> Converted (PFloat (Fin (of_bool b)))
      | PInt n \<Rightarrow> if float_edge \<le> \<bar>of_int n\<bar> then Overflows else Converted (PFloat (Fin (of_int n)))
      | PFloat f \<Rightarrow> Converted (PFloat f)
      | PStr s \<Rightarrow> or_bad (map_option PFloat (read_float s))
      | _ \<Rightarrow> BadValue)"

definition int_text :: "int \<Rightarrow> string" where
  "int_text n = (if n < 0 then CHR ''-'' # decimal (nat (- n)) else decimal (nat n))"

text \<open>\<open>str(v)\<close>; \<open>show\<close> is the text of floats, lists and dictionaries.\<close>

definition py_str :: "(pyval \<Rightarrow> string) \<Rightarrow> pyval \<Rightarrow> string" where
  "py_str shown v =
     (case v of
        PStr s \<Rightarrow> s
      | PNone \<Rightarrow> ''None''
      | PBool b \<Rightarrow> if b then ''True'' else ''False''
      | PInt n \<Rightarrow> int_text n
      | _ \<Rightarrow> shown v)"

definition coerce_value :: "(pyval \<Rightarrow> string) \<Rightarrow> pyval \<Rightarrow> pyval \<Rightarrow> coerced" where
  "coerce_value shown v template =
     (case template of
        PBool _ \<Rightarrow>
          Converted (PBool (case v of
            PStr s \<Rightarrow> py_lower (strip s) \<in> set [''1'', ''true'', ''yes'', ''on'']
          | _ \<Rightarrow> truthy v))
      | PInt _ \<Rightarrow> to_int v
      | PFloat _ \<Rightarrow> to_float v
      | _ \<Rightarrow> Converted (PStr (py_str shown v)))"

section \<open>Flat YAML\<close>

text \<open>The value of a scalar, and one line of the file, given the entries so far.\<close>

definition flat_value :: "string \<Rightarrow> pyval" where
  "flat_value v =
     (if 2 \<le> length v \<and> hd v \<in> set [CHR 0x22, CHR 0x27] \<and> last v = hd v then PStr (butlast (tl v))
      else let low = py_lower v
        in if low \<in> set [''true'', ''false''] then PBool (low = ''true'')
           else if low \<in> set [''null'', ''~'', []] then PStr []
           else case read_int v of Some n \<Rightarrow> PInt n
             | None \<Rightarrow> (case read_float v of Some f \<Rightarrow> PFloat f | None \<Rightarrow> PStr v))"

definition flat_entry :: "string \<Rightarrow> (string \<times> pyval) option" where
  "flat_entry raw =
     (case partition_at CHR '':'' (strip (before CHR ''#'' raw)) of
        (_, None) \<Rightarrow> None
      | (key, Some v) \<Rightarrow> if strip key = [] then None else Some (strip key, flat_value (strip v)))"

definition flat_line :: "pydict \<Rightarrow> string \<Rightarrow> pydict" where
  "flat_line out raw =
     (case flat_entry raw of None \<Rightarrow> out | Some (key, v) \<Rightarrow> AList.update key v out)"

definition parse_flat_yaml :: "string \<Rightarrow> pydict" where
  "parse_flat_yaml txt = foldl flat_line [] (split_lines txt)"

section \<open>load\_config\<close>

text \<open>
  What opening and reading the file gave: no path or no such file, an \<open>OSError\<close>, bytes that
  are not UTF-8, or the text.
\<close>

datatype config_source = NoConfigFile | CannotRead | NotUtf8 | ConfigText string

text \<open>\<open>yaml.safe_load\<close>, or \<open>None\<close> where PyYAML is not installed.\<close>

datatype yaml_result = YamlError | YamlDoc pyval

datatype config_exn = UnicodeDecodeError | OverflowError

definition parse_config :: "(string \<Rightarrow> yaml_result) option \<Rightarrow> string \<Rightarrow> pydict option" where
  "parse_config yaml txt =
     (case yaml of
        None \<Rightarrow> Some (parse_flat_yaml txt)
      | Some load \<Rightarrow>
          (case load txt of
             YamlError \<Rightarrow> None
           | YamlDoc v \<Rightarrow> if \<not> truthy v then Some []
               else (case v of PDict d \<Rightarrow> Some d | _ \<Rightarrow> None)))"

text \<open>One key: an absent or null entry and a bad value keep the default.\<close>

definition config_entry :: "(pyval \<Rightarrow> string) \<Rightarrow> pydict \<Rightarrow> string \<times> pyval \<Rightarrow> pyval option" where
  "config_entry shown loaded kd =
     (case dict_get loaded (fst kd) of
        PNone \<Rightarrow> Some (snd kd)
      | v \<Rightarrow> (case coerce_value shown v (snd kd) of
               Converted x \<Rightarrow> Some x
             | BadValue \<Rightarrow> Some (snd kd)
             | Overflows \<Rightarrow> None))"

fun config_entries :: "(pyval \<Rightarrow> string) \<Rightarrow> pydict \<Rightarrow> pydict \<Rightarrow> pydict option" where
  "config_entries shown loaded [] = Some []"
| "config_entries shown loaded (kd # rest) =
     (case config_entry shown loaded kd of
        None \<Rightarrow> None
      | Some x \<Rightarrow> map_option (Cons (fst kd, x)) (config_entries shown loaded rest))"

definition load_config ::
  "(pyval \<Rightarrow> string) \<Rightarrow> (string \<Rightarrow> yaml_result) option \<Rightarrow> config_source \<Rightarrow> config_exn + pydict" where
  "load_config shown yaml source =
     (case source of
        NoConfigFile \<Rightarrow> Inr default_config
      | CannotRead \<Rightarrow> Inr default_config
      | NotUtf8 \<Rightarrow> Inl UnicodeDecodeError
      | ConfigText txt \<Rightarrow>
          (case parse_config yaml txt of
             None \<Rightarrow> Inr default_config
           | Some loaded \<Rightarrow>
               (case config_entries shown loaded default_config of
                  None \<Rightarrow> Inl OverflowError
                | Some cfg \<Rightarrow> Inr cfg)))"

section \<open>set\_config\_value\<close>

text \<open>\<open>^\s*key\s*:\<close> on one line, for a key that does not begin with white space.\<close>

definition sets_key :: "string \<Rightarrow> string \<Rightarrow> bool" where
  "sets_key key line =
     (starts_with (lstrip line) key \<and>
      take 1 (lstrip (drop (length key) (lstrip line))) = '':'')"

definition escaped :: "string \<Rightarrow> string" where
  "escaped v = concat (map (\<lambda>c. if c \<in> set [CHR 0x5C, CHR 0x22] then [CHR 0x5C, c] else [c]) v)"

definition setting_line :: "string \<Rightarrow> string \<Rightarrow> string" where
  "setting_line key v = key @ '': '' @ [CHR 0x22] @ escaped v @ [CHR 0x22]"

fun replace_line :: "string \<Rightarrow> string \<Rightarrow> string list \<Rightarrow> string list" where
  "replace_line key new [] = [new]"
| "replace_line key new (l # ls) = (if sets_key key l then new # ls else l # replace_line key new ls)"

text \<open>The text of the file before (\<open>None\<close>: there is none) and after.\<close>

definition set_config_value :: "string \<Rightarrow> string \<Rightarrow> string option \<Rightarrow> string" where
  "set_config_value key v txt =
     join_with [CHR 0x0A] (replace_line key (setting_line key v)
       (case txt of None \<Rightarrow> [] | Some t \<Rightarrow> split_lines t)) @ [CHR 0x0A]"

section \<open>Loading\<close>

text \<open>The two values have the same Python type.\<close>

fun same_kind :: "pyval \<Rightarrow> pyval \<Rightarrow> bool" where
  "same_kind (PBool _) (PBool _) = True"
| "same_kind (PInt _) (PInt _) = True"
| "same_kind (PFloat _) (PFloat _) = True"
| "same_kind (PStr _) (PStr _) = True"
| "same_kind _ _ = False"

definition scalar :: "pyval \<Rightarrow> bool" where "scalar v = same_kind v v"

lemma scalar_defaults: "list_all (\<lambda>kd. scalar (snd kd)) default_config"
  by (simp add: default_config_def scalar_def)

lemma coerce_same_kind:
  assumes "scalar d" "coerce_value shown v d = Converted x"
  shows "same_kind x d"
  using assms
  by (cases d) (auto simp: coerce_value_def to_int_def to_float_def or_bad_def scalar_def
      split: pyval.splits pyfloat.splits option.splits if_splits)

lemma config_entry_same_kind:
  "scalar (snd kd) \<Longrightarrow> config_entry shown loaded kd = Some x \<Longrightarrow> same_kind x (snd kd)"
  by (auto simp: config_entry_def scalar_def [symmetric] intro: coerce_same_kind
      split: pyval.splits coerced.splits)

lemma config_entry_None:
  "config_entry shown loaded kd = None \<longleftrightarrow> coerce_value shown (dict_get loaded (fst kd)) (snd kd) = Overflows"
  by (cases "snd kd") (auto simp: config_entry_def coerce_value_def to_int_def to_float_def
      split: pyval.splits coerced.splits)

lemma config_entries_Some:
  "config_entries shown loaded ds = Some cfg \<longleftrightarrow>
   list_all2 (\<lambda>kv kd. fst kv = fst kd \<and> config_entry shown loaded kd = Some (snd kv)) cfg ds"
  by (induction ds arbitrary: cfg) (auto simp: list_all2_Cons2 split: option.splits)

lemma config_entries_None:
  "config_entries shown loaded ds = None \<longleftrightarrow> (\<exists>kd\<in>set ds. config_entry shown loaded kd = None)"
  by (induction ds) (auto split: option.splits)

lemma load_config_cases:
  "load_config shown yaml source =
     (case (case source of ConfigText txt \<Rightarrow> parse_config yaml txt | _ \<Rightarrow> None) of
        None \<Rightarrow> if source = NotUtf8 then Inl UnicodeDecodeError else Inr default_config
      | Some loaded \<Rightarrow> (case config_entries shown loaded default_config of
                        None \<Rightarrow> Inl OverflowError | Some cfg \<Rightarrow> Inr cfg))"
  by (simp add: load_config_def split: config_source.split)

text \<open>Every entry is the loaded value where it converts and the default where not.\<close>

lemma config_layers:
  assumes "load_config shown yaml (ConfigText txt) = Inr cfg" "parse_config yaml txt = Some loaded"
  shows "list_all2 (\<lambda>kv kd. fst kv = fst kd \<and> config_entry shown loaded kd = Some (snd kv)) cfg default_config"
  using assms by (simp add: load_config_cases config_entries_Some [symmetric] split: option.splits)

text \<open>
  C18: Whatever the configuration file holds, the agent gets every setting, in the order of
  the defaults and each of the type of its default, except in two cases in which loading
  raises: bytes that are not UTF-8, and a number that its type cannot hold.
\<close>

theorem config_well_typed:
  "case load_config shown yaml source of
     Inr cfg \<Rightarrow> list_all2 (\<lambda>kv kd. fst kv = fst kd \<and> same_kind (snd kv) (snd kd)) cfg default_config
   | Inl UnicodeDecodeError \<Rightarrow> source = NotUtf8
   | Inl OverflowError \<Rightarrow> \<exists>txt loaded kd. source = ConfigText txt \<and> parse_config yaml txt = Some loaded \<and>
       kd \<in> set default_config \<and> coerce_value shown (dict_get loaded (fst kd)) (snd kd) = Overflows"
proof -
  have dflt: "list_all2 (\<lambda>kv kd. fst kv = fst kd \<and> same_kind (snd kv) (snd kd)) default_config default_config"
    using scalar_defaults by (simp add: list_all2_same list_all_iff scalar_def)
  show ?thesis
  proof (cases "case source of ConfigText txt \<Rightarrow> parse_config yaml txt | _ \<Rightarrow> None")
    case None
    with dflt show ?thesis by (simp add: load_config_cases split: if_splits)
  next
    case (Some loaded)
    then obtain t where t: "source = ConfigText t" "parse_config yaml t = Some loaded"
      by (auto split: config_source.splits)
    show ?thesis
    proof (cases "config_entries shown loaded default_config")
      case None
      then have "load_config shown yaml source = Inl OverflowError"
        using t by (simp add: load_config_cases)
      moreover obtain kd where "kd \<in> set default_config"
          "coerce_value shown (dict_get loaded (fst kd)) (snd kd) = Overflows"
        using None by (auto simp only: config_entries_None config_entry_None)
      ultimately show ?thesis using t by (cases kd) auto
    next
      case (Some cfg)
      then have "list_all2 (\<lambda>kv kd. fst kv = fst kd \<and> config_entry shown loaded kd = Some (snd kv)) cfg default_config"
        by (simp only: config_entries_Some)
      then have "list_all2 (\<lambda>kv kd. fst kv = fst kd \<and> same_kind (snd kv) (snd kd)) cfg default_config"
        by (rule list.rel_mono_strong)
          (use scalar_defaults in \<open>auto simp: list_all_iff dest: config_entry_same_kind [rotated]\<close>)
      with t Some show ?thesis by (simp add: load_config_cases)
    qed
  qed
qed

text \<open>
  Both exceptions do occur: \<open>log_max_bytes: .inf\<close> (and \<open>inf\<close> where PyYAML is not
  installed) raises \<open>OverflowError\<close>, so the agent does not start with that file.
\<close>

lemma infinite_size_stops_agent:
  "load_config shown None (ConfigText ''log_max_bytes: inf'') = Inl OverflowError"
proof -
  have "parse_flat_yaml ''log_max_bytes: inf'' = [(''log_max_bytes'', PFloat Inf)]"
    by code_simp
  then show ?thesis
    by (simp add: load_config_def parse_config_def default_config_def config_entry_def dict_get_def
        coerce_value_def to_int_def)
qed

text \<open>
  The flat parser cuts a comment off before it looks at quotes, so a number sign inside a
  quoted value (a site key, say) shortens it and leaves the opening quote in.
\<close>

lemma quoted_number_sign_is_cut:
  "parse_flat_yaml (''site_key: '' @ [CHR 0x22] @ ''ab#cd'' @ [CHR 0x22]) =
     [(''site_key'', PStr (CHR 0x22 # ''ab''))]"
  by code_simp

section \<open>Setting a value and reading it back\<close>

text \<open>Keys as the configuration uses them, and values that one quoted line can hold.\<close>

definition plain_key :: "string \<Rightarrow> bool" where
  "plain_key key \<longleftrightarrow> key \<noteq> [] \<and> list_all (\<lambda>c. \<not> is_space c \<and> c \<noteq> CHR '':'' \<and> c \<noteq> CHR ''#'') key"

definition plain_value :: "string \<Rightarrow> bool" where
  "plain_value v \<longleftrightarrow> list_all (\<lambda>c. \<not> is_line_sep c \<and> c \<notin> set [CHR 0x22, CHR 0x5C, CHR ''#'']) v"

lemma before_free: "c \<notin> set a \<Longrightarrow> before c (a @ c # b) = a"
  by (induction a) (auto simp: before_def)

lemma partition_at_free: "c \<notin> set a \<Longrightarrow> partition_at c (a @ c # b) = (a, Some b)"
  by (induction a) (auto simp: partition_at_def before_def)

lemma partition_at_Some:
  "partition_at c s = (a, Some b) \<longleftrightarrow> s = a @ c # b \<and> c \<notin> set a"
proof
  assume "partition_at c s = (a, Some b)"
  then have "a = takeWhile (\<lambda>x. x \<noteq> c) s" "\<exists>y. dropWhile (\<lambda>x. x \<noteq> c) s = y # b"
    by (auto simp: partition_at_def before_def split: list.splits)
  then show "s = a @ c # b \<and> c \<notin> set a"
    by (metis (mono_tags, lifting) dropWhile_eq_Cons_conv set_takeWhileD)
qed (simp add: partition_at_free)

lemma before_append: "c \<notin> set a \<Longrightarrow> before c (a @ b) = a @ before c b"
  by (induction a) (auto simp: before_def)

lemma spaces_free: "list_all is_space w \<Longrightarrow> CHR ''#'' \<notin> set w \<and> CHR '':'' \<notin> set w"
proof -
  have "\<not> is_space CHR ''#''" "\<not> is_space CHR '':''" by (simp_all add: is_space_def)
  then show "list_all is_space w \<Longrightarrow> CHR ''#'' \<notin> set w \<and> CHR '':'' \<notin> set w"
    by (auto simp: list_all_iff)
qed

text \<open>A line sets the key by the pattern exactly if the flat parser reads an entry of it there.\<close>

lemma sets_key_split:
  "sets_key key l \<longleftrightarrow> (\<exists>w w' r. l = w @ key @ w' @ CHR '':'' # r \<and> list_all is_space w \<and> list_all is_space w')"
  if key: "plain_key key"
proof
  assume l: "sets_key key l"
  then obtain r where r: "lstrip l = key @ r" "take 1 (lstrip r) = '':''"
    by (auto simp: sets_key_def starts_with_iff)
  then obtain r' where "lstrip r = CHR '':'' # r'" by (cases "lstrip r") auto
  with r show "\<exists>w w' r. l = w @ key @ w' @ CHR '':'' # r \<and> list_all is_space w \<and> list_all is_space w'"
    using lstrip_split [of l] lstrip_split [of r] by metis
next
  assume "\<exists>w w' r. l = w @ key @ w' @ CHR '':'' # r \<and> list_all is_space w \<and> list_all is_space w'"
  then obtain w w' r where l: "l = w @ key @ w' @ CHR '':'' # r" "list_all is_space w" "list_all is_space w'"
    by blast
  obtain c cs where k: "key = c # cs" "\<not> is_space c" using key by (cases key) (auto simp: plain_key_def)
  have "\<not> is_space CHR '':''" by (simp add: is_space_def)
  with l k have "lstrip l = key @ w' @ CHR '':'' # r" "lstrip (w' @ CHR '':'' # r) = CHR '':'' # r"
    by (simp_all add: lstrip_spaces lstrip_text)
  then show "sets_key key l" by (simp add: sets_key_def starts_with_iff)
qed

lemma plain_key_strip:
  assumes "plain_key key" "list_all is_space w"
  shows "strip (key @ w) = key"
proof -
  have "key \<noteq> []" "\<not> is_space (hd key)" "\<not> is_space (last key)"
    using assms(1) hd_in_set [of key] last_in_set [of key] by (auto simp: plain_key_def list_all_iff)
  with strip_around [of "[]" w key] assms(2) show ?thesis by simp
qed

lemma flat_entry_key:
  assumes key: "plain_key key"
  shows "(\<exists>v. flat_entry l = Some (key, v)) \<longleftrightarrow> sets_key key l"
proof
  assume "sets_key key l"
  with key obtain w w' r where l: "l = w @ key @ w' @ CHR '':'' # r" "list_all is_space w" "list_all is_space w'"
    by (auto simp: sets_key_split)
  have free: "CHR ''#'' \<notin> set (w @ key @ w' @ '':'')" "CHR '':'' \<notin> set (key @ w')"
    using key l(2,3) spaces_free by (auto simp: plain_key_def list_all_iff)
  have "before CHR ''#'' l = w @ key @ w' @ CHR '':'' # before CHR ''#'' r"
    using before_append [OF free(1)] l(1) by simp
  moreover have "lstrip (w @ key @ w' @ CHR '':'' # before CHR ''#'' r) = key @ w' @ CHR '':'' # before CHR ''#'' r"
    using key l(2) by (cases key) (simp_all add: lstrip_spaces lstrip_text plain_key_def)
  moreover have "rstrip ((key @ w') @ '':'' @ before CHR ''#'' r) = (key @ w') @ '':'' @ rstrip (before CHR ''#'' r)"
    by (rule rstrip_text) (simp add: is_space_def)
  ultimately have "strip (before CHR ''#'' l) = (key @ w') @ CHR '':'' # rstrip (before CHR ''#'' r)"
    by (simp add: strip_def)
  then show "\<exists>v. flat_entry l = Some (key, v)"
    using key l(3) partition_at_free [OF free(2)] plain_key_strip by (simp add: flat_entry_def plain_key_def)
next
  assume "\<exists>v. flat_entry l = Some (key, v)"
  then obtain a b where s: "strip (before CHR ''#'' l) = a @ CHR '':'' # b" "strip a = key"
    by (auto simp: flat_entry_def partition_at_Some split: prod.splits option.splits if_splits)
  obtain w1 w2 where l1: "before CHR ''#'' l = w1 @ (a @ CHR '':'' # b) @ w2" "list_all is_space w1"
    using strip_split [of "before CHR ''#'' l"] s(1) by metis
  obtain w3 w4 where a: "a = w3 @ key @ w4" "list_all is_space w3" "list_all is_space w4"
    using strip_split [of a] s(2) by metis
  obtain t where "l = before CHR ''#'' l @ t" by (metis before_def takeWhile_dropWhile_id)
  with l1 a have "l = (w1 @ w3) @ key @ w4 @ CHR '':'' # (b @ w2 @ t)" "list_all is_space (w1 @ w3)" by simp_all
  with a(3) show "sets_key key l" using key sets_key_split by blast
qed

text \<open>Later lines win: the entries of a list of lines are those of its parts, in order.\<close>

definition config_lines_of :: "string list \<Rightarrow> string \<Rightarrow> pyval option" where
  "config_lines_of ls = map_of (foldl flat_line [] ls)"

definition entry_map :: "string \<Rightarrow> string \<Rightarrow> pyval option" where
  "entry_map l = (case flat_entry l of None \<Rightarrow> Map.empty | Some (k, v) \<Rightarrow> [k \<mapsto> v])"

lemma foldl_flat_line: "map_of (foldl flat_line out ls) = map_of out ++ config_lines_of ls"
proof (induction ls rule: rev_induct)
  case (snoc l ls)
  then show ?case
    by (auto simp: config_lines_of_def flat_line_def update_conv' split: option.split)
qed (simp add: config_lines_of_def)

lemma config_lines_of_Nil [simp]: "config_lines_of [] = Map.empty"
  by (simp add: config_lines_of_def)

lemma config_lines_of_append: "config_lines_of (ls @ ls') = config_lines_of ls ++ config_lines_of ls'"
  using foldl_flat_line [of "foldl flat_line [] ls" ls'] by (simp add: config_lines_of_def)

lemma config_lines_of_one: "config_lines_of [l] = entry_map l"
  by (auto simp: config_lines_of_def entry_map_def flat_line_def split: option.split)

lemma config_lines_of_Cons: "config_lines_of (l # ls) = entry_map l ++ config_lines_of ls"
  using config_lines_of_append [of "[l]" ls] by (simp add: config_lines_of_one)

lemma entries_without_key:
  assumes "plain_key key" "\<forall>l\<in>set ls. \<not> sets_key key l"
  shows "config_lines_of ls key = None"
  using assms(2)
proof (induction ls)
  case (Cons l ls)
  then have "entry_map l key = None"
    using flat_entry_key [OF assms(1), of l] by (auto simp: entry_map_def split: option.split)
  with Cons show ?case by (simp add: config_lines_of_Cons map_add_def)
qed simp

text \<open>The line that is written, as the parser reads it.\<close>

lemma strip_quoted: "strip ([CHR 0x22] @ v @ [CHR 0x22]) = [CHR 0x22] @ v @ [CHR 0x22]"
  using strip_around [of "[]" "[]" "[CHR 0x22] @ v @ [CHR 0x22]"] by (simp add: is_space_def)

lemma entry_map_setting:
  assumes "plain_key key" "plain_value v"
  shows "entry_map (setting_line key v) = [key \<mapsto> PStr v]"
proof -
  let ?q = "[CHR 0x22] @ v @ [CHR 0x22]"
  have "concat (map (\<lambda>c. if c \<in> set [CHR 0x5C, CHR 0x22] then [CHR 0x5C, c] else [c]) v) = v"
    using assms(2) by (induction v) (auto simp: plain_value_def)
  then have line: "setting_line key v = key @ '': '' @ ?q"
    by (simp add: setting_line_def escaped_def)
  have free: "CHR ''#'' \<notin> set (key @ '': '' @ ?q)" "CHR '':'' \<notin> set key"
    using assms by (auto simp: plain_key_def plain_value_def list_all_iff)
  have "before CHR ''#'' (key @ '': '' @ ?q) = key @ '': '' @ ?q"
    using before_append [OF free(1), of "[]"] by (simp add: before_def)
  moreover have "strip ([] @ (key @ '': '' @ ?q) @ []) = key @ '': '' @ ?q"
    using assms(1) by (intro strip_around) (cases key; simp add: plain_key_def is_space_def)+
  ultimately have "flat_entry (setting_line key v) = Some (key, flat_value (strip ('' '' @ ?q)))"
    using assms(1) line partition_at_free [OF free(2), of "'' '' @ ?q"] plain_key_strip [of key "[]"]
    by (simp add: flat_entry_def plain_key_def)
  moreover have "strip ('' '' @ ?q) = ?q"
    using strip_quoted lstrip_spaces [of "'' ''" ?q] by (simp add: strip_def is_space_def)
  ultimately show ?thesis by (simp add: entry_map_def flat_value_def butlast_append)
qed

lemma replaced_entries:
  assumes "plain_key key" "plain_value v" "length (filter (sets_key key) ls) \<le> 1"
  shows "config_lines_of (replace_line key (setting_line key v) ls) = (config_lines_of ls)(key \<mapsto> PStr v)"
  using assms(3)
proof (induction ls)
  case Nil
  then show ?case using entry_map_setting [OF assms(1,2)] by (simp add: config_lines_of_one)
next
  case (Cons l ls)
  show ?case
  proof (cases "sets_key key l")
    case True
    with Cons.prems have "\<forall>l\<in>set ls. \<not> sets_key key l" by (auto simp: filter_empty_conv)
    then have none: "config_lines_of ls key = None" by (rule entries_without_key [OF assms(1)])
    obtain x where "flat_entry l = Some (key, x)" using True flat_entry_key [OF assms(1)] by blast
    then have "entry_map l = [key \<mapsto> x]" by (simp add: entry_map_def)
    with none True entry_map_setting [OF assms(1,2)] show ?thesis
      by (auto simp: config_lines_of_Cons map_add_def fun_eq_iff split: option.split)
  next
    case False
    with Cons show ?thesis by (auto simp: config_lines_of_Cons map_add_def fun_eq_iff split: option.split)
  qed
qed

lemma replace_line_free:
  assumes "plain_key key" "plain_value v" "\<forall>l\<in>set ls. list_all (\<lambda>c. \<not> is_line_sep c) l"
  shows "\<forall>l\<in>set (replace_line key (setting_line key v) ls). list_all (\<lambda>c. \<not> is_line_sep c) l"
proof -
  have new: "list_all (\<lambda>c. \<not> is_line_sep c) (setting_line key v)"
    using assms(1,2)
    by (auto simp: setting_line_def escaped_def plain_key_def plain_value_def list_all_iff is_line_sep_def
        line_seps_def is_space_def)
  show ?thesis
    using assms(3) by (induction ls) (auto simp: new)
qed



text \<open>With the key twice in the file the new value is written and not used.\<close>

lemma second_line_wins:
  "let t = ''mes_enabled: true'' @ [CHR 0x0A] @ ''mes_enabled: false''
   in map_of (parse_flat_yaml (set_config_value ''mes_enabled'' ''on'' (Some t))) ''mes_enabled'' = Some (PBool False)"
  by code_simp

section \<open>The rate limit of the log\<close>

text \<open>
  A message is its logger, level and text; per message the time it was last let through
  and how many were held back since.
\<close>

type_synonym log_key = "string \<times> int \<times> string"

record rate_limit =
  rl_every :: rat
  rl_seen :: "(log_key \<times> rat \<times> nat) list"

definition rate_limit_init :: "rat \<Rightarrow> rate_limit" where
  "rate_limit_init every_s = \<lparr>rl_every = every_s, rl_seen = []\<rparr>"

text \<open>Whether the message passes, and the number of held back messages it then reports.\<close>

definition rate_filter :: "rat \<Rightarrow> log_key \<Rightarrow> rate_limit \<Rightarrow> nat option \<times> rate_limit" where
  "rate_filter now key r =
     (let seen = map_of (rl_seen r) key
      in case (case seen of None \<Rightarrow> None | Some (t, n) \<Rightarrow> if now - t < rl_every r then Some (t, n) else None) of
           Some (t, n) \<Rightarrow> (None, r\<lparr>rl_seen := AList.update key (t, n + 1) (rl_seen r)\<rparr>)
         | None \<Rightarrow>
             (Some (case seen of None \<Rightarrow> 0 | Some (t, n) \<Rightarrow> n),
              r\<lparr>rl_seen := AList.update key (now, 0)
                  (if 512 < length (rl_seen r) then [] else rl_seen r)\<rparr>))"

text \<open>
  A message that passed is held back for the period, whatever other messages do, as long as
  the table is not emptied (which happens at the first message that passes when it holds
  more than 512).
\<close>

definition table_kept :: "rate_limit \<Rightarrow> bool" where
  "table_kept r \<longleftrightarrow> length (rl_seen r) \<le> 512"

definition rate_step :: "rate_limit \<Rightarrow> rat \<times> log_key \<Rightarrow> rate_limit" where
  "rate_step r e = snd (rate_filter (fst e) (snd e) r)"

lemma held_entry_step:
  assumes "map_of (rl_seen r) key = Some (t, n)" "fst e - t < rl_every r" "table_kept r"
  shows "\<exists>m \<ge> n. map_of (rl_seen (rate_step r e)) key = Some (t, m)"
    and "rl_every (rate_step r e) = rl_every r"
  using assms
  by (auto simp: rate_step_def rate_filter_def Let_def update_conv' table_kept_def split: option.split prod.split)

lemma passed_message_is_held_back:
  assumes "map_of (rl_seen r) key = Some (t, n)" "t \<le> now" "now - t < rl_every r"
    and "\<forall>i \<le> length es. table_kept (foldl rate_step r (take i es))" "\<forall>e\<in>set es. fst e \<le> now"
  shows "fst (rate_filter now key (foldl rate_step r es)) = None"
proof -
  have "(\<exists>m. map_of (rl_seen (foldl rate_step r es)) key = Some (t, m)) \<and>
      rl_every (foldl rate_step r es) = rl_every r"
    using assms(4,5)
  proof (induction es rule: rev_induct)
    case Nil
    then show ?case using assms(1) by simp
  next
    case (snoc e es)
    let ?r = "foldl rate_step r es"
    have "\<forall>i \<le> length es. table_kept (foldl rate_step r (take i es))"
    proof (intro allI impI)
      fix i assume "i \<le> length es"
      then show "table_kept (foldl rate_step r (take i es))" using snoc.prems(1) [rule_format, of i] by simp
    qed
    with snoc obtain m where m: "map_of (rl_seen ?r) key = Some (t, m)" "rl_every ?r = rl_every r" by auto
    have "table_kept ?r" using snoc.prems(1) [rule_format, of "length es"] by simp
    then show ?case
      using held_entry_step [OF m(1), of e] m(2) assms(3) snoc.prems(2) by force
  qed
  then show ?thesis using assms(3) by (auto simp: rate_filter_def Let_def)
qed

end
