(* ===== verification/Status_Packet.thy ===== *)
theory Status_Packet
  imports Agent_Config Cycle_Calculator Program_Scan Packet_Gate "HOL-Library.Monad_Syntax"
begin

text \<open>
  The status packet: the collectors of \<open>status.py\<close>, which turn the polled
  \<open>linuxcnc.stat\<close> into dictionaries, and the payload the main loop builds from them, the
  cycle snapshot and the program scan.

  \<open>linuxcnc.stat\<close> is a map from attribute names to values (\<open>None\<close>: reading it raises);
  tuples are lists. A collector is \<open>None\<close> where the code raises, as it does when an
  attribute has a type that \<open>round\<close>, \<open>len\<close> or an index does not take.
\<close>

type_synonym stat = "string \<Rightarrow> pyval option"

definition safe_get :: "stat \<Rightarrow> string \<Rightarrow> pyval \<Rightarrow> pyval" where
  "safe_get st attr d = or_else (st attr) d"

section \<open>Arithmetic on values\<close>

definition as_int :: "pyval \<Rightarrow> int option" where
  "as_int v = (case v of PBool b \<Rightarrow> Some (of_bool b) | PInt n \<Rightarrow> Some n | _ \<Rightarrow> None)"

definition as_float :: "pyval \<Rightarrow> pyfloat option" where
  "as_float v = (case v of PFloat f \<Rightarrow> Some f | _ \<Rightarrow> map_option (\<lambda>n. Fin (of_int n)) (as_int v))"

fun float_neg :: "pyfloat \<Rightarrow> pyfloat" where
  "float_neg (Fin x) = Fin (- x)"
| "float_neg Inf = NegInf"
| "float_neg NegInf = Inf"
| "float_neg NaN = NaN"

fun float_add :: "pyfloat \<Rightarrow> pyfloat \<Rightarrow> pyfloat" where
  "float_add (Fin x) (Fin y) = Fin (x + y)"
| "float_add NaN _ = NaN"
| "float_add _ NaN = NaN"
| "float_add Inf NegInf = NaN"
| "float_add NegInf Inf = NaN"
| "float_add (Fin x) g = g"
| "float_add f g = f"

text \<open>\<open>a + b\<close> and \<open>a - b\<close> of numbers.\<close>

definition num_add :: "pyval \<Rightarrow> pyval \<Rightarrow> pyval option" where
  "num_add a b =
     (case (as_int a, as_int b) of
        (Some m, Some n) \<Rightarrow> Some (PInt (m + n))
      | _ \<Rightarrow> do { x \<leftarrow> as_float a; y \<leftarrow> as_float b; Some (PFloat (float_add x y)) })"

definition num_sub :: "pyval \<Rightarrow> pyval \<Rightarrow> pyval option" where
  "num_sub a b =
     (case (as_int a, as_int b) of
        (Some m, Some n) \<Rightarrow> Some (PInt (m - n))
      | _ \<Rightarrow> do { x \<leftarrow> as_float a; y \<leftarrow> as_float b; Some (PFloat (float_add x (float_neg y))) })"

text \<open>\<open>round(v, n)\<close>.\<close>

definition num_round :: "nat \<Rightarrow> pyval \<Rightarrow> pyval option" where
  "num_round n v =
     (case v of
        PFloat (Fin x) \<Rightarrow> Some (PFloat (Fin (py_round n x)))
      | PFloat f \<Rightarrow> Some (PFloat f)
      | _ \<Rightarrow> map_option PInt (as_int v))"

text \<open>\<open>int(v)\<close>, a tuple of known type, and \<open>list(v)\<close>.\<close>

definition int_val :: "pyval \<Rightarrow> int option" where
  "int_val v = (case to_int v of Converted (PInt n) \<Rightarrow> Some n | _ \<Rightarrow> None)"

definition items :: "pyval \<Rightarrow> pyval list option" where
  "items v = (case v of PList xs \<Rightarrow> Some xs | _ \<Rightarrow> None)"

definition list_val :: "pyval \<Rightarrow> pyval option" where
  "list_val v =
     (case v of
        PList xs \<Rightarrow> Some v
      | PStr s \<Rightarrow> Some (PList (map (\<lambda>c. PStr [c]) s))
      | PDict d \<Rightarrow> Some (PList (map (PStr \<circ> fst) d))
      | _ \<Rightarrow> None)"

text \<open>\<open>xs[i] if i < len(xs) else d\<close>.\<close>

definition item_or :: "pyval list \<Rightarrow> nat \<Rightarrow> pyval \<Rightarrow> pyval" where
  "item_or xs i d = (if i < length xs then xs ! i else d)"

text \<open>\<open>d.get(k, default)\<close> of a dictionary; anything else raises.\<close>

definition get_or :: "pyval \<Rightarrow> string \<Rightarrow> pyval \<Rightarrow> pyval option" where
  "get_or v k d = (case v of PDict m \<Rightarrow> Some (or_else (map_of m k) d) | _ \<Rightarrow> None)"

definition zero :: pyval where "zero = PFloat (Fin 0)"

section \<open>Collectors\<close>

definition wcs_names :: "(int \<times> string) list" where
  "wcs_names =
     [(1, ''G54''), (2, ''G55''), (3, ''G56''), (4, ''G57''), (5, ''G58''), (6, ''G59''),
      (7, ''G59.1''), (8, ''G59.2''), (9, ''G59.3'')]"

definition wcs_name :: "pyval \<Rightarrow> pyval option" where
  "wcs_name g5x_index =
     (case to_int g5x_index of
        Converted (PInt n) \<Rightarrow> Some (PStr (or_else (map_of wcs_names n) ''G54''))
      | Overflows \<Rightarrow> None
      | _ \<Rightarrow> Some (PStr ''G54''))"

definition axis_letters :: "string list" where
  "axis_letters = [''x'', ''y'', ''z'', ''a'', ''b'', ''c'', ''u'', ''v'', ''w'']"

definition axis_offset :: "stat \<Rightarrow> nat \<Rightarrow> pyval option" where
  "axis_offset st i = do {
     g5x \<leftarrow> items (val_or (safe_get st ''g5x_offset'' (PList [])) (PList []));
     g92 \<leftarrow> items (val_or (safe_get st ''g92_offset'' (PList [])) (PList []));
     tool \<leftarrow> items (val_or (safe_get st ''tool_offset'' (PList [])) (PList []));
     a \<leftarrow> num_add (item_or g5x i zero) (item_or g92 i zero);
     num_add a (item_or tool i zero) }"

definition axis_positions :: "stat \<Rightarrow> pyval list option" where
  "axis_positions st =
     items (val_or (val_or (safe_get st ''actual_position'' PNone) (safe_get st ''position'' PNone)) (PList []))"

definition axis_limit :: "pyval \<Rightarrow> string \<Rightarrow> string \<Rightarrow> pyval option" where
  "axis_limit a camel snake = do { d \<leftarrow> get_or a snake zero; v \<leftarrow> get_or a camel d; num_round 4 v }"

definition axis_entry :: "stat \<Rightarrow> nat \<Rightarrow> pyval \<Rightarrow> pyval option" where
  "axis_entry st i a = do {
     positions \<leftarrow> axis_positions st;
     let pos = item_or positions i zero;
     p \<leftarrow> num_round 6 pos;
     off \<leftarrow> axis_offset st i;
     d \<leftarrow> num_sub pos off;
     work \<leftarrow> num_round 6 d;
     vel \<leftarrow> Option.bind (get_or a ''velocity'' zero) (num_round 6);
     lo \<leftarrow> axis_limit a ''minPositionLimit'' ''min_position_limit'';
     hi \<leftarrow> axis_limit a ''maxPositionLimit'' ''max_position_limit'';
     Some (PDict [(''pos'', p), (''work'', work), (''vel'', vel), (''min_pos_limit'', lo),
                  (''max_pos_limit'', hi)]) }"

text \<open>One axis: absent from the mask or the tuple, or its entry.\<close>

definition collect_axis :: "stat \<Rightarrow> nat \<Rightarrow> string \<Rightarrow> pydict option" where
  "collect_axis st i name = do {
     axis_mask \<leftarrow> as_int (safe_get st ''axis_mask'' (PInt 0));
     if \<not> bit axis_mask i then Some []
     else do {
       raw \<leftarrow> items (safe_get st ''axis'' (PList []));
       if i < length raw then map_option (\<lambda>e. [(name, e)]) (axis_entry st i (raw ! i)) else Some [] } }"

definition collect_axis_data :: "stat \<Rightarrow> pyval option" where
  "collect_axis_data st =
     map_option (PDict \<circ> concat) (those (map (\<lambda>(i, name). collect_axis st i name) (enumerate 0 axis_letters)))"

definition joint_entry :: "nat \<Rightarrow> pyval \<Rightarrow> pyval option" where
  "joint_entry i j = do {
     pos \<leftarrow> Option.bind (get_or j ''input'' zero) (num_round 6);
     vel \<leftarrow> Option.bind (get_or j ''velocity'' zero) (num_round 6);
     homed \<leftarrow> get_or j ''homed'' (PBool False);
     fault \<leftarrow> get_or j ''fault'' (PBool False);
     ferror \<leftarrow> Option.bind (get_or j ''ferror_current'' zero) (num_round 6);
     lo \<leftarrow> get_or j ''min_hard_limit'' (PBool False);
     hi \<leftarrow> get_or j ''max_hard_limit'' (PBool False);
     Some (PDict [(''id'', PInt (int i)), (''pos'', pos), (''vel'', vel), (''homed'', PBool (truthy homed)),
                  (''fault'', PBool (truthy fault)), (''ferror'', ferror),
                  (''hard_limit'', PBool (truthy lo \<or> truthy hi))]) }"

definition spindle_entry :: "nat \<Rightarrow> pyval \<Rightarrow> pyval option" where
  "spindle_entry i s = do {
     speed \<leftarrow> Option.bind (get_or s ''speed'' zero) (num_round 2);
     direction \<leftarrow> get_or s ''direction'' (PInt 0);
     override \<leftarrow> Option.bind (get_or s ''override'' (PFloat (Fin 1))) (num_round 4);
     at_speed \<leftarrow> get_or s ''at_speed'' (PBool False);
     enabled \<leftarrow> get_or s ''enabled'' (PBool False);
     Some (PDict [(''id'', PInt (int i)), (''speed'', speed), (''direction'', direction),
                  (''override'', override), (''at_speed'', PBool (truthy at_speed)),
                  (''enabled'', PBool (truthy enabled))]) }"

text \<open>The first \<open>n\<close> of the tuple, \<open>n\<close> from another attribute; no tuple is read when \<open>n\<close> is 0.\<close>

definition counted_entries :: "(nat \<Rightarrow> pyval \<Rightarrow> pyval option) \<Rightarrow> pyval \<Rightarrow> pyval \<Rightarrow> pyval option" where
  "counted_entries entry number raw_items = do {
     n \<leftarrow> int_val number;
     if n \<le> 0 then Some (PList [])
     else do {
       raw \<leftarrow> items raw_items;
       map_option PList (those (map (\<lambda>(i, v). entry i v) (enumerate 0 (take (nat n) raw)))) } }"

definition collect_joint_data :: "stat \<Rightarrow> pyval option" where
  "collect_joint_data st =
     counted_entries joint_entry (safe_get st ''joints'' (PInt 0)) (safe_get st ''joint'' (PList []))"

definition collect_spindle_data :: "stat \<Rightarrow> pyval option" where
  "collect_spindle_data st =
     counted_entries spindle_entry (safe_get st ''spindles'' (PInt 1)) (safe_get st ''spindle'' (PList []))"

text \<open>\<open>os.path.basename\<close>, and the loaded program's metadata (\<open>None\<close>: \<open>os.stat\<close> raises).\<close>

definition basename :: "string \<Rightarrow> string" where
  "basename path = rev (before CHR ''/'' (rev path))"

definition file_meta :: "string \<Rightarrow> (int \<times> rat) option \<Rightarrow> string \<times> int \<times> int" where
  "file_meta file_path st =
     (if file_path = '''' then ('''', 0, 0)
      else case st of
          Some (bytes, mtime) \<Rightarrow>
            (basename file_path, bytes, if 0 \<le> mtime then \<lfloor>mtime * 1000\<rfloor> else \<lceil>mtime * 1000\<rceil>)
        | None \<Rightarrow> (basename file_path, 0, 0))"

definition collect_file_meta :: "string \<Rightarrow> (int \<times> rat) option \<Rightarrow> pydict" where
  "collect_file_meta file_path st =
     (case file_meta file_path st of
        (name, bytes, modified) \<Rightarrow>
          [(''file_name'', PStr name), (''file_size'', PInt bytes), (''file_modified_ms'', PInt modified)])"

text \<open>A field of \<open>n\<close> decimals, a field as it is, a truth value, a list.\<close>

definition rounded :: "stat \<Rightarrow> nat \<Rightarrow> string \<Rightarrow> (string \<times> pyval) option" where
  "rounded st n k = map_option (Pair k) (num_round n (safe_get st k zero))"

definition plain_field :: "stat \<Rightarrow> string \<Rightarrow> (string \<times> pyval) option" where
  "plain_field st k = Some (k, safe_get st k (PInt 0))"

definition truth_field :: "stat \<Rightarrow> string \<Rightarrow> bool \<Rightarrow> (string \<times> pyval) option" where
  "truth_field st k d = Some (k, PBool (truthy (safe_get st k (PBool d))))"

definition list_field :: "stat \<Rightarrow> string \<Rightarrow> (string \<times> pyval) option" where
  "list_field st k = map_option (Pair k) (list_val (safe_get st k (PList [])))"

definition collect_motion_data :: "stat \<Rightarrow> pydict option" where
  "collect_motion_data st = those
     [rounded st 6 ''current_vel'', rounded st 6 ''distance_to_go'', plain_field st ''motion_type'',
      plain_field st ''motion_line'', plain_field st ''current_line'', rounded st 3 ''delay_left'',
      rounded st 4 ''feedrate'', rounded st 4 ''rapidrate'']"

definition collect_machine_status :: "stat \<Rightarrow> pydict option" where
  "collect_machine_status st = those
     [plain_field st ''task_state'', plain_field st ''task_mode'', plain_field st ''interp_state'',
      plain_field st ''exec_state'', Some (''cmd_state'', safe_get st ''state'' (PInt 0)),
      Some (''cmd_serial'', safe_get st ''echo_serial_number'' (PInt 0)),
      truth_field st ''estop'' True, truth_field st ''enabled'' False, truth_field st ''paused'' False,
      plain_field st ''tool_in_spindle'', plain_field st ''g5x_index'',
      map_option (Pair ''wcs'') (wcs_name (safe_get st ''g5x_index'' (PInt 1))),
      list_field st ''g5x_offset'', list_field st ''g92_offset'', list_field st ''tool_offset'',
      list_field st ''gcodes'', list_field st ''mcodes'', list_field st ''settings'']"

section \<open>The payload\<close>

definition protocol_version :: int where "protocol_version = 1"

text \<open>What a packet is built from besides the counter and the pending messages.\<close>

record packet_source =
  ps_ts :: ms
  ps_machine_name :: string
  ps_session_id :: string
  ps_state :: string
  ps_snapshot :: cycle_snapshot
  ps_info :: program_info
  ps_stat :: stat
  ps_file :: string
  ps_file_stat :: "(int \<times> rat) option"

definition opt_val :: "('a \<Rightarrow> pyval) \<Rightarrow> 'a option \<Rightarrow> pyval" where
  "opt_val f x = (case x of None \<Rightarrow> PNone | Some a \<Rightarrow> f a)"

definition rat_val :: "rat \<Rightarrow> pyval" where "rat_val x = PFloat (Fin x)"

definition cycle_fields :: "cycle_snapshot \<Rightarrow> pydict" where
  "cycle_fields sn =
     [(''cycle_time_ms'', PInt (sn_current_cycle_ms sn)),
      (''parts_produced'', PInt (sn_parts_produced sn)),
      (''abort_count'', PInt (sn_abort_count sn)),
      (''run_from_here_count'', PInt (sn_run_from_here_count sn)),
      (''last_cycle_ms'', opt_val PInt (sn_last_completed_ms sn)),
      (''last_abort_ms'', opt_val PInt (sn_last_aborted_ms sn)),
      (''avg_cycle_ms'', opt_val rat_val (sn_average_cycle_ms sn)),
      (''total_completed_cycles'', PInt (sn_total_completed_cycles sn)),
      (''cycle_complete_signalled'', PBool (sn_cycle_complete_signalled sn)),
      (''is_run_from_here'', PBool (sn_is_run_from_here sn)),
      (''partial_parts'', PInt (sn_partial_parts sn)),
      (''partial_part_equiv'', rat_val (sn_partial_part_equiv sn)),
      (''last_partial_pct'', opt_val rat_val (sn_last_partial_pct sn)),
      (''program_progress_pct'', rat_val (sn_progress_pct sn)),
      (''part_in_progress'', PBool (sn_part_in_progress sn))]"

definition build_payload :: "packet_source \<Rightarrow> int \<Rightarrow> pyval list \<Rightarrow> pydict option" where
  "build_payload src packet_seq nml_errors = do {
     machine \<leftarrow> collect_machine_status (ps_stat src);
     motion \<leftarrow> collect_motion_data (ps_stat src);
     axis \<leftarrow> collect_axis_data (ps_stat src);
     joints \<leftarrow> collect_joint_data (ps_stat src);
     spindles \<leftarrow> collect_spindle_data (ps_stat src);
     Some
       ([(''type'', PStr ''status''), (''proto'', PInt protocol_version), (''ts'', PInt (ps_ts src)),
         (''machine_name'', PStr (ps_machine_name src)), (''session_id'', PStr (ps_session_id src)),
         (''packet_seq'', PInt packet_seq), (''cycle_state'', PStr (ps_state src))] @
        cycle_fields (ps_snapshot src) @
        [(''gcode_end_line'', PInt (pi_end_line (ps_info src))),
         (''gcode_first_exec_line'', PInt (pi_first_exec_line (ps_info src))),
         (''gcode_tail_line'', PInt (pi_tail_line (ps_info src)))] @
        machine @ motion @
        [(''axis'', axis), (''joints'', joints), (''spindles'', spindles)] @
        collect_file_meta (ps_file src) (ps_file_stat src) @
        [(''nml_errors'', PList nml_errors)]) }"

section \<open>The fields of a packet\<close>

text \<open>All fields of a status packet as it is built, in order.\<close>

definition packet_fields :: "string list" where
  "packet_fields =
     [''type'', ''proto'', ''ts'', ''machine_name'', ''session_id'', ''packet_seq'', ''cycle_state'',
      ''cycle_time_ms'', ''parts_produced'', ''abort_count'', ''run_from_here_count'', ''last_cycle_ms'',
      ''last_abort_ms'', ''avg_cycle_ms'', ''total_completed_cycles'', ''cycle_complete_signalled'',
      ''is_run_from_here'', ''partial_parts'', ''partial_part_equiv'', ''last_partial_pct'',
      ''program_progress_pct'', ''part_in_progress'', ''gcode_end_line'', ''gcode_first_exec_line'',
      ''gcode_tail_line'', ''task_state'', ''task_mode'', ''interp_state'', ''exec_state'', ''cmd_state'',
      ''cmd_serial'', ''estop'', ''enabled'', ''paused'', ''tool_in_spindle'', ''g5x_index'', ''wcs'',
      ''g5x_offset'', ''g92_offset'', ''tool_offset'', ''gcodes'', ''mcodes'', ''settings'',
      ''current_vel'', ''distance_to_go'', ''motion_type'', ''motion_line'', ''current_line'',
      ''delay_left'', ''feedrate'', ''rapidrate'', ''axis'', ''joints'', ''spindles'', ''file_name'',
      ''file_size'', ''file_modified_ms'', ''nml_errors'']"

lemma packet_fields_distinct: "distinct packet_fields"
  by code_simp

lemma those_Some: "those xs = Some ys \<longleftrightarrow> xs = map Some ys"
proof (induction xs arbitrary: ys)
  case (Cons x xs)
  then show ?case by (cases ys) (auto split: option.splits)
qed auto

lemma those_Some_Cons:
  "those (x # xs) = Some ys \<longleftrightarrow> (\<exists>y zs. x = Some y \<and> those xs = Some zs \<and> ys = y # zs)"
  by (auto split: option.splits)

lemma field_names:
  "rounded st n k = Some kv \<Longrightarrow> fst kv = k" "plain_field st k = Some kv \<Longrightarrow> fst kv = k"
  "truth_field st k d = Some kv \<Longrightarrow> fst kv = k" "list_field st k = Some kv \<Longrightarrow> fst kv = k"
  by (auto simp: rounded_def plain_field_def truth_field_def list_field_def)

lemma motion_fields:
  "collect_motion_data st = Some d \<Longrightarrow>
   map fst d = [''current_vel'', ''distance_to_go'', ''motion_type'', ''motion_line'', ''current_line'',
                ''delay_left'', ''feedrate'', ''rapidrate'']"
  unfolding collect_motion_data_def those_Some_Cons by (auto dest!: field_names)

lemma machine_fields:
  "collect_machine_status st = Some d \<Longrightarrow>
   map fst d = [''task_state'', ''task_mode'', ''interp_state'', ''exec_state'', ''cmd_state'', ''cmd_serial'',
                ''estop'', ''enabled'', ''paused'', ''tool_in_spindle'', ''g5x_index'', ''wcs'', ''g5x_offset'',
                ''g92_offset'', ''tool_offset'', ''gcodes'', ''mcodes'', ''settings'']"
  unfolding collect_machine_status_def those_Some_Cons by (auto dest!: field_names)

lemma file_fields: "map fst (collect_file_meta path st) = [''file_name'', ''file_size'', ''file_modified_ms'']"
  by (simp add: collect_file_meta_def split: prod.split)

lemma payload_fields: "build_payload src n msgs = Some p \<Longrightarrow> map fst p = packet_fields"
  by (auto simp: build_payload_def cycle_fields_def packet_fields_def motion_fields machine_fields file_fields
      split: Option.bind_splits)

lemma payload_get:
  assumes "build_payload src n msgs = Some p"
  shows "dict_get p ''packet_seq'' = PInt n" "dict_get p ''nml_errors'' = PList msgs"
proof -
  have keys: "distinct (map fst p)" using payload_fields [OF assms] packet_fields_distinct by simp
  have "(''packet_seq'', PInt n) \<in> set p" "(''nml_errors'', PList msgs) \<in> set p"
    using assms by (auto simp: build_payload_def split: Option.bind_splits)
  with keys show "dict_get p ''packet_seq'' = PInt n" "dict_get p ''nml_errors'' = PList msgs"
    by (simp_all add: dict_get_def)
qed

end
