(* ===== verification/Packet_Loop.thy ===== *)
theory Packet_Loop
  imports Status_Packet Journal Gcode_Sender
begin

text \<open>
  The packet side of one pass of the main loop of \<open>status.py\<close>: the gate, the history
  server, the NML messages, the program text, the payload, the journal and the sender, in this order and with
  every early \<open>continue\<close>.

  What the other components report (cycle snapshot, program scan, spool and link status) and
  what the outside answers in a pass is its input record. \<open>json.dumps\<close> is a parameter.
\<close>

section \<open>The NML error channel\<close>

text \<open>One \<open>poll\<close> of the channel: no message, a message, or an exception.\<close>

datatype nml_poll = NoMessage | NmlMessage int string | PollRaises

definition nml_entry :: "int \<Rightarrow> string \<Rightarrow> pyval" where
  "nml_entry kind msg = PDict [(''kind'', PInt kind), (''msg'', PStr (strip msg))]"

fun drain_nml_errors :: "nml_poll list \<Rightarrow> pyval list" where
  "drain_nml_errors (NmlMessage kind msg # polls) = nml_entry kind msg # drain_nml_errors polls"
| "drain_nml_errors _ = []"

section \<open>The history server\<close>

record history_server =
  hs_wanted :: bool
  hs_agent_id :: string
  hs_alive :: bool
  hs_last_restart :: rat

definition journal_restart_s :: rat where "journal_restart_s = 60"

text \<open>Serve a new journal under its id; restart a stopped server once a minute. \<open>ok\<close>: it starts.\<close>

definition keep_serving :: "rat \<Rightarrow> string \<Rightarrow> bool \<Rightarrow> history_server \<Rightarrow> history_server" where
  "keep_serving now agent_id ok h =
     (if hs_wanted h \<and> agent_id \<noteq> hs_agent_id h then
        h\<lparr>hs_agent_id := agent_id, hs_last_restart := now, hs_alive := ok\<rparr>
      else if hs_wanted h \<and> agent_id \<noteq> '''' \<and> \<not> hs_alive h \<and> journal_restart_s \<le> now - hs_last_restart h then
        h\<lparr>hs_last_restart := now, hs_alive := ok\<rparr>
      else h)"

section \<open>One pass\<close>

record loop_state =
  lo_gate :: packet_gate
  lo_seq :: int
  lo_nml :: "pyval list"
  lo_lags :: lags
  lo_server :: history_server
  lo_journal :: journal
  lo_gcode :: gcode_sender

record loop_input =
  li_now :: rat
  li_fault :: "fault_sig option"
  li_channel :: bool
  li_polls :: "nml_poll list"
  li_source :: packet_source
  li_machine_uuid :: "string option"
  li_spool :: "pydict option"
  li_link :: "pydict option"
  li_journal_port :: int
  li_server_ok :: bool
  li_server_alive :: bool
  li_journal :: journal_env
  li_gcode_now :: rat
  li_dumps :: "pydict \<Rightarrow> string option"

definition spool_status_off :: pydict where
  "spool_status_off = [(''pending'', PInt 0), (''bytes'', PInt 0), (''state'', PStr ''off'')]"

definition lag_dict :: "int \<times> int \<times> int \<Rightarrow> pydict" where
  "lag_dict s = (case s of (p50, p99, mx) \<Rightarrow> [(''p50'', PInt p50), (''p99'', PInt p99), (''max'', PInt mx)])"

text \<open>What is added before the journal takes the payload, and after.\<close>

definition local_fields :: "loop_input \<Rightarrow> lags \<Rightarrow> pydict" where
  "local_fields x lags =
     (case li_machine_uuid x of Some u \<Rightarrow> [(''machine_uuid'', PStr u)] | None \<Rightarrow> []) @
     (case lag_stats lags of Some s \<Rightarrow> [(''loop_lag_ms'', PDict (lag_dict s))] | None \<Rightarrow> []) @
     [(''mes_spool'', PDict (or_else (li_spool x) spool_status_off))] @
     (if li_spool x \<noteq> None then [(''features'', PList [PStr ''mes1''])] else []) @
     (case li_link x of Some d \<Rightarrow> [(''mes_link'', PDict d)] | None \<Rightarrow> [])"

definition journal_state_text :: "journal_state \<Rightarrow> string" where
  "journal_state_text s = (case s of JOk \<Rightarrow> ''ok'' | JFailing \<Rightarrow> ''failing'' | JDiskLow \<Rightarrow> ''disk_low'')"

definition history_fields :: "int \<Rightarrow> bool \<Rightarrow> journal \<Rightarrow> pydict" where
  "history_fields port alive j =
     (''journal_state'', PStr (journal_state_text (jn_state j))) #
     (if jn_agent_id j = '''' then []
      else [(''agent_id'', PStr (jn_agent_id j)), (''journal_seq'', PInt (jn_last_seq j)),
            (''journal_port'', PInt (if alive then port else 0))])"

text \<open>
  What a pass did: nothing after the gate; no packet (suppressed, or not built); a payload
  that was recorded but could not be serialised; a packet handed to the sender.
\<close>

datatype pass_result =
    NotDue
  | Suppressed
  | NotBuilt
  | NotSerialised pydict
  | Handed pydict string

definition packet_pass ::
  "(pydict \<Rightarrow> string) \<Rightarrow> loop_input \<Rightarrow> loop_state \<Rightarrow> pass_result \<times> loop_state" where
  "packet_pass row_text x w =
     (let now = li_now x; state = ps_state (li_source x)
      in case gate_tick now state (li_fault x) (lo_gate w) of
           (False, g1) \<Rightarrow> (NotDue, w\<lparr>lo_gate := g1\<rparr>)
         | (True, g1) \<Rightarrow>
             (let server = keep_serving now (jn_agent_id (lo_journal w)) (li_server_ok x)
                             ((lo_server w)\<lparr>hs_alive := li_server_alive x\<rparr>);
                  pending = lo_nml w @ (if li_channel x then drain_nml_errors (li_polls x) else []);
                  gcode = check_and_send (ps_file (li_source x))
                            (file_meta (ps_file (li_source x)) (ps_file_stat (li_source x)))
                            (li_gcode_now x) (lo_gcode w);
                  w1 = w\<lparr>lo_server := server, lo_nml := pending, lo_gcode := gcode\<rparr>
              in case gate_should_send now state (pending \<noteq> []) g1 of
                   (False, g2) \<Rightarrow> (Suppressed, w1\<lparr>lo_gate := g2\<rparr>)
                 | (True, g2) \<Rightarrow>
                     (let seq = lo_seq w + 1; w2 = w1\<lparr>lo_gate := g2, lo_seq := seq\<rparr>
                      in case build_payload (li_source x) seq pending of
                           None \<Rightarrow> (NotBuilt, w2)
                         | Some built \<Rightarrow>
                             (let payload = built @ local_fields x (lo_lags w);
                                  j = snd (journal_record row_text payload ((li_journal x)\<lparr>je_now := now\<rparr>) (lo_journal w));
                                  full = payload @ history_fields (li_journal_port x) (hs_alive server) j;
                                  w3 = w2\<lparr>lo_nml := [], lo_journal := j\<rparr>
                              in case li_dumps x full of
                                   None \<Rightarrow> (NotSerialised full, w3)
                                 | Some bytes \<Rightarrow> (Handed full bytes, w3\<lparr>lo_gate := gate_sent now state g2\<rparr>)))))"

text \<open>Samples that only count for the loop's lag, and a run of passes with their results.\<close>

definition add_lag :: "rat \<Rightarrow> rat \<Rightarrow> loop_state \<Rightarrow> loop_state" where
  "add_lag now lag_ms w = w\<lparr>lo_lags := lag_add 60 now lag_ms (lo_lags w)\<rparr>"

fun packet_run ::
  "(pydict \<Rightarrow> string) \<Rightarrow> loop_input list \<Rightarrow> loop_state \<Rightarrow> pass_result list \<times> loop_state" where
  "packet_run row_text [] w = ([], w)"
| "packet_run row_text (x # xs) w =
     (case packet_pass row_text x w of
        (r, w1) \<Rightarrow> (case packet_run row_text xs w1 of (rs, w2) \<Rightarrow> (r # rs, w2)))"

section \<open>Messages and numbers\<close>

fun payload_of :: "pass_result \<Rightarrow> pydict option" where
  "payload_of (NotSerialised p) = Some p"
| "payload_of (Handed p _) = Some p"
| "payload_of _ = None"

definition payloads :: "pass_result list \<Rightarrow> pydict list" where
  "payloads rs = List.map_filter payload_of rs"

definition messages_in :: "pydict \<Rightarrow> pyval list" where
  "messages_in p = (case dict_get p ''nml_errors'' of PList ms \<Rightarrow> ms | _ \<Rightarrow> [])"

definition number_in :: "pydict \<Rightarrow> int" where
  "number_in p = (case dict_get p ''packet_seq'' of PInt n \<Rightarrow> n | _ \<Rightarrow> 0)"

text \<open>The messages a pass takes off the channel.\<close>

definition taken :: "loop_input \<Rightarrow> loop_state \<Rightarrow> pyval list" where
  "taken x w =
     (if fst (gate_tick (li_now x) (ps_state (li_source x)) (li_fault x) (lo_gate w)) \<and> li_channel x
      then drain_nml_errors (li_polls x) else [])"

fun all_taken :: "(pydict \<Rightarrow> string) \<Rightarrow> loop_input list \<Rightarrow> loop_state \<Rightarrow> pyval list" where
  "all_taken row_text [] w = []"
| "all_taken row_text (x # xs) w = taken x w @ all_taken row_text xs (snd (packet_pass row_text x w))"

lemma dict_get_append: "k \<in> fst ` set d \<Longrightarrow> dict_get (d @ e) k = dict_get d k"
  by (auto simp: dict_get_def map_add_def map_of_eq_None_iff split: option.split)

lemma built_fields:
  assumes "build_payload src n msgs = Some p"
  shows "messages_in (p @ e) = msgs" "number_in (p @ e) = n"
proof -
  have "''packet_seq'' \<in> fst ` set p" "''nml_errors'' \<in> fst ` set p"
    using arg_cong [OF payload_fields [OF assms], of set] by (simp_all add: packet_fields_def)
  then show "messages_in (p @ e) = msgs" "number_in (p @ e) = n"
    using payload_get [OF assms] by (simp_all add: messages_in_def number_in_def dict_get_append)
qed

lemma packet_pass_step:
  assumes "packet_pass row_text x w = (r, w')"
  shows "case payload_of r of
      Some p \<Rightarrow> messages_in p = lo_nml w @ taken x w \<and> lo_nml w' = [] \<and>
                number_in p = lo_seq w + 1 \<and> lo_seq w' = lo_seq w + 1
    | None \<Rightarrow> lo_nml w' = lo_nml w @ taken x w \<and> lo_seq w \<le> lo_seq w'"
proof -
  let ?state = "ps_state (li_source x)"
  obtain due g1 where tick: "gate_tick (li_now x) ?state (li_fault x) (lo_gate w) = (due, g1)"
    by (cases "gate_tick (li_now x) ?state (li_fault x) (lo_gate w)")
  show ?thesis
  proof (cases due)
    case False
    with assms tick show ?thesis by (auto simp: packet_pass_def taken_def)
  next
    case True
    let ?pending = "lo_nml w @ taken x w"
    obtain send g2 where should: "gate_should_send (li_now x) ?state (?pending \<noteq> []) g1 = (send, g2)"
      by (cases "gate_should_send (li_now x) ?state (?pending \<noteq> []) g1")
    have taken: "lo_nml w @ (if li_channel x then drain_nml_errors (li_polls x) else []) = ?pending"
      using True tick by (simp add: taken_def)
    show ?thesis
    proof (cases send)
      case False
      with assms tick True should show ?thesis
        by (auto simp: packet_pass_def Let_def taken)
    next
      case send: True
      show ?thesis
      proof (cases "build_payload (li_source x) (lo_seq w + 1) ?pending")
        case None
        with assms tick True should send show ?thesis
          by (auto simp: packet_pass_def Let_def taken)
      next
        case (Some built)
        then show ?thesis
          using assms tick True should send built_fields [OF Some]
          by (auto simp: packet_pass_def Let_def taken append_assoc split: option.splits)
      qed
    qed
  qed
qed

lemma payloads_simps [simp]:
  "payloads [] = []"
  "payloads (r # rs) = (case payload_of r of None \<Rightarrow> payloads rs | Some p \<Rightarrow> p # payloads rs)"
  by (simp_all add: payloads_def split: option.split)

lemma packet_run_accounts:
  assumes "packet_run row_text xs w = (rs, w')"
  shows "concat (map messages_in (payloads rs)) @ lo_nml w' = lo_nml w @ all_taken row_text xs w \<and>
    sorted_wrt (<) (lo_seq w # map number_in (payloads rs)) \<and> lo_seq w \<le> lo_seq w'"
  using assms
proof (induction xs arbitrary: w rs)
  case (Cons x xs)
  obtain r w1 where pass: "packet_pass row_text x w = (r, w1)" by (cases "packet_pass row_text x w")
  obtain rs1 where run: "packet_run row_text xs w1 = (rs1, w')" and rs: "rs = r # rs1"
    using Cons.prems pass by (auto split: prod.splits)
  note IH = Cons.IH [OF run]
  note step = packet_pass_step [OF pass]
  show ?case
  proof (cases "payload_of r")
    case None
    with IH step pass rs show ?thesis by (auto intro: order.strict_trans1)
  next
    case (Some p)
    with IH step pass rs show ?thesis by (auto intro: order.strict_trans)
  qed
qed simp

text \<open>
  C16: Every message that is taken off the NML error channel (and so is taken away from the
  operator's screen) is in exactly one payload, in order, or still pending: suppression, a
  payload that cannot be built and one that cannot be serialised lose and repeat none. The
  numbers of the payloads of a session strictly increase.
\<close>

theorem messages_reported_once:
  "case packet_run row_text xs w of (rs, w') \<Rightarrow>
     concat (map messages_in (payloads rs)) @ lo_nml w' = lo_nml w @ all_taken row_text xs w \<and>
     sorted_wrt (<) (lo_seq w # map number_in (payloads rs))"
  using packet_run_accounts by (auto split: prod.split)

section \<open>The history behind the packets\<close>

text \<open>A journal without a connection does not claim to be working.\<close>

definition journal_live :: "journal \<Rightarrow> bool" where
  "journal_live j \<longleftrightarrow> 0 \<le> jn_retain_ms j \<and> (jn_conn j \<or> jn_state j \<noteq> JOk)"

lemma journal_live_fail: "journal_live j \<Longrightarrow> journal_live (journal_fail now j)"
  by (simp add: journal_live_def journal_fail_def)

lemma journal_live_open: "0 \<le> jn_retain_ms j \<Longrightarrow> journal_open env j = (ok, j') \<Longrightarrow> journal_live j' \<and> (ok \<longleftrightarrow> jn_conn j')"
  by (auto simp: journal_live_def journal_open_def journal_fail_def Let_def split: if_splits option.splits)

lemma journal_live_start: "journal_live (journal_start i days m db env)"
proof -
  have "0 \<le> \<lfloor>max 1 days * 86400000\<rfloor>" by (simp add: le_floor_iff max_def)
  then show ?thesis
    unfolding journal_start_def by (metis (no_types, lifting) journal.select_convs(2) journal_live_open prod.collapse)
qed

lemma journal_live_disk: "journal_live j \<Longrightarrow> journal_disk_ok env j = (ok, j') \<Longrightarrow> journal_live j' \<and> (\<not> ok \<longrightarrow> jn_state j' = JDiskLow)"
  by (auto simp: journal_live_def journal_disk_ok_def Let_def split: if_splits option.splits)

definition row_of :: "(pydict \<Rightarrow> string) \<Rightarrow> pydict \<Rightarrow> journal \<Rightarrow> bool" where
  "row_of dumps payload j \<longleftrightarrow> (\<exists>row\<in>set (db_entries (jn_db j)). jr_data row = dumps (compact_packet payload))"

lemma journal_live_write:
  assumes "journal_live j" "journal_write dumps payload env j = (r, j')"
    and "jn_conn j"
  shows "journal_live j'" "truthy (dict_get (compact_packet payload) ''nml_errors'') \<Longrightarrow>
    jn_state j' = JOk \<Longrightarrow> row_of dumps payload j'"
  using assms
  by (auto simp: journal_write_def journal_live_def journal_due_def journal_fail_def journal_prune_def Let_def
      row_of_def db_insert_def db_prune_def split: if_splits)

lemma journal_live_record:
  assumes "journal_live j" "journal_record dumps payload env j = (r, j')"
  shows "journal_live j'" "truthy (dict_get (compact_packet payload) ''nml_errors'') \<Longrightarrow>
    jn_state j' = JOk \<Longrightarrow> row_of dumps payload j'"
proof -
  obtain ok jd where d: "journal_disk_ok env j = (ok, jd)" by (cases "journal_disk_ok env j")
  note disk = journal_live_disk [OF assms(1) d]
  obtain oo jo where o: "journal_open env jd = (oo, jo)" by (cases "journal_open env jd")
  have opened: "journal_live jo \<and> (oo \<longleftrightarrow> jn_conn jo)"
    using journal_live_open [OF _ o] disk by (simp add: journal_live_def)
  consider (low) "\<not> ok" "j' = jd" | (now) "ok" "jn_conn jd" "journal_write dumps payload env jd = (r, j')"
    | (wait) "\<not> jn_conn jd" "j' = jd" | (fail) "\<not> oo" "j' = jo" "\<not> jn_conn jo"
    | (open_now) "oo" "journal_write dumps payload env jo = (r, j')"
    using assms(2) d o opened by (auto simp: journal_record_def split: bool.splits if_splits)
  then have "journal_live j' \<and>
      (truthy (dict_get (compact_packet payload) ''nml_errors'') \<longrightarrow> jn_state j' = JOk \<longrightarrow> row_of dumps payload j')"
  proof cases
    case now
    then show ?thesis using disk journal_live_write by blast
  next
    case open_now
    then show ?thesis using opened journal_live_write by blast
  qed (use disk opened in \<open>auto simp: journal_live_def\<close>)
  then show "journal_live j'" "truthy (dict_get (compact_packet payload) ''nml_errors'') \<Longrightarrow>
    jn_state j' = JOk \<Longrightarrow> row_of dumps payload j'" by blast+
qed

lemma pass_journal:
  assumes "packet_pass row_text x w = (r, w')"
  shows "lo_journal w' = lo_journal w \<and> payload_of r = None \<or>
    (\<exists>payload. lo_journal w' =
        snd (journal_record row_text payload ((li_journal x)\<lparr>je_now := li_now x\<rparr>) (lo_journal w)) \<and>
      (\<exists>alive. payload_of r = Some (payload @ history_fields (li_journal_port x) alive (lo_journal w'))) \<and>
      ''nml_errors'' \<in> fst ` set payload \<and> ''journal_state'' \<notin> fst ` set payload)"
proof -
  have built: "''nml_errors'' \<in> fst ` set (p @ local_fields x lags) \<and>
      ''journal_state'' \<notin> fst ` set (p @ local_fields x lags)"
    if "build_payload src n msgs = Some p" for src n msgs p lags
  proof -
    have "fst ` set p = set packet_fields" using arg_cong [OF payload_fields [OF that], of set] by simp
    moreover have "''nml_errors'' \<in> set packet_fields" "''journal_state'' \<notin> set packet_fields" by code_simp+
    moreover have "''journal_state'' \<notin> fst ` set (local_fields x lags)"
      by (cases "li_machine_uuid x"; cases "lag_stats lags"; cases "li_link x"; cases "li_spool x")
        (simp_all add: local_fields_def)
    ultimately show ?thesis by (simp add: image_Un)
  qed
  let ?state = "ps_state (li_source x)"
  obtain due g1 where tick: "gate_tick (li_now x) ?state (li_fault x) (lo_gate w) = (due, g1)"
    by (cases "gate_tick (li_now x) ?state (li_fault x) (lo_gate w)")
  let ?pending = "lo_nml w @ (if li_channel x then drain_nml_errors (li_polls x) else [])"
  obtain send g2 where should: "gate_should_send (li_now x) ?state (?pending \<noteq> []) g1 = (send, g2)"
    by (cases "gate_should_send (li_now x) ?state (?pending \<noteq> []) g1")
  show ?thesis
  proof (cases "due \<and> send \<and> build_payload (li_source x) (lo_seq w + 1) ?pending \<noteq> None")
    case False
    then show ?thesis
      using assms tick should by (cases due; cases send) (auto simp: packet_pass_def Let_def)
  next
    case True
    then obtain b where b: "build_payload (li_source x) (lo_seq w + 1) ?pending = Some b" by blast
    show ?thesis
      using assms tick should True b built [OF b]
      by (intro disjI2 exI [of _ "b @ local_fields x (lo_lags w)"])
        (auto simp: packet_pass_def Let_def split: option.splits)
  qed
qed

text \<open>The journal of every reachable state is live, and a pass keeps it so.\<close>

lemma pass_journal_live: "packet_pass row_text x w = (r, w') \<Longrightarrow> journal_live (lo_journal w) \<Longrightarrow> journal_live (lo_journal w')"
  using pass_journal [of row_text x w r w'] journal_live_record(1) by (metis prod.collapse)

lemma run_journal_live:
  "packet_run row_text xs w = (rs, w') \<Longrightarrow> journal_live (lo_journal w) \<Longrightarrow> journal_live (lo_journal w')"
proof (induction xs arbitrary: w rs)
  case (Cons x xs)
  then show ?case using pass_journal_live by (auto split: prod.splits)
qed simp

lemma messages_in_append: "''nml_errors'' \<in> fst ` set p \<Longrightarrow> messages_in (p @ e) = messages_in p"
  by (simp add: messages_in_def dict_get_append)

lemma messages_truthy: "messages_in p \<noteq> [] \<Longrightarrow> truthy (dict_get (compact_packet p) ''nml_errors'')"
proof -
  assume m: "messages_in p \<noteq> []"
  then have t: "truthy (dict_get p ''nml_errors'')"
    by (auto simp: messages_in_def split: pyval.splits)
  have "''nml_errors'' \<notin> set journal_fields" by code_simp
  then have "''nml_errors'' \<notin> fst ` set (compact_fields p)" by (auto simp: compact_fields_def)
  then have "map_of (compact_fields p) ''nml_errors'' = None" by (simp add: map_of_eq_None_iff)
  then have "dict_get (compact_packet p) ''nml_errors'' = dict_get p ''nml_errors''"
    using t by (auto simp: compact_packet_def Let_def dict_get_def map_add_def)
  with t show ?thesis by simp
qed

lemma state_text_ok: "journal_state_text s = ''ok'' \<longleftrightarrow> s = JOk"
  by (cases s) (simp_all add: journal_state_text_def)

text \<open>
  A packet tells the truth about the history: when a payload carries messages and says
  that the journal is "ok", their row is in the history database at that moment, in every
  run from a start on any database with any failures of disk and database before it.
\<close>

theorem history_as_reported:
  assumes "lo_journal w0 = journal_start interval days min_free db env0"
    and "packet_run row_text xs w0 = (rs, w)" "packet_pass row_text x w = (r, w')"
    and "payload_of r = Some p" "messages_in p \<noteq> []" "dict_get p ''journal_state'' = PStr ''ok''"
  shows "\<exists>payload. messages_in payload = messages_in p \<and>
    (\<exists>row\<in>set (db_entries (jn_db (lo_journal w'))). jr_data row = row_text (compact_packet payload))"
proof -
  have live: "journal_live (lo_journal w)"
    using run_journal_live [OF assms(2)] assms(1) journal_live_start by simp
  obtain payload alive where p: "p = payload @ history_fields (li_journal_port x) alive (lo_journal w')"
    and j: "lo_journal w' = snd (journal_record row_text payload ((li_journal x)\<lparr>je_now := li_now x\<rparr>) (lo_journal w))"
    and keys: "''nml_errors'' \<in> fst ` set payload" "''journal_state'' \<notin> fst ` set payload"
    using pass_journal [OF assms(3)] unfolding assms(4) option.inject by blast
  have "map_of payload ''journal_state'' = None" using keys(2) by (simp add: map_of_eq_None_iff)
  then have "jn_state (lo_journal w') = JOk"
    using assms(6) p by (simp add: dict_get_def map_add_def history_fields_def state_text_ok)
  moreover have m: "messages_in payload = messages_in p" using messages_in_append [OF keys(1)] p by simp
  ultimately have "row_of row_text payload (lo_journal w')"
    using journal_live_record(2) [OF live] j messages_truthy assms(5) by (metis prod.collapse)
  with m show ?thesis by (auto simp: row_of_def)
qed

definition demo_journal_env :: journal_env where
  "demo_journal_env =
     \<lparr>je_now = 1, je_free = None, je_open_ok = True, je_write_ok = True, je_fresh_id = ''j'', je_clock_ms = 5\<rparr>"

definition demo_loop :: loop_state where
  "demo_loop =
     \<lparr>lo_gate = gate_init 1 30, lo_seq = 0, lo_nml = [], lo_lags = [],
      lo_server = \<lparr>hs_wanted = False, hs_agent_id = '''', hs_alive = False, hs_last_restart = 0\<rparr>,
      lo_journal = journal_start 10 14 100 db_empty demo_journal_env, lo_gcode = gcode_sender_init 60\<rparr>"

definition demo_source :: packet_source where
  "demo_source =
     \<lparr>ps_ts = 5, ps_machine_name = ''m'', ps_session_id = ''s'', ps_state = ''IDLE'',
      ps_snapshot = snapshot 0 calculator_init, ps_info = program_info_init '''', ps_stat = (\<lambda>_. None),
      ps_file = '''', ps_file_stat = None\<rparr>"

definition demo_input :: loop_input where
  "demo_input =
     \<lparr>li_now = 2, li_fault = None, li_channel = True, li_polls = [NmlMessage 11 ''limit '', NoMessage],
      li_source = demo_source, li_machine_uuid = None, li_spool = None, li_link = None, li_journal_port = 5006,
      li_server_ok = True, li_server_alive = False, li_journal = demo_journal_env, li_gcode_now = 2,
      li_dumps = (\<lambda>_. Some ''{}'')\<rparr>"

lemma history_as_reported_witness:
  "\<exists>row\<in>set (db_entries (jn_db (lo_journal (snd (packet_pass (\<lambda>_. ''row'') demo_input demo_loop))))). jr_data row = ''row''"
proof -
  let ?pass = "packet_pass (\<lambda>_. ''row'') demo_input demo_loop"
  let ?p = "the (payload_of (fst ?pass))"
  have built: "payload_of (fst ?pass) \<noteq> None" by code_simp
  have "messages_in ?p = [nml_entry 11 ''limit'']" by code_simp
  moreover have "dict_get ?p ''journal_state'' = PStr ''ok''" by code_simp
  ultimately show ?thesis
    using history_as_reported [of demo_loop 10 14 100 db_empty demo_journal_env "\<lambda>_. ''row''" "[]" "[]" demo_loop
        demo_input "fst ?pass" "snd ?pass" ?p] built
    by (simp add: demo_loop_def)
qed

end
