(* ===== verification/Mes_Status.thy ===== *)
theory Mes_Status
  imports Agent_Config
begin

text \<open>
  The operator's readout (\<open>agent_mes_status.py\<close>): the document, the thread that writes it to
  \<open>mes_status.json\<close>, and how a reader (MillWright, \<open>--mes-status\<close>) classifies the file.

  JSON text is the value it holds. The file is replaced in one step or, when writing fails,
  stays as it was. The lines printed for a person are left out.
\<close>

definition status_schema :: string where "status_schema = ''lcnc-agent.mes_status/1''"
definition refresh_s :: rat where "refresh_s = 5"
definition stale_s :: rat where "stale_s = 15"

text \<open>\<open>dict(d) if d else other\<close>, and \<open>int(q.get(k, 0))\<close> (\<open>None\<close> where it raises).\<close>

definition dict_or :: "pydict option \<Rightarrow> pyval \<Rightarrow> pyval" where
  "dict_or d other = (case d of Some (kv # kvs) \<Rightarrow> PDict (kv # kvs) | _ \<Rightarrow> other)"

definition count_of :: "pydict \<Rightarrow> string \<Rightarrow> pyval option" where
  "count_of q k = (case to_int (or_else (map_of q k) (PInt 0)) of Converted v \<Rightarrow> Some v | _ \<Rightarrow> None)"

definition build_status ::
  "string option \<Rightarrow> pydict option \<Rightarrow> pydict option \<Rightarrow> pydict option \<Rightarrow> pydict option \<Rightarrow> pyval list \<Rightarrow> bool \<Rightarrow>
   pydict option" where
  "build_status machine_uuid queue link operator scan bound running =
     (let q = or_else queue []
      in case (count_of q ''pending'', count_of q ''bytes'') of
           (Some pending, Some bytes) \<Rightarrow>
             Some [(''schema'', PStr status_schema), (''running'', PBool running),
                   (''machine_uuid'', case machine_uuid of Some u \<Rightarrow> PStr u | None \<Rightarrow> PNone),
                   (''operator'', dict_or operator PNone),
                   (''queue'', PDict [(''pending'', pending), (''bytes'', bytes),
                                     (''state'', or_else (map_of q ''state'') (PStr ''ok''))]),
                   (''link'', dict_or link (PDict [(''state'', PStr ''not_enrolled'')])),
                   (''scan'', dict_or scan PNone), (''bound'', PList bound)]
         | _ \<Rightarrow> None)"

section \<open>StatusWriter\<close>

datatype status_file = FileMissing | FileUnreadable | FileJson pyval

record status_writer =
  sw_refresh :: rat
  sw_last :: "pydict option"
  sw_last_at :: "rat option"

definition status_writer_new :: status_writer where
  "status_writer_new = \<lparr>sw_refresh = refresh_s, sw_last = None, sw_last_at = None\<rparr>"

text \<open>Milliseconds of a wall clock after 1970.\<close>

definition wall_ms :: "rat \<Rightarrow> int" where "wall_ms wall = \<lfloor>wall * 1000\<rfloor>"

definition stamped :: "rat \<Rightarrow> pydict \<Rightarrow> pydict" where
  "stamped wall doc = AList.update ''updated_at_ms'' (PInt (wall_ms wall)) doc"

text \<open>\<open>ok\<close> is whether the file can be written.\<close>

definition status_step ::
  "bool \<Rightarrow> bool \<Rightarrow> pydict \<Rightarrow> rat \<Rightarrow> rat \<Rightarrow> bool \<Rightarrow> status_writer \<times> status_file \<Rightarrow> bool \<times> status_writer \<times> status_file" where
  "status_step force running collected now wall ok s =
     (let w = fst s; doc = AList.update ''running'' (PBool running) collected;
          same = (case (sw_last w, sw_last_at w) of
                    (Some d, Some t) \<Rightarrow> py_eq (PDict doc) (PDict d) \<and> now - t < sw_refresh w
                  | _ \<Rightarrow> False)
      in if \<not> force \<and> same then (False, s)
         else if \<not> ok then (False, s)
         else (True, w\<lparr>sw_last := Some doc, sw_last_at := Some now\<rparr>, FileJson (PDict (stamped wall doc))))"

text \<open>\<open>stop\<close>: the last write, whatever was written before.\<close>

definition status_stop ::
  "pydict \<Rightarrow> rat \<Rightarrow> rat \<Rightarrow> bool \<Rightarrow> status_writer \<times> status_file \<Rightarrow> bool \<times> status_writer \<times> status_file" where
  "status_stop collected now wall ok s = status_step True False collected now wall ok s"

section \<open>Reading\<close>

text \<open>\<open>max(0.0, wall - ms / 1000.0)\<close>.\<close>

definition age_of :: "rat \<Rightarrow> pyfloat \<Rightarrow> pyfloat" where
  "age_of wall stamp =
     (case stamp of Fin x \<Rightarrow> Fin (max 0 (wall - x / 1000)) | NegInf \<Rightarrow> Inf | _ \<Rightarrow> Fin 0)"

definition older :: "pyfloat \<Rightarrow> rat \<Rightarrow> bool" where
  "older age s = (case age of Fin x \<Rightarrow> s < x | Inf \<Rightarrow> True | _ \<Rightarrow> False)"

text \<open>The document, its age and the problem; \<open>None\<close> where the time stamp is no number.\<close>

definition read_status :: "status_file \<Rightarrow> rat \<Rightarrow> (pydict option \<times> pyfloat option \<times> string) option" where
  "read_status f wall =
     (case f of
        FileMissing \<Rightarrow> Some (None, None, ''missing'')
      | FileUnreadable \<Rightarrow> Some (None, None, ''unreadable'')
      | FileJson (PDict doc) \<Rightarrow>
          if \<not> py_eq (dict_get doc ''schema'') (PStr status_schema) then Some (None, None, ''unreadable'')
          else (case to_float (or_else (map_of doc ''updated_at_ms'') (PInt 0)) of
              Converted (PFloat stamp) \<Rightarrow>
                (let age = age_of wall stamp
                 in if \<not> truthy (or_else (map_of doc ''running'') (PBool False)) then Some (Some doc, Some age, ''stopped'')
                    else if older age stale_s then Some (Some doc, Some age, ''stale'')
                    else Some (Some doc, Some age, ''''))
            | _ \<Rightarrow> None)
      | FileJson _ \<Rightarrow> Some (None, None, ''unreadable''))"

section \<open>What a reader sees\<close>

text \<open>
  The writer at work: each step is what was collected, the monotonic clock, and whether the
  write could be done; the wall clock is \<open>off\<close> ahead of the monotonic one.
\<close>

definition work :: "rat \<Rightarrow> status_writer \<times> status_file \<Rightarrow> pydict \<times> rat \<times> bool \<Rightarrow> status_writer \<times> status_file" where
  "work off s x = (case x of (collected, now, ok) \<Rightarrow> snd (status_step False True collected now (now + off) ok s))"

definition proper :: "pydict \<Rightarrow> bool" where
  "proper d \<longleftrightarrow> map_of d ''schema'' = Some (PStr status_schema)"

lemma build_status_proper: "build_status u q l op sc b r = Some d \<Longrightarrow> proper d"
  by (auto simp: build_status_def proper_def Let_def split: option.splits)

text \<open>A step as the agent makes it: a document of \<open>build_status\<close>, a wall clock of our era, time not past \<open>hi\<close>.\<close>

definition usual :: "rat \<Rightarrow> rat \<Rightarrow> pydict \<times> rat \<times> bool \<Rightarrow> bool" where
  "usual off hi x \<longleftrightarrow>
     proper (fst x) \<and> 0 \<le> fst (snd x) + off \<and> fst (snd x) + off < 10 ^ 12 \<and> fst (snd x) \<le> hi"

text \<open>The file is the last document written, with the time it was written at.\<close>

definition shown_at :: "rat \<Rightarrow> rat \<Rightarrow> pydict \<Rightarrow> rat \<Rightarrow> status_file \<Rightarrow> bool" where
  "shown_at off hi d t f \<longleftrightarrow>
     proper d \<and> map_of d ''running'' = Some (PBool True) \<and> 0 \<le> t + off \<and> t + off < 10 ^ 12 \<and> t \<le> hi \<and>
     f = FileJson (PDict (stamped (t + off) d))"

definition written :: "rat \<Rightarrow> rat \<Rightarrow> status_writer \<times> status_file \<Rightarrow> bool" where
  "written off hi s \<longleftrightarrow>
     (\<forall>d. sw_last (fst s) = Some d \<longrightarrow> (\<exists>t. sw_last_at (fst s) = Some t \<and> shown_at off hi d t (snd s)))"

abbreviation live :: "pydict \<Rightarrow> pydict" where "live collected \<equiv> AList.update ''running'' (PBool True) collected"

abbreviation wrote :: "rat \<Rightarrow> pydict \<Rightarrow> rat \<Rightarrow> status_writer \<times> status_file \<Rightarrow> status_writer \<times> status_file" where
  "wrote off collected now s \<equiv>
     ((fst s)\<lparr>sw_last := Some (live collected), sw_last_at := Some now\<rparr>,
      FileJson (PDict (stamped (now + off) (live collected))))"

lemma work_cases: "work off s (collected, now, ok) = s \<or> work off s (collected, now, ok) = wrote off collected now s"
  by (simp add: work_def status_step_def Let_def)

lemma wrote_shown:
  "usual off hi (collected, now, ok) \<Longrightarrow> shown_at off hi (live collected) now (snd (wrote off collected now s))"
  by (simp add: shown_at_def usual_def proper_def update_conv')

lemma work_written:
  assumes "written off hi s" "usual off hi x"
  shows "written off hi (work off s x) \<and> sw_refresh (fst (work off s x)) = sw_refresh (fst s)"
proof -
  obtain collected now ok where x: "x = (collected, now, ok)" by (cases x)
  from work_cases [of off s collected now ok] show ?thesis
  proof
    assume "work off s (collected, now, ok) = s"
    then show ?thesis using assms(1) x by simp
  next
    assume "work off s (collected, now, ok) = wrote off collected now s"
    then show ?thesis using wrote_shown [OF assms(2) [unfolded x], of s] x by (simp add: written_def)
  qed
qed

lemma works_written:
  "written off hi s \<Longrightarrow> \<forall>x\<in>set xs. usual off hi x \<Longrightarrow>
   written off hi (foldl (work off) s xs) \<and> sw_refresh (fst (foldl (work off) s xs)) = sw_refresh (fst s)"
proof (induction xs arbitrary: s)
  case (Cons x xs)
  then show ?case using work_written [of off hi s x] by simp
qed simp

text \<open>After a step that could write, the file is fresh and shows what was collected.\<close>

lemma work_fresh:
  assumes "written off hi s" "usual off hi (collected, now, True)" "0 < sw_refresh (fst s)"
  shows "\<exists>d t. shown_at off hi d t (snd (work off s (collected, now, True))) \<and>
    now - t < sw_refresh (fst s) \<and> (d = live collected \<or> py_eq (PDict (live collected)) (PDict d))"
proof (cases "\<exists>d t. sw_last (fst s) = Some d \<and> sw_last_at (fst s) = Some t \<and>
    py_eq (PDict (live collected)) (PDict d) \<and> now - t < sw_refresh (fst s)")
  case True
  then obtain d t where dt: "sw_last (fst s) = Some d" "sw_last_at (fst s) = Some t"
      "py_eq (PDict (live collected)) (PDict d)" "now - t < sw_refresh (fst s)" by blast
  have "work off s (collected, now, True) = s"
    using dt by (simp add: work_def status_step_def Let_def del: py_eq.simps)
  moreover have "shown_at off hi d t (snd s)"
    using assms(1) dt(1,2) by (simp add: written_def)
  ultimately show ?thesis using dt(3,4) by auto
next
  case False
  then have "work off s (collected, now, True) = wrote off collected now s"
    by (auto simp: work_def status_step_def Let_def simp del: py_eq.simps split: option.splits)
  then show ?thesis using wrote_shown [OF assms(2), of s] assms(3)
    by (intro exI [of _ "live collected"] exI [of _ now]) simp
qed

lemma wall_ms_bounds: "wall - 1 / 1000 < of_int (wall_ms wall) / 1000 \<and> of_int (wall_ms wall) / (1000 :: rat) \<le> wall"
proof -
  have "of_int \<lfloor>wall * 1000\<rfloor> \<le> wall * 1000" "wall * 1000 < of_int \<lfloor>wall * 1000\<rfloor> + 1"
    by linarith+
  then show ?thesis unfolding wall_ms_def by (simp add: field_simps)
qed

lemma read_stamped:
  assumes "proper d" "map_of d ''running'' = Some (PBool r)" "0 \<le> wall" "wall < 10 ^ 12"
  shows "read_status (FileJson (PDict (stamped wall d))) reader =
    (let age = max 0 (reader - of_int (wall_ms wall) / 1000)
     in Some (Some (stamped wall d), Some (Fin age), if \<not> r then ''stopped'' else if 15 < age then ''stale'' else ''''))"
proof -
  have "0 \<le> wall_ms wall" using assms(3) by (simp add: wall_ms_def)
  moreover have "of_int (wall_ms wall) < float_edge"
    using wall_ms_bounds [of wall] assms(4) by (simp add: float_edge_def)
  ultimately have "to_float (PInt (wall_ms wall)) = Converted (PFloat (Fin (of_int (wall_ms wall))))"
    by (simp add: to_float_def)
  then show ?thesis using assms(1,2)
    by (simp add: read_status_def stamped_def update_conv' proper_def dict_get_def age_of_def older_def
        stale_s_def max_def Let_def)
qed

definition seen :: "status_file \<Rightarrow> rat \<Rightarrow> (pydict option \<times> string) option" where
  "seen f wall = map_option (\<lambda>(d, age, problem). (d, problem)) (read_status f wall)"

lemma shown_seen:
  assumes "shown_at off hi d t f"
  shows "reader \<le> t + off + 149 / 10 \<Longrightarrow> seen f reader = Some (Some (stamped (t + off) d), '''')"
    and "hi + off + 15 < reader \<Longrightarrow> seen f reader = Some (Some (stamped (t + off) d), ''stale'')"
  using assms read_stamped [of d True "t + off" reader] wall_ms_bounds [of "t + off"]
  by (auto simp: shown_at_def seen_def Let_def max_def)

definition fresh_writer :: "status_file \<Rightarrow> status_writer \<times> status_file" where
  "fresh_writer f = (status_writer_new, f)"

text \<open>
  C33: For a reader of the operator's readout, after any working life of the writer (documents,
  times and failed writes in any order): up to 9.9 seconds after a step that could write, the
  file reads as a running agent's and shows what that step collected; if the writer then makes
  no step any more, the file reads as stale 15 seconds later at the latest; and after a clean
  stop that could write it reads as stopped, whenever it is read.
\<close>

theorem readout_shows_the_agent:
  assumes "\<forall>x\<in>set xs. usual off now x" "usual off now (collected, now, True)"
  shows "let s = foldl (work off) (fresh_writer f) (xs @ [(collected, now, True)]) in
    (\<exists>d t. (d = live collected \<or> py_eq (PDict (live collected)) (PDict d)) \<and>
      (\<forall>reader. reader \<le> now + off + 99 / 10 \<longrightarrow> seen (snd s) reader = Some (Some (stamped t d), '''')) \<and>
      (\<forall>reader. now + off + 15 < reader \<longrightarrow> seen (snd s) reader = Some (Some (stamped t d), ''stale''))) \<and>
    (\<forall>reader. map_option snd (seen (snd (snd (status_stop collected now (now + off) True s))) reader) = Some ''stopped'')"
proof -
  let ?s0 = "foldl (work off) (fresh_writer f) xs"
  have "written off now (fresh_writer f)" by (simp add: written_def fresh_writer_def status_writer_new_def)
  from works_written [OF this assms(1)] have s0: "written off now ?s0" "sw_refresh (fst ?s0) = 5"
    by (simp_all add: fresh_writer_def status_writer_new_def refresh_s_def)
  define s where "s = work off ?s0 (collected, now, True)"
  obtain d t where dt: "shown_at off now d t (snd s)" "now - t < 5"
      "d = live collected \<or> py_eq (PDict (live collected)) (PDict d)"
    using work_fresh [OF s0(1) assms(2)] s0(2) unfolding s_def by auto
  have "reader \<le> now + off + 99 / 10 \<Longrightarrow> reader \<le> t + off + 149 / 10" for reader using dt(2) by simp
  then have "\<exists>d t. (d = live collected \<or> py_eq (PDict (live collected)) (PDict d)) \<and>
      (\<forall>reader. reader \<le> now + off + 99 / 10 \<longrightarrow> seen (snd s) reader = Some (Some (stamped t d), '''')) \<and>
      (\<forall>reader. now + off + 15 < reader \<longrightarrow> seen (snd s) reader = Some (Some (stamped t d), ''stale''))"
    using dt(3) shown_seen [OF dt(1)] by blast
  moreover have "map_option snd (seen (snd (snd (status_stop collected now (now + off) True s))) reader) = Some ''stopped''"
      for reader
    using assms(2) read_stamped [of "AList.update ''running'' (PBool False) collected" False "now + off" reader]
    by (simp add: status_stop_def status_step_def usual_def seen_def Let_def proper_def update_conv')
  ultimately show ?thesis unfolding s_def by simp
qed

definition demo_readout :: pydict where
  "demo_readout = [(''schema'', PStr status_schema), (''running'', PBool True), (''machine_uuid'', PStr ''m1'')]"

lemma readout_shows_the_agent_witness:
  "let s = foldl (work 1000) (fresh_writer FileMissing) [(demo_readout, 0, False), (demo_readout, 2, True)] in
     map_option snd (seen (snd s) 1005) = Some '''' \<and> map_option snd (seen (snd s) 1020) = Some ''stale'' \<and>
     map_option snd (seen (snd (snd (status_stop demo_readout 2 1002 True s))) 1003) = Some ''stopped''"
proof -
  have "\<forall>x\<in>set [(demo_readout, 0, False)]. usual 1000 2 x" "usual 1000 2 (demo_readout, 2, True)"
    by (simp_all add: usual_def proper_def demo_readout_def)
  from readout_shows_the_agent [OF this, of FileMissing] show ?thesis
    unfolding Let_def by (auto simp del: py_eq.simps)
qed

end
