(* ===== verification/Agent_Runtime.thy ===== *)
theory Agent_Runtime
  imports Py_Text
begin

text \<open>
  Running beside LinuxCNC (\<open>agent_runtime.py\<close>): finding its server process, the watch
  that tells whether it runs, which configuration file is used, and the lock that keeps a
  second agent from starting. What \<open>/proc\<close>, the file system and \<open>flock\<close> answer is given.
\<close>

section \<open>LinuxCNC's processes\<close>

definition linuxcnc_procs :: "string list" where
  "linuxcnc_procs = [''linuxcncsvr'', ''milltask'']"

text \<open>
  Reading \<open>/proc/<pid>/comm\<close>: an \<open>OSError\<close>, bytes that are not UTF-8 (the kernel cuts a
  name after 15 bytes, also inside a character), or text.
\<close>

datatype comm_read = CommGone | CommUndecodable | CommText string

text \<open>\<open>None\<close>: \<open>UnicodeDecodeError\<close>, which is no \<open>OSError\<close>.\<close>

definition comm_of :: "comm_read \<Rightarrow> string option" where
  "comm_of r = (case r of CommGone \<Rightarrow> Some '''' | CommUndecodable \<Rightarrow> None | CommText s \<Rightarrow> Some (strip s))"

record proc_view =
  pv_entries :: "string list option"
  pv_comm :: "string \<Rightarrow> comm_read"

text \<open>\<open>isdigit\<close> of a name in \<open>/proc\<close>: the kernel writes process numbers in ASCII.\<close>

definition pid_name :: "string \<Rightarrow> bool" where
  "pid_name s \<longleftrightarrow> s \<noteq> '''' \<and> list_all is_digit s"

text \<open>The result of a search: an exception, nothing, or the name of the process folder.\<close>

fun first_process :: "(string \<Rightarrow> comm_read) \<Rightarrow> string list \<Rightarrow> string list \<Rightarrow> string option option" where
  "first_process comm names [] = Some None"
| "first_process comm names (pid # pids) =
     (if \<not> pid_name pid then first_process comm names pids
      else case comm_of (comm pid) of
          None \<Rightarrow> None
        | Some c \<Rightarrow> if c \<in> set names then Some (Some pid) else first_process comm names pids)"

definition find_linuxcnc_pid :: "proc_view \<Rightarrow> string option option" where
  "find_linuxcnc_pid v =
     (case pv_entries v of None \<Rightarrow> Some None | Some pids \<Rightarrow> first_process (pv_comm v) linuxcnc_procs pids)"

section \<open>LinuxCNCWatch\<close>

text \<open>The process number is kept as the text it is read back as.\<close>

record linuxcnc_watch =
  wa_rescan_s :: rat
  wa_pid :: "string option"
  wa_last_scan :: rat
  wa_started_at :: "rat option"

definition watch_init :: linuxcnc_watch where
  "watch_init = \<lparr>wa_rescan_s = 1, wa_pid = None, wa_last_scan = 0, wa_started_at = None\<rparr>"

text \<open>One call: the name of the known process, the clock, and \<open>/proc\<close> if it is scanned.\<close>

record watch_env =
  we_known :: comm_read
  we_now :: rat
  we_proc :: proc_view

definition watch_rescan :: "watch_env \<Rightarrow> linuxcnc_watch \<Rightarrow> (bool \<times> linuxcnc_watch) option" where
  "watch_rescan env w =
     (let w1 = w\<lparr>wa_pid := None\<rparr>; now = we_now env
      in if now - wa_last_scan w1 < wa_rescan_s w1 then Some (False, w1)
         else case find_linuxcnc_pid (we_proc env) of
             None \<Rightarrow> None
           | Some None \<Rightarrow> Some (False, w1\<lparr>wa_last_scan := now\<rparr>)
           | Some (Some pid) \<Rightarrow>
               Some (True, w1\<lparr>wa_last_scan := now, wa_pid := Some pid, wa_started_at := Some now\<rparr>))"

definition watch_alive :: "watch_env \<Rightarrow> linuxcnc_watch \<Rightarrow> (bool \<times> linuxcnc_watch) option" where
  "watch_alive env w =
     (case wa_pid w of
        None \<Rightarrow> watch_rescan env w
      | Some _ \<Rightarrow>
          (case comm_of (we_known env) of
             None \<Rightarrow> None
           | Some c \<Rightarrow> if c \<in> set linuxcnc_procs then Some (True, w) else watch_rescan env w))"

text \<open>LinuxCNC is seen only where one of its processes is.\<close>

definition shows_linuxcnc :: "proc_view \<Rightarrow> bool" where
  "shows_linuxcnc v \<longleftrightarrow>
     (\<exists>pids. pv_entries v = Some pids \<and>
       (\<exists>pid\<in>set pids. pid_name pid \<and> (\<exists>c\<in>set linuxcnc_procs. comm_of (pv_comm v pid) = Some c)))"

definition decodable :: "proc_view \<Rightarrow> bool" where
  "decodable v \<longleftrightarrow>
     (\<forall>pids. pv_entries v = Some pids \<longrightarrow> (\<forall>pid\<in>set pids. pid_name pid \<longrightarrow> comm_of (pv_comm v pid) \<noteq> None))"

lemma first_process_found:
  "first_process comm names pids = Some (Some pid) \<Longrightarrow>
   pid \<in> set pids \<and> pid_name pid \<and> (\<exists>c\<in>set names. comm_of (comm pid) = Some c)"
  by (induction pids) (auto split: if_splits option.splits)

lemma first_process_total:
  "\<forall>pid\<in>set pids. pid_name pid \<longrightarrow> comm_of (comm pid) \<noteq> None \<Longrightarrow> first_process comm names pids \<noteq> None"
  by (induction pids) auto

lemma first_process_none:
  "first_process comm names pids = Some None \<Longrightarrow> pid \<in> set pids \<Longrightarrow> pid_name pid \<Longrightarrow>
   comm_of (comm pid) = Some c \<Longrightarrow> c \<notin> set names"
  by (induction pids) (auto split: if_splits option.splits)

lemma find_linuxcnc_iff:
  assumes "decodable v"
  shows "(\<exists>pid. find_linuxcnc_pid v = Some (Some pid)) \<longleftrightarrow> shows_linuxcnc v" "find_linuxcnc_pid v \<noteq> None"
proof -
  show total: "find_linuxcnc_pid v \<noteq> None"
    using assms first_process_total [of _ "pv_comm v" linuxcnc_procs]
    by (auto simp: find_linuxcnc_pid_def decodable_def split: option.split)
  show "(\<exists>pid. find_linuxcnc_pid v = Some (Some pid)) \<longleftrightarrow> shows_linuxcnc v"
  proof
    assume "\<exists>pid. find_linuxcnc_pid v = Some (Some pid)"
    then show "shows_linuxcnc v"
      using first_process_found [of "pv_comm v" linuxcnc_procs]
      by (fastforce simp: find_linuxcnc_pid_def shows_linuxcnc_def split: option.splits)
  next
    assume s: "shows_linuxcnc v"
    then have "find_linuxcnc_pid v \<noteq> Some None"
      using first_process_none [of "pv_comm v" linuxcnc_procs]
      by (fastforce simp: find_linuxcnc_pid_def shows_linuxcnc_def split: option.splits)
    with total show "\<exists>pid. find_linuxcnc_pid v = Some (Some pid)"
      by (cases "find_linuxcnc_pid v") (auto simp: not_None_eq)
  qed
qed

text \<open>
  A call that scans answers what \<open>/proc\<close> shows, and LinuxCNC is noticed at the latest one
  scan interval after it starts.
\<close>

theorem watch_answers:
  assumes "decodable (we_proc env)" "wa_pid w = None" "wa_rescan_s w \<le> we_now env - wa_last_scan w"
  shows "\<exists>w'. watch_alive env w = Some (shows_linuxcnc (we_proc env), w') \<and> wa_last_scan w' = we_now env \<and>
    (wa_pid w' \<noteq> None) = shows_linuxcnc (we_proc env)"
proof (cases "find_linuxcnc_pid (we_proc env)")
  case None
  then show ?thesis using find_linuxcnc_iff(2) [OF assms(1)] by simp
next
  case (Some r)
  then show ?thesis using assms(2,3) find_linuxcnc_iff(1) [OF assms(1)]
    by (cases r) (auto simp: watch_alive_def watch_rescan_def Let_def)
qed

text \<open>
  A process of any user whose name the kernel cut inside a character makes \<open>alive\<close> raise;
  the main loop calls it outside any \<open>try\<close>.
\<close>

definition cut_name_view :: proc_view where
  "cut_name_view = \<lparr>pv_entries = Some [''1'', ''4711''], pv_comm = (\<lambda>pid. if pid = ''1'' then CommText ''init'' else CommUndecodable)\<rparr>"

lemma cut_process_name_raises:
  "watch_alive \<lparr>we_known = CommGone, we_now = 5, we_proc = cut_name_view\<rparr> watch_init = None"
  by code_simp

section \<open>Which configuration file\<close>

text \<open>
  Paths: the per-user file, the system file, the file beside the script, and the two
  templates. Creating the per-user file from a template can fail before the copy is there
  or after it (\<open>chmod\<close>).
\<close>

datatype config_path = UserConfig | SystemConfig | ScriptConfig | GivenConfig string
datatype template = PackagedTemplate | CheckoutTemplate
datatype copy_outcome = CopyFails | ChmodFails | CopiedPrivately

definition config_paths :: "config_path list" where
  "config_paths = [UserConfig, SystemConfig, ScriptConfig]"

text \<open>The path, and the template copied to the per-user file with whether it was made private.\<close>

definition find_config ::
  "string option \<Rightarrow> bool \<Rightarrow> (config_path \<Rightarrow> bool) \<Rightarrow> (template \<Rightarrow> bool) \<Rightarrow> copy_outcome \<Rightarrow>
   config_path option \<times> (template \<times> bool) option" where
  "find_config explicit create is_file has_template copy =
     (case explicit of
        Some (c # cs) \<Rightarrow> (Some (GivenConfig (c # cs)), None)
      | _ \<Rightarrow>
          (case find is_file config_paths of
             Some p \<Rightarrow> (Some p, None)
           | None \<Rightarrow>
               if \<not> create then (None, None)
               else case find has_template [PackagedTemplate, CheckoutTemplate] of
                   None \<Rightarrow> (None, None)
                 | Some t \<Rightarrow>
                     (case copy of
                        CopyFails \<Rightarrow> (None, None)
                      | ChmodFails \<Rightarrow> (None, Some (t, False))
                      | CopiedPrivately \<Rightarrow> (Some UserConfig, Some (t, True)))))"

text \<open>No file of the user is ever replaced, and a file it reports as created is private.\<close>

lemma find_config_keeps_files:
  assumes "find_config explicit create is_file has_template copy = (p, Some (t, private))"
  shows "\<not> is_file UserConfig \<and> \<not> is_file SystemConfig \<and> create \<and> (p = Some UserConfig \<longrightarrow> private)"
  using assms by (auto simp: find_config_def config_paths_def split: option.splits list.splits if_splits copy_outcome.splits)

text \<open>\<open>st_mode & 0o044\<close>; \<open>None\<close> where \<open>stat\<close> fails.\<close>

definition readable_by_others :: "bool \<Rightarrow> int option \<Rightarrow> bool" where
  "readable_by_others posix mode =
     (case mode of None \<Rightarrow> False | Some m \<Rightarrow> posix \<and> and m 36 \<noteq> 0)"

section \<open>One agent\<close>

definition lock_path :: "string option \<Rightarrow> (string \<Rightarrow> bool) \<Rightarrow> nat \<Rightarrow> string" where
  "lock_path xdg_runtime_dir is_dir uid =
     (case xdg_runtime_dir of
        Some d \<Rightarrow> if d \<noteq> '''' \<and> is_dir d then d @ (if last_opt d = Some (CHR ''/'') then '''' else ''/'') @ ''lcnc-status-agent.lock''
                  else ''/tmp/lcnc-status-agent-'' @ decimal uid @ ''.lock''
      | None \<Rightarrow> ''/tmp/lcnc-status-agent-'' @ decimal uid @ ''.lock'')"

datatype flock_answer = Granted | FlockError int
datatype lock_error = OpenFails | FlockFails int

definition eagain :: int where "eagain = 11"
definition eacces :: int where "eacces = 13"

text \<open>The text of the locked file, \<open>None\<close> where another agent holds it.\<close>

definition single_instance :: "bool \<Rightarrow> flock_answer \<Rightarrow> nat \<Rightarrow> lock_error + string option" where
  "single_instance opens flock pid =
     (if \<not> opens then Inl OpenFails
      else case flock of
          Granted \<Rightarrow> Inr (Some (decimal pid))
        | FlockError e \<Rightarrow> if e = eagain \<or> e = eacces then Inr None else Inl (FlockFails e))"

text \<open>
  Agents of one machine: \<open>flock\<close> grants a lock that nobody holds, and it is free again
  when its holder exits, however it exits.
\<close>

datatype agent_event = AgentStarts string nat bool | AgentExits nat

definition flock_on :: "(string \<times> nat) list \<Rightarrow> string \<Rightarrow> flock_answer" where
  "flock_on held path = (if map_of held path = None then Granted else FlockError eagain)"

fun lock_event :: "(string \<times> nat) list \<Rightarrow> agent_event \<Rightarrow> (string \<times> nat) list" where
  "lock_event held (AgentStarts path pid opens) =
     (case single_instance opens (flock_on held path) pid of Inr (Some _) \<Rightarrow> (path, pid) # held | _ \<Rightarrow> held)"
| "lock_event held (AgentExits pid) = filter (\<lambda>h. snd h \<noteq> pid) held"

interpretation locks: invariant_machine lock_event "\<lambda>held. distinct (map fst held)"
proof
  fix held :: "(string \<times> nat) list" and e
  assume "distinct (map fst held)"
  then show "distinct (map fst (lock_event held e))"
    by (cases e) (auto simp: single_instance_def flock_on_def map_of_eq_None_iff distinct_map_filter eagain_def
        split: if_splits)
qed

lemma one_agent_per_lock:
  "length (filter (\<lambda>h. fst h = path) (foldl lock_event [] es)) \<le> 1"
proof -
  have "distinct (map fst (foldl lock_event [] es))" by (rule locks.run_inv) simp
  then have "distinct (map fst (filter (\<lambda>h. fst h = path) (foldl lock_event [] es)))"
    by (rule distinct_map_filter)
  moreover have "set (map fst (filter (\<lambda>h. fst h = path) (foldl lock_event [] es))) \<subseteq> {path}" by auto
  ultimately have "length (map fst (filter (\<lambda>h. fst h = path) (foldl lock_event [] es))) \<le> card {path}"
    by (metis card_mono distinct_card finite.emptyI finite.insertI)
  then show ?thesis by simp
qed

text \<open>
  The path depends on the environment: an agent started where \<open>XDG_RUNTIME_DIR\<close> is not set
  (\<open>su\<close>, \<open>cron\<close>) runs beside the service of the same user.
\<close>

lemma two_agents_without_runtime_dir:
  "length (foldl lock_event []
     [AgentStarts (lock_path (Some ''/run/user/1000'') (\<lambda>_. True) 1000) 4001 True,
      AgentStarts (lock_path None (\<lambda>_. True) 1000) 4002 True]) = 2"
  by (simp add: lock_path_def single_instance_def flock_on_def eagain_def last_opt_def)

end
