(* ===== verification/Main_Loop.thy ===== *)
theory Main_Loop
  imports Agent_Runtime Program_File Status_Loop Packet_Loop
begin

text \<open>
  The main loop of \<open>status.py\<close> as a whole: the clock, the watch for LinuxCNC, connecting,
  polling, which file is the program, the cycle and MES side of the sample (\<open>Status_Loop\<close>)
  and the packet side (\<open>Packet_Loop\<close>), with every early \<open>continue\<close>; the threads beside it;
  and the clean shutdown.

  Reading attributes of a polled \<open>stat\<close> does not raise (\<open>linuxcnc\<close> provides them all), so
  the branches for a failing program scan or state machine are left out.
\<close>

section \<open>State\<close>

record settings =
  as_interval :: rat
  as_read_errors :: bool
  as_mes :: bool
  as_consts :: interp_consts
  as_realpath :: "string \<Rightarrow> string"

record agent =
  ag_watch :: linuxcnc_watch
  ag_up :: bool
  ag_channel :: bool
  ag_error_channel :: bool
  ag_poll_errors :: int
  ag_armed :: bool
  ag_last :: rat
  ag_ini :: "string option"
  ag_program :: program_file
  ag_status :: status_loop
  ag_packets :: loop_state
  ag_ended :: bool

definition agent_start :: "settings \<Rightarrow> int \<Rightarrow> string \<Rightarrow> loop_state \<Rightarrow> agent" where
  "agent_start st background mw packets =
     \<lparr>ag_watch = watch_init, ag_up = False, ag_channel = False, ag_error_channel = False, ag_poll_errors = 0,
      ag_armed = False, ag_last = 0, ag_ini = None, ag_program = program_file_init (as_realpath st) [],
      ag_status = loop_start background mw, ag_packets = packets, ag_ended = False\<rparr>"

text \<open>What one pass gets from outside.\<close>

record pass_input =
  in_now :: rat
  in_watch :: watch_env
  in_gone_at :: ns
  in_gone_env :: link_env
  in_connects :: bool
  in_polls :: bool
  in_ini :: string
  in_resolve :: "string \<Rightarrow> string"
  in_ini_lines :: "string list option"
  in_call_level :: int
  in_sample :: status_sample
  in_snapshot_at :: ns
  in_packet :: loop_input

section \<open>Up to the sample\<close>

definition max_consecutive_errors :: int where "max_consecutive_errors = 10"

datatype agent_result = TooSoon | LinuxcncDown | JustUp | NotConnected | PollFailed | Ended | Passed pass_result

text \<open>The head of a pass: it stops with a result, or goes on with a polled channel.\<close>

datatype pass_head = Stops agent_result agent | Goes agent

definition timed :: "settings \<Rightarrow> rat \<Rightarrow> agent \<Rightarrow> agent" where
  "timed st now a =
     (if ag_armed a then a\<lparr>ag_packets := add_lag now ((now - ag_last a - as_interval st) * 1000) (ag_packets a)\<rparr> else a)
       \<lparr>ag_armed := True, ag_last := now\<rparr>"

definition disconnect_linuxcnc :: "settings \<Rightarrow> pass_input \<Rightarrow> agent \<Rightarrow> agent" where
  "disconnect_linuxcnc st x a =
     (let w = ag_status a;
          w' = w\<lparr>sl_machine := machine_step (as_consts st) (sl_machine w) (Disconnect (in_gone_at x)),
                 sl_mes := (if as_mes st then mes_disconnect (in_gone_env x) (sl_mes w) else sl_mes w)\<rparr>
      in a\<lparr>ag_channel := False, ag_error_channel := False, ag_status := w',
           ag_program := program_file_reset (ag_program a),
           ag_packets := (ag_packets a)\<lparr>lo_gcode := gcode_reset (lo_gcode (ag_packets a))\<rparr>\<rparr>)"

definition poll_failed :: "agent \<Rightarrow> agent" where
  "poll_failed a =
     (if ag_poll_errors a + 1 \<ge> max_consecutive_errors
      then a\<lparr>ag_channel := False, ag_error_channel := False, ag_poll_errors := 0, ag_armed := False\<rparr>
      else a\<lparr>ag_poll_errors := ag_poll_errors a + 1, ag_armed := False\<rparr>)"

definition connect_linuxcnc :: "settings \<Rightarrow> bool \<Rightarrow> agent \<Rightarrow> bool \<times> agent" where
  "connect_linuxcnc st ok a =
     (if ok then (True, a\<lparr>ag_channel := True, ag_error_channel := as_read_errors st\<rparr>)
      else (False, a\<lparr>ag_channel := False, ag_error_channel := False\<rparr>))"

definition pass_head :: "settings \<Rightarrow> pass_input \<Rightarrow> agent \<Rightarrow> pass_head" where
  "pass_head st x a0 =
     (if in_now x - ag_last a0 < as_interval st then Stops TooSoon a0
      else let a = timed st (in_now x) a0
        in case watch_alive (in_watch x) (ag_watch a) of
            None \<Rightarrow> Stops Ended (a\<lparr>ag_ended := True\<rparr>)
          | Some (False, wa) \<Rightarrow>
              Stops LinuxcncDown
                ((if ag_up a then disconnect_linuxcnc st x (a\<lparr>ag_up := False\<rparr>) else a)
                   \<lparr>ag_watch := wa, ag_armed := False\<rparr>)
          | Some (True, wa) \<Rightarrow>
              (let a1 = a\<lparr>ag_watch := wa\<rparr>
               in if \<not> ag_up a1 then Stops JustUp (a1\<lparr>ag_up := True, ag_armed := False\<rparr>)
                  else case (if ag_channel a1 then (True, a1) else connect_linuxcnc st (in_connects x) a1) of
                      (False, a2) \<Rightarrow> Stops NotConnected (a2\<lparr>ag_armed := False\<rparr>)
                    | (True, a2) \<Rightarrow>
                        if in_polls x then Goes (a2\<lparr>ag_poll_errors := 0\<rparr>) else Stops PollFailed (poll_failed a2)))"

section \<open>The sample\<close>

text \<open>Which file is the program, and whether LinuxCNC is inside a subroutine.\<close>

definition program_seen :: "settings \<Rightarrow> pass_input \<Rightarrow> agent \<Rightarrow> program_file \<times> string \<times> bool" where
  "program_seen st x a =
     (let pf = (if Some (in_ini x) \<noteq> ag_ini a
                then set_dirs (as_realpath st) (subroutine_dirs (in_resolve x) (in_ini_lines x)) (ag_program a)
                else ag_program a);
          stat = cy_stat (ls_cycle (in_sample x));
          busy = (cm_state (sl_machine (ag_status a)) \<noteq> Idle \<or> sv_interp_state stat \<noteq> ic_idle (as_consts st))
      in program_file_update (as_realpath st) (or_else (sv_file stat) '''') (in_call_level x) busy pf)"

definition sample_seen :: "settings \<Rightarrow> pass_input \<Rightarrow> agent \<Rightarrow> status_sample" where
  "sample_seen st x a =
     (case program_seen st x a of
        (pf, path, in_sub) \<Rightarrow>
          (in_sample x)\<lparr>ls_file := path, ls_cycle := (ls_cycle (in_sample x))\<lparr>cy_in_sub := in_sub\<rparr>\<rparr>)"

text \<open>The cycle side without the MES side.\<close>

definition plain_sample_step :: "interp_consts \<Rightarrow> status_sample \<Rightarrow> status_loop \<Rightarrow> status_loop" where
  "plain_sample_step ic s w =
     (let m = load_program ic s (ls_file s) (sl_machine w);
          m' = machine_step ic m (Update (ls_cycle s));
          x = mes_sample_of s m m';
          turned = program_turned_out x (sl_mes w);
          fresh = (cycle_on (ms_after x) \<and> \<not> cycle_on (ms_before x))
      in w\<lparr>sl_machine := (if turned then machine_step ic m' (ProgramKnown (Some (ls_file s))) else m'),
           sl_mes := (sl_mes w)\<lparr>ml_program := (if fresh \<or> turned then PStr (ls_file s) else ml_program (sl_mes w)),
                                 ml_adopted := None\<rparr>\<rparr>)"

definition sample_status :: "settings \<Rightarrow> status_sample \<Rightarrow> status_loop \<Rightarrow> status_loop" where
  "sample_status st s w =
     (if as_mes st then status_sample_step (as_consts st) s w else plain_sample_step (as_consts st) s w)"

text \<open>A program adopted from MillWright's run is the program file from now on.\<close>

definition adopt_file :: "pyval option \<Rightarrow> program_file \<Rightarrow> program_file" where
  "adopt_file adopted pf = (case adopted of Some (PStr p) \<Rightarrow> pf\<lparr>pf_program := p\<rparr> | _ \<Rightarrow> pf)"

text \<open>What the packet of this pass is built from.\<close>

definition packet_input :: "pass_input \<Rightarrow> bool \<Rightarrow> string \<Rightarrow> cycle_machine \<Rightarrow> loop_input" where
  "packet_input x channel path m =
     (in_packet x)\<lparr>li_now := in_now x, li_channel := channel,
       li_source := (li_source (in_packet x))\<lparr>ps_state := phase_text (cm_state m),
         ps_snapshot := snapshot (in_snapshot_at x) (cm_calc m), ps_info := psc_info (cm_scanner m), ps_file := path\<rparr>\<rparr>"

definition agent_sample :: "settings \<Rightarrow> (pydict \<Rightarrow> string) \<Rightarrow> pass_input \<Rightarrow> agent \<Rightarrow> agent_result \<times> agent" where
  "agent_sample st row_text x a =
     (let s = sample_seen st x a; w' = sample_status st s (ag_status a);
          a' = a\<lparr>ag_ini := Some (in_ini x), ag_status := w',
                  ag_program := adopt_file (ml_adopted (sl_mes w')) (fst (program_seen st x a))\<rparr>
      in if sl_dead w' then (Ended, a'\<lparr>ag_ended := True\<rparr>)
         else case packet_pass row_text (packet_input x (ag_error_channel a) (ls_file s) (sl_machine w')) (ag_packets a) of
             (r, packets) \<Rightarrow> (Passed r, a'\<lparr>ag_packets := packets\<rparr>))"

definition agent_pass :: "settings \<Rightarrow> (pydict \<Rightarrow> string) \<Rightarrow> pass_input \<Rightarrow> agent \<Rightarrow> agent_result \<times> agent" where
  "agent_pass st row_text x a =
     (case pass_head st x a of Stops r a' \<Rightarrow> (r, a') | Goes a' \<Rightarrow> agent_sample st row_text x a')"

section \<open>A run of the agent\<close>

text \<open>Passes, and what the threads beside the loop do to the state they share with it.\<close>

datatype agent_move =
    Pass pass_input
  | ScanThread scanner_event
  | MesWorkerTakes
  | GcodeThread gcode_event

fun agent_step :: "settings \<Rightarrow> (pydict \<Rightarrow> string) \<Rightarrow> agent \<Rightarrow> agent_move \<Rightarrow> agent" where
  "agent_step st row_text a (Pass x) = (if ag_ended a then a else snd (agent_pass st row_text x a))"
| "agent_step st row_text a (ScanThread e) =
     a\<lparr>ag_status := loop_step (as_consts st) (ag_status a) (LoopScan e)\<rparr>"
| "agent_step st row_text a MesWorkerTakes = a\<lparr>ag_status := loop_step (as_consts st) (ag_status a) LoopTake\<rparr>"
| "agent_step st row_text a (GcodeThread e) =
     a\<lparr>ag_packets := (ag_packets a)\<lparr>lo_gcode := gcode_step (lo_gcode (ag_packets a)) e\<rparr>\<rparr>"

text \<open>The clean shutdown: a cycle in progress is neither a part nor an abort.\<close>

definition agent_stop :: "settings \<Rightarrow> pass_input \<Rightarrow> agent \<Rightarrow> agent" where
  "agent_stop st x a =
     a\<lparr>ag_status := (ag_status a)
         \<lparr>sl_machine := agent_shutdown (sl_machine (ag_status a)),
          sl_mes := (if as_mes st then mes_disconnect (in_gone_env x) (sl_mes (ag_status a)) else sl_mes (ag_status a))\<rparr>,
       ag_ended := True\<rparr>"

section \<open>Parts\<close>

abbreviation machine_of :: "agent \<Rightarrow> cycle_machine" where "machine_of a \<equiv> sl_machine (ag_status a)"
abbreviation parts_of :: "agent \<Rightarrow> int" where "parts_of a \<equiv> ct_parts_produced (cm_calc (machine_of a))"

text \<open>The sample of this pass ends a running cycle at the program's end (\<open>part_due\<close>).\<close>

definition part_on_sample :: "settings \<Rightarrow> pass_input \<Rightarrow> agent \<Rightarrow> bool" where
  "part_on_sample st x a =
     (let s = sample_seen st x a
      in part_due (as_consts st) (load_program (as_consts st) s (ls_file s) (machine_of a)) (Update (ls_cycle s)))"

definition part_on_pass :: "settings \<Rightarrow> pass_input \<Rightarrow> agent \<Rightarrow> bool" where
  "part_on_pass st x a \<longleftrightarrow>
     \<not> ag_ended a \<and> (case pass_head st x a of Stops _ _ \<Rightarrow> False | Goes a1 \<Rightarrow> part_on_sample st x a1)"

fun part_on :: "settings \<Rightarrow> agent \<Rightarrow> agent_move \<Rightarrow> bool" where
  "part_on st a (Pass x) = part_on_pass st x a"
| "part_on st a _ = False"

fun parts_counted :: "settings \<Rightarrow> (pydict \<Rightarrow> string) \<Rightarrow> agent \<Rightarrow> agent_move list \<Rightarrow> int" where
  "parts_counted st row_text a [] = 0"
| "parts_counted st row_text a (e # es) =
     (if part_on st a e then 1 else 0) + parts_counted st row_text (agent_step st row_text a e) es"

lemma sample_machine:
  assumes "machine_inv (sl_machine w)"
  shows "machine_inv (sl_machine (sample_status st s w))"
    "ct_parts_produced (cm_calc (sl_machine (sample_status st s w))) = ct_parts_produced (cm_calc (sl_machine w)) +
      (if part_due (as_consts st) (load_program (as_consts st) s (ls_file s) (sl_machine w)) (Update (ls_cycle s)) then 1 else 0)"
proof -
  define ic where "ic = as_consts st"
  define m where "m = load_program ic s (ls_file s) (sl_machine w)"
  define m' where "m' = machine_step ic m (Update (ls_cycle s))"
  have mi: "machine_inv m" unfolding m_def load_program_def by (rule cym.step_inv [OF assms])
  then have mi': "machine_inv m'" unfolding m'_def by (rule cym.step_inv)
  have parts: "ct_parts_produced (cm_calc m') = ct_parts_produced (cm_calc (sl_machine w)) +
      (if part_due ic m (Update (ls_cycle s)) then 1 else 0)"
    unfolding m'_def machine_parts [OF mi] by (simp add: m_def)
  note k = program_known_fields [OF mi'] cym.step_inv [OF mi']
  define m1 where "m1 b = (if b then machine_step ic m' (ProgramKnown (Some (ls_file s))) else m')" for b
  have m1: "machine_inv (m1 b)" "ct_parts_produced (cm_calc (m1 b)) = ct_parts_produced (cm_calc m')" for b
    using mi' k by (simp_all add: m1_def del: machine_step.simps)
  obtain b a where "sl_machine (sample_status st s w) = adopt_in_machine ic s a (m1 b)"
  proof (cases "as_mes st")
    case True
    then show thesis using that
      unfolding sample_status_def status_sample_step_def Let_def case_prod_beta ic_def [symmetric]
        m_def [symmetric] m'_def [symmetric] m1_def by simp
  next
    case False
    then have "sl_machine (sample_status st s w) =
        adopt_in_machine ic s None (m1 (program_turned_out (mes_sample_of s m m') (sl_mes w)))"
      unfolding sample_status_def plain_sample_step_def Let_def ic_def [symmetric]
        m_def [symmetric] m'_def [symmetric] m1_def by (simp add: adopt_in_machine_def)
    then show thesis by (rule that)
  qed
  with adopt_fields [OF m1(1)] m1(2) parts
  show "machine_inv (sl_machine (sample_status st s w))"
    "ct_parts_produced (cm_calc (sl_machine (sample_status st s w))) = ct_parts_produced (cm_calc (sl_machine w)) +
      (if part_due (as_consts st) (load_program (as_consts st) s (ls_file s) (sl_machine w)) (Update (ls_cycle s)) then 1 else 0)"
    by (simp_all add: ic_def m_def)
qed

lemma head_cases:
  obtains (same) r a' where "pass_head st x a = Stops r a'" "ag_status a' = ag_status a" "r \<noteq> LinuxcncDown \<or> \<not> ag_up a"
  | (gone) a' where "pass_head st x a = Stops LinuxcncDown a'" "ag_up a"
      "ag_status a' = ag_status (disconnect_linuxcnc st x a)"
  | (goes) a' where "pass_head st x a = Goes a'" "ag_status a' = ag_status a"
proof (cases "pass_head st x a")
  case (Stops r a')
  show thesis
  proof (cases "r = LinuxcncDown \<and> ag_up a")
    case True
    with Stops gone show thesis
      by (auto simp: pass_head_def timed_def disconnect_linuxcnc_def connect_linuxcnc_def Let_def
          split: if_splits option.splits prod.splits bool.splits)
  next
    case False
    with Stops same show thesis
      by (auto simp: pass_head_def timed_def connect_linuxcnc_def poll_failed_def Let_def
          split: if_splits option.splits prod.splits bool.splits)
  qed
next
  case (Goes a')
  with goes show thesis
    by (auto simp: pass_head_def timed_def connect_linuxcnc_def Let_def
        split: if_splits option.splits prod.splits bool.splits)
qed

lemma sample_fields:
  "ag_status (snd (agent_sample st row_text x a)) = sample_status st (sample_seen st x a) (ag_status a)"
  by (simp add: agent_sample_def Let_def case_prod_beta)

lemma step_parts:
  assumes "machine_inv (machine_of a)"
  shows "machine_inv (machine_of (agent_step st row_text a e)) \<and>
    parts_of (agent_step st row_text a e) = parts_of a + (if part_on st a e then 1 else 0)"
proof (cases e)
  case (Pass x)
  show ?thesis
  proof (cases "ag_ended a")
    case False
    show ?thesis
    proof (cases st x a rule: head_cases)
      case (same r a')
      then show ?thesis using Pass False assms by (simp add: agent_pass_def part_on_pass_def)
    next
      case (gone a')
      let ?gone = "machine_step (as_consts st) (machine_of a) (Disconnect (in_gone_at x))"
      have "machine_inv ?gone" by (rule cym.step_inv [OF assms])
      moreover have "ct_parts_produced (cm_calc ?gone) = parts_of a"
        unfolding machine_parts [OF assms] by (simp add: part_due_def)
      ultimately show ?thesis using Pass False gone
        by (simp add: agent_pass_def part_on_pass_def disconnect_linuxcnc_def Let_def)
    next
      case (goes a')
      with sample_machine [of "ag_status a'" st "sample_seen st x a'"] assms Pass False show ?thesis
        by (simp add: agent_pass_def part_on_pass_def part_on_sample_def sample_fields Let_def)
    qed
  qed (simp add: Pass assms part_on_pass_def)
next
  case (ScanThread ev)
  then show ?thesis using assms cym.step_inv [OF assms, of "as_consts st" "Scanner ev"] by simp
qed (use assms in simp_all)

interpretation ag: invariant_machine "agent_step st row_text" "\<lambda>a. machine_inv (machine_of a)" for st row_text
  by unfold_locales (use step_parts in blast)

lemma start_machine_inv: "machine_inv (machine_of (agent_start st b mw packets))"
  using loop_start_inv [of b mw] by (simp add: agent_start_def loop_inv_def)

lemma run_parts:
  "machine_inv (machine_of a) \<Longrightarrow>
   parts_of (foldl (agent_step st row_text) a es) = parts_of a + parts_counted st row_text a es"
  by (induction es arbitrary: a) (simp_all add: step_parts)

lemma parts_counted_snoc:
  "parts_counted st row_text a (es @ [e]) =
   parts_counted st row_text a es + (if part_on st (foldl (agent_step st row_text) a es) e then 1 else 0)"
  by (induction es arbitrary: a) simp_all

text \<open>The fields of a packet that the machine gives.\<close>

lemma payload_from_source:
  assumes "packet_pass row_text x w = (r, w')" "payload_of r = Some p"
  shows "dict_get p ''cycle_state'' = PStr (ps_state (li_source x))"
    "dict_get p ''parts_produced'' = PInt (sn_parts_produced (ps_snapshot (li_source x)))"
proof -
  obtain n msgs b e where b: "build_payload (li_source x) n msgs = Some b" and p: "p = b @ e"
    using assms by (auto simp: packet_pass_def Let_def split: prod.splits bool.splits option.splits)
  have keys: "distinct (map fst b)" using payload_fields [OF b] packet_fields_distinct by simp
  have "(''cycle_state'', PStr (ps_state (li_source x))) \<in> set b"
    "(''parts_produced'', PInt (sn_parts_produced (ps_snapshot (li_source x)))) \<in> set b"
    using b by (auto simp: build_payload_def cycle_fields_def split: Option.bind_splits)
  with keys show "dict_get p ''cycle_state'' = PStr (ps_state (li_source x))"
    "dict_get p ''parts_produced'' = PInt (sn_parts_produced (ps_snapshot (li_source x)))"
    by (simp_all add: p dict_get_def map_add_def split: option.split)
qed

lemma passed_payload:
  assumes "agent_pass st row_text x a = (Passed r, a')" "payload_of r = Some p"
  shows "dict_get p ''cycle_state'' = PStr (phase_text (cm_state (machine_of a')))"
    "dict_get p ''parts_produced'' = PInt (parts_of a')"
proof -
  obtain a1 where a1: "agent_sample st row_text x a1 = (Passed r, a')" 
    using assms(1) by (cases st x a rule: head_cases)
      (auto simp: agent_pass_def pass_head_def Let_def split: if_splits option.splits prod.splits bool.splits pass_head.splits)
  let ?w = "sample_status st (sample_seen st x a1) (ag_status a1)"
  obtain packets where "packet_pass row_text (packet_input x (ag_error_channel a1) (ls_file (sample_seen st x a1)) (sl_machine ?w))
      (ag_packets a1) = (r, packets)" "machine_of a' = sl_machine ?w"
    using a1 by (auto simp: agent_sample_def Let_def split: if_splits prod.splits)
  with payload_from_source [OF this(1) assms(2)]
  show "dict_get p ''cycle_state'' = PStr (phase_text (cm_state (machine_of a')))"
    "dict_get p ''parts_produced'' = PInt (parts_of a')"
    by (simp_all add: packet_input_def snapshot_def Let_def)
qed

text \<open>
  C4: what the dashboard shows is what happened at the machine. Over any run of the agent
  (samples, pauses, LinuxCNC going away and coming back, failing polls, the threads beside
  the loop), the number of parts in every packet is the number of samples so far that ended
  a running cycle at the program's end with the machine on and no E-stop, and the cycle
  state in it is IDLE exactly when no cycle is being timed.
\<close>

theorem packets_count_parts:
  fixes es :: "agent_move list" and st :: settings and background :: int and mw :: string and packets :: loop_state
  defines "start \<equiv> agent_start st background mw packets"
  assumes "\<not> ag_ended (foldl (agent_step st row_text) start es)"
    and "agent_pass st row_text x (foldl (agent_step st row_text) start es) = (Passed r, a)"
    and "payload_of r = Some p"
  shows "dict_get p ''parts_produced'' = PInt (parts_counted st row_text start (es @ [Pass x])) \<and>
    (dict_get p ''cycle_state'' = PStr ''IDLE'') = (\<not> cs_running (ct_state (cm_calc (machine_of a))))"
proof -
  have run: "foldl (agent_step st row_text) start (es @ [Pass x]) = a" using assms(2,3) by simp
  have inv: "machine_inv (machine_of start)" unfolding start_def by (rule start_machine_inv)
  have "parts_of start = 0"
    by (simp add: start_def agent_start_def loop_start_def machine_start_def cycle_machine_init_def calculator_init_def)
  then have "parts_of a = parts_counted st row_text start (es @ [Pass x])"
    using run_parts [OF inv, where es = "es @ [Pass x]" and row_text = row_text and st = st] run by simp
  moreover have "machine_inv (machine_of a)"
    using ag.run_inv [OF inv, where es = "es @ [Pass x]"] run by metis
  ultimately show ?thesis
    using passed_payload [OF assms(3,4)] by (simp add: machine_inv_def in_step_def)
qed

definition demo_settings :: settings where
  "demo_settings =
     \<lparr>as_interval = 1 / 10, as_read_errors = True, as_mes = True, as_consts = demo_consts, as_realpath = (\<lambda>p. p)\<rparr>"

definition demo_proc :: proc_view where
  "demo_proc = \<lparr>pv_entries = Some [''1'', ''77'', ''self''], pv_comm = (\<lambda>p. CommText (if p = ''77'' then ''milltask'' else ''init''))\<rparr>"

definition demo_pass :: "rat \<Rightarrow> pass_input" where
  "demo_pass now =
     \<lparr>in_now = now, in_watch = \<lparr>we_known = CommText ''milltask'', we_now = now, we_proc = demo_proc\<rparr>,
      in_gone_at = 0, in_gone_env = demo_link_env PNone demo_id, in_connects = True, in_polls = True,
      in_ini = ''mill.ini'', in_resolve = (\<lambda>d. d), in_ini_lines = None, in_call_level = 0,
      in_sample = demo_status_sample 1 False, in_snapshot_at = 5, in_packet = demo_input\<rparr>"

definition demo_agent :: agent where
  "demo_agent = agent_start demo_settings 5 '''' demo_loop"

lemma packets_count_parts_witness:
  "\<exists>r p a. agent_pass demo_settings (\<lambda>_. ''row'') (demo_pass 12)
       (agent_step demo_settings (\<lambda>_. ''row'') demo_agent (Pass (demo_pass 10))) = (Passed r, a) \<and>
     payload_of r = Some p \<and> dict_get p ''parts_produced'' = PInt 0 \<and> dict_get p ''cycle_state'' = PStr ''IDLE''"
proof -
  let ?rt = "\<lambda>_ :: pydict. ''row''"
  let ?first = "snd (agent_pass demo_settings ?rt (demo_pass 10) demo_agent)"
  let ?pass = "agent_pass demo_settings ?rt (demo_pass 12) ?first"
  have start: "\<not> ag_ended demo_agent" by (simp add: demo_agent_def agent_start_def)
  then have step: "agent_step demo_settings ?rt demo_agent (Pass (demo_pass 10)) = ?first" by simp
  have alive: "\<not> ag_ended ?first" by code_simp
  have "(case ?pass of (Passed r, _) \<Rightarrow> payload_of r \<noteq> None | _ \<Rightarrow> False)" by code_simp
  then obtain r p where r: "?pass = (Passed r, snd ?pass)" "payload_of r = Some p"
    by (auto split: prod.splits agent_result.splits)
  have "\<not> part_on_pass demo_settings (demo_pass 10) demo_agent" "\<not> part_on_pass demo_settings (demo_pass 12) ?first"
    "\<not> cs_running (ct_state (cm_calc (machine_of (snd ?pass))))"
    by code_simp+
  then show ?thesis
    using packets_count_parts [of demo_settings ?rt 5 "''''" demo_loop "[Pass (demo_pass 10)]" "demo_pass 12" r "snd ?pass" p]
      start alive step r by (auto simp: demo_agent_def [symmetric])
qed

section \<open>When the agent ends\<close>

text \<open>
  The names of processes can be read as text, and the file fields of \<open>current_execution.json\<close>
  are text or missing.
\<close>

definition readable_names :: "watch_env \<Rightarrow> bool" where
  "readable_names env \<longleftrightarrow> we_known env \<noteq> CommUndecodable \<and> decodable (we_proc env)"

definition pass_typed :: "string \<Rightarrow> pass_input \<Rightarrow> bool" where
  "pass_typed mw x \<longleftrightarrow>
     readable_names (in_watch x) \<and> env_typed mw (ls_env (in_sample x)) \<and> env_typed mw (ls_env_program (in_sample x))"

fun move_typed :: "string \<Rightarrow> agent_move \<Rightarrow> bool" where
  "move_typed mw (Pass x) = pass_typed mw x"
| "move_typed mw _ = True"

definition agent_well :: "string \<Rightarrow> agent \<Rightarrow> bool" where
  "agent_well mw a \<longleftrightarrow> \<not> ag_ended a \<and> \<not> sl_dead (ag_status a) \<and> link_typed mw (ml_link (sl_mes (ag_status a)))"

lemma watch_answers_some: "readable_names env \<Longrightarrow> watch_alive env w \<noteq> None"
  using find_linuxcnc_iff(2) [of "we_proc env"]
  by (cases "we_known env")
    (auto simp: readable_names_def watch_alive_def watch_rescan_def comm_of_def Let_def split: option.splits)

lemma link_typed_end: "link_typed mw l \<Longrightarrow> link_typed mw (link_end env outcome l)"
  by (auto simp: link_end_def link_typed_def split: option.split)

lemma sample_well:
  assumes "link_typed mw (ml_link (sl_mes w))" "\<not> sl_dead w" "env_typed mw (ls_env s)" "env_typed mw (ls_env_program s)"
  shows "\<not> sl_dead (sample_status st s w) \<and> link_typed mw (ml_link (sl_mes (sample_status st s w)))"
proof (cases "as_mes st")
  case True
  have "fst (mes_step (mes_sample_of s m m') (sl_mes w)) \<and>
      link_typed mw (ml_link (snd (mes_step (mes_sample_of s m m') (sl_mes w))))" for m m'
    by (rule mes_step_survives [OF assms(1)]) (simp_all add: mes_sample_of_def assms(3,4))
  with True show ?thesis by (simp add: sample_status_def status_sample_step_def Let_def case_prod_beta)
next
  case False
  with assms(1,2) show ?thesis by (simp add: sample_status_def plain_sample_step_def Let_def)
qed

lemma timed_fields [simp]:
  "ag_watch (timed st t a) = ag_watch a" "ag_ended (timed st t a) = ag_ended a"
  by (simp_all add: timed_def)

lemma head_well:
  assumes "readable_names (in_watch x)"
  shows "case pass_head st x a of
      Stops r a' \<Rightarrow> r \<noteq> Ended \<and> ag_ended a' = ag_ended a
    | Goes a' \<Rightarrow> ag_ended a' = ag_ended a"
proof -
  obtain b wa where "watch_alive (in_watch x) (ag_watch a) = Some (b, wa)"
    using watch_answers_some [OF assms] by (metis not_None_eq prod.exhaust)
  then show ?thesis
    by (cases b) (auto simp: pass_head_def disconnect_linuxcnc_def connect_linuxcnc_def poll_failed_def Let_def
      split: prod.splits bool.splits)
qed

lemma pass_well:
  assumes "agent_well mw a" "pass_typed mw x"
  shows "agent_well mw (snd (agent_pass st row_text x a)) \<and> fst (agent_pass st row_text x a) \<noteq> Ended"
proof -
  have names: "readable_names (in_watch x)" using assms(2) by (simp add: pass_typed_def)
  note h = head_well [OF names, where st = st and a = a]
  show ?thesis
  proof (cases st x a rule: head_cases)
    case (same r a')
    with h assms(1) show ?thesis by (simp add: agent_pass_def agent_well_def)
  next
    case (gone a')
    with h assms(1) link_typed_end show ?thesis
      by (simp add: agent_pass_def agent_well_def disconnect_linuxcnc_def mes_disconnect_def Let_def)
  next
    case (goes a')
    let ?s = "sample_seen st x a'"
    have "ls_env ?s = ls_env (in_sample x)" "ls_env_program ?s = ls_env_program (in_sample x)"
      by (simp_all add: sample_seen_def case_prod_beta)
    then have "\<not> sl_dead (sample_status st ?s (ag_status a')) \<and>
        link_typed mw (ml_link (sl_mes (sample_status st ?s (ag_status a'))))"
      using assms goes by (intro sample_well) (simp_all add: agent_well_def pass_typed_def)
    with goes h assms(1) show ?thesis
      by (simp add: agent_pass_def agent_well_def agent_sample_def Let_def case_prod_beta)
  qed
qed

lemma start_well: "agent_well mw (agent_start st b mw packets)"
  by (simp add: agent_well_def agent_start_def loop_start_def mes_loop_init_def cycle_link_init_def link_typed_def)

lemma step_well:
  assumes "agent_well mw a" "move_typed mw e"
  shows "agent_well mw (agent_step st row_text a e)"
proof (cases e)
  case (Pass x)
  with pass_well [OF assms(1)] assms show ?thesis by (simp add: agent_well_def)
qed (use assms in \<open>simp_all add: agent_well_def link_typed_def\<close>)



text \<open>A process name that is no text ends the agent, from any state that is due for a pass.\<close>

lemma cut_name_ends_agent:
  assumes "\<not> ag_ended a" "as_interval st \<le> in_now x - ag_last a" "wa_pid (ag_watch a) \<noteq> None"
    and "we_known (in_watch x) = CommUndecodable"
  shows "ag_ended (agent_step st row_text a (Pass x))"
  using assms by (auto simp: agent_pass_def pass_head_def timed_def watch_alive_def comm_of_def Let_def)

section \<open>LinuxCNC going away and coming back\<close>

text \<open>
  LinuxCNC going away ends the cycle: nothing of it is left for the next session, no part
  is counted, the program will be sent again, and the cycle leaves one record with an
  unknown outcome.
\<close>

theorem outage_ends_cycle:
  assumes "agent_pass st row_text x a = (LinuxcncDown, a')" "ag_up a" "machine_inv (machine_of a)"
  shows "\<not> ag_up a' \<and> \<not> ag_channel a' \<and> cm_state (machine_of a') = Idle \<and>
    \<not> cs_running (ct_state (cm_calc (machine_of a'))) \<and> parts_of a' = parts_of a \<and>
    pf_program (ag_program a') = '''' \<and> gx_sent_fingerprint (lo_gcode (ag_packets a')) = None \<and>
    (as_mes st \<longrightarrow> ml_link (sl_mes (ag_status a')) = link_end (in_gone_env x) ''unknown'' (ml_link (sl_mes (ag_status a))))"
proof -
  have d: "ag_status a' = ag_status (disconnect_linuxcnc st x a)" "\<not> ag_up a'" "\<not> ag_channel a'"
      "pf_program (ag_program a') = ''''" "gx_sent_fingerprint (lo_gcode (ag_packets a')) = None"
    using assms(1,2)
    by (auto simp: agent_pass_def pass_head_def agent_sample_def timed_def disconnect_linuxcnc_def
        connect_linuxcnc_def program_file_reset_def gcode_reset_def Let_def
        split: if_splits option.splits prod.splits bool.splits)
  let ?gone = "machine_step (as_consts st) (machine_of a) (Disconnect (in_gone_at x))"
  have inv: "machine_inv ?gone" by (rule cym.step_inv [OF assms(3)])
  have idle: "cm_state ?gone = Idle" by (simp add: linuxcnc_gone_def machine_reset_def)
  moreover have "ct_parts_produced (cm_calc ?gone) = parts_of a"
    unfolding machine_parts [OF assms(3)] by (simp add: part_due_def)
  moreover have "\<not> cs_running (ct_state (cm_calc ?gone))"
    using inv idle by (simp add: machine_inv_def in_step_def del: machine_step.simps)
  ultimately show ?thesis using d
    by (simp add: disconnect_linuxcnc_def mes_disconnect_def Let_def del: machine_step.simps)
qed

end
