(* ===== verification/Contract_Folder.thy ===== *)
theory Contract_Folder
  imports Contract_Schema Agent_Config "HOL-Library.List_Lexorder" "HOL-Library.Char_ord"
begin

text \<open>
  The folder of the event contract (\<open>contracts/mes/v1/validate.py\<close>): loading it with the
  check that its schemas use supported keywords only, and the manifest of SHA-256 sums by
  which a vendored copy shows that it is unchanged.

  Schemas are the JSON values of their files. SHA-256 is a parameter; a folder is its files
  with their paths relative to it.
\<close>

section \<open>Keywords\<close>

definition annotations :: "string list" where
  "annotations = [''$schema'', ''$id'', ''title'', ''description'', ''$defs'']"

definition supported :: "string list" where
  "supported = annotations @
     [''type'', ''enum'', ''const'', ''required'', ''properties'', ''additionalProperties'',
      ''propertyNames'', ''items'', ''minItems'', ''maxItems'', ''uniqueItems'', ''minLength'',
      ''maxLength'', ''pattern'', ''minimum'', ''maximum'', ''anyOf'', ''$ref'']"

text \<open>
  Keywords whose value is an object of schemas, a schema, or a list of schemas.
  \<open>additionalProperties\<close> is a schema too (often a boolean).
\<close>

definition holds_schemas :: "string list" where "holds_schemas = [''properties'', ''$defs'']"
definition is_schema_key :: "string list" where "is_schema_key = [''items'', ''additionalProperties'', ''propertyNames'']"

text \<open>
  Why loading fails: \<open>ContractError\<close> for a keyword and for a value that is no schema, and
  the \<open>AttributeError\<close> or \<open>TypeError\<close> of a keyword whose value has the wrong shape.
\<close>

datatype keyword_problem = Unsupported string | NoSchema | WrongShape

fun check_keywords :: "pyval \<Rightarrow> keyword_problem option"
  and check_entries :: "pydict \<Rightarrow> keyword_problem option"
  and check_members :: "pydict \<Rightarrow> keyword_problem option"
  and check_branches :: "pyval list \<Rightarrow> keyword_problem option" where
  "check_keywords (PDict d) = check_entries d"
| "check_keywords (PBool b) = None"
| "check_keywords v = Some NoSchema"
| "check_entries [] = None"
| "check_entries (kv # d) =
     (case (if fst kv \<notin> set supported then Some (Unsupported (fst kv))
            else if fst kv \<in> set holds_schemas then (case snd kv of PDict subs \<Rightarrow> check_members subs | _ \<Rightarrow> Some WrongShape)
            else if fst kv \<in> set is_schema_key then check_keywords (snd kv)
            else if fst kv = ''anyOf'' then
              (case snd kv of
                 PList bs \<Rightarrow> check_branches bs
               | PDict bs \<Rightarrow> if bs = [] then None else Some NoSchema
               | PStr s \<Rightarrow> if s = '''' then None else Some NoSchema
               | _ \<Rightarrow> Some WrongShape)
            else None) of
        Some e \<Rightarrow> Some e
      | None \<Rightarrow> check_entries d)"
| "check_members [] = None"
| "check_members (kv # d) = (case check_keywords (snd kv) of Some e \<Rightarrow> Some e | None \<Rightarrow> check_members d)"
| "check_branches [] = None"
| "check_branches (v # vs) = (case check_keywords v of Some e \<Rightarrow> Some e | None \<Rightarrow> check_branches vs)"

text \<open>The schemas inside a schema, at any depth.\<close>

inductive inner_schema :: "pyval \<Rightarrow> pyval \<Rightarrow> bool" where
  itself: "inner_schema s s"
| member: "(k, PDict subs) \<in> set d \<Longrightarrow> k \<in> set holds_schemas \<Longrightarrow> (name, s) \<in> set subs \<Longrightarrow> inner_schema s t \<Longrightarrow>
    inner_schema (PDict d) t"
| single: "(k, s) \<in> set d \<Longrightarrow> k \<in> set is_schema_key \<Longrightarrow> inner_schema s t \<Longrightarrow> inner_schema (PDict d) t"
| branch: "(''anyOf'', PList bs) \<in> set d \<Longrightarrow> s \<in> set bs \<Longrightarrow> inner_schema s t \<Longrightarrow> inner_schema (PDict d) t"

text \<open>What a schema may be: a boolean, or an object of supported keywords of the right shape.\<close>

definition keyword_fits :: "string \<Rightarrow> pyval \<Rightarrow> bool" where
  "keyword_fits k v \<longleftrightarrow>
     k \<in> set supported \<and> (k \<in> set holds_schemas \<longrightarrow> is_dict v) \<and>
     (k = ''anyOf'' \<longrightarrow> (\<exists>bs. v = PList bs) \<or> v = PDict [] \<or> v = PStr '''')"

definition plain_schema :: "pyval \<Rightarrow> bool" where
  "plain_schema s \<longleftrightarrow>
     (case s of PBool _ \<Rightarrow> True | PDict d \<Rightarrow> \<forall>kv\<in>set d. keyword_fits (fst kv) (snd kv) | _ \<Rightarrow> False)"

lemma key_kinds:
  "k \<in> set holds_schemas \<Longrightarrow> k \<notin> set is_schema_key \<and> k \<noteq> ''anyOf'' \<and> k \<in> set supported"
  "k \<in> set is_schema_key \<Longrightarrow> k \<notin> set holds_schemas \<and> k \<noteq> ''anyOf'' \<and> k \<in> set supported"
  "''anyOf'' \<notin> set holds_schemas" "''anyOf'' \<notin> set is_schema_key" "''anyOf'' \<in> set supported"
  by (auto simp: holds_schemas_def is_schema_key_def supported_def annotations_def)

text \<open>One entry, by what it contributes.\<close>

definition entry_fine :: "string \<Rightarrow> pyval \<Rightarrow> bool" where
  "entry_fine k v \<longleftrightarrow> keyword_fits k v \<and>
     (\<forall>subs. k \<in> set holds_schemas \<longrightarrow> v = PDict subs \<longrightarrow> check_members subs = None) \<and>
     (k \<in> set is_schema_key \<longrightarrow> check_keywords v = None) \<and>
     (\<forall>bs. k = ''anyOf'' \<longrightarrow> v = PList bs \<longrightarrow> check_branches bs = None)"

lemma check_entries_iff: "check_entries d = None \<longleftrightarrow> (\<forall>kv\<in>set d. entry_fine (fst kv) (snd kv))"
proof (induction d)
  case (Cons kv d)
  obtain k v where kv: "kv = (k, v)" by (cases kv)
  have "check_entries (kv # d) = None \<longleftrightarrow> entry_fine k v \<and> check_entries d = None"
  proof (cases "k \<in> set holds_schemas")
    case True
    then show ?thesis using key_kinds(1) [OF True]
      by (cases v) (auto simp: kv entry_fine_def keyword_fits_def is_dict_def split: option.split)
  next
    case f1: False
    show ?thesis
    proof (cases "k \<in> set is_schema_key")
      case True
      then show ?thesis using key_kinds(2) [OF True]
        by (auto simp: kv entry_fine_def keyword_fits_def split: option.split)
    next
      case f2: False
      then show ?thesis using f1 key_kinds(3-5)
        by (cases v) (auto simp: kv entry_fine_def keyword_fits_def split: option.split)
    qed
  qed
  with Cons kv show ?case by simp
qed simp

lemma check_members_iff: "check_members d = None \<longleftrightarrow> (\<forall>kv\<in>set d. check_keywords (snd kv) = None)"
  by (induction d) (auto split: option.split)

lemma check_branches_iff: "check_branches bs = None \<longleftrightarrow> (\<forall>b\<in>set bs. check_keywords b = None)"
  by (induction bs) (auto split: option.split)

lemma check_keywords_iff:
  "check_keywords s = None \<longleftrightarrow>
     (case s of PBool _ \<Rightarrow> True | PDict d \<Rightarrow> \<forall>kv\<in>set d. entry_fine (fst kv) (snd kv) | _ \<Rightarrow> False)"
  by (cases s) (simp_all add: check_entries_iff)

text \<open>Checked at the root means checked everywhere.\<close>

lemma checked_inner: "inner_schema s t \<Longrightarrow> check_keywords s = None \<Longrightarrow> check_keywords t = None"
proof (induction rule: inner_schema.induct)
  case (member k subs d name s t)
  then have "entry_fine k (PDict subs)" by (fastforce simp: check_entries_iff)
  with member show ?case by (fastforce simp: entry_fine_def check_members_iff)
next
  case (single k s d t)
  then have "entry_fine k s" by (fastforce simp: check_entries_iff)
  with single show ?case by (simp add: entry_fine_def)
next
  case (branch bs d s t)
  then have "entry_fine ''anyOf'' (PList bs)" by (fastforce simp: check_entries_iff)
  with branch show ?case by (simp add: entry_fine_def check_branches_iff)
qed

lemma checked_plain: "check_keywords s = None \<Longrightarrow> plain_schema s"
  by (auto simp: check_keywords_iff plain_schema_def entry_fine_def split: pyval.splits)

text \<open>For the converse, by induction on the value, with the values directly inside it.\<close>

definition all_plain :: "pyval \<Rightarrow> bool" where
  "all_plain s \<longleftrightarrow> (\<forall>t. inner_schema s t \<longrightarrow> plain_schema t)"

definition decided :: "pyval \<Rightarrow> bool" where
  "decided s \<longleftrightarrow> (all_plain s \<longrightarrow> check_keywords s = None)"

definition decided_within :: "pyval \<Rightarrow> bool" where
  "decided_within v \<longleftrightarrow> decided v \<and> (\<forall>d. v = PDict d \<longrightarrow> (\<forall>kv\<in>set d. decided (snd kv))) \<and>
     (\<forall>bs. v = PList bs \<longrightarrow> (\<forall>b\<in>set bs. decided b))"

lemma dict_decided:
  assumes "\<forall>kv\<in>set d. decided_within (snd kv)"
  shows "decided (PDict d)"
  unfolding decided_def
proof
  assume plain: "all_plain (PDict d)"
  have "entry_fine k v" if kv: "(k, v) \<in> set d" for k v
  proof -
    have here: "plain_schema (PDict d)" using plain inner_schema.itself by (simp add: all_plain_def)
    then have "keyword_fits k v" using kv by (fastforce simp: plain_schema_def)
    moreover have v: "decided_within v" using assms kv by fastforce
    moreover have "check_keywords v = None" if "k \<in> set is_schema_key"
      using v plain inner_schema.single [OF kv that] by (simp add: decided_within_def decided_def all_plain_def)
    moreover have "check_members subs = None" if "k \<in> set holds_schemas" "v = PDict subs" for subs
    proof -
      have "check_keywords (snd x) = None" if "x \<in> set subs" for x
        using v \<open>v = PDict subs\<close> that plain inner_schema.member [OF kv [unfolded \<open>v = PDict subs\<close>] \<open>k \<in> set holds_schemas\<close>]
        by (cases x) (fastforce simp: decided_within_def decided_def all_plain_def)
      then show ?thesis by (simp add: check_members_iff)
    qed
    moreover have "check_branches bs = None" if "k = ''anyOf''" "v = PList bs" for bs
      using v that plain inner_schema.branch [OF kv [unfolded that]]
      by (simp add: check_branches_iff decided_within_def decided_def all_plain_def)
    ultimately show ?thesis by (simp add: entry_fine_def)
  qed
  then show "check_keywords (PDict d) = None" by (auto simp: check_entries_iff)
qed

lemma decided_everywhere: "decided_within v"
proof (induction v)
  case (PList bs)
  then show ?case
    by (auto simp: decided_within_def decided_def all_plain_def plain_schema_def intro: inner_schema.itself)
next
  case (PDict d)
  then have each: "\<forall>kv\<in>set d. decided_within (snd kv)" by (metis prod.collapse snds.intros)
  with dict_decided [OF each] show ?case by (simp add: decided_within_def)
qed (auto simp: decided_within_def decided_def all_plain_def plain_schema_def intro: inner_schema.itself)

text \<open>
  The keyword check at loading decides what it is for: it passes exactly when every
  schema inside the file, at any depth and under any keyword, is a boolean or an object of
  supported keywords, so the checker never meets a keyword that it does not know.
\<close>

theorem keywords_checked_everywhere:
  "check_keywords s = None \<longleftrightarrow> (\<forall>t. inner_schema s t \<longrightarrow> plain_schema t)"
  using checked_inner [of s] checked_plain decided_everywhere [of s]
  by (auto simp: decided_within_def decided_def all_plain_def)

text \<open>
  It is not enough for what the module promises: beside \<open>$ref\<close> any keyword passes the check,
  and the checker looks at none of them.
\<close>

definition ref_with_limit :: pyval where
  "ref_with_limit =
     PDict [(''$ref'', PStr ''#/$defs/name''), (''maxLength'', PInt 3),
            (''$defs'', PDict [(''name'', PDict [(''type'', PStr ''string'')])])]"

lemma ref_siblings_skipped:
  "check_keywords ref_with_limit = None \<and>
   schema_errors 2 [(''name'', Keywords None None (no_rules\<lparr>lr_types := Some [''string'']\<rparr>) None [] None None)]
     (PStr ''longer than three'')
     (Keywords (Some ''#/$defs/name'') None (no_rules\<lparr>lr_max_length := Some 3\<rparr>) None [] None None) '''' = Inr []"
  by code_simp

section \<open>Loading\<close>

text \<open>The schemas of a loaded contract, as read.\<close>

record loaded_contract =
  lf_types :: pydict
  lf_envelope :: pyval
  lf_payloads :: "(string \<times> pyval) list"
  lf_max_event_bytes :: int
  lf_max_raw_scan_bytes :: int

text \<open>A file that cannot be read as JSON, a \<open>ContractError\<close>, or the exception of a malformed catalogue.\<close>

datatype load_problem = CannotRead string | BrokenContract | MalformedCatalogue

definition contract_name :: string where "contract_name = ''fw.mes.event/1''"

definition load_schema :: "(string \<Rightarrow> pyval option) \<Rightarrow> string \<Rightarrow> load_problem + pyval" where
  "load_schema file name =
     (case file name of
        None \<Rightarrow> Inl (CannotRead name)
      | Some s \<Rightarrow>
          (case check_keywords s of
             None \<Rightarrow> Inr s
           | Some WrongShape \<Rightarrow> Inl MalformedCatalogue
           | Some _ \<Rightarrow> Inl BrokenContract))"

fun load_payloads :: "(string \<Rightarrow> pyval option) \<Rightarrow> pydict \<Rightarrow> load_problem + (string \<times> pyval) list" where
  "load_payloads file [] = Inr []"
| "load_payloads file (t # ts) =
     (case snd t of
        PDict info \<Rightarrow>
          (case map_of info ''schema'' of
             Some (PStr name) \<Rightarrow>
               (case load_schema file name of
                  Inl e \<Rightarrow> Inl e
                | Inr s \<Rightarrow> (case load_payloads file ts of Inl e \<Rightarrow> Inl e | Inr ps \<Rightarrow> Inr ((fst t, s) # ps)))
           | _ \<Rightarrow> Inl MalformedCatalogue)
      | _ \<Rightarrow> Inl MalformedCatalogue)"

definition int_field :: "pydict \<Rightarrow> string \<Rightarrow> int option" where
  "int_field d k =
     (case map_of d k of
        None \<Rightarrow> None
      | Some v \<Rightarrow> (case to_int v of Converted (PInt n) \<Rightarrow> Some n | _ \<Rightarrow> None))"

definition load_contract :: "(string \<Rightarrow> pyval option) \<Rightarrow> load_problem + loaded_contract" where
  "load_contract file =
     (case file ''catalogue.json'' of
        None \<Rightarrow> Inl (CannotRead ''catalogue.json'')
      | Some (PDict cat) \<Rightarrow>
          if \<not> py_eq (dict_get cat ''contract'') (PStr contract_name) then Inl BrokenContract
          else (case load_schema file ''envelope.schema.json'' of
              Inl e \<Rightarrow> Inl e
            | Inr envelope \<Rightarrow>
                (case map_of cat ''types'' of
                   Some (PDict types) \<Rightarrow>
                     (case load_payloads file types of
                        Inl e \<Rightarrow> Inl e
                      | Inr payloads \<Rightarrow>
                          (case (int_field cat ''max_event_bytes'', int_field cat ''max_raw_scan_bytes'') of
                             (Some events, Some raw) \<Rightarrow>
                               Inr \<lparr>lf_types = types, lf_envelope = envelope, lf_payloads = payloads,
                                    lf_max_event_bytes = events, lf_max_raw_scan_bytes = raw\<rparr>
                           | _ \<Rightarrow> Inl MalformedCatalogue))
                 | _ \<Rightarrow> Inl MalformedCatalogue))
      | Some _ \<Rightarrow> Inl MalformedCatalogue)"

lemma load_payloads_checked:
  "load_payloads file ts = Inr ps \<Longrightarrow> map fst ps = map fst ts \<and> list_all (\<lambda>p. check_keywords (snd p) = None) ps"
  by (induction ts arbitrary: ps)
    (auto simp: load_schema_def split: pyval.splits option.splits sum.splits keyword_problem.splits)

lemma load_contract_checked:
  assumes "load_contract file = Inr c"
  shows "check_keywords (lf_envelope c) = None" "map fst (lf_payloads c) = map fst (lf_types c)"
    "list_all (\<lambda>p. check_keywords (snd p) = None) (lf_payloads c)"
  using assms load_payloads_checked
  by (auto simp: load_contract_def load_schema_def
      split: option.splits pyval.splits sum.splits if_splits keyword_problem.splits)

section \<open>The manifest\<close>

definition manifest_name :: string where "manifest_name = ''MANIFEST.sha256''"

type_synonym folder = "(string \<times> string) list"

text \<open>The files that are listed: not the manifest, no compiled Python, nothing under \<open>__pycache__\<close>.\<close>

definition listed :: "string \<Rightarrow> bool" where
  "listed rel \<longleftrightarrow>
     rel \<noteq> manifest_name \<and> \<not> starts_with (rev rel) (rev ''.pyc'') \<and>
     ''__pycache__'' \<notin> set (butlast (split_at (CHR ''/'') rel))"

definition listed_files :: "folder \<Rightarrow> folder" where
  "listed_files files = filter (\<lambda>f. listed (fst f)) files"

definition manifest_line :: "(string \<Rightarrow> string) \<Rightarrow> string \<times> string \<Rightarrow> string" where
  "manifest_line sha f = sha (snd f) @ ''  '' @ fst f"

definition manifest_lines :: "(string \<Rightarrow> string) \<Rightarrow> folder \<Rightarrow> string list" where
  "manifest_lines sha files = sort_key (drop 66) (map (manifest_line sha) (listed_files files))"

definition write_manifest :: "(string \<Rightarrow> string) \<Rightarrow> folder \<Rightarrow> string" where
  "write_manifest sha files = join_with [CHR 0x0A] (manifest_lines sha files) @ [CHR 0x0A]"

text \<open>Iterating over a text file: lines end with a line feed, a carriage return or both.\<close>

fun file_lines :: "string \<Rightarrow> string list" where
  "file_lines [] = []"
| "file_lines (c # cs) =
     (if c = CHR 0x0A \<or> c = CHR 0x0D then [] # file_lines (after_sep c cs)
      else case file_lines cs of [] \<Rightarrow> [[c]] | l # ls \<Rightarrow> (c # l) # ls)"

datatype manifest_problem = NoManifest | MissingFile string | NotInManifest string | ChangedFile string

text \<open>\<open>{line[66:]: line[:64] for line in lines}\<close>: the last line of a path counts.\<close>

definition sums_by_path :: "string list \<Rightarrow> (string \<times> string) list" where
  "sums_by_path ls = rev (map (\<lambda>l. (drop 66 l, take 64 l)) ls)"

definition path_problem :: "(string \<times> string) list \<Rightarrow> (string \<times> string) list \<Rightarrow> string \<Rightarrow> manifest_problem list" where
  "path_problem want have_by rel =
     (case (map_of want rel, map_of have_by rel) of
        (_, None) \<Rightarrow> [MissingFile rel]
      | (None, Some _) \<Rightarrow> [NotInManifest rel]
      | (Some w, Some h) \<Rightarrow> if w \<noteq> h then [ChangedFile rel] else [])"

definition manifest_problems :: "(string \<Rightarrow> string) \<Rightarrow> folder \<Rightarrow> string option \<Rightarrow> manifest_problem list" where
  "manifest_problems sha files manifest =
     (case manifest of
        None \<Rightarrow> [NoManifest]
      | Some content \<Rightarrow>
          (let want = sums_by_path (filter (\<lambda>l. strip l \<noteq> '''') (file_lines content));
               have_by = sums_by_path (manifest_lines sha files)
           in concat (map (path_problem want have_by) (sort (remdups (map fst want @ map fst have_by))))))"

text \<open>
  The command line: its exit status, given the problems of the folder and the errors of each
  event file.
\<close>

definition contract_cli :: "string list \<Rightarrow> manifest_problem list \<Rightarrow> (string \<Rightarrow> contract_error list) \<Rightarrow> int" where
  "contract_cli args problems errors =
     (if args = [''--write-manifest''] then 0
      else if args = [''--check-manifest''] then (if problems = [] then 0 else 1)
      else if args = [] \<or> starts_with (hd args) ''-'' then 2
      else if list_all (\<lambda>path. errors path = []) args then 0 else 1)"

text \<open>What the code relies on of SHA-256: 64 hexadecimal digits; and of the folder: paths without line ends.\<close>

definition hex_digest :: "(string \<Rightarrow> string) \<Rightarrow> bool" where
  "hex_digest sha \<longleftrightarrow> (\<forall>b. length (sha b) = 64 \<and> list_all (\<lambda>c. c \<in> set ''0123456789abcdef'') (sha b))"

definition no_line_end :: "string \<Rightarrow> bool" where
  "no_line_end s \<longleftrightarrow> CHR 0x0A \<notin> set s \<and> CHR 0x0D \<notin> set s"

definition folder_ok :: "folder \<Rightarrow> bool" where
  "folder_ok files \<longleftrightarrow> distinct (map fst files) \<and> (\<forall>f\<in>set files. no_line_end (fst f))"

lemma file_lines_first: "no_line_end l \<Longrightarrow> file_lines (l @ CHR 0x0A # s) = l # file_lines s"
  by (induction l) (auto simp: no_line_end_def after_sep_def)

lemma file_lines_joined:
  "ls \<noteq> [] \<Longrightarrow> \<forall>l\<in>set ls. no_line_end l \<Longrightarrow> file_lines (join_with [CHR 0x0A] ls @ [CHR 0x0A]) = ls"
proof (induction "[CHR 0x0A]" ls rule: join_with.induct)
  case (2 p)
  then show ?case using file_lines_first [of p "[]"] by simp
next
  case (3 p q ps)
  then show ?case using file_lines_first [of p] by simp
qed simp

lemma digest_facts:
  assumes "hex_digest sha"
  shows "length (sha b) = 64" "no_line_end (sha b)" "\<exists>c cs. sha b = c # cs \<and> \<not> is_space c"
proof -
  have hex: "c \<in> set ''0123456789abcdef''" if "c \<in> set (sha b)" for c
    using assms that by (simp add: hex_digest_def list_all_iff)
  show len: "length (sha b) = 64" using assms by (simp add: hex_digest_def)
  show "no_line_end (sha b)" unfolding no_line_end_def using hex [of "CHR 0x0A"] hex [of "CHR 0x0D"] by auto
  obtain c cs where s: "sha b = c # cs" using len by (cases "sha b") auto
  moreover have "\<not> is_space c" using hex [of c] s by (auto simp: is_space_def)
  ultimately show "\<exists>c cs. sha b = c # cs \<and> \<not> is_space c" by blast
qed

lemma strip_nonempty: "\<not> is_space c \<Longrightarrow> strip (c # cs) \<noteq> ''''"
  using rstrip_text [of c "[]" cs] by (simp add: strip_def lstrip_text)

lemma manifest_line_facts:
  assumes "hex_digest sha"
  shows "take 64 (manifest_line sha f) = sha (snd f)" "drop 66 (manifest_line sha f) = fst f"
    "no_line_end (fst f) \<Longrightarrow> no_line_end (manifest_line sha f)" "strip (manifest_line sha f) \<noteq> ''''"
proof -
  note d = digest_facts [OF assms, of "snd f"]
  show "take 64 (manifest_line sha f) = sha (snd f)" "drop 66 (manifest_line sha f) = fst f"
    using d(1) by (simp_all add: manifest_line_def)
  show "no_line_end (fst f) \<Longrightarrow> no_line_end (manifest_line sha f)"
    using d(2) by (simp add: manifest_line_def no_line_end_def)
  show "strip (manifest_line sha f) \<noteq> ''''"
    using d(3) strip_nonempty by (auto simp: manifest_line_def)
qed

text \<open>The sums by path are those of the listed files.\<close>

definition sums_of :: "(string \<Rightarrow> string) \<Rightarrow> folder \<Rightarrow> (string \<times> string) list" where
  "sums_of sha files = map (\<lambda>f. (fst f, sha (snd f))) (listed_files files)"

lemma sums_by_path_lines:
  assumes "hex_digest sha" "folder_ok files"
  shows "map_of (sums_by_path (manifest_lines sha files)) = map_of (sums_of sha files)"
    "fst ` set (sums_by_path (manifest_lines sha files)) = fst ` set (listed_files files)"
proof -
  let ?pairs = "sums_by_path (manifest_lines sha files)"
  have dist: "distinct (map fst (listed_files files))"
    using assms(2) unfolding folder_ok_def listed_files_def by (simp add: distinct_map_filter)
  have same: "set ?pairs = set (sums_of sha files)"
    by (auto simp: sums_by_path_def manifest_lines_def sums_of_def image_image manifest_line_facts [OF assms(1)])
  have "length ?pairs = length (sums_of sha files)"
    by (simp add: sums_by_path_def manifest_lines_def sums_of_def)
  moreover have keys: "fst ` set (sums_of sha files) = fst ` set (listed_files files)"
    by (simp add: sums_of_def image_image)
  moreover have "distinct (map fst (sums_of sha files))" using dist by (simp add: sums_of_def comp_def)
  ultimately have "distinct (map fst ?pairs)"
    using same by (metis card_distinct distinct_card length_map set_map)
  then show "map_of ?pairs = map_of (sums_of sha files)"
    using same \<open>distinct (map fst (sums_of sha files))\<close> by (metis map_of_inject_set)
  show "fst ` set ?pairs = fst ` set (listed_files files)" using same keys by simp
qed

text \<open>Reading back what was written gives the lines.\<close>

lemma manifest_read_back:
  assumes "hex_digest sha" "folder_ok files"
  shows "filter (\<lambda>l. strip l \<noteq> '''') (file_lines (write_manifest sha files)) = manifest_lines sha files"
proof (cases "manifest_lines sha files = []")
  case True
  then show ?thesis by (simp add: write_manifest_def after_sep_def strip_defs)
next
  case False
  have l: "\<exists>f\<in>set files. l = manifest_line sha f" if "l \<in> set (manifest_lines sha files)" for l
    using that by (auto simp: manifest_lines_def listed_files_def)
  have "\<forall>l\<in>set (manifest_lines sha files). no_line_end l \<and> strip l \<noteq> ''''"
  proof
    fix l assume "l \<in> set (manifest_lines sha files)"
    then obtain f where "f \<in> set files" "l = manifest_line sha f" using l by blast
    then show "no_line_end l \<and> strip l \<noteq> ''''"
      using manifest_line_facts(3,4) [OF assms(1), of f] assms(2) by (simp add: folder_ok_def)
  qed
  then show ?thesis using file_lines_joined [OF False] by (simp add: write_manifest_def filter_id_conv)
qed

text \<open>
  C38: the manifest notices every change. Against a manifest written for one state of the
  folder, another state has no problems exactly when it has the same listed files with the
  same bytes (for contents on which SHA-256 has no collision); a file added, removed or
  changed is always reported.
\<close>

theorem manifest_unchanged_iff:
  assumes "hex_digest sha" "folder_ok old" "folder_ok new"
    and "inj_on sha (snd ` (set old \<union> set new))"
  shows "manifest_problems sha new (Some (write_manifest sha old)) = [] \<longleftrightarrow>
    set (listed_files old) = set (listed_files new)"
proof -
  let ?want = "sums_by_path (manifest_lines sha old)" and ?have = "sums_by_path (manifest_lines sha new)"
  note w = sums_by_path_lines [OF assms(1,2)] and h = sums_by_path_lines [OF assms(1,3)]
  have fine: "path_problem ?want ?have rel = [] \<longleftrightarrow>
      map_of ?want rel = map_of ?have rel \<and> map_of ?have rel \<noteq> None" for rel
    by (auto simp: path_problem_def split: option.split)
  have keys: "set (map fst ?want @ map fst ?have) = dom (map_of ?want) \<union> dom (map_of ?have)"
    by (simp add: dom_map_of_conv_image_fst)
  have "manifest_problems sha new (Some (write_manifest sha old)) = [] \<longleftrightarrow>
      (\<forall>rel\<in>dom (map_of ?want) \<union> dom (map_of ?have). path_problem ?want ?have rel = [])"
    by (simp only: manifest_problems_def option.case Let_def manifest_read_back [OF assms(1,2)] concat_eq_Nil_conv
      set_map set_sort set_remdups keys [unfolded set_map] ball_simps)
  also have "\<dots> \<longleftrightarrow> map_of ?want = map_of ?have"
    unfolding fine by (auto simp: fun_eq_iff)
  also have "\<dots> \<longleftrightarrow> map_of (sums_of sha old) = map_of (sums_of sha new)" using w(1) h(1) by simp
  also have "\<dots> \<longleftrightarrow> set (sums_of sha old) = set (sums_of sha new)"
  proof -
    have "distinct (map fst (sums_of sha files))" if "folder_ok files" for files
      using that unfolding folder_ok_def sums_of_def listed_files_def by (simp add: comp_def distinct_map_filter)
    then show ?thesis using assms(2,3) by (metis map_of_inject_set)
  qed
  also have "\<dots> \<longleftrightarrow> set (listed_files old) = set (listed_files new)"
  proof -
    have "inj_on (\<lambda>f. (fst f, sha (snd f))) (set (listed_files old) \<union> set (listed_files new))"
      using assms(4) by (auto simp: inj_on_def listed_files_def prod_eq_iff)
    then show ?thesis unfolding sums_of_def set_map
      by (metis (no_types, lifting) inj_on_image_eq_iff sup.cobounded1 sup.cobounded2)
  qed
  finally show ?thesis .
qed

definition demo_sha :: "string \<Rightarrow> string" where
  "demo_sha b = replicate 64 (if b = ''x'' then CHR ''a'' else CHR ''b'')"

lemma manifest_unchanged_iff_witness:
  "manifest_problems demo_sha [(''a.json'', ''y'')] (Some (write_manifest demo_sha [(''a.json'', ''x'')])) \<noteq> []"
proof -
  have "hex_digest demo_sha" by (simp add: hex_digest_def demo_sha_def list_all_iff)
  moreover have "folder_ok [(''a.json'', ''x'')]" "folder_ok [(''a.json'', ''y'')]" by code_simp+
  moreover have "inj_on demo_sha (snd ` (set [(''a.json'', ''x'')] \<union> set [(''a.json'', ''y'')]))"
    by (simp add: demo_sha_def)
  moreover have "set (listed_files [(''a.json'', ''x'')]) \<noteq> set (listed_files [(''a.json'', ''y'')])" by code_simp
  ultimately show ?thesis using manifest_unchanged_iff [of demo_sha "[(''a.json'', ''x'')]" "[(''a.json'', ''y'')]"] by blast
qed

end
