(* ===== verification/Udp_Receiver.thy ===== *)
theory Udp_Receiver
  imports Gcode_Sender Py_Text "HOL-Library.AList"
begin

text \<open>
  The demonstration receiver (\<open>examples/udp_receiver.py\<close>): putting the chunks of a G-code
  program together again (\<open>_print_gcode_summary\<close>, \<open>_save_gcode\<close>) in the receive loop of
  \<open>main\<close>, without \<open>--pretty\<close>. What it prints is left out; fields of a chunk packet have the
  types the agent gives them.
\<close>

section \<open>Gathering chunks\<close>

record chunk_packet =
  gp_name :: string
  gp_total :: int
  gp_index :: int
  gp_content :: text_points

text \<open>\<open>gcode_buffers\<close>: the chunks by index, by key.\<close>

type_synonym chunks = "(int \<times> text_points) list"
type_synonym buffers = "string \<Rightarrow> chunks option"

text \<open>\<open>"".join(chunks[i] for i in range(total))\<close>; \<open>None\<close> is the \<open>KeyError\<close> of a missing index.\<close>

definition join_chunks :: "chunks \<Rightarrow> int \<Rightarrow> text_points option" where
  "join_chunks cs count = map_option concat (those (map (\<lambda>i. map_of cs (int i)) [0..<nat count]))"

datatype gathered = Waiting buffers | Broken | Whole text_points buffers

definition gather :: "string \<Rightarrow> chunk_packet \<Rightarrow> buffers \<Rightarrow> gathered" where
  "gather key p b =
     (let cs = AList.update (gp_index p) (gp_content p) (or_else (b key) []);
          b1 = b(key \<mapsto> cs)
      in if int (length cs) = gp_total p then
           (case join_chunks cs (gp_total p) of None \<Rightarrow> Broken | Some full \<Rightarrow> Whole full (b1(key := None)))
         else Waiting b1)"

section \<open>The receive loop\<close>

text \<open>What arrives: no JSON, JSON that is no object, a chunk, another object (status packets).\<close>

datatype arrived = NotJson | NotObject | ChunkPacket chunk_packet | OtherPacket

record receiver =
  rv_buffers :: buffers
  rv_files :: "(string \<times> text_points) list"
  rv_ended :: bool

definition receiver_start :: receiver where
  "receiver_start = \<lparr>rv_buffers = (\<lambda>_. None), rv_files = [], rv_ended = False\<rparr>"

definition save_key :: "string \<Rightarrow> string" where "save_key name = ''save_'' @ name"

text \<open>\<open>_save_gcode\<close>: \<open>ok\<close> is whether the file can be written.\<close>

definition save_gcode :: "bool \<Rightarrow> string \<Rightarrow> chunk_packet \<Rightarrow> receiver \<Rightarrow> receiver" where
  "save_gcode ok folder p r =
     (case gather (save_key (gp_name p)) p (rv_buffers r) of
        Broken \<Rightarrow> r\<lparr>rv_ended := True\<rparr>
      | Waiting b \<Rightarrow> r\<lparr>rv_buffers := b\<rparr>
      | Whole full b \<Rightarrow>
          r\<lparr>rv_buffers := b,
            rv_files := (if ok then rv_files r @ [(path_join folder (gp_name p), full)] else rv_files r)\<rparr>)"

definition print_gcode_summary :: "chunk_packet \<Rightarrow> receiver \<Rightarrow> receiver" where
  "print_gcode_summary p r =
     (case gather (gp_name p) p (rv_buffers r) of
        Broken \<Rightarrow> r\<lparr>rv_ended := True\<rparr>
      | Waiting b \<Rightarrow> r\<lparr>rv_buffers := b\<rparr>
      | Whole full b \<Rightarrow> r\<lparr>rv_buffers := b\<rparr>)"

text \<open>One packet; \<open>save\<close> is the folder of \<open>--save-gcode\<close>, \<open>ok\<close> whether it can be written to.\<close>

definition receive :: "string option \<Rightarrow> receiver \<Rightarrow> bool \<times> arrived \<Rightarrow> receiver" where
  "receive save r x =
     (if rv_ended r then r
      else case snd x of
          NotObject \<Rightarrow> r\<lparr>rv_ended := True\<rparr>
        | ChunkPacket p \<Rightarrow>
            (let r1 = print_gcode_summary p r
             in case save of
                  None \<Rightarrow> r1
                | Some folder \<Rightarrow> if rv_ended r1 \<or> folder = '''' then r1 else save_gcode (fst x) folder p r1)
        | _ \<Rightarrow> r)"

section \<open>Gathering a program\<close>

text \<open>The chunks held for a program cut into \<open>pieces\<close>: some of them, not all.\<close>

definition part_held :: "text_points list \<Rightarrow> chunks \<Rightarrow> bool" where
  "part_held pieces cs \<longleftrightarrow>
     distinct (map fst cs) \<and> length cs < length pieces \<and>
     (\<forall>c\<in>set cs. \<exists>i<length pieces. c = (int i, pieces ! i))"

definition piece_packet :: "string \<Rightarrow> text_points list \<Rightarrow> nat \<Rightarrow> chunk_packet" where
  "piece_packet name pieces i =
     \<lparr>gp_name = name, gp_total = int (length pieces), gp_index = int i, gp_content = pieces ! i\<rparr>"

definition holds :: "buffers \<Rightarrow> string \<Rightarrow> chunks" where "holds b key = or_else (b key) []"

lemma keys_below:
  assumes "distinct (map fst cs)" "\<forall>c\<in>set cs. \<exists>i<n. c = (int i, f i)"
  shows "length cs \<le> n" "length cs = n \<Longrightarrow> fst ` set cs = int ` {..<n}"
proof -
  have sub: "fst ` set cs \<subseteq> int ` {..<n}" using assms(2) by force
  have len: "length cs = card (fst ` set cs)" using assms(1) by (metis distinct_card length_map set_map)
  have card: "card (int ` {..<n}) = n" by (simp add: card_image)
  show "length cs \<le> n" using card_mono [OF _ sub] len card by simp
  show "length cs = n \<Longrightarrow> fst ` set cs = int ` {..<n}"
    using card_subset_eq [OF _ sub] len card by simp
qed

lemma join_whole:
  assumes "distinct (map fst cs)" "\<forall>c\<in>set cs. \<exists>i<length pieces. c = (int i, pieces ! i)" "length cs = length pieces"
  shows "join_chunks cs (int (length pieces)) = Some (concat pieces)"
proof -
  have "map_of cs (int i) = Some (pieces ! i)" if "i < length pieces" for i
  proof -
    have "int i \<in> fst ` set cs" using keys_below(2) [OF assms(1,2,3)] that by simp
    then obtain t where t: "(int i, t) \<in> set cs" by force
    with assms(2) have "t = pieces ! i" by fastforce
    with t assms(1) show ?thesis by simp
  qed
  then have "map (\<lambda>i. map_of cs (int i)) [0..<length pieces] = map Some pieces"
    by (intro nth_equalityI) simp_all
  moreover have "those (map Some xs) = Some xs" for xs :: "text_points list" by (induction xs) simp_all
  ultimately show ?thesis by (simp add: join_chunks_def)
qed

lemma update_members: "c \<in> set (AList.update k v al) \<Longrightarrow> c \<in> set al \<or> c = (k, v)"
  by (induction al) (auto split: if_splits)

abbreviation held_indices :: "buffers \<Rightarrow> string \<Rightarrow> int set" where
  "held_indices b key \<equiv> fst ` set (holds b key)"

text \<open>One chunk: the program is whole, or one index more is held; other keys keep what they have.\<close>

lemma gather_piece:
  assumes "part_held pieces (holds b key)" "i < length pieces"
  obtains b' where "gather key (piece_packet name pieces i) b = Waiting b' \<and>
        held_indices b' key = insert (int i) (held_indices b key) \<or>
      gather key (piece_packet name pieces i) b = Whole (concat pieces) b'"
    "part_held pieces (holds b' key)" "\<forall>k. k \<noteq> key \<longrightarrow> holds b' k = holds b k"
proof -
  define cs where "cs = AList.update (int i) (pieces ! i) (holds b key)"
  have dist: "distinct (map fst cs)" using assms(1) by (simp add: cs_def part_held_def distinct_update)
  have mem: "\<forall>c\<in>set cs. \<exists>i<length pieces. c = (int i, pieces ! i)"
  proof
    fix c assume "c \<in> set cs"
    then have "c \<in> set (holds b key) \<or> c = (int i, pieces ! i)" unfolding cs_def by (rule update_members)
    with assms(1,2) show "\<exists>i<length pieces. c = (int i, pieces ! i)" by (auto simp: part_held_def)
  qed
  have res: "gather key (piece_packet name pieces i) b =
      (if length cs = length pieces then Whole (concat pieces) (b(key := None)) else Waiting (b(key \<mapsto> cs)))"
    using join_whole [OF dist mem] by (auto simp: gather_def piece_packet_def cs_def holds_def Let_def fun_eq_iff)
  have keys: "fst ` set cs = insert (int i) (held_indices b key)"
    unfolding cs_def by (simp add: dom_update)
  show thesis
  proof (cases "length cs = length pieces")
    case True
    then show ?thesis using res assms(2)
      by (intro that [of "b(key := None)"]) (auto simp: holds_def part_held_def)
  next
    case False
    then show ?thesis using res keys dist mem keys_below(1) [OF dist mem]
      by (intro that [of "b(key \<mapsto> cs)"]) (auto simp: holds_def part_held_def)
  qed
qed

section \<open>Programs arrive whole\<close>

text \<open>
  Programs by name, cut into pieces; the packets are theirs, in any order, repeated or lost,
  with status packets and garbage in between. No program is called like another with
  \<open>save_\<close> before it.
\<close>

definition piece_of :: "(string \<Rightarrow> text_points list) \<Rightarrow> arrived \<Rightarrow> bool" where
  "piece_of cuts a \<longleftrightarrow>
     (case a of
        NotObject \<Rightarrow> False
      | ChunkPacket p \<Rightarrow>
          \<exists>i<length (cuts (gp_name p)). p = piece_packet (gp_name p) (cuts (gp_name p)) i
      | _ \<Rightarrow> True)"

definition clear_names :: "(string \<Rightarrow> text_points list) \<Rightarrow> bool" where
  "clear_names cuts \<longleftrightarrow> (\<forall>a b. cuts a \<noteq> [] \<longrightarrow> cuts b \<noteq> [] \<longrightarrow> a \<noteq> save_key b)"

definition seen_pieces :: "(bool \<times> arrived) list \<Rightarrow> string \<Rightarrow> int set" where
  "seen_pieces xs name = {gp_index p | p ok. (ok, ChunkPacket p) \<in> set xs \<and> gp_name p = name}"

definition saved :: "string \<Rightarrow> string \<Rightarrow> text_points list \<Rightarrow> receiver \<Rightarrow> bool" where
  "saved folder name pieces r \<longleftrightarrow> (path_join folder name, concat pieces) \<in> set (rv_files r)"

definition receiver_inv :: "(string \<Rightarrow> text_points list) \<Rightarrow> string \<Rightarrow> (bool \<times> arrived) list \<Rightarrow> receiver \<Rightarrow> bool" where
  "receiver_inv cuts folder xs r \<longleftrightarrow>
     \<not> rv_ended r \<and>
     (\<forall>f\<in>set (rv_files r). \<exists>name. cuts name \<noteq> [] \<and> f = (path_join folder name, concat (cuts name))) \<and>
     (\<forall>name. cuts name \<noteq> [] \<longrightarrow>
        part_held (cuts name) (holds (rv_buffers r) name) \<and>
        part_held (cuts name) (holds (rv_buffers r) (save_key name)) \<and>
        ((\<forall>x\<in>set xs. fst x) \<longrightarrow>
           saved folder name (cuts name) r \<or> held_indices (rv_buffers r) (save_key name) = seen_pieces xs name))"

lemma save_key_simps [simp]: "save_key a = save_key b \<longleftrightarrow> a = b" "save_key a \<noteq> a"
  by (auto simp: save_key_def dest: arg_cong [where f = length])

lemma seen_snoc:
  "seen_pieces (xs @ [(ok, ChunkPacket p)]) name =
     (if gp_name p = name then insert (gp_index p) (seen_pieces xs name) else seen_pieces xs name)"
  "\<not> (\<exists>p. a = ChunkPacket p) \<Longrightarrow> seen_pieces (xs @ [(ok, a)]) name = seen_pieces xs name"
  by (auto simp: seen_pieces_def)

lemma receive_piece_inv:
  assumes inv: "receiver_inv cuts folder xs r" and folder: "folder \<noteq> ''''" and clear: "clear_names cuts"
    and i: "i < length (cuts name)"
  defines "p \<equiv> piece_packet name (cuts name) i"
  shows "receiver_inv cuts folder (xs @ [(ok, ChunkPacket p)]) (receive (Some folder) r (ok, ChunkPacket p))"
proof -
  have ne: "cuts name \<noteq> []" using i by auto
  have p: "gp_name p = name" "gp_index p = int i" by (simp_all add: p_def piece_packet_def)
  let ?b = "rv_buffers r"
  have held: "part_held (cuts name) (holds ?b name)" "part_held (cuts name) (holds ?b (save_key name))"
    using inv ne by (simp_all add: receiver_inv_def)
  obtain b1 where b1: "gather name p ?b = Waiting b1 \<or> (\<exists>t. gather name p ?b = Whole t b1)"
      "part_held (cuts name) (holds b1 name)" "\<forall>k. k \<noteq> name \<longrightarrow> holds b1 k = holds ?b k"
    unfolding p_def using gather_piece [OF held(1) i, of name] by blast
  define r1 where "r1 = print_gcode_summary p r"
  have r1: "rv_buffers r1 = b1" "rv_files r1 = rv_files r" "\<not> rv_ended r1"
    using b1(1) inv by (auto simp: r1_def print_gcode_summary_def p receiver_inv_def)
  have same: "holds b1 (save_key n) = holds ?b (save_key n)" if "cuts n \<noteq> []" for n
    using b1(3) clear ne that unfolding clear_names_def by metis
  then have "part_held (cuts name) (holds b1 (save_key name))" using held(2) ne by simp
  then obtain b2 where b2: "gather (save_key name) p b1 = Waiting b2 \<and>
        held_indices b2 (save_key name) = insert (int i) (held_indices b1 (save_key name)) \<or>
      gather (save_key name) p b1 = Whole (concat (cuts name)) b2"
      "part_held (cuts name) (holds b2 (save_key name))" "\<forall>k. k \<noteq> save_key name \<longrightarrow> holds b2 k = holds b1 k"
    unfolding p_def using gather_piece [OF _ i, of b1 "save_key name" name] by blast
  define r2 where "r2 = save_gcode ok folder p r1"
  have r2: "rv_buffers r2 = b2" "\<not> rv_ended r2"
    "set (rv_files r2) \<subseteq> insert (path_join folder name, concat (cuts name)) (set (rv_files r))"
    "set (rv_files r) \<subseteq> set (rv_files r2)"
    "ok \<Longrightarrow> saved folder name (cuts name) r2 \<or>
       held_indices b2 (save_key name) = insert (int i) (held_indices b1 (save_key name))"
    using b2(1) r1 by (auto simp: r2_def save_gcode_def p saved_def split: if_split_asm)
  have step: "receive (Some folder) r (ok, ChunkPacket p) = r2"
    using inv folder r1(3) by (simp add: receive_def receiver_inv_def Let_def r1_def [symmetric] r2_def)
  have "part_held (cuts n) (holds b2 n) \<and> part_held (cuts n) (holds b2 (save_key n)) \<and>
      ((\<forall>x\<in>set (xs @ [(ok, ChunkPacket p)]). fst x) \<longrightarrow>
         saved folder n (cuts n) r2 \<or> held_indices b2 (save_key n) = seen_pieces (xs @ [(ok, ChunkPacket p)]) n)"
    if n: "cuts n \<noteq> []" for n
  proof -
    have inv_n: "part_held (cuts n) (holds ?b n)" "part_held (cuts n) (holds ?b (save_key n))"
        "(\<forall>x\<in>set xs. fst x) \<Longrightarrow> saved folder n (cuts n) r \<or> held_indices ?b (save_key n) = seen_pieces xs n"
      using inv n by (simp_all add: receiver_inv_def)
    have plain: "holds b2 n = holds b1 n" using b2(3) clear n ne unfolding clear_names_def by blast
    have kept: "saved folder n (cuts n) r \<Longrightarrow> saved folder n (cuts n) r2" using r2(4) by (auto simp: saved_def)
    show ?thesis
    proof (cases "n = name")
      case True
      then show ?thesis using b1(2) b2(2) plain same [OF n] inv_n(3) kept r2(5) by (auto simp: seen_snoc p)
    next
      case False
      then have "holds b2 (save_key n) = holds ?b (save_key n)" "holds b1 n = holds ?b n"
        using b2(3) same [OF n] b1(3) by simp_all
      with inv_n kept False plain show ?thesis by (auto simp: seen_snoc p)
    qed
  qed
  moreover have "\<exists>name. cuts name \<noteq> [] \<and> f = (path_join folder name, concat (cuts name))" if "f \<in> set (rv_files r2)" for f
    using that r2(3) inv ne by (auto simp: receiver_inv_def)
  ultimately show ?thesis unfolding step receiver_inv_def r2(1) using r2(2) by blast
qed

lemma receive_inv:
  assumes "receiver_inv cuts folder xs r" "folder \<noteq> ''''" "clear_names cuts" "piece_of cuts (snd x)"
  shows "receiver_inv cuts folder (xs @ [x]) (receive (Some folder) r x)"
proof -
  obtain ok a where x: "x = (ok, a)" by (cases x)
  show ?thesis
  proof (cases "\<exists>p. a = ChunkPacket p")
    case True
    then obtain p where p: "a = ChunkPacket p" by blast
    with assms(4) x obtain i where "i < length (cuts (gp_name p))" "p = piece_packet (gp_name p) (cuts (gp_name p)) i"
      by (auto simp: piece_of_def)
    with receive_piece_inv [OF assms(1-3)] p x show ?thesis by metis
  next
    case False
    then have "receive (Some folder) r x = r"
      using assms(4) x by (cases a) (auto simp: receive_def piece_of_def)
    with assms(1) False x show ?thesis by (auto simp: receiver_inv_def seen_snoc(2))
  qed
qed

lemma receives_inv:
  assumes "folder \<noteq> ''''" "clear_names cuts" "\<forall>x\<in>set xs. piece_of cuts (snd x)"
  shows "receiver_inv cuts folder xs (foldl (receive (Some folder)) receiver_start xs)"
  using assms(3)
proof (induction xs rule: rev_induct)
  case Nil
  show ?case by (auto simp: receiver_inv_def receiver_start_def part_held_def holds_def seen_pieces_def)
next
  case (snoc x xs)
  then show ?case using receive_inv [OF _ assms(1,2)] by simp
qed

text \<open>The chunk packets of a program as the agent streams it.\<close>

definition chunk_of :: "string \<Rightarrow> gcode_packet \<Rightarrow> arrived" where
  "chunk_of name g =
     (case g of
        Chunk idx count piece \<Rightarrow>
          ChunkPacket \<lparr>gp_name = name, gp_total = int count, gp_index = int idx, gp_content = piece\<rparr>
      | Refused _ \<Rightarrow> OtherPacket)"

lemma streamed_packets:
  assumes "gcode_stream head_size chunk_size content = (None, packets)"
  obtains pieces where "packets = map (\<lambda>i. Chunk i (length pieces) (pieces ! i)) [0..<length pieces]"
    "pieces = split_content content (piece_budget head_size) chunk_size"
proof
  let ?ps = "split_content content (piece_budget head_size) chunk_size"
  have "packets = encode_from 0 (length ?ps) ?ps"
    using assms by (auto simp: gcode_stream_def encode_pieces_def Let_def split: if_splits)
  then show "packets = map (\<lambda>i. Chunk i (length ?ps) (?ps ! i)) [0..<length ?ps]"
    by (auto simp: encode_from_eq intro!: nth_equalityI simp: nth_enumerate_eq)
qed (rule refl)


definition demo_chunk :: "string \<Rightarrow> nat \<Rightarrow> nat \<Rightarrow> text_points \<Rightarrow> bool \<times> arrived" where
  "demo_chunk name count i t = (True, chunk_of name (Chunk i count t))"


section \<open>What the receiver gets wrong\<close>

text \<open>
  A program called like another with \<open>save_\<close> before it shares its buffer: every chunk of
  \<open>x.ngc\<close> arrived, and it is not written.
\<close>

lemma save_name_clash:
  "rv_files (foldl (receive (Some ''/nc'')) receiver_start
     [demo_chunk ''x.ngc'' 2 0 [1], demo_chunk ''save_x.ngc'' 2 1 [9], demo_chunk ''x.ngc'' 2 1 [2]]) = []"
  by code_simp

text \<open>A chunk of the program before an edit stays in the buffer and is mixed into the new text.\<close>

lemma versions_mix:
  "rv_files (foldl (receive (Some ''/nc'')) receiver_start
     [demo_chunk ''x.ngc'' 2 0 [1], demo_chunk ''x.ngc'' 2 1 [9]]) = [(''/nc/x.ngc'', [1, 9])]"
  by code_simp

text \<open>The name in a packet decides the path: an absolute one leaves the folder.\<close>

lemma absolute_name_leaves_folder:
  "rv_files (receive (Some ''/nc'') receiver_start (demo_chunk ''/etc/profile'' 1 0 [9])) = [(''/etc/profile'', [9])]"
  by code_simp

text \<open>A chunk index out of range, or JSON that is no object, ends the receiver.\<close>

lemma stray_packets_end_receiver:
  "rv_ended (receive None receiver_start (demo_chunk ''x.ngc'' 1 5 [9]))"
  "rv_ended (receive None receiver_start (True, NotObject))"
  by code_simp+

end
