(* ===== verification/Agent_Start.thy ===== *)
theory Agent_Start
  imports Main_Loop Agent_Config Mes_Discovery Mes_Outbox Mes_Status Agent_Identity Journal_Server
begin

text \<open>
  Starting the agent (\<open>main\<close> of \<open>status.py\<close>, up to the loop): what the command line asks for,
  how each component is made from the settings, the machine's identity, leftover temporary
  files (\<open>agent_identity.remove_stale_temps\<close>), and what of all this a packet carries.

  Settings are those of \<open>load_config\<close>; a setting that is infinite or no number is not covered
  (\<open>None\<close>).
\<close>

section \<open>What to do\<close>

record arguments =
  ar_dev :: bool
  ar_check :: bool
  ar_enroll :: "(string \<times> string) option"
  ar_discard :: bool
  ar_mes_status :: bool

datatype agent_mode = UsageError | CheckMode | EnrolMode string string bool | ReadoutMode | RunMode

definition chosen_mode :: "arguments \<Rightarrow> agent_mode" where
  "chosen_mode a =
     (if ar_discard a \<and> ar_enroll a = None then UsageError
      else if ar_check a then CheckMode
      else case ar_enroll a of
          Some (url, code) \<Rightarrow> EnrolMode url code (ar_discard a)
        | None \<Rightarrow> if ar_mes_status a then ReadoutMode else RunMode)"

definition resolve_dev_mode :: "arguments \<Rightarrow> string option \<Rightarrow> bool" where
  "resolve_dev_mode a env \<longleftrightarrow> ar_dev a \<or> py_lower (strip (or_else env '''')) \<in> set [''1'', ''true'', ''yes'']"

text \<open>After an enrolment: whether the address is written to the configuration, given the answer typed.\<close>

definition writes_service_url :: "pydict \<Rightarrow> string \<Rightarrow> string \<Rightarrow> bool" where
  "writes_service_url cfg url typed_in \<longleftrightarrow>
     (case map_of cfg ''mes_service_url'' of
        Some (PStr s) \<Rightarrow> strip s \<noteq> url \<and> py_lower (strip typed_in) \<in> set [''y'', ''yes'']
      | _ \<Rightarrow> False)"

section \<open>Leftover temporary files\<close>

text \<open>
  The names in one folder that are removed; \<open>None\<close> where \<open>int\<close> refuses the digits of a name or
  \<open>os.kill\<close> the number. \<open>alive\<close> is \<open>_pid_alive\<close>.
\<close>

fun stale_names :: "int \<Rightarrow> (int \<Rightarrow> bool option) \<Rightarrow> string \<Rightarrow> string list \<Rightarrow> string list option" where
  "stale_names own alive stem [] = Some []"
| "stale_names own alive stem (name # names) =
     (let pid = drop (length stem) name
      in if \<not> starts_with name stem \<or> \<not> str_isdigit pid then stale_names own alive stem names
         else if \<not> list_all is_digit pid then None
         else case (if parse_digits pid = own then Some False else alive (parse_digits pid)) of
             None \<Rightarrow> None
           | Some True \<Rightarrow> stale_names own alive stem names
           | Some False \<Rightarrow> map_option ((#) name) (stale_names own alive stem names))"

text \<open>
  All files: \<open>parts\<close> is \<open>os.path.split\<close> of the absolute path, \<open>names\<close> the listing of a folder.
  The result is what is unlinked, folder and name.
\<close>

fun remove_stale_temps ::
  "int \<Rightarrow> (int \<Rightarrow> bool option) \<Rightarrow> (string \<Rightarrow> string \<times> string) \<Rightarrow> (string \<Rightarrow> string list option) \<Rightarrow> string list \<Rightarrow>
   (string \<times> string) list option" where
  "remove_stale_temps own alive parts names [] = Some []"
| "remove_stale_temps own alive parts names (path # paths) =
     (if path = '''' then remove_stale_temps own alive parts names paths
      else case names (fst (parts path)) of
          None \<Rightarrow> remove_stale_temps own alive parts names paths
        | Some ns \<Rightarrow>
            (case stale_names own alive (snd (parts path) @ ''.tmp-'') ns of
               None \<Rightarrow> None
             | Some gone \<Rightarrow>
                 map_option ((@) (map (Pair (fst (parts path))) gone)) (remove_stale_temps own alive parts names paths)))"

lemma stale_names_only:
  "stale_names own alive stem ns = Some gone \<Longrightarrow> n \<in> set gone \<Longrightarrow>
   n \<in> set ns \<and> (\<exists>pid. n = stem @ pid \<and> pid \<noteq> '''' \<and> list_all is_digit pid \<and>
     (parse_digits pid = own \<or> alive (parse_digits pid) = Some False))"
proof (induction ns arbitrary: gone)
  case (Cons x ns)
  let ?pid = "drop (length stem) x"
  show ?case
  proof (cases "starts_with x stem \<and> str_isdigit ?pid")
    case False
    with Cons show ?thesis by (auto simp: Let_def)
  next
    case True
    then have x: "x = stem @ ?pid" "?pid \<noteq> ''''"
      by (auto simp: starts_with_iff str_isdigit_def)
    from True Cons.prems(1) have dg: "list_all is_digit ?pid" by (auto simp: Let_def split: if_splits)
    with True Cons.prems(1) obtain b where
        b: "(if parse_digits ?pid = own then Some False else alive (parse_digits ?pid)) = Some b"
      by (cases "if parse_digits ?pid = own then Some False else alive (parse_digits ?pid)") (auto simp: Let_def)
    show ?thesis
    proof (cases b)
      case True
      with b \<open>starts_with x stem \<and> str_isdigit ?pid\<close> dg Cons.prems(1)
      have "stale_names own alive stem ns = Some gone" by (simp add: Let_def)
      with Cons.IH Cons.prems(2) show ?thesis by auto
    next
      case False
      with b \<open>starts_with x stem \<and> str_isdigit ?pid\<close> dg Cons.prems(1) obtain g where
          g: "stale_names own alive stem ns = Some g" "gone = x # g" by (auto simp: Let_def)
      have own: "parse_digits ?pid = own \<or> alive (parse_digits ?pid) = Some False"
        using b False by (auto split: if_splits)
      show ?thesis
      proof (cases "n = x")
        case True
        with x dg own show ?thesis by auto
      next
        case False
        with g Cons.IH Cons.prems(2) show ?thesis by auto
      qed
    qed
  qed
qed simp

text \<open>
  Only a leftover goes: a file called like one of the agent's files with \<open>.tmp-\<close> and the
  number of a process that no longer runs (or its own) behind it.
\<close>

theorem removes_only_leftovers:
  "remove_stale_temps own alive parts names paths = Some gone \<Longrightarrow> (folder, n) \<in> set gone \<Longrightarrow>
   \<exists>path\<in>set paths. \<exists>pid. path \<noteq> '''' \<and> folder = fst (parts path) \<and> n = snd (parts path) @ ''.tmp-'' @ pid \<and>
     list_all is_digit pid \<and> (parse_digits pid = own \<or> alive (parse_digits pid) = Some False)"
proof (induction paths arbitrary: gone)
  case (Cons p ps)
  show ?case
  proof (cases "p = '''' \<or> names (fst (parts p)) = None")
    case True
    then have "remove_stale_temps own alive parts names ps = Some gone"
      using Cons.prems(1) by (auto split: if_split_asm)
    with Cons.IH Cons.prems(2) show ?thesis by fastforce
  next
    case False
    then obtain ns where ns: "names (fst (parts p)) = Some ns" by blast
    with False Cons.prems(1) obtain g h where gh:
        "stale_names own alive (snd (parts p) @ ''.tmp-'') ns = Some g"
        "remove_stale_temps own alive parts names ps = Some h" "gone = map (Pair (fst (parts p))) g @ h"
      by (auto split: option.splits)
    from Cons.prems(2) gh(3) consider "folder = fst (parts p)" "n \<in> set g" | "(folder, n) \<in> set h" by auto
    then show ?thesis
    proof cases
      case 1
      with stale_names_only [OF gh(1) 1(2)] False show ?thesis by auto
    next
      case 2
      with Cons.IH [OF gh(2)] show ?thesis by fastforce
    qed
  qed
qed simp

text \<open>A file whose name ends in a superscript digit stops the start with a \<open>ValueError\<close>.\<close>

lemma superscript_temp_stops_start:
  "remove_stale_temps 7 (\<lambda>_. Some False) (\<lambda>p. (''/h'', p)) (\<lambda>_. Some [''config.yaml.tmp-'' @ [CHR 0xB2]])
     [''config.yaml''] = None"
  by code_simp

section \<open>Settings\<close>

definition str_setting :: "pydict \<Rightarrow> string \<Rightarrow> string" where
  "str_setting cfg k = (case map_of cfg k of Some (PStr s) \<Rightarrow> s | _ \<Rightarrow> '''')"

definition int_setting :: "pydict \<Rightarrow> string \<Rightarrow> int" where
  "int_setting cfg k = (case map_of cfg k of Some (PInt n) \<Rightarrow> n | _ \<Rightarrow> 0)"

definition bool_setting :: "pydict \<Rightarrow> string \<Rightarrow> bool" where
  "bool_setting cfg k = (map_of cfg k = Some (PBool True))"

definition float_setting :: "pydict \<Rightarrow> string \<Rightarrow> rat option" where
  "float_setting cfg k = (case map_of cfg k of Some (PFloat (Fin x)) \<Rightarrow> Some x | _ \<Rightarrow> None)"

text \<open>\<open>min(max(float(sample_interval_s), 0.02), poll_interval_s)\<close>.\<close>

definition sample_interval :: "rat \<Rightarrow> rat \<Rightarrow> rat" where
  "sample_interval sample_s poll_s = min (max sample_s (2 / 100)) poll_s"

lemma sample_interval_bounds:
  "2 / 100 \<le> poll_s \<Longrightarrow> 2 / 100 \<le> sample_interval sample_s poll_s \<and> sample_interval sample_s poll_s \<le> poll_s"
  by (auto simp: sample_interval_def)

text \<open>The least pause between samples holds only against \<open>sample_interval_s\<close>, not against \<open>poll_interval_s\<close>.\<close>

lemma no_pause_with_zero_poll_interval:
  assumes "as_interval st = sample_interval sample_s 0" "0 \<le> sample_s" "ag_last a \<le> in_now x"
  shows "fst (agent_pass st row_text x a) \<noteq> TooSoon"
  using assms
  by (auto simp: sample_interval_def agent_pass_def pass_head_def agent_sample_def Let_def case_prod_beta
      split: option.split bool.split)

definition machine_name_of :: "pydict \<Rightarrow> string \<Rightarrow> string" where
  "machine_name_of cfg hostname =
     (let n = strip (str_setting cfg ''machine_name'') in if n = '''' then hostname else n)"

definition mw_data_dir :: "(string \<Rightarrow> string) \<Rightarrow> string \<Rightarrow> string" where
  "mw_data_dir expanduser config_dir =
     (if strip config_dir = '''' then '''' else path_join (expanduser (strip config_dir)) ''mw_data'')"

section \<open>The components\<close>

text \<open>
  What the outside gives at the start. The spool: its database, sidecar, size and fresh ids,
  or an exception.
\<close>

record start_env =
  se_hostname :: string
  se_session_id :: string
  se_now :: rat
  se_background :: int
  se_identity :: identity_env
  se_id_file :: id_file
  se_encode :: "string \<Rightarrow> string"
  se_journal_db :: journal_db
  se_journal :: journal_env
  se_server_starts :: bool
  se_spool :: "(spool_db \<times> sidecar option \<times> int \<times> string \<times> string) option"
  se_wall_ms :: int
  se_expanduser :: "string \<Rightarrow> string"
  se_consts :: interp_consts
  se_realpath :: "string \<Rightarrow> string"

record running_agent =
  rn_settings :: settings
  rn_agent :: agent
  rn_sender :: udp_sender
  rn_machine_name :: string
  rn_machine_uuid :: "string option"
  rn_id_file :: id_file
  rn_session_id :: string
  rn_journal_port :: int
  rn_spool :: "spool option"
  rn_forwarder :: "forwarder option"
  rn_finder :: "finder option"
  rn_status_writer :: "status_writer option"

text \<open>The spool: off without \<open>mes_enabled\<close>, without an id, and when it cannot be opened.\<close>

definition start_spool :: "pydict \<Rightarrow> rat \<Rightarrow> string option \<Rightarrow> start_env \<Rightarrow> spool option" where
  "start_spool cfg spool_mb machine_uuid env =
     (if \<not> bool_setting cfg ''mes_enabled'' then None
      else case (machine_uuid, se_spool env) of
          (Some u, Some (db, side, bytes, fresh_producer, fresh_epoch)) \<Rightarrow>
            (let sp = open_spool (max 1 \<lfloor>spool_mb * 1024 * 1024\<rfloor>) u fresh_producer fresh_epoch db side bytes
             in Some (sp\<lparr>sp_db := spool_prune (se_wall_ms env) (sp_db sp)\<rparr>))
        | _ \<Rightarrow> None)"

definition start_server :: "pydict \<Rightarrow> journal \<Rightarrow> start_env \<Rightarrow> history_server" where
  "start_server cfg j env =
     (let wanted = (0 < int_setting cfg ''journal_port'')
      in \<lparr>hs_wanted = wanted, hs_agent_id = jn_agent_id j,
          hs_alive = (wanted \<and> jn_agent_id j \<noteq> '''' \<and> se_server_starts env), hs_last_restart = se_now env\<rparr>)"

definition start_finder :: "pydict \<Rightarrow> finder option" where
  "start_finder cfg =
     (if 0 < int_setting cfg ''mes_discovery_port''
      then Some (finder_new (str_setting cfg ''monitor_interface'') (str_setting cfg ''exclude_interfaces'')) else None)"

definition start_agent :: "pydict \<Rightarrow> start_env \<Rightarrow> running_agent option" where
  "start_agent cfg env = do {
     poll_s \<leftarrow> float_setting cfg ''poll_interval_s'';
     sample_s \<leftarrow> float_setting cfg ''sample_interval_s'';
     heartbeat_s \<leftarrow> float_setting cfg ''idle_heartbeat_interval_s'';
     resend_s \<leftarrow> float_setting cfg ''gcode_resend_s'';
     journal_s \<leftarrow> float_setting cfg ''journal_interval_s'';
     journal_days \<leftarrow> float_setting cfg ''journal_days'';
     min_free_mb \<leftarrow> float_setting cfg ''journal_min_free_mb'';
     spool_mb \<leftarrow> float_setting cfg ''mes_spool_mb'';
     let identity = load_or_create (se_identity env) (se_id_file env);
     let j = journal_start journal_s journal_days min_free_mb (se_journal_db env) (se_journal env);
     let sp = start_spool cfg spool_mb (fst identity) env;
     let st = \<lparr>as_interval = sample_interval sample_s poll_s, as_read_errors = bool_setting cfg ''read_error_channel'',
               as_mes = (sp \<noteq> None), as_consts = se_consts env, as_realpath = se_realpath env\<rparr>;
     let packets = \<lparr>lo_gate = gate_init poll_s heartbeat_s, lo_seq = 0, lo_nml = [], lo_lags = [],
                    lo_server = start_server cfg j env, lo_journal = j, lo_gcode = gcode_sender_init resend_s\<rparr>;
     let mw = mw_data_dir (se_expanduser env) (str_setting cfg ''mes_millwright_config'');
     let fd = start_finder cfg;
     Some \<lparr>rn_settings = st, rn_agent = agent_start st (se_background env) mw packets,
           rn_sender = udp_sender_new (str_setting cfg ''monitor_pc_ip'') (str_setting cfg ''exclude_interfaces'')
             (key_bytes (se_encode env) (Some (str_setting cfg ''site_key''))) (str_setting cfg ''monitor_interface''),
           rn_machine_name = machine_name_of cfg (se_hostname env), rn_machine_uuid = fst identity,
           rn_id_file = snd identity, rn_session_id = se_session_id env,
           rn_journal_port = int_setting cfg ''journal_port'', rn_spool = sp,
           rn_forwarder = (if sp = None then None
             else map_option (\<lambda>u. forwarder_init (str_setting cfg ''mes_service_url'') u (fd \<noteq> None)) (fst identity)),
           rn_finder = (if sp = None then None else fd),
           rn_status_writer = (if sp = None then None else Some status_writer_new)\<rparr> }"

text \<open>What a pass of this agent takes from it: names and ids, the port, and whether MES is on.\<close>

definition own_packet_input :: "running_agent \<Rightarrow> loop_input \<Rightarrow> loop_input" where
  "own_packet_input rn x =
     x\<lparr>li_source := (li_source x)\<lparr>ps_machine_name := rn_machine_name rn, ps_session_id := rn_session_id rn\<rparr>,
       li_machine_uuid := rn_machine_uuid rn, li_journal_port := rn_journal_port rn,
       li_spool := (if rn_spool rn = None then None else li_spool x),
       li_link := (if rn_forwarder rn = None then None else li_link x)\<rparr>"

definition own_pass :: "running_agent \<Rightarrow> pass_input \<Rightarrow> pass_input" where
  "own_pass rn x = x\<lparr>in_packet := own_packet_input rn (in_packet x)\<rparr>"

section \<open>Who a packet is from\<close>

lemma payload_shape:
  assumes "packet_pass row_text x w = (r, w')" "payload_of r = Some p"
  obtains n msgs b lags rest where "build_payload (li_source x) n msgs = Some b" "p = b @ local_fields x lags @ rest"
  using assms by (auto simp: packet_pass_def Let_def split: prod.splits bool.splits option.splits)

lemma passed_input:
  assumes "agent_pass st row_text x a = (Passed r, a')"
  obtains channel path m w w' where "packet_pass row_text (packet_input x channel path m) w = (r, w')"
proof -
  obtain a1 where "agent_sample st row_text x a1 = (Passed r, a')"
    using assms by (cases st x a rule: head_cases)
      (auto simp: agent_pass_def pass_head_def Let_def split: if_splits option.splits prod.splits bool.splits pass_head.splits)
  then show thesis using that by (auto simp: agent_sample_def Let_def split: if_splits prod.splits)
qed

lemma started_parts:
  assumes "start_agent cfg env = Some rn"
  shows "rn_machine_uuid rn = fst (load_or_create (se_identity env) (se_id_file env))"
    "rn_id_file rn = snd (load_or_create (se_identity env) (se_id_file env))"
    "rn_machine_name rn = machine_name_of cfg (se_hostname env)" "rn_session_id rn = se_session_id env"
    "as_mes (rn_settings rn) = (rn_spool rn \<noteq> None)"
  using assms by (auto simp: start_agent_def Let_def split: Option.bind_splits)

lemma local_get:
  "map_of b ''machine_uuid'' = None \<Longrightarrow> li_machine_uuid x = Some u \<Longrightarrow>
   dict_get (b @ local_fields x lags @ rest) ''machine_uuid'' = PStr u"
  "map_of b ''mes_spool'' = None \<Longrightarrow> li_spool x = None \<Longrightarrow>
   dict_get (b @ local_fields x lags @ rest) ''mes_spool'' = PDict spool_status_off"
  by (auto simp: dict_get_def map_add_def local_fields_def split: option.split)

text \<open>
  C37: every packet says who sent it. All payloads of a started agent carry the machine's id,
  its name and the id of this session; the id has the UUID4 form and is the one that every
  later start on the same identity file gives, whatever its settings and whatever goes wrong
  then; and without a spool they say that the MES side is off.
\<close>

theorem packets_carry_identity:
  assumes "start_agent cfg env = Some rn" "rn_machine_uuid rn = Some u" "uuid4_match (ie_uuid (se_identity env))"
    and "agent_pass (rn_settings rn) row_text (own_pass rn x) a = (Passed r, a')" "payload_of r = Some p"
    and "start_agent cfg' env' = Some rn'" "se_id_file env' = rn_id_file rn"
  shows "dict_get p ''machine_uuid'' = PStr u \<and> dict_get p ''session_id'' = PStr (se_session_id env) \<and>
    dict_get p ''machine_name'' = PStr (machine_name_of cfg (se_hostname env)) \<and>
    uuid4_match u \<and> rn_machine_uuid rn' = Some u \<and>
    (rn_spool rn = None \<longrightarrow> dict_get p ''mes_spool'' = PDict spool_status_off)"
proof -
  note s = started_parts [OF assms(1)] and s' = started_parts [OF assms(6)]
  have "load_or_create (se_identity env) (se_id_file env) = (Some u, rn_id_file rn)"
    using assms(2) s(1,2) by (simp add: prod_eq_iff)
  then have id: "uuid4_match u \<and> load_or_create (se_identity env') (se_id_file env') = (Some u, rn_id_file rn)"
    using identity_is_stable [OF _ assms(3)] assms(7) by metis
  obtain channel path m w w' where
      run: "packet_pass row_text (packet_input (own_pass rn x) channel path m) w = (r, w')"
    using passed_input [OF assms(4)] by blast
  let ?in = "packet_input (own_pass rn x) channel path m"
  obtain n msgs b lags rest where b: "build_payload (li_source ?in) n msgs = Some b" and p: "p = b @ local_fields ?in lags @ rest"
    using payload_shape [OF run assms(5)] by blast
  have keys: "map fst b = packet_fields" by (rule payload_fields [OF b])
  have "(''session_id'', PStr (rn_session_id rn)) \<in> set b" "(''machine_name'', PStr (rn_machine_name rn)) \<in> set b"
    using b by (auto simp: build_payload_def packet_input_def own_pass_def own_packet_input_def split: Option.bind_splits)
  then have names: "map_of b ''session_id'' = Some (PStr (rn_session_id rn))" "map_of b ''machine_name'' = Some (PStr (rn_machine_name rn))"
    using keys packet_fields_distinct by simp_all
  have "''machine_uuid'' \<notin> set packet_fields" "''mes_spool'' \<notin> set packet_fields" by code_simp+
  then have none: "map_of b ''machine_uuid'' = None" "map_of b ''mes_spool'' = None"
    using keys by (metis map_of_eq_None_iff set_map)+
  have uuid: "li_machine_uuid ?in = Some u" "rn_spool rn = None \<Longrightarrow> li_spool ?in = None"
    using assms(2) by (simp_all add: packet_input_def own_pass_def own_packet_input_def)
  have "dict_get p ''session_id'' = PStr (se_session_id env)" "dict_get p ''machine_name'' = PStr (machine_name_of cfg (se_hostname env))"
    using names s(3,4) by (simp_all add: p dict_get_def map_add_def)
  moreover have "dict_get p ''machine_uuid'' = PStr u" unfolding p by (rule local_get(1) [OF none(1) uuid(1)])
  moreover have "rn_spool rn = None \<longrightarrow> dict_get p ''mes_spool'' = PDict spool_status_off"
    unfolding p using local_get(2) [OF none(2) uuid(2)] by blast
  moreover have "rn_machine_uuid rn' = Some u" using s'(1) id by simp
  ultimately show ?thesis using id by blast
qed

definition demo_start :: start_env where
  "demo_start =
     \<lparr>se_hostname = ''mill'', se_session_id = ''s1'', se_now = 1, se_background = 5,
      se_identity = demo_identity_env, se_id_file = NoFile, se_encode = (\<lambda>s. s), se_journal_db = db_empty,
      se_journal = demo_journal_env, se_server_starts = True, se_spool = None, se_wall_ms = 0,
      se_expanduser = (\<lambda>s. s), se_consts = demo_consts, se_realpath = (\<lambda>s. s)\<rparr>"

lemma packets_carry_identity_witness:
  "\<exists>r p a. agent_pass (rn_settings (the (start_agent default_config demo_start))) (\<lambda>_. ''row'')
       (own_pass (the (start_agent default_config demo_start)) (demo_pass 12))
       (snd (agent_pass (rn_settings (the (start_agent default_config demo_start))) (\<lambda>_. ''row'')
         (own_pass (the (start_agent default_config demo_start)) (demo_pass 10))
         (rn_agent (the (start_agent default_config demo_start))))) = (Passed r, a) \<and>
     payload_of r = Some p \<and> dict_get p ''machine_uuid'' = PStr (ie_uuid demo_identity_env)"
proof -
  let ?rt = "\<lambda>_ :: pydict. ''row''"
  define rn where "rn = the (start_agent default_config demo_start)"
  let ?first = "snd (agent_pass (rn_settings rn) ?rt (own_pass rn (demo_pass 10)) (rn_agent rn))"
  let ?pass = "agent_pass (rn_settings rn) ?rt (own_pass rn (demo_pass 12)) ?first"
  have "start_agent default_config demo_start \<noteq> None" by code_simp
  then have start: "start_agent default_config demo_start = Some rn" by (simp add: rn_def)
  have id: "rn_machine_uuid rn = Some (ie_uuid demo_identity_env)" unfolding rn_def by code_simp
  have match: "uuid4_match (ie_uuid (se_identity demo_start))" by code_simp
  have later: "start_agent default_config (demo_start\<lparr>se_id_file := rn_id_file rn\<rparr>) \<noteq> None"
    unfolding rn_def by code_simp
  have "(case ?pass of (Passed r, _) \<Rightarrow> payload_of r \<noteq> None | _ \<Rightarrow> False)" unfolding rn_def by code_simp
  then obtain r p where r: "?pass = (Passed r, snd ?pass)" "payload_of r = Some p"
    by (auto split: prod.splits agent_result.splits)
  have "dict_get p ''machine_uuid'' = PStr (ie_uuid demo_identity_env)"
    using packets_carry_identity [OF start id match r, of default_config "demo_start\<lparr>se_id_file := rn_id_file rn\<rparr>"] later
    by auto
  with r show ?thesis unfolding rn_def by blast
qed

end
