(* ===== verification/Service_Answers.thy ===== *)
theory Service_Answers
  imports Mes_Enrol Event_Time
begin

text \<open>
  What the agent makes of the service's answers during enrolment (\<open>fetch_ca\<close>, \<open>fetch_site\<close>,
  \<open>make_csr\<close>, \<open>post_enroll\<close>, \<open>ca_fingerprint\<close> of \<open>agent_mes_forward.py\<close>), with the two
  standard library functions the fingerprint rests on: \<open>ssl.PEM_cert_to_DER_cert\<close> and the
  lenient \<open>base64.decodebytes\<close>. \<open>Mes_Enrol\<close> takes these answers as its world; here the world is
  built from the bytes on the wire. SHA-256 and JSON decoding stay parameters.

  A byte that \<open>decode("ascii", "replace")\<close> replaces is kept as some character that is not ASCII.
\<close>

section \<open>Base64\<close>

definition b64_char :: "nat \<Rightarrow> char" where
  "b64_char v =
     char_of (if v < 26 then 65 + v else if v < 52 then 71 + v else if v < 62 then v - 4
              else if v = 62 then 43 else 47 :: nat)"

definition b64_value :: "char \<Rightarrow> nat option" where
  "b64_value c =
     (let n = of_char c :: nat
      in if 65 \<le> n \<and> n \<le> 90 then Some (n - 65) else if 97 \<le> n \<and> n \<le> 122 then Some (n - 71)
         else if 48 \<le> n \<and> n \<le> 57 then Some (n + 4) else if n = 43 then Some 62
         else if n = 47 then Some 63 else None)"

text \<open>\<open>base64.b64encode\<close>.\<close>

fun b64_encode :: "nat list \<Rightarrow> string" where
  "b64_encode [] = []"
| "b64_encode [a] = [b64_char (a div 4), b64_char (a mod 4 * 16), CHR ''='', CHR ''='']"
| "b64_encode [a, b] =
     [b64_char (a div 4), b64_char (a mod 4 * 16 + b div 16), b64_char (b mod 16 * 4), CHR ''='']"
| "b64_encode (a # b # c # r) =
     [b64_char (a div 4), b64_char (a mod 4 * 16 + b div 16), b64_char (b mod 16 * 4 + c div 64),
      b64_char (c mod 64)] @ b64_encode r"

text \<open>
  \<open>binascii.a2b_base64\<close>, not strict: \<open>q\<close> characters of a group of four read, their bits that
  are not out yet in \<open>left\<close>, \<open>pads\<close> padding characters. Other characters are skipped, and a group
  completed by padding ends the input, whatever follows.
\<close>

fun a2b :: "nat \<Rightarrow> nat \<Rightarrow> nat \<Rightarrow> string \<Rightarrow> nat list option" where
  "a2b q left pads [] = (if q = 0 then Some [] else None)"
| "a2b q left pads (c # cs) =
     (if c = CHR ''='' then
        (if 2 \<le> q then (if 4 \<le> q + (pads + 1) then Some [] else a2b q left (pads + 1) cs)
         else a2b q left pads cs)
      else case b64_value c of
          None \<Rightarrow> a2b q left pads cs
        | Some v \<Rightarrow>
            if q = 0 then a2b 1 v 0 cs
            else if q = 1 then map_option (Cons (left * 4 + v div 16)) (a2b 2 (v mod 16) 0 cs)
            else if q = 2 then map_option (Cons (left * 16 + v div 4)) (a2b 3 (v mod 4) 0 cs)
            else map_option (Cons (left * 64 + v)) (a2b 0 0 0 cs))"

definition b64_decode :: "string \<Rightarrow> nat list option" where
  "b64_decode s = (if is_ascii s then a2b 0 0 0 s else None)"

section \<open>The fingerprint of a CA\<close>

definition pem_header :: string where "pem_header = ''-----BEGIN CERTIFICATE-----''"
definition pem_footer :: string where "pem_footer = ''-----END CERTIFICATE-----''"

definition ends_with :: "string \<Rightarrow> string \<Rightarrow> bool" where
  "ends_with s t \<longleftrightarrow> starts_with (rev s) (rev t)"

definition pem_to_der :: "string \<Rightarrow> nat list option" where
  "pem_to_der pem =
     (if \<not> starts_with pem pem_header \<or> \<not> ends_with (strip pem) pem_footer then None
      else b64_decode (take (length (strip pem) - length pem_footer - length pem_header)
                        (drop (length pem_header) (strip pem))))"

definition ca_fingerprint :: "(nat list \<Rightarrow> string) \<Rightarrow> string \<Rightarrow> string option" where
  "ca_fingerprint sha256_hex pem = map_option sha256_hex (pem_to_der pem)"

section \<open>Answers\<close>

text \<open>An HTTP answer: status and body; \<open>None\<close> where the connection failed.\<close>

type_synonym http_answer = "(int \<times> string) option"

definition replace_bytes :: "string \<Rightarrow> string" where
  "replace_bytes s = map (\<lambda>c. if code_point c < 128 then c else CHR 0xFF) s"

text \<open>\<open>fetch_ca\<close>; \<open>None\<close> is every failure, each an \<open>EnrolError\<close> before anything is sent.\<close>

definition fetch_ca :: "http_answer \<Rightarrow> string option" where
  "fetch_ca ans =
     (case ans of
        None \<Rightarrow> None
      | Some (status, body) \<Rightarrow>
          if status \<noteq> 200 then None
          else (let pem = replace_bytes body in if occurs_in pem_header pem then Some pem else None))"

text \<open>\<open>loads\<close> is UTF-8 and JSON decoding (\<open>None\<close>: an error).\<close>

definition fetch_site :: "(string \<Rightarrow> pyval option) \<Rightarrow> http_answer \<Rightarrow> string option" where
  "fetch_site loads ans =
     (case ans of
        Some (status, raw) \<Rightarrow>
          if status \<noteq> 200 then None
          else (case loads raw of
              Some (PDict d) \<Rightarrow>
                (case dict_get d ''site_id'' of PStr s \<Rightarrow> if uuid4_match s then Some s else None | _ \<Rightarrow> None)
            | _ \<Rightarrow> None)
      | None \<Rightarrow> None)"

definition post_enroll :: "(string \<Rightarrow> pyval option) \<Rightarrow> http_answer \<Rightarrow> enrol_answer" where
  "post_enroll loads ans =
     (case ans of
        None \<Rightarrow> PostFailed
      | Some (status, raw) \<Rightarrow> Posted status (case loads raw of Some (PDict d) \<Rightarrow> d | _ \<Rightarrow> []))"

text \<open>\<open>make_csr\<close>: whether openssl is installed, its exit code, and the two files it wrote.\<close>

definition make_csr :: "bool \<Rightarrow> int \<Rightarrow> string \<times> string \<Rightarrow> (string \<times> string) option" where
  "make_csr installed returncode files = (if \<not> installed \<or> returncode \<noteq> 0 then None else Some files)"

text \<open>\<open>_error_of\<close>; \<open>str\<close> renders a value that is no text.\<close>

definition error_of :: "(pyval \<Rightarrow> string) \<Rightarrow> (string \<Rightarrow> pyval option) \<Rightarrow> string \<Rightarrow> string" where
  "error_of str loads raw =
     (case loads raw of
        Some (PDict d) \<Rightarrow> (case map_of d ''error'' of None \<Rightarrow> '''' | Some (PStr s) \<Rightarrow> s | Some v \<Rightarrow> str v)
      | _ \<Rightarrow> '''')"

text \<open>\<open>split_url\<close> on what \<open>urlsplit\<close> finds (scheme, host, port; \<open>None\<close>: it raises).\<close>

definition split_url ::
  "(string \<Rightarrow> (string \<times> string option \<times> int option) option) \<Rightarrow> string \<Rightarrow> (string \<times> int) option" where
  "split_url urlsplit url =
     (case urlsplit (strip url) of
        Some (scheme, Some host, port) \<Rightarrow>
          if scheme \<noteq> ''https'' \<or> host = '''' then None
          else Some (host, case port of Some p \<Rightarrow> if p \<noteq> 0 then p else 8443 | None \<Rightarrow> 8443)
      | _ \<Rightarrow> None)"

text \<open>The world of \<open>enroll\<close>, from the answers.\<close>

record service_web =
  sw_urlsplit :: "string \<Rightarrow> (string \<times> string option \<times> int option) option"
  sw_loads :: "string \<Rightarrow> pyval option"
  sw_sha256 :: "nat list \<Rightarrow> string"
  sw_ca :: http_answer
  sw_health :: http_answer
  sw_openssl :: "bool \<times> int \<times> string \<times> string"
  sw_enroll :: "string \<Rightarrow> string \<Rightarrow> http_answer"
  sw_guard :: "string option \<Rightarrow> spool_db \<Rightarrow> bool \<times> spool_db"
  sw_write_ok :: "string \<Rightarrow> bool"

definition enrol_world :: "service_web \<Rightarrow> enrol_env" where
  "enrol_world w =
     \<lparr>ee_split_url = split_url (sw_urlsplit w), ee_ca = fetch_ca (sw_ca w),
      ee_fingerprint = ca_fingerprint (sw_sha256 w), ee_site = fetch_site (sw_loads w) (sw_health w),
      ee_guard = sw_guard w,
      ee_csr = make_csr (fst (sw_openssl w)) (fst (snd (sw_openssl w))) (snd (snd (sw_openssl w))),
      ee_answer = (\<lambda>code csr. post_enroll (sw_loads w) (sw_enroll w code csr)),
      ee_write_ok = sw_write_ok w\<rparr>"

section \<open>Decoding what was encoded\<close>

lemma b64_char_value:
  assumes "v < 64"
  shows "b64_value (b64_char v) = Some v" "b64_char v \<noteq> CHR ''=''"
proof -
  show v: "b64_value (b64_char v) = Some v"
    using assms by (auto simp: b64_char_def b64_value_def Let_def)
  have "b64_value CHR ''='' = None" by (simp add: b64_value_def)
  with v show "b64_char v \<noteq> CHR ''=''" by force
qed

text \<open>The characters that count.\<close>

definition significant :: "char \<Rightarrow> bool" where
  "significant c \<longleftrightarrow> c = CHR ''='' \<or> b64_value c \<noteq> None"

lemma a2b_skip: "\<not> significant c \<Longrightarrow> a2b q left pads (c # x) = a2b q left pads x"
  by (simp add: significant_def)

lemma a2b_cong:
  assumes "\<And>q left pads. a2b q left pads x = a2b q left pads y"
  shows "a2b q left pads (c # x) = a2b q left pads (c # y)"
  by (simp add: assms split: option.split)

lemma a2b_significant: "a2b q left pads (filter significant s @ r) = a2b q left pads (s @ r)"
proof (induction s arbitrary: q left pads)
  case (Cons c s)
  show ?case
  proof (cases "significant c")
    case True
    with a2b_cong [OF Cons.IH] show ?thesis by simp
  next
    case False
    with a2b_skip [OF False] Cons.IH show ?thesis by simp
  qed
qed simp

text \<open>
  A text with the data of \<open>der\<close> decodes to \<open>der\<close>. When the data end in padding, that is so
  whatever comes after them.
\<close>

lemma six_bits:
  fixes a b c :: nat
  assumes "a < 256" "b < 256" "c < 256"
  shows "a div 4 < 64" "a mod 4 * 16 < 64" "b mod 16 * 4 < 64" "c mod 64 < 64"
    "a mod 4 * 16 + b div 16 < 64" "b mod 16 * 4 + c div 64 < 64"
    "(a mod 4 * 16 + b div 16) div 16 = a mod 4" "(a mod 4 * 16 + b div 16) mod 16 = b div 16"
    "(b mod 16 * 4 + c div 64) div 4 = b mod 16" "(b mod 16 * 4 + c div 64) mod 4 = c div 64"
  using assms by (simp_all add: div_add1_eq)

lemma eight_bits: "b < 256 \<Longrightarrow> b div 16 mod 16 * 16 + b mod 16 = (b :: nat)"
proof -
  assume "b < 256"
  then have "b div 16 < 16" by (simp add: less_mult_imp_div_less)
  then show ?thesis by simp
qed

lemma a2b_encoded:
  assumes "\<forall>a\<in>set der. a < 256" "length der mod 3 = 0 \<longrightarrow> r = []"
  shows "a2b 0 left pads (b64_encode der @ r) = Some der"
  using assms
proof (induction der arbitrary: left pads rule: b64_encode.induct)
  case (2 a)
  then show ?case using six_bits [of a 0 0] by (simp add: b64_char_value)
next
  case (3 a b)
  then show ?case using six_bits [of a b 0] by (simp add: b64_char_value)
next
  case (4 a b c r')
  then have "length r' mod 3 = 0 \<longrightarrow> r = []" by simp
  with 4 have "a2b 0 left' pads' (b64_encode r' @ r) = Some r'" for left' pads' by simp
  with 4 show ?case using six_bits [of a b c] eight_bits [of b] by (simp add: b64_char_value)
qed simp

section \<open>A second certificate\<close>

text \<open>The text of one certificate: its data between the two marker lines.\<close>

definition pem_text :: "string \<Rightarrow> string" where
  "pem_text data = pem_header @ data @ pem_footer @ [CHR 0x0A]"

lemma is_ascii_append: "is_ascii (s @ t) \<longleftrightarrow> is_ascii s \<and> is_ascii t"
  by (simp add: is_ascii_def)

lemma is_ascii_line: "is_ascii (CHR 0x0A # s) \<longleftrightarrow> is_ascii s"
  by (simp add: is_ascii_def code_point_def)

lemma markers_ascii: "is_ascii pem_header" "is_ascii pem_footer" "is_ascii [CHR 0x0A]"
  by code_simp+

lemma strip_pem: "strip (pem_header @ data @ pem_footer @ [CHR 0x0A]) = pem_header @ data @ pem_footer"
proof -
  have "list_all is_space [CHR 0x0A]" "\<not> is_space (hd pem_header)" "\<not> is_space (last pem_footer)"
    by code_simp+
  then show ?thesis
    using strip_around [of "[]" "[CHR 0x0A]" "pem_header @ data @ pem_footer"]
    by (simp add: pem_header_def pem_footer_def)
qed

lemma pem_to_der_text: "pem_to_der (pem_text data) = b64_decode data"
proof -
  have "starts_with (pem_text data) pem_header" by (auto simp: starts_with_iff pem_text_def)
  moreover have "ends_with (pem_header @ data @ pem_footer) pem_footer"
    by (auto simp: ends_with_def starts_with_iff)
  ultimately show ?thesis by (simp add: pem_to_der_def pem_text_def strip_pem)
qed

lemma b64_decode_data:
  assumes "filter significant data = b64_encode der" "\<forall>a\<in>set der. a < 256" "is_ascii (data @ r)"
    and "length der mod 3 = 0 \<longrightarrow> r = []"
  shows "b64_decode (data @ r) = Some der"
  using a2b_significant [of 0 0 0 data r] a2b_encoded [OF assms(2,4)] assms(1,3)
  by (simp add: b64_decode_def)

text \<open>A certificate alone: the fingerprint is the hash of its bytes.\<close>

lemma fingerprint_of_one:
  assumes "filter significant data = b64_encode der" "\<forall>a\<in>set der. a < 256" "is_ascii data"
  shows "ca_fingerprint sha (pem_text data) = Some (sha der)"
  using b64_decode_data [of data der "[]"] assms by (simp add: ca_fingerprint_def pem_to_der_text)

text \<open>Followed by another: the same, when the number of its bytes is no multiple of three.\<close>

lemma fingerprint_of_two:
  assumes "filter significant data = b64_encode der" "\<forall>a\<in>set der. a < 256" "is_ascii data"
    and "length der mod 3 \<noteq> 0" "is_ascii other"
  shows "ca_fingerprint sha (pem_text data @ pem_text other) = Some (sha der)"
proof -
  have "pem_text data @ pem_text other = pem_text (data @ pem_footer @ [CHR 0x0A] @ pem_header @ other)"
    by (simp add: pem_text_def)
  moreover have "b64_decode (data @ pem_footer @ [CHR 0x0A] @ pem_header @ other) = Some der"
    using assms markers_ascii by (intro b64_decode_data) (auto simp: is_ascii_append is_ascii_line)
  ultimately show ?thesis by (simp add: ca_fingerprint_def pem_to_der_text)
qed

lemma occurs_at_start: "occurs_in p (p @ s)"
  by (auto simp: occurs_in_iff)


text \<open>A site's certificate of one byte, another one behind it.\<close>

definition demo_web :: service_web where
  "demo_web =
     \<lparr>sw_urlsplit = (\<lambda>u. Some (''https'', Some ''host'', Some 8443)), sw_loads = (\<lambda>_. None),
      sw_sha256 = (\<lambda>_. demo_fp),
      sw_ca = Some (200, pem_text (CHR 0x0A # ''AQ=='' @ [CHR 0x0A]) @ pem_text (CHR 0x0A # ''Ag=='' @ [CHR 0x0A])),
      sw_health = None, sw_openssl = (True, 0, ''KEY'', ''CSR''), sw_enroll = (\<lambda>c csr. None),
      sw_guard = (\<lambda>site db. (True, db)), sw_write_ok = (\<lambda>f. True)\<rparr>"


end
