(* ===== verification/Mes_Readout.thy ===== *)
theory Mes_Readout
  imports Mes_Status Mes_Forward "HOL-Library.Monad_Syntax"
begin

text \<open>
  The readout as a person sees it: what the spool reports of itself (\<open>_read_sidecar\<close>, \<open>_bytes\<close>,
  \<open>_refresh\<close> of \<open>agent_mes_spool.py\<close>), the link's status, and the lines of \<open>--mes-status\<close>
  (\<open>_ago\<close>, \<open>format_lines\<close> of \<open>agent_mes_status.py\<close>).

  Printed lines are lists of code points, because they hold dashes outside Latin-1. \<open>None\<close> is an
  exception: the file is only checked for its schema, so a field of another type raises.
\<close>

section \<open>The spool about itself\<close>

definition read_sidecar :: "pyval option \<Rightarrow> sidecar option" where
  "read_sidecar doc =
     (case doc of
        Some (PDict d) \<Rightarrow>
          (case (dict_get d ''producer_id'', dict_get d ''epoch'', dict_get d ''seq'') of
             (PStr producer, PStr epoch, PInt n) \<Rightarrow> Some (producer, epoch, n)
           | _ \<Rightarrow> None)
      | _ \<Rightarrow> None)"

definition sidecar_doc :: "sidecar \<Rightarrow> pyval" where
  "sidecar_doc s =
     (case s of (producer, epoch, n) \<Rightarrow>
        PDict [(''producer_id'', PStr producer), (''epoch'', PStr epoch), (''seq'', PInt n)])"

lemma sidecar_read_back: "read_sidecar (Some (sidecar_doc s)) = Some s"
  by (cases s) (simp add: read_sidecar_def sidecar_doc_def dict_get_def)

text \<open>The sizes of the database and its two side files; a file that is not there counts nothing.\<close>

definition spool_bytes :: "int option list \<Rightarrow> int" where
  "spool_bytes sizes = sum_list (map (\<lambda>s. or_else s 0) sizes)"

definition warn_at :: rat where "warn_at = 9/10"

text \<open>The statistics, whether the warning is out, and whether it is logged now.\<close>

definition spool_refresh :: "int \<Rightarrow> spool \<Rightarrow> bool \<Rightarrow> pydict \<times> bool \<times> bool" where
  "spool_refresh bytes s warned =
     (let full = bytes \<ge> sp_budget s;
          high = (of_int bytes :: rat) \<ge> warn_at * of_int (sp_budget s)
      in ([(''pending'', PInt (int (length (filter is_pending (sd_rows (sp_db s)))))), (''bytes'', PInt bytes),
           (''state'', PStr (if full then ''full'' else ''ok''))],
          high, high \<and> \<not> warned))"

lemma warned_before_full:
  "0 \<le> sp_budget s \<Longrightarrow> dict_get (fst (spool_refresh bytes s w)) ''state'' = PStr ''full'' \<Longrightarrow>
   fst (snd (spool_refresh bytes s w))"
  by (auto simp: spool_refresh_def Let_def dict_get_def warn_at_def split: if_splits)

section \<open>The lines\<close>

type_synonym points = "nat list"

definition pts :: "string \<Rightarrow> points" where "pts s = map code_point s"
definition dash :: points where "dash = [32, 8212, 32]"

definition signed_text :: "int \<Rightarrow> string" where
  "signed_text n = (if n < 0 then CHR ''-'' # decimal (nat (- n)) else decimal (nat n))"

text \<open>\<open>str(v)\<close>; \<open>repr\<close> is the text of floats, lists and dictionaries.\<close>

definition str_text :: "(pyval \<Rightarrow> points) \<Rightarrow> pyval \<Rightarrow> points" where
  "str_text repr v =
     (case v of
        PStr s \<Rightarrow> pts s | PNone \<Rightarrow> pts ''None'' | PBool b \<Rightarrow> pts (if b then ''True'' else ''False'')
      | PInt n \<Rightarrow> pts (signed_text n) | _ \<Rightarrow> repr v)"

definition trunc :: "rat \<Rightarrow> int" where
  "trunc x = (if 0 \<le> x then \<lfloor>x\<rfloor> else \<lceil>x\<rceil>)"

definition ago :: "rat \<Rightarrow> pyval \<Rightarrow> points option" where
  "ago wall ms =
     (if \<not> truthy ms then Some (pts ''never'')
      else case py_num ms of
          None \<Rightarrow> None
        | Some x \<Rightarrow>
            (let s = max 0 (trunc (wall - x / 1000))
             in Some (pts (if s < 120 then signed_text s @ '' s ago''
                           else if s < 7200 then signed_text (s div 60) @ '' min ago''
                           else signed_text (s div 3600) @ '' h ago''))))"

text \<open>\<open>"%d" % v\<close>, and \<open>v.get(k, default)\<close> on a value that may be no dictionary.\<close>

definition count_text :: "pyval \<Rightarrow> points option" where
  "count_text v = map_option (\<lambda>x. pts (signed_text (trunc x))) (py_num v)"

definition member_or :: "pyval \<Rightarrow> string \<Rightarrow> pyval \<Rightarrow> pyval option" where
  "member_or v k other = (case v of PDict d \<Rightarrow> Some (or_else (map_of d k) other) | _ \<Rightarrow> None)"

definition scan_colours :: "(string \<times> string) list" where
  "scan_colours = [(''received'', ''grey''), (''pending'', ''amber''), (''bound'', ''green''), (''rejected'', ''red'')]"

definition link_colours :: "(string \<times> string) list" where
  "link_colours =
     [(''ok'', ''green''), (''offline'', ''amber''), (''not_enrolled'', ''grey''), (''cert_expired'', ''red''),
      (''rejected'', ''red'')]"

text \<open>\<open>COLOURS.get(v, "grey")\<close>: a list or a dictionary cannot be looked up.\<close>

definition colour :: "(string \<times> string) list \<Rightarrow> pyval \<Rightarrow> points option" where
  "colour table v =
     (case v of
        PStr s \<Rightarrow> Some (pts (or_else (map_of table s) ''grey''))
      | PList _ \<Rightarrow> None | PDict _ \<Rightarrow> None | _ \<Rightarrow> Some (pts ''grey''))"

definition in_brackets :: "points \<Rightarrow> points" where
  "in_brackets c = pts ''  ['' @ c @ pts '']''"

definition head_line :: "rat \<Rightarrow> pydict \<Rightarrow> string \<Rightarrow> points option" where
  "head_line wall doc problem =
     do {
       t \<leftarrow> ago wall (dict_get doc ''updated_at_ms'');
       Some (if problem = ''stopped'' then pts ''MES status: agent stopped '' @ t @ dash @ pts ''last known state:''
             else if problem = ''stale''
             then pts ''MES status: agent NOT RUNNING (last update '' @ t @ pts '')'' @ dash @ pts ''last known state:''
             else pts ''MES status (updated '' @ t @ pts ''):'')
     }"

definition operator_line :: "(pyval \<Rightarrow> points) \<Rightarrow> pydict \<Rightarrow> points option" where
  "operator_line repr doc =
     (let oper = dict_get doc ''operator''
      in if truthy oper then
           do {
             name \<leftarrow> member_or oper ''name'' PNone;
             role \<leftarrow> member_or oper ''role'' PNone;
             how \<leftarrow> member_or oper ''assurance'' PNone;
             Some (pts ''  operator : '' @ str_text repr name @ pts '' ('' @ str_text repr role @ pts '', '' @
                   str_text repr how @ pts '')'')
           }
         else Some (pts ''  operator : nobody logged in''))"

definition last_scan_line :: "(pyval \<Rightarrow> points) \<Rightarrow> pydict \<Rightarrow> points option" where
  "last_scan_line repr doc =
     (let scan = dict_get doc ''scan''
      in if truthy scan then
           do {
             st \<leftarrow> member_or scan ''status'' (PStr '''');
             reason \<leftarrow> member_or scan ''reason'' PNone;
             code \<leftarrow> member_or scan ''code'' (PStr '''');
             c \<leftarrow> colour scan_colours st;
             Some (pts ''  last scan: '' @ str_text repr code @ pts ''  '' @ str_text repr st @
                   (if truthy reason then dash @ str_text repr reason else []) @ in_brackets c)
           }
         else Some (pts ''  last scan: none''))"

definition bound_items :: "pyval \<Rightarrow> pyval list option" where
  "bound_items v =
     (case v of
        PList xs \<Rightarrow> Some xs | PStr s \<Rightarrow> Some (map (\<lambda>c. PStr [c]) s) | PDict d \<Rightarrow> Some (map (PStr \<circ> fst) d)
      | _ \<Rightarrow> None)"

definition bound_text :: "(pyval \<Rightarrow> points) \<Rightarrow> pyval \<Rightarrow> points" where
  "bound_text repr v = str_text repr (or_else (member_or v ''code'' v) v)"

fun joined :: "points \<Rightarrow> points list \<Rightarrow> points" where
  "joined sep [] = []"
| "joined sep [p] = p"
| "joined sep (p # q # r) = p @ sep @ joined sep (q # r)"

definition bound_lines :: "(pyval \<Rightarrow> points) \<Rightarrow> pydict \<Rightarrow> points list option" where
  "bound_lines repr doc =
     (let bound = val_or (dict_get doc ''bound'') (PList [])
      in if truthy bound then
           do {
             items \<leftarrow> bound_items bound;
             Some [pts ''  bound    : '' @ joined (pts '', '') (map (bound_text repr) items)]
           }
         else Some [])"

definition queue_line :: "pydict \<Rightarrow> points option" where
  "queue_line doc =
     do {
       state \<leftarrow> member_or (val_or (dict_get doc ''queue'') (PDict [])) ''state'' PNone;
       pending \<leftarrow> member_or (val_or (dict_get doc ''queue'') (PDict [])) ''pending'' (PInt 0);
       n \<leftarrow> count_text pending;
       Some (pts ''  queue    : '' @ n @ pts '' waiting to send'' @
             (if state = PStr ''full'' then 32 # dash @ pts ''SPOOL FULL, new scans refused  [red]'' else []))
     }"

definition link_line :: "(pyval \<Rightarrow> points) \<Rightarrow> rat \<Rightarrow> pydict \<Rightarrow> points option" where
  "link_line repr wall doc =
     do {
       st \<leftarrow> member_or (val_or (dict_get doc ''link'') (PDict [])) ''state'' (PStr ''not_enrolled'');
       when_ok \<leftarrow> member_or (val_or (dict_get doc ''link'') (PDict [])) ''last_ok_ms'' PNone;
       t \<leftarrow> ago wall when_ok;
       c \<leftarrow> colour link_colours st;
       Some (pts ''  link     : '' @ str_text repr st @ pts '', last OK '' @ t @ in_brackets c)
     }"

definition format_lines ::
  "(pyval \<Rightarrow> points) \<Rightarrow> rat \<Rightarrow> pydict option \<Rightarrow> string \<Rightarrow> points list option" where
  "format_lines repr wall doc problem =
     (if problem = ''missing'' then Some [pts ''MES status: none (MES is off, or the agent has not started yet)'']
      else if problem = ''unreadable'' then Some [pts ''MES status: file unreadable (being rewritten? try again)'']
      else do {
        d \<leftarrow> doc;
        head \<leftarrow> head_line wall d problem;
        oper \<leftarrow> operator_line repr d;
        scan \<leftarrow> last_scan_line repr d;
        bound \<leftarrow> bound_lines repr d;
        queue \<leftarrow> queue_line d;
        link \<leftarrow> link_line repr wall d;
        Some ([head, oper, scan] @ bound @ [queue, link])
      })"

text \<open>\<open>--mes-status\<close>: what is printed for the file.\<close>

definition mes_status_lines :: "(pyval \<Rightarrow> points) \<Rightarrow> rat \<Rightarrow> status_file \<Rightarrow> points list option" where
  "mes_status_lines repr wall f =
     (case read_status f wall of
        Some (doc, age, problem) \<Rightarrow> format_lines repr wall doc problem
      | None \<Rightarrow> None)"

section \<open>What the agent's own file prints\<close>

text \<open>\<open>_set_state\<close>: the status dictionary of the link.\<close>

definition link_state_text :: "link_state \<Rightarrow> string" where
  "link_state_text s =
     (case s of LinkOk \<Rightarrow> ''ok'' | LinkOffline \<Rightarrow> ''offline'' | LinkNotEnrolled \<Rightarrow> ''not_enrolled''
      | LinkCertExpired \<Rightarrow> ''cert_expired'' | LinkRejected \<Rightarrow> ''rejected'')"

definition link_status :: "forwarder \<Rightarrow> pydict" where
  "link_status f =
     (''state'', PStr (link_state_text (fw_state f))) #
     (case fw_last_ok f of Some t \<Rightarrow> [(''last_ok_ms'', PInt t)] | None \<Rightarrow> [])"

definition link_colour :: "link_state \<Rightarrow> string" where
  "link_colour s =
     (case s of LinkOk \<Rightarrow> ''green'' | LinkOffline \<Rightarrow> ''amber'' | LinkNotEnrolled \<Rightarrow> ''grey'' | _ \<Rightarrow> ''red'')"

lemma ago_int: "\<exists>t. ago wall (PInt n) = Some t"
  by (simp add: ago_def Let_def)

lemma ago_none [simp]: "ago wall PNone = Some (pts ''never'')"
  by (simp add: ago_def)

text \<open>
  A document the agent built prints in five lines. The queue's line is red exactly when the
  spool, at the size it was measured, refuses new events, and the link has the colour of its
  state.
\<close>

theorem readout_lines:
  assumes stats: "stats = fst (spool_refresh bytes s warned)"
    and built: "build_status uuid (Some stats) (Some (link_status f)) oper None [] running = Some d"
    and read: "read_status (FileJson (PDict (stamped t d))) wall = Some (Some d', age, problem)"
  shows "\<exists>head who ok_text.
    format_lines repr wall (Some d') problem =
      Some [head, who, pts ''  last scan: none'',
        pts ''  queue    : '' @ pts (signed_text (int (length (filter is_pending (sd_rows (sp_db s)))))) @
          pts '' waiting to send'' @
          (if sp_budget s \<le> bytes then 32 # dash @ pts ''SPOOL FULL, new scans refused  [red]'' else []),
        pts ''  link     : '' @ pts (link_state_text (fw_state f)) @ pts '', last OK '' @ ok_text @
          in_brackets (pts (link_colour (fw_state f)))] \<and>
    (sp_budget s \<le> bytes \<longrightarrow>
       (\<forall>cd env items cursor. so_bytes env = bytes \<longrightarrow> fst (append_locked cd env items cursor False s) = Inl SpoolFull))"
proof -
  let ?n = "int (length (filter is_pending (sd_rows (sp_db s))))"
  let ?full = "sp_budget s \<le> bytes"
  have d: "d = [(''schema'', PStr status_schema), (''running'', PBool running),
      (''machine_uuid'', case uuid of Some u \<Rightarrow> PStr u | None \<Rightarrow> PNone), (''operator'', dict_or oper PNone),
      (''queue'', PDict [(''pending'', PInt ?n), (''bytes'', PInt bytes), (''state'', PStr (if ?full then ''full'' else ''ok''))]),
      (''link'', PDict (link_status f)), (''scan'', PNone), (''bound'', PList [])]"
    using built stats
    by (simp add: build_status_def spool_refresh_def Let_def count_of_def dict_or_def link_status_def to_int_def)
  have d': "d' = stamped t d" and p: "problem \<noteq> ''missing''" "problem \<noteq> ''unreadable''"
    using read by (auto simp: read_status_def Let_def split: if_splits option.splits coerced.splits pyfloat.splits pyval.splits)
  have get: "dict_get d' ''updated_at_ms'' = PInt (wall_ms t)" "dict_get d' ''operator'' = dict_or oper PNone"
    "dict_get d' ''scan'' = PNone" "dict_get d' ''bound'' = PList []" "dict_get d' ''link'' = PDict (link_status f)"
    "dict_get d' ''queue'' = PDict [(''pending'', PInt ?n), (''bytes'', PInt bytes), (''state'', PStr (if ?full then ''full'' else ''ok''))]"
    unfolding d' d by (simp_all add: stamped_def dict_get_def update_conv')
  obtain since where since: "ago wall (PInt (wall_ms t)) = Some since" using ago_int by blast
  obtain head where head: "head_line wall d' problem = Some head" by (simp add: head_line_def get(1) since)
  obtain who where who: "operator_line repr d' = Some who"
  proof -
    have "dict_or oper PNone = PNone \<or> (\<exists>kvs. dict_or oper PNone = PDict kvs)"
      by (auto simp: dict_or_def split: option.split list.split)
    then have "\<exists>who. operator_line repr d' = Some who"
      by (auto simp: operator_line_def get(2) member_or_def Let_def)
    with that show thesis by blast
  qed
  have link: "\<exists>ok_text. link_line repr wall d' = Some (pts ''  link     : '' @ pts (link_state_text (fw_state f)) @
      pts '', last OK '' @ ok_text @ in_brackets (pts (link_colour (fw_state f))))"
  proof -
    obtain ok where ok: "ago wall (case fw_last_ok f of Some t \<Rightarrow> PInt t | None \<Rightarrow> PNone) = Some ok"
      using ago_int by (cases "fw_last_ok f") auto
    have "colour link_colours (PStr (link_state_text (fw_state f))) = Some (pts (link_colour (fw_state f)))"
      by (cases "fw_state f") (simp_all add: colour_def link_colours_def link_state_text_def link_colour_def)
    with ok show ?thesis
      by (cases "fw_last_ok f") (simp_all add: link_line_def get(5) val_or_def link_status_def member_or_def str_text_def)
  qed
  have lines: "last_scan_line repr d' = Some (pts ''  last scan: none'')" "bound_lines repr d' = Some []"
    by (simp_all add: last_scan_line_def bound_lines_def get(3,4) val_or_def Let_def)
  have queue: "queue_line d' = Some (pts ''  queue    : '' @ pts (signed_text ?n) @ pts '' waiting to send'' @
      (if ?full then 32 # dash @ pts ''SPOOL FULL, new scans refused  [red]'' else []))"
    by (simp add: queue_line_def get(6) val_or_def member_or_def count_text_def trunc_def)
  have "?full \<longrightarrow> (\<forall>cd env items cursor. so_bytes env = bytes \<longrightarrow>
      fst (append_locked cd env items cursor False s) = Inl SpoolFull)"
    by (simp add: append_locked_def)
  moreover from link obtain ok_text where "link_line repr wall d' = Some (pts ''  link     : '' @
      pts (link_state_text (fw_state f)) @ pts '', last OK '' @ ok_text @
      in_brackets (pts (link_colour (fw_state f))))" by blast
  ultimately show ?thesis
    using p head who lines queue by (auto simp: format_lines_def)
qed

text \<open>
  A file with the right schema and a field of another type is not called unreadable: the
  command ends with an exception.
\<close>

lemma damaged_readout_raises:
  "mes_status_lines repr wall (FileJson (PDict [(''schema'', PStr status_schema), (''operator'', PStr ''x'')])) = None"
  by (simp add: mes_status_lines_def read_status_def dict_get_def to_float_def format_lines_def head_line_def
      operator_line_def ago_def member_or_def Let_def)

end
