(* ===== verification/Fleet_Sim.thy ===== *)
theory Fleet_Sim
  imports Packet_Loop Event_Time "HOL-Library.Multiset" "HOL-Library.List_Lexorder" "HOL-Library.Char_ord"
begin

text \<open>
  The fleet simulator (\<open>tools/fleet_sim.py\<close>): simulated machines with the agent's own packet
  gate, journal and program sender, the ground truth it writes, and \<open>check\<close>, which compares a
  dashboard's database with it.

  Python's generator is a parameter: what \<open>random()\<close> and \<open>randrange(n)\<close> give at each draw, and
  the hexadecimal digits of the \<open>uuid4\<close> made there. Signing and the socket belong to the network;
  \<open>wire\<close> holds the datagrams given to \<open>raw\<close>.
\<close>

section \<open>Random draws\<close>

record sim_rng =
  rg_random :: "nat \<Rightarrow> rat"
  rg_below :: "nat \<Rightarrow> int \<Rightarrow> int"
  rg_hex :: "nat \<Rightarrow> string"
  rg_used :: nat

definition draw :: "sim_rng \<Rightarrow> rat \<times> sim_rng" where
  "draw r = (rg_random r (rg_used r), r\<lparr>rg_used := rg_used r + 1\<rparr>)"

definition uniform :: "rat \<Rightarrow> rat \<Rightarrow> sim_rng \<Rightarrow> rat \<times> sim_rng" where
  "uniform a b r = (case draw r of (x, r1) \<Rightarrow> (a + (b - a) * x, r1))"

definition randrange :: "int \<Rightarrow> sim_rng \<Rightarrow> int \<times> sim_rng" where
  "randrange n r = (rg_below r (rg_used r) n, r\<lparr>rg_used := rg_used r + 1\<rparr>)"

text \<open>\<open>a and rng.random() < p\<close>: without \<open>a\<close> nothing is drawn.\<close>

definition flips :: "bool \<Rightarrow> rat \<Rightarrow> sim_rng \<Rightarrow> bool \<times> sim_rng" where
  "flips a p r = (if a then case draw r of (x, r1) \<Rightarrow> (x < p, r1) else (False, r))"

text \<open>What the documentation promises of the draws, and the ids drawn so far.\<close>

definition fair :: "sim_rng \<Rightarrow> bool" where
  "fair r \<longleftrightarrow> (\<forall>n. 0 \<le> rg_random r n \<and> rg_random r n < 1) \<and>
     (\<forall>n k. 0 < k \<longrightarrow> 0 \<le> rg_below r n k \<and> rg_below r n k < k)"

definition session_hex :: "sim_rng \<Rightarrow> nat \<Rightarrow> string" where
  "session_hex r n = take 16 (rg_hex r n)"

text \<open>\<open>_span\<close>: \<open>"lo,hi"\<close> or \<open>"lo"\<close>; \<open>None\<close> where \<open>float\<close> raises.\<close>

definition float_text :: "string \<Rightarrow> pyfloat option" where
  "float_text s = (case to_float (PStr s) of Converted (PFloat x) \<Rightarrow> Some x | _ \<Rightarrow> None)"

definition span_of :: "string \<Rightarrow> (pyfloat \<times> pyfloat) option" where
  "span_of s =
     (case partition_at CHR '','' s of
        (lo, hi) \<Rightarrow>
          (case float_text lo of
             None \<Rightarrow> None
           | Some a \<Rightarrow>
               if or_else hi '''' = '''' then Some (a, a)
               else map_option (\<lambda>b. (a, b)) (float_text (or_else hi ''''))))"

section \<open>Sender\<close>

text \<open>\<open>held\<close> is a dictionary from machine names to packets.\<close>

record sim_sender =
  sd_drop :: rat
  sd_reorder :: rat
  sd_held :: "(string \<times> string) list"
  sd_sent :: int
  sd_dropped :: int
  sd_swapped :: int
  sd_wire :: "string list"

definition sender_new :: "rat \<Rightarrow> rat \<Rightarrow> sim_sender" where
  "sender_new loses swaps =
     \<lparr>sd_drop = loses, sd_reorder = swaps, sd_held = [], sd_sent = 0, sd_dropped = 0, sd_swapped = 0,
      sd_wire = []\<rparr>"

definition sender_raw :: "string \<Rightarrow> sim_sender \<Rightarrow> sim_sender" where
  "sender_raw data s = s\<lparr>sd_wire := sd_wire s @ [data]\<rparr>"

definition sender_status :: "string \<Rightarrow> string \<Rightarrow> sim_sender \<times> sim_rng \<Rightarrow> sim_sender \<times> sim_rng" where
  "sender_status name data sr =
     (case sr of (s, r) \<Rightarrow>
        (case flips (sd_drop s \<noteq> 0) (sd_drop s) r of
           (True, r1) \<Rightarrow> (s\<lparr>sd_dropped := sd_dropped s + 1\<rparr>, r1)
         | (False, r1) \<Rightarrow>
             (case map_of (sd_held s) name of
                Some older \<Rightarrow>
                  ((sender_raw older (sender_raw data s))
                     \<lparr>sd_held := AList.delete name (sd_held s), sd_sent := sd_sent s + 2,
                      sd_swapped := sd_swapped s + 1\<rparr>, r1)
              | None \<Rightarrow>
                  (case flips (sd_reorder s \<noteq> 0) (sd_reorder s) r1 of
                     (True, r2) \<Rightarrow> (s\<lparr>sd_held := AList.update name data (sd_held s)\<rparr>, r2)
                   | (False, r2) \<Rightarrow> ((sender_raw data s)\<lparr>sd_sent := sd_sent s + 1\<rparr>, r2)))))"

section \<open>A simulated machine\<close>

definition sim_rcs_done :: int where "sim_rcs_done = 1"
definition sim_rcs_exec :: int where "sim_rcs_exec = 2"
definition sim_rcs_error :: int where "sim_rcs_error = 3"
definition sim_state_estop :: int where "sim_state_estop = 1"
definition sim_state_on :: int where "sim_state_on = 4"
definition sim_joints :: nat where "sim_joints = 3"

lemmas sim_codes = sim_rcs_done_def sim_rcs_exec_def sim_rcs_error_def

record sim_args =
  sa_prefix :: string
  sa_journal_interval :: rat
  sa_journal_base_port :: int
  sa_poll :: rat
  sa_heartbeat :: rat
  sa_gcode_resend :: rat
  sa_cycle :: "rat \<times> rat"
  sa_idle :: "rat \<times> rat"
  sa_abort_prob :: rat
  sa_estop_rate :: rat
  sa_joint_fault_rate :: rat
  sa_cmd_error_rate :: rat
  sa_restart_rate :: rat
  sa_minutes :: rat
  sa_settle :: rat

record sim_truth =
  tr_parts :: int
  tr_aborts :: int
  tr_estops :: int
  tr_cmd_failures :: int
  tr_joint_faults :: "int list"
  tr_sessions :: int

record sim_machine =
  sm_name :: string
  sm_uuid :: string
  sm_port :: int
  sm_program :: "string option"
  sm_journal :: journal
  sm_gcode :: "gcode_sender option"
  sm_truth :: sim_truth
  sm_session_id :: string
  sm_packet_seq :: int
  sm_parts :: int
  sm_aborts :: int
  sm_state :: string
  sm_cycle_start :: rat
  sm_cycle_end :: rat
  sm_abort_at :: "rat option"
  sm_last_cycle_ms :: int
  sm_estop_until :: rat
  sm_joint_until :: "rat list"
  sm_estop_was :: bool
  sm_joint_was :: "bool list"
  sm_cmd_state :: int
  sm_cmd_serial :: int
  sm_cmd_clear_at :: rat
  sm_again_at :: "rat option"
  sm_next_start :: rat
  sm_gate :: packet_gate

type_synonym sim = "sim_machine \<times> sim_rng"

text \<open>A change of one counter of the ground truth.\<close>

abbreviation truly :: "(sim_truth \<Rightarrow> sim_truth) \<Rightarrow> sim_machine \<Rightarrow> sim_machine" where
  "truly f m \<equiv> m\<lparr>sm_truth := f (sm_truth m)\<rparr>"

definition new_session :: "sim_args \<Rightarrow> rat \<Rightarrow> sim \<Rightarrow> sim" where
  "new_session a now s =
     (case s of (m, r) \<Rightarrow>
        (case uniform (fst (sa_idle a)) (snd (sa_idle a)) r of (wait, r1) \<Rightarrow>
          (truly (\<lambda>t. t\<lparr>tr_sessions := tr_sessions t + 1\<rparr>)
             (m\<lparr>sm_session_id := session_hex r (rg_used r), sm_packet_seq := 0, sm_parts := 0, sm_aborts := 0,
                sm_state := ''IDLE'', sm_cycle_start := 0, sm_cycle_end := 0, sm_abort_at := None,
                sm_last_cycle_ms := 0, sm_estop_until := 0, sm_joint_until := replicate sim_joints 0,
                sm_estop_was := False, sm_joint_was := replicate sim_joints False,
                sm_cmd_state := sim_rcs_done, sm_cmd_clear_at := 0, sm_again_at := None,
                sm_next_start := now + wait, sm_gate := gate_init (sa_poll a) (sa_heartbeat a)\<rparr>), r1)))"

definition chance :: "rat \<Rightarrow> rat \<Rightarrow> sim_rng \<Rightarrow> bool \<times> sim_rng" where
  "chance per_hour dt r = flips (0 < per_hour) (per_hour * dt / 3600) r"

definition sim_abort :: "sim_machine \<Rightarrow> sim_machine" where
  "sim_abort m =
     truly (\<lambda>t. t\<lparr>tr_aborts := tr_aborts t + 1\<rparr>)
       (m\<lparr>sm_aborts := sm_aborts m + 1, sm_state := ''IDLE'', sm_cmd_state := sim_rcs_done,
          sm_abort_at := None\<rparr>)"

definition fail_command :: "rat \<Rightarrow> sim \<Rightarrow> sim" where
  "fail_command now s =
     (case s of (m, r) \<Rightarrow>
        (case uniform 2 20 r of (d, r1) \<Rightarrow>
          (truly (\<lambda>t. t\<lparr>tr_cmd_failures := tr_cmd_failures t + 1\<rparr>)
             (m\<lparr>sm_cmd_serial := sm_cmd_serial m + 1, sm_cmd_state := sim_rcs_error,
                sm_cmd_clear_at := now + d\<rparr>), r1)))"

subsection \<open>step\<close>

text \<open>The parts of \<open>step\<close> in its order. A restart ends it.\<close>

definition draws_restart :: "sim_args \<Rightarrow> rat \<Rightarrow> rat \<Rightarrow> bool \<Rightarrow> sim \<Rightarrow> bool \<times> sim_rng" where
  "draws_restart a now dt quiet s =
     (case s of (m, r) \<Rightarrow>
        if \<not> quiet \<and> sm_state m = ''IDLE'' \<and> \<not> now < sm_estop_until m then chance (sa_restart_rate a) dt r
        else (False, r))"

definition step_estop :: "sim_args \<Rightarrow> rat \<Rightarrow> rat \<Rightarrow> bool \<Rightarrow> sim \<Rightarrow> bool \<times> sim" where
  "step_estop a now dt quiet s =
     (case s of (m, r) \<Rightarrow>
        (case (if \<not> quiet \<and> \<not> now < sm_estop_until m \<and> \<not> sm_estop_was m
               then chance (sa_estop_rate a) dt r else (False, r)) of
           (False, r1) \<Rightarrow> (now < sm_estop_until m, m, r1)
         | (True, r1) \<Rightarrow>
             (case uniform (3/10) 3 r1 of (d, r2) \<Rightarrow>
               (let m1 = truly (\<lambda>t. t\<lparr>tr_estops := tr_estops t + 1\<rparr>) (m\<lparr>sm_estop_until := now + d\<rparr>)
                in (True, if sm_state m1 = ''RUNNING'' then sim_abort m1 else m1, r2)))))"

definition joint_fault :: "rat \<Rightarrow> sim \<Rightarrow> sim" where
  "joint_fault now s =
     (case s of (m, r) \<Rightarrow>
        (case randrange (int sim_joints) r of (j0, r1) \<Rightarrow>
          (let j = nat j0
           in if sm_joint_until m ! j \<le> now \<and> \<not> sm_joint_was m ! j then
                (case uniform (2/10) 2 r1 of (d, r2) \<Rightarrow>
                  (truly (\<lambda>t. t\<lparr>tr_joint_faults := (tr_joint_faults t)[j := tr_joint_faults t ! j + 1]\<rparr>)
                     (m\<lparr>sm_joint_until := (sm_joint_until m)[j := now + d]\<rparr>), r2))
              else (m, r1))))"

definition operator_tries :: "rat \<Rightarrow> sim \<Rightarrow> sim" where
  "operator_tries now s =
     (case fail_command now s of (m, r) \<Rightarrow>
        (case draw r of (x, r1) \<Rightarrow> (if x < 3/10 then m\<lparr>sm_again_at := Some (now + 1/2)\<rparr> else m, r1)))"

definition step_faults :: "sim_args \<Rightarrow> rat \<Rightarrow> rat \<Rightarrow> bool \<Rightarrow> bool \<Rightarrow> sim \<Rightarrow> sim" where
  "step_faults a now dt quiet estop s =
     (case s of (m, r) \<Rightarrow>
        if \<not> quiet \<and> sm_state m = ''IDLE'' \<and> \<not> estop \<and> sm_cmd_state m \<noteq> sim_rcs_error then
          (case chance (sa_joint_fault_rate a) dt r of (hit, r1) \<Rightarrow>
            (case (if hit then joint_fault now (m, r1) else (m, r1)) of (m1, r2) \<Rightarrow>
              (case chance (sa_cmd_error_rate a) dt r2 of (fails, r3) \<Rightarrow>
                if fails then operator_tries now (m1, r3) else (m1, r3))))
        else (m, r))"

definition step_again :: "rat \<Rightarrow> bool \<Rightarrow> sim \<Rightarrow> sim" where
  "step_again now estop s =
     (case s of (m, r) \<Rightarrow>
        (case sm_again_at m of
           None \<Rightarrow> (m, r)
         | Some t \<Rightarrow>
             if t \<le> now then
               (let m1 = m\<lparr>sm_again_at := None\<rparr>
                in if sm_cmd_state m1 = sim_rcs_error \<and> \<not> estop then fail_command now (m1, r) else (m1, r))
             else (m, r)))"

definition step_clear :: "rat \<Rightarrow> sim_machine \<Rightarrow> sim_machine" where
  "step_clear now m =
     (if sm_cmd_state m = sim_rcs_error \<and> sm_cmd_clear_at m \<le> now
      then m\<lparr>sm_cmd_serial := sm_cmd_serial m + 1, sm_cmd_state := sim_rcs_done\<rparr> else m)"

definition begin_cycle :: "sim_args \<Rightarrow> rat \<Rightarrow> sim \<Rightarrow> sim" where
  "begin_cycle a now s =
     (case s of (m, r) \<Rightarrow>
        (case uniform (fst (sa_cycle a)) (snd (sa_cycle a)) r of (len, r1) \<Rightarrow>
          (case flips True (sa_abort_prob a) r1 of (aborts, r2) \<Rightarrow>
            (case (if aborts then case uniform (2/10) (9/10) r2 of (f, r3) \<Rightarrow> (Some (now + (now + len - now) * f), r3)
                   else (None, r2)) of (stop, r4) \<Rightarrow>
              (m\<lparr>sm_cmd_serial := sm_cmd_serial m + 1, sm_cmd_state := sim_rcs_exec, sm_state := ''RUNNING'',
                 sm_cycle_start := now, sm_cycle_end := now + len, sm_abort_at := stop\<rparr>, r4)))))"

definition trunc_ms :: "rat \<Rightarrow> int" where
  "trunc_ms s = (if 0 \<le> s then \<lfloor>s * 1000\<rfloor> else \<lceil>s * 1000\<rceil>)"

definition end_part :: "rat \<Rightarrow> sim_machine \<Rightarrow> sim_machine" where
  "end_part now m =
     truly (\<lambda>t. t\<lparr>tr_parts := tr_parts t + 1\<rparr>)
       (m\<lparr>sm_parts := sm_parts m + 1, sm_last_cycle_ms := trunc_ms (now - sm_cycle_start m),
          sm_state := ''IDLE'', sm_cmd_state := sim_rcs_done\<rparr>)"

definition idle_for :: "sim_args \<Rightarrow> rat \<Rightarrow> sim \<Rightarrow> sim" where
  "idle_for a now s =
     (case s of (m, r) \<Rightarrow>
        (case uniform (fst (sa_idle a)) (snd (sa_idle a)) r of (wait, r1) \<Rightarrow> (m\<lparr>sm_next_start := now + wait\<rparr>, r1)))"

definition step_cycle :: "sim_args \<Rightarrow> rat \<Rightarrow> bool \<Rightarrow> bool \<Rightarrow> sim \<Rightarrow> sim" where
  "step_cycle a now quiet estop s =
     (case s of (m, r) \<Rightarrow>
        (let faulted = estop \<or> list_ex (\<lambda>t. now < t) (sm_joint_until m)
         in if sm_state m = ''IDLE'' then
              if \<not> quiet \<and> \<not> faulted \<and> sm_cmd_state m \<noteq> sim_rcs_error \<and> sm_next_start m \<le> now
              then begin_cycle a now (m, r) else (m, r)
            else if sm_state m = ''RUNNING'' then
              if (case sm_abort_at m of Some t \<Rightarrow> t \<le> now | None \<Rightarrow> False) then idle_for a now (sim_abort m, r)
              else if sm_cycle_end m \<le> now then idle_for a now (end_part now m, r)
              else (m, r)
            else (m, r)))"

definition note_faults :: "rat \<Rightarrow> sim_machine \<Rightarrow> sim_machine" where
  "note_faults now m =
     m\<lparr>sm_estop_was := now < sm_estop_until m, sm_joint_was := map (\<lambda>t. now < t) (sm_joint_until m)\<rparr>"

definition sim_step :: "sim_args \<Rightarrow> rat \<Rightarrow> rat \<Rightarrow> bool \<Rightarrow> sim \<Rightarrow> sim" where
  "sim_step a now dt quiet s =
     (case draws_restart a now dt quiet s of
        (True, r) \<Rightarrow> new_session a now (fst s, r)
      | (False, r) \<Rightarrow>
          (case step_estop a now dt quiet (fst s, r) of (estop, s1) \<Rightarrow>
            (case step_again now estop (step_faults a now dt quiet estop s1) of (m2, r2) \<Rightarrow>
              (case step_cycle a now quiet estop (step_clear now m2, r2) of (m3, r3) \<Rightarrow>
                (note_faults now m3, r3)))))"

subsection \<open>Start\<close>

text \<open>
  \<open>f"{prefix}{index + 1:03d}"\<close>, and a machine on a journal that was opened, with the id
  \<open>load_or_create\<close> gave.
\<close>

definition three_digits :: "nat \<Rightarrow> string" where
  "three_digits n = (if n < 1000 then padded 3 n else decimal n)"

definition sim_new ::
  "sim_args \<Rightarrow> nat \<Rightarrow> rat \<Rightarrow> string \<Rightarrow> journal \<Rightarrow> string option \<Rightarrow> sim_rng \<Rightarrow> sim" where
  "sim_new a index now uuid j program r =
     (case randrange 50 r of (serial, r1) \<Rightarrow>
        new_session a now
          (\<lparr>sm_name = sa_prefix a @ three_digits (index + 1), sm_uuid = uuid,
            sm_port = (if sa_journal_base_port a \<noteq> 0 then sa_journal_base_port a + int index else 0),
            sm_program = program, sm_journal = j,
            sm_gcode = (if or_else program '''' = '''' then None else Some (gcode_sender_init (sa_gcode_resend a))),
            sm_truth = \<lparr>tr_parts = 0, tr_aborts = 0, tr_estops = 0, tr_cmd_failures = 0,
                        tr_joint_faults = replicate sim_joints 0, tr_sessions = 0\<rparr>,
            sm_session_id = '''', sm_packet_seq = 0, sm_parts = 0, sm_aborts = 0, sm_state = ''IDLE'',
            sm_cycle_start = 0, sm_cycle_end = 0, sm_abort_at = None, sm_last_cycle_ms = 0,
            sm_estop_until = 0, sm_joint_until = [], sm_estop_was = False, sm_joint_was = [],
            sm_cmd_state = sim_rcs_done, sm_cmd_serial = 1 + serial, sm_cmd_clear_at = 0, sm_again_at = None,
            sm_next_start = 0, sm_gate = gate_init (sa_poll a) (sa_heartbeat a)\<rparr>, r1))"

subsection \<open>Packets\<close>

definition failed_serial :: "sim_machine \<Rightarrow> int option" where
  "failed_serial m = (if sm_cmd_state m = sim_rcs_error then Some (sm_cmd_serial m) else None)"

definition sim_signature :: "rat \<Rightarrow> sim_machine \<Rightarrow> fault_sig" where
  "sim_signature now m =
     (let estop = now < sm_estop_until m
      in (estop, if estop then sim_state_estop else sim_state_on, False,
          map (\<lambda>t. (now < t, False)) (sm_joint_until m), failed_serial m))"

definition sim_file_meta :: "sim_machine \<Rightarrow> (int \<times> rat) option \<Rightarrow> string \<times> int \<times> int" where
  "sim_file_meta m st = file_meta (or_else (sm_program m) '''') st"

definition num :: "rat \<Rightarrow> pyval" where "num x = PFloat (Fin x)"
definition zeros :: "nat \<Rightarrow> pyval" where "zeros n = PList (replicate n (num 0))"

definition progress_pct :: "rat \<Rightarrow> sim_machine \<Rightarrow> rat" where
  "progress_pct now m =
     (if sm_state m = ''RUNNING''
      then py_round 1 (min (999/10) (100 * (now - sm_cycle_start m) / max (1/1000) (sm_cycle_end m - sm_cycle_start m)))
      else 0)"

definition joint_dict :: "rat \<Rightarrow> rat \<Rightarrow> nat \<Rightarrow> rat \<Rightarrow> pyval" where
  "joint_dict now x j t =
     PDict [(''id'', PInt (int j)), (''pos'', num x), (''vel'', num 0), (''homed'', PBool True),
            (''fault'', PBool (now < t)), (''ferror'', num 0), (''hard_limit'', PBool False)]"

definition sim_payload :: "rat \<Rightarrow> int \<Rightarrow> (int \<times> rat) option \<Rightarrow> sim_machine \<Rightarrow> pydict" where
  "sim_payload now ts st m =
     (let estop = now < sm_estop_until m;
          running = sm_state m = ''RUNNING'';
          pct = progress_pct now m;
          line = (if running then (if 0 \<le> pct then \<lfloor>pct * 10\<rfloor> else \<lceil>pct * 10\<rceil>) + 1 else 0);
          x = py_round 4 (50 * pct / 100)
      in [(''type'', PStr ''status''), (''proto'', PInt 1), (''ts'', PInt ts),
          (''machine_name'', PStr (sm_name m)), (''machine_uuid'', PStr (sm_uuid m)),
          (''session_id'', PStr (sm_session_id m)), (''packet_seq'', PInt (sm_packet_seq m)),
          (''cycle_state'', PStr (sm_state m)),
          (''cycle_time_ms'', PInt (if running then trunc_ms (now - sm_cycle_start m) else 0)),
          (''parts_produced'', PInt (sm_parts m)), (''abort_count'', PInt (sm_aborts m)),
          (''run_from_here_count'', PInt 0), (''last_cycle_ms'', PInt (sm_last_cycle_ms m)),
          (''last_abort_ms'', PInt 0), (''avg_cycle_ms'', val_or (PInt (sm_last_cycle_ms m)) PNone),
          (''total_completed_cycles'', PInt (sm_parts m)), (''cycle_complete_signalled'', PBool False),
          (''is_run_from_here'', PBool False), (''partial_parts'', PInt 0), (''partial_part_equiv'', num 0),
          (''last_partial_pct'', PNone), (''program_progress_pct'', num pct),
          (''part_in_progress'', PBool running), (''gcode_end_line'', PInt 1002),
          (''gcode_first_exec_line'', PInt 1), (''gcode_tail_line'', PInt 1001),
          (''task_state'', PInt (if estop then sim_state_estop else sim_state_on)),
          (''task_mode'', PInt (if running then 2 else 1)), (''interp_state'', PInt (if running then 2 else 1)),
          (''exec_state'', PInt 2), (''estop'', PBool estop), (''enabled'', PBool (\<not> estop)),
          (''paused'', PBool False), (''cmd_state'', PInt (sm_cmd_state m)),
          (''cmd_serial'', PInt (sm_cmd_serial m)), (''tool_in_spindle'', PInt 1), (''g5x_index'', PInt 1),
          (''wcs'', PStr ''G54''), (''g5x_offset'', zeros 9), (''g92_offset'', zeros 9),
          (''tool_offset'', zeros 9), (''gcodes'', PList []), (''mcodes'', PList []), (''settings'', PList []),
          (''current_vel'', num (if running then 25 else 0)), (''distance_to_go'', num 0),
          (''motion_type'', PInt (if running then 2 else 0)), (''motion_line'', PInt line),
          (''current_line'', PInt line), (''delay_left'', num 0), (''feedrate'', num 1), (''rapidrate'', num 1),
          (''axis'', PDict (map (\<lambda>n. (n, PDict [(''pos'', num x), (''work'', num x), (''vel'', num 0),
                                                 (''min_pos_limit'', num (- 500)), (''max_pos_limit'', num 500)]))
                              [''x'', ''y'', ''z''])),
          (''joints'', PList (map (\<lambda>j. joint_dict now x j (sm_joint_until m ! j)) [0..<sim_joints])),
          (''spindles'', PList [PDict [(''id'', PInt 0), (''speed'', num (if running then 12000 else 0)),
                                       (''direction'', PInt (if running then 1 else 0)), (''override'', num 1),
                                       (''at_speed'', PBool running), (''enabled'', PBool running)]])] @
         (case sim_file_meta m st of (name, bytes, modified) \<Rightarrow>
            [(''file_name'', PStr name), (''file_size'', PInt bytes), (''file_modified_ms'', PInt modified)]) @
         [(''nml_errors'', PList [])])"

text \<open>What a tick reads of the world; \<open>os.stat\<close> is asked twice, and the file sender has its own clock.\<close>

record sim_input =
  si_ts :: int
  si_stat_check :: "(int \<times> rat) option"
  si_stat :: "(int \<times> rat) option"
  si_gcode_now :: rat
  si_journal :: journal_env
  si_server_alive :: bool

definition journal_members :: "sim_input \<Rightarrow> int \<Rightarrow> journal \<Rightarrow> pydict" where
  "journal_members x port j =
     (if jn_conn j then [(''agent_id'', PStr (jn_agent_id j)), (''journal_seq'', PInt (jn_last_seq j)),
                         (''journal_port'', PInt (if si_server_alive x then port else 0))] else [])"

text \<open>\<open>tick\<close>: the packet it gives to \<open>sender.status\<close>, if any, and the machine afterwards.\<close>

definition sim_tick ::
  "(pydict \<Rightarrow> string) \<Rightarrow> rat \<Rightarrow> sim_input \<Rightarrow> sim_machine \<Rightarrow> pydict option \<times> sim_machine" where
  "sim_tick row_text now x m =
     (case gate_tick now (sm_state m) (Some (sim_signature now m)) (sm_gate m) of
        (False, g1) \<Rightarrow> (None, m\<lparr>sm_gate := g1\<rparr>)
      | (True, g1) \<Rightarrow>
          (let m1 = m\<lparr>sm_gcode := map_option (check_and_send (or_else (sm_program m) '''')
                                    (sim_file_meta m (si_stat_check x))
                                    (si_gcode_now x)) (sm_gcode m)\<rparr>
           in case gate_should_send now (sm_state m) False g1 of
                (False, g2) \<Rightarrow> (None, m1\<lparr>sm_gate := g2\<rparr>)
              | (True, g2) \<Rightarrow>
                  (let m2 = m1\<lparr>sm_packet_seq := sm_packet_seq m1 + 1\<rparr>;
                       payload = sim_payload now (si_ts x) (si_stat x) m2;
                       j = snd (journal_record row_text payload ((si_journal x)\<lparr>je_now := now\<rparr>) (sm_journal m2))
                   in (Some (payload @ journal_members x (sm_port m2) j),
                       m2\<lparr>sm_journal := j, sm_gate := gate_sent now (sm_state m2) g2\<rparr>))))"

definition sim_close :: "sim_machine \<Rightarrow> sim_machine" where
  "sim_close m = m\<lparr>sm_journal := journal_close (sm_journal m)\<rparr>"

text \<open>One turn of a machine: \<open>step\<close>, \<open>tick\<close>, and the packet through the sender.\<close>

definition sim_turn ::
  "(pydict \<Rightarrow> string) \<Rightarrow> (pydict \<Rightarrow> string) \<Rightarrow> sim_args \<Rightarrow> rat \<Rightarrow> rat \<Rightarrow> bool \<Rightarrow> sim_input \<Rightarrow>
   sim_machine \<times> sim_sender \<times> sim_rng \<Rightarrow> pydict option \<times> sim_machine \<times> sim_sender \<times> sim_rng" where
  "sim_turn row_text dumps a now dt quiet x w =
     (case w of (m, sd, r) \<Rightarrow>
        (case sim_step a now dt quiet (m, r) of (m1, r1) \<Rightarrow>
          (case sim_tick row_text now x m1 of
             (None, m2) \<Rightarrow> (None, m2, sd, r1)
           | (Some p, m2) \<Rightarrow>
               (case sender_status (sm_name m2) (dumps p) (sd, r1) of (sd1, r2) \<Rightarrow> (Some p, m2, sd1, r2)))))"

section \<open>run\<close>

record truth_file =
  tf_final :: bool
  tf_sent :: int
  tf_dropped :: int
  tf_swapped :: int
  tf_machines :: "(string \<times> sim_truth) list"

record fleet =
  fl_machines :: "sim_machine list"
  fl_sender :: sim_sender
  fl_rng :: sim_rng
  fl_last :: rat
  fl_last_truth :: rat
  fl_truth :: "truth_file option"

definition write_truth :: "bool \<Rightarrow> fleet \<Rightarrow> fleet" where
  "write_truth final f =
     f\<lparr>fl_truth := Some \<lparr>tf_final = final, tf_sent = sd_sent (fl_sender f), tf_dropped = sd_dropped (fl_sender f),
                        tf_swapped = sd_swapped (fl_sender f),
                        tf_machines = map (\<lambda>m. (sm_name m, sm_truth m)) (fl_machines f)\<rparr>\<rparr>"

text \<open>The machines take their turns in order, on one sender and one generator.\<close>

fun fleet_turns ::
  "(pydict \<Rightarrow> string) \<Rightarrow> (pydict \<Rightarrow> string) \<Rightarrow> sim_args \<Rightarrow> rat \<Rightarrow> rat \<Rightarrow> bool \<Rightarrow> (string \<Rightarrow> sim_input) \<Rightarrow>
   sim_machine list \<Rightarrow> sim_sender \<times> sim_rng \<Rightarrow>
   (string \<times> pydict) list \<times> sim_machine list \<times> sim_sender \<times> sim_rng" where
  "fleet_turns row_text dumps a now dt quiet xs [] w = ([], [], w)"
| "fleet_turns row_text dumps a now dt quiet xs (m # ms) w =
     (case sim_turn row_text dumps a now dt quiet (xs (sm_name m)) (m, w) of
        (p, m1, w1) \<Rightarrow>
          (case fleet_turns row_text dumps a now dt quiet xs ms w1 of
             (ps, ms1, w2) \<Rightarrow> ((case p of Some d \<Rightarrow> [(sm_name m, d)] | None \<Rightarrow> []) @ ps, m1 # ms1, w2)))"

definition fleet_pass ::
  "(pydict \<Rightarrow> string) \<Rightarrow> (pydict \<Rightarrow> string) \<Rightarrow> sim_args \<Rightarrow> rat \<Rightarrow> rat \<times> (string \<Rightarrow> sim_input) \<Rightarrow> fleet \<Rightarrow>
   (string \<times> pydict) list \<times> fleet" where
  "fleet_pass row_text dumps a start x f =
     (case x of (now, xs) \<Rightarrow>
        (case fleet_turns row_text dumps a now (now - fl_last f) (start + sa_minutes a * 60 \<le> now) xs
                (fl_machines f) (fl_sender f, fl_rng f) of
           (ps, ms, sd, r) \<Rightarrow>
             (let f1 = f\<lparr>fl_machines := ms, fl_sender := sd, fl_rng := r, fl_last := now\<rparr>
              in (ps, if 30 \<le> now - fl_last_truth f1 then write_truth False (f1\<lparr>fl_last_truth := now\<rparr>) else f1))))"

definition fleet_end :: "bool \<Rightarrow> fleet \<Rightarrow> fleet" where
  "fleet_end final f =
     (let f1 = write_truth final f in f1\<lparr>fl_machines := map sim_close (fl_machines f1)\<rparr>)"

text \<open>\<open>cmd_run\<close> over the clock readings of its passes; when they run out, the user interrupted it.\<close>

fun fleet_run ::
  "(pydict \<Rightarrow> string) \<Rightarrow> (pydict \<Rightarrow> string) \<Rightarrow> sim_args \<Rightarrow> rat \<Rightarrow> (rat \<times> (string \<Rightarrow> sim_input)) list \<Rightarrow> fleet \<Rightarrow>
   int \<times> (string \<times> pydict) list \<times> fleet" where
  "fleet_run row_text dumps a start [] f = (130, [], fleet_end False f)"
| "fleet_run row_text dumps a start (x # xs) f =
     (if start + sa_minutes a * 60 + sa_settle a \<le> fst x then (0, [], fleet_end True f)
      else case fleet_pass row_text dumps a start x f of
          (ps, f1) \<Rightarrow>
            (case fleet_run row_text dumps a start xs f1 of (code, qs, f2) \<Rightarrow> (code, ps @ qs, f2)))"

text \<open>The machines as \<open>cmd_run\<close> makes them, each with its clock reading, id, journal and program.\<close>

fun new_machines ::
  "sim_args \<Rightarrow> nat \<Rightarrow> (rat \<times> string \<times> journal \<times> string option) list \<Rightarrow> sim_rng \<Rightarrow> sim_machine list \<times> sim_rng" where
  "new_machines a i [] r = ([], r)"
| "new_machines a i ((now, uuid, j, program) # xs) r =
     (case sim_new a i now uuid j program r of
        (m, r1) \<Rightarrow> (case new_machines a (Suc i) xs r1 of (ms, r2) \<Rightarrow> (m # ms, r2)))"

definition new_fleet ::
  "sim_args \<Rightarrow> sim_sender \<Rightarrow> rat \<Rightarrow> (rat \<times> string \<times> journal \<times> string option) list \<Rightarrow> sim_rng \<Rightarrow> fleet" where
  "new_fleet a sd start xs r =
     (case new_machines a 0 xs r of
        (ms, r1) \<Rightarrow> \<lparr>fl_machines = ms, fl_sender = sd, fl_rng = r1, fl_last = start, fl_last_truth = start,
                    fl_truth = None\<rparr>)"

section \<open>check\<close>

text \<open>The tables of the dashboard's database that \<open>check\<close> reads; \<open>None\<close>: no such table.\<close>

record dashboard =
  da_cycles :: "string list"
  da_events :: "(string \<times> string) list"
  da_gaps :: "string list option"

definition ev_estop :: "string list" where "ev_estop = [''E-stop activated'', ''E-stop active'']"
definition ev_cmd :: string where "ev_cmd = ''Command failed (G-code error)''"
definition ev_abort :: string where "ev_abort = ''Program stopped before M2/M30''"
definition ev_joint :: "nat \<Rightarrow> string" where "ev_joint j = ''Joint '' @ decimal j @ '' amplifier fault''"

record tally =
  ta_parts :: int
  ta_aborts :: int
  ta_estops :: int
  ta_cmd_failures :: int
  ta_joint_faults :: "int list"

definition events_where :: "dashboard \<Rightarrow> string \<Rightarrow> (string \<Rightarrow> bool) \<Rightarrow> int" where
  "events_where db key p = int (length (filter (\<lambda>e. fst e = key \<and> p (snd e)) (da_events db)))"

definition sim_counts :: "dashboard \<Rightarrow> string \<Rightarrow> tally \<times> int option" where
  "sim_counts db key =
     (\<lparr>ta_parts = int (count_list (da_cycles db) key),
       ta_aborts = events_where db key (\<lambda>t. starts_with t ev_abort),
       ta_estops = sum_list (map (\<lambda>t. events_where db key (\<lambda>e. e = t)) ev_estop),
       ta_cmd_failures = events_where db key (\<lambda>e. e = ev_cmd),
       ta_joint_faults = map (\<lambda>j. events_where db key (\<lambda>e. e = ev_joint j)) [0..<sim_joints]\<rparr>,
      map_option (\<lambda>gs. int (count_list gs key)) (da_gaps db))"

definition check_diff :: "tally \<Rightarrow> sim_truth \<Rightarrow> string list" where
  "check_diff got t =
     (if ta_parts got \<noteq> tr_parts t then [''parts''] else []) @
     (if ta_aborts got \<noteq> tr_aborts t then [''aborts''] else []) @
     (if ta_estops got \<noteq> tr_estops t then [''estops''] else []) @
     (if ta_cmd_failures got \<noteq> tr_cmd_failures t then [''cmd_failures''] else []) @
     (if ta_joint_faults got \<noteq> tr_joint_faults t then [''joint_faults''] else [])"

text \<open>The exit code, and the machines with a difference.\<close>

definition cmd_check :: "truth_file \<Rightarrow> dashboard \<Rightarrow> int \<times> (string \<times> string list) list" where
  "cmd_check tf db =
     (let rows = map (\<lambda>(name, t). (name, check_diff (fst (sim_counts db name)) t)) (sort_key fst (tf_machines tf));
          bad = filter (\<lambda>row. snd row \<noteq> []) rows
      in (if bad \<noteq> [] then 1 else 0, bad))"

section \<open>What the sender does with packets\<close>

text \<open>
  The datagrams of the packets given to \<open>status\<close>: what went out, what is held back and what was
  dropped are together all of them.
\<close>

fun sender_run :: "(string \<times> string) list \<Rightarrow> sim_sender \<times> sim_rng \<Rightarrow> sim_sender \<times> sim_rng" where
  "sender_run [] w = w"
| "sender_run ((name, d) # ps) w = sender_run ps (sender_status name d w)"

definition sender_ok :: "sim_sender \<Rightarrow> bool" where
  "sender_ok s \<longleftrightarrow> distinct (map fst (sd_held s)) \<and> sd_sent s = int (length (sd_wire s))"

lemma delete_absent: "k \<notin> fst ` set al \<Longrightarrow> AList.delete k al = al"
  by (induction al) auto

lemma update_absent: "k \<notin> fst ` set al \<Longrightarrow> AList.update k v al = al @ [(k, v)]"
  by (induction al) auto

lemma mset_delete:
  assumes "distinct (map fst al)" "map_of al k = Some v"
  shows "mset (map snd al) = add_mset v (mset (map snd (AList.delete k al)))"
  using assms
proof (induction al)
  case (Cons kv al)
  obtain k' v' where kv: "kv = (k', v')" by (cases kv)
  show ?case
  proof (cases "k' = k")
    case True
    then have "AList.delete k al = al" using Cons.prems(1) kv by (auto intro: delete_absent)
    with True Cons.prems(2) kv show ?thesis by simp
  next
    case False
    with Cons kv show ?thesis by simp
  qed
qed simp

lemma sender_status_accounts:
  assumes "sender_ok s" "sender_status name d (s, r) = (s', r')"
  shows "sender_ok s' \<and> sd_drop s' = sd_drop s \<and> sd_reorder s' = sd_reorder s \<and>
    (\<exists>lost. mset (sd_wire s') + mset (map snd (sd_held s')) + lost =
        add_mset d (mset (sd_wire s) + mset (map snd (sd_held s))) \<and>
      int (size lost) = sd_dropped s' - sd_dropped s)"
proof -
  obtain dropped r1 where f: "flips (sd_drop s \<noteq> 0) (sd_drop s) r = (dropped, r1)"
    by (cases "flips (sd_drop s \<noteq> 0) (sd_drop s) r")
  obtain swaps r2 where g: "flips (sd_reorder s \<noteq> 0) (sd_reorder s) r1 = (swaps, r2)"
    by (cases "flips (sd_reorder s \<noteq> 0) (sd_reorder s) r1")
  show ?thesis
  proof (cases dropped)
    case True
    with assms f show ?thesis
      by (auto simp: sender_status_def sender_ok_def intro!: exI [of _ "{#d#}"])
  next
    case False
    show ?thesis
    proof (cases "map_of (sd_held s) name")
      case None
      then have new: "name \<notin> fst ` set (sd_held s)" by (simp add: map_of_eq_None_iff)
      then have "AList.update name d (sd_held s) = sd_held s @ [(name, d)]" by (rule update_absent)
      with None False assms f g new show ?thesis
        by (cases swaps) (auto simp: sender_status_def sender_ok_def sender_raw_def)
    next
      case (Some older)
      from mset_delete [OF _ Some] assms(1) Some False assms f show ?thesis
        by (auto simp: sender_status_def sender_ok_def sender_raw_def distinct_delete)
    qed
  qed
qed

text \<open>Over any packets, from a sender that starts: all are accounted for, once.\<close>

theorem sender_accounts:
  assumes "sender_run ps (sender_new loses swaps, r) = (s, r')"
  shows "\<exists>lost. mset (sd_wire s) + mset (map snd (sd_held s)) + lost = mset (map snd ps) \<and>
    int (size lost) = sd_dropped s \<and> sd_sent s = int (length (sd_wire s))"
proof -
  have gen: "\<exists>lost. mset (sd_wire s) + mset (map snd (sd_held s)) + lost =
      mset (map snd ps) + (mset (sd_wire s0) + mset (map snd (sd_held s0))) \<and>
    int (size lost) = sd_dropped s - sd_dropped s0 \<and> sender_ok s"
    if "sender_ok s0" "sender_run ps (s0, r0) = (s, r')" for s0 r0
    using that
  proof (induction ps arbitrary: s0 r0)
    case Nil
    then show ?case by auto
  next
    case (Cons nd ps)
    obtain name d where nd: "nd = (name, d)" by (cases nd)
    obtain s1 r1 where one: "sender_status name d (s0, r0) = (s1, r1)" by (cases "sender_status name d (s0, r0)")
    from sender_status_accounts [OF Cons.prems(1) one] obtain lost where
      ok: "sender_ok s1" and lost: "mset (sd_wire s1) + mset (map snd (sd_held s1)) + lost =
        add_mset d (mset (sd_wire s0) + mset (map snd (sd_held s0)))" "int (size lost) = sd_dropped s1 - sd_dropped s0"
      by blast
    have "sender_run ps (s1, r1) = (s, r')" using Cons.prems(2) nd one by simp
    from Cons.IH [OF ok this] obtain more where "mset (sd_wire s) + mset (map snd (sd_held s)) + more =
        mset (map snd ps) + (mset (sd_wire s1) + mset (map snd (sd_held s1)))"
      "int (size more) = sd_dropped s - sd_dropped s1" "sender_ok s" by blast
    with lost nd show ?case by (intro exI [of _ "lost + more"]) (simp add: ac_simps)
  qed
  have "sender_ok (sender_new loses swaps)" by (simp add: sender_ok_def sender_new_def)
  from gen [OF this assms] show ?thesis by (auto simp: sender_new_def sender_ok_def)
qed

text \<open>A packet held back for the next one of its machine stays behind when there is no next one.\<close>

lemma last_packet_stays_behind:
  assumes "rg_random r 0 < swaps" "0 < swaps" "rg_used r = 0"
  shows "fst (sender_run [(name, d)] (sender_new 0 swaps, r)) =
    (sender_new 0 swaps)\<lparr>sd_held := [(name, d)]\<rparr>"
  using assms by (simp add: sender_new_def sender_status_def flips_def draw_def)

end
