(* ===== verification/Fleet_Truth.thy ===== *)
theory Fleet_Truth
  imports Fleet_Sim
begin

text \<open>
  The ground truth of the fleet simulator against the packets: every counter of the truth is what
  a receiver that gets all packets of a machine counts, for any draws and any clock, and so
  \<open>check\<close> passes exactly on a dashboard that counted them exactly.
\<close>

section \<open>What the packets show\<close>

text \<open>
  The reference: what a receiver that gets every packet of a machine in order can count. A part
  or an abort is a step of its counter within a session (a new session starts at 0), an E-stop or
  a joint fault is a flag that comes on, a failed command a new serial number in the error state.
\<close>

record packet_view =
  pv_session :: string
  pv_parts :: int
  pv_aborts :: int
  pv_estop :: bool
  pv_joints :: "bool list"
  pv_failed :: "int option"

definition int_member :: "pydict \<Rightarrow> string \<Rightarrow> int" where
  "int_member p k = (case dict_get p k of PInt n \<Rightarrow> n | _ \<Rightarrow> 0)"

definition view_of :: "pydict \<Rightarrow> packet_view" where
  "view_of p =
     \<lparr>pv_session = (case dict_get p ''session_id'' of PStr s \<Rightarrow> s | _ \<Rightarrow> ''''),
      pv_parts = int_member p ''parts_produced'', pv_aborts = int_member p ''abort_count'',
      pv_estop = truthy (dict_get p ''estop''),
      pv_joints = map (\<lambda>j. truthy (val_get j ''fault'')) (joint_list p),
      pv_failed = (if int_member p ''cmd_state'' = sim_rcs_error then Some (int_member p ''cmd_serial'') else None)\<rparr>"

definition steps_of :: "bool \<Rightarrow> int \<Rightarrow> int \<Rightarrow> int" where
  "steps_of same_session old new = (if same_session then new - old else new)"

definition comes_on :: "bool \<Rightarrow> bool \<Rightarrow> int" where
  "comes_on old new = (if new \<and> \<not> old then 1 else 0)"

definition tally_step :: "packet_view \<Rightarrow> packet_view \<Rightarrow> tally \<Rightarrow> tally" where
  "tally_step u v t =
     (let same = pv_session u = pv_session v
      in \<lparr>ta_parts = ta_parts t + steps_of same (pv_parts u) (pv_parts v),
          ta_aborts = ta_aborts t + steps_of same (pv_aborts u) (pv_aborts v),
          ta_estops = ta_estops t + comes_on (pv_estop u) (pv_estop v),
          ta_cmd_failures = ta_cmd_failures t + (if pv_failed v \<noteq> None \<and> pv_failed v \<noteq> pv_failed u then 1 else 0),
          ta_joint_faults = map2 (+) (ta_joint_faults t) (map2 comes_on (pv_joints u) (pv_joints v))\<rparr>)"

definition nothing_seen :: packet_view where
  "nothing_seen =
     \<lparr>pv_session = '''', pv_parts = 0, pv_aborts = 0, pv_estop = False,
      pv_joints = replicate sim_joints False, pv_failed = None\<rparr>"

definition no_tally :: tally where
  "no_tally = \<lparr>ta_parts = 0, ta_aborts = 0, ta_estops = 0, ta_cmd_failures = 0,
              ta_joint_faults = replicate sim_joints 0\<rparr>"

definition tally_packets :: "pydict list \<Rightarrow> packet_view \<times> tally" where
  "tally_packets ps =
     foldl (\<lambda>s p. (view_of p, tally_step (fst s) (view_of p) (snd s))) (nothing_seen, no_tally) ps"

definition tally_of :: "sim_truth \<Rightarrow> tally" where
  "tally_of t = \<lparr>ta_parts = tr_parts t, ta_aborts = tr_aborts t, ta_estops = tr_estops t,
                ta_cmd_failures = tr_cmd_failures t, ta_joint_faults = tr_joint_faults t\<rparr>"

text \<open>The same view of a machine, from what its last step noted.\<close>

definition view_at :: "sim_machine \<Rightarrow> packet_view" where
  "view_at m =
     \<lparr>pv_session = sm_session_id m, pv_parts = sm_parts m, pv_aborts = sm_aborts m,
      pv_estop = sm_estop_was m, pv_joints = sm_joint_was m, pv_failed = failed_serial m\<rparr>"

text \<open>
  The invariant after a step at \<open>now\<close>: the flags are those of the clock, a command in the error
  state keeps the machine idle and outlives the second try of its operator, and the session's id
  was drawn before the next one.
\<close>

definition sim_ok :: "rat \<Rightarrow> sim_machine \<Rightarrow> sim_rng \<Rightarrow> bool" where
  "sim_ok now m r \<longleftrightarrow>
     0 \<le> now \<and> sm_state m \<in> {''IDLE'', ''RUNNING''} \<and>
     (sm_state m = ''RUNNING'' \<longrightarrow> sm_cmd_state m \<noteq> sim_rcs_error) \<and>
     (\<forall>t. sm_again_at m = Some t \<longrightarrow> sm_cmd_state m = sim_rcs_error \<and> t \<le> sm_cmd_clear_at m) \<and>
     sm_estop_was m = (now < sm_estop_until m) \<and>
     sm_joint_was m = map (\<lambda>t. now < t) (sm_joint_until m) \<and>
     length (sm_joint_until m) = sim_joints \<and> length (tr_joint_faults (sm_truth m)) = sim_joints \<and>
     (\<exists>k<rg_used r. sm_session_id m = session_hex r k)"

text \<open>The generator has moved on.\<close>

definition drawn_on :: "sim_rng \<Rightarrow> sim_rng \<Rightarrow> bool" where
  "drawn_on r r' \<longleftrightarrow>
     rg_random r' = rg_random r \<and> rg_below r' = rg_below r \<and> rg_hex r' = rg_hex r \<and> rg_used r \<le> rg_used r'"

lemma drawn_on_refl [simp]: "drawn_on r r"
  by (simp add: drawn_on_def)

lemma drawn_on_trans: "drawn_on r s \<Longrightarrow> drawn_on s t \<Longrightarrow> drawn_on r t"
  by (auto simp: drawn_on_def)

lemma drawn_on_facts:
  assumes "drawn_on r r'"
  shows "fair r' = fair r" "session_hex r' = session_hex r" "rg_used r \<le> rg_used r'"
  using assms by (auto simp: drawn_on_def fair_def session_hex_def)

lemma draw_on: "draw r = (x, r') \<Longrightarrow> drawn_on r r'"
  and draw_range: "fair r \<Longrightarrow> draw r = (x, r') \<Longrightarrow> 0 \<le> x \<and> x < 1"
  by (auto simp: draw_def drawn_on_def fair_def)

lemma uniform_on: "uniform a b r = (x, r') \<Longrightarrow> drawn_on r r'"
  by (auto simp: uniform_def draw_def drawn_on_def)

lemma uniform_ge: "fair r \<Longrightarrow> a \<le> b \<Longrightarrow> uniform a b r = (x, r') \<Longrightarrow> a \<le> x"
  by (auto simp: uniform_def draw_def fair_def)

lemma randrange_on: "randrange n r = (x, r') \<Longrightarrow> drawn_on r r'"
  and randrange_range: "fair r \<Longrightarrow> 0 < n \<Longrightarrow> randrange n r = (x, r') \<Longrightarrow> 0 \<le> x \<and> x < n"
  by (auto simp: randrange_def drawn_on_def fair_def)

lemma flips_on: "flips a p r = (x, r') \<Longrightarrow> drawn_on r r'"
  by (auto simp: flips_def split: if_splits prod.splits dest: draw_on)

lemma chance_on: "chance p dt r = (x, r') \<Longrightarrow> drawn_on r r'"
  by (auto simp: chance_def dest: flips_on)

subsection \<open>One step\<close>

definition same_frame :: "sim_machine \<Rightarrow> sim_machine \<Rightarrow> bool" where
  "same_frame m0 m \<longleftrightarrow>
     sm_session_id m = sm_session_id m0 \<and> sm_gate m = sm_gate m0 \<and> sm_name m = sm_name m0 \<and>
     sm_estop_was m = sm_estop_was m0 \<and> sm_joint_was m = sm_joint_was m0"

text \<open>Each account on its own, from the machine \<open>m0\<close> at the start of the step to a point inside it.\<close>

definition estop_account :: "rat \<Rightarrow> sim_machine \<Rightarrow> sim_machine \<Rightarrow> bool" where
  "estop_account now m0 m \<longleftrightarrow>
     tr_estops (sm_truth m) = tr_estops (sm_truth m0) + comes_on (sm_estop_was m0) (now < sm_estop_until m)"

definition joint_account :: "rat \<Rightarrow> sim_machine \<Rightarrow> sim_machine \<Rightarrow> bool" where
  "joint_account now m0 m \<longleftrightarrow>
     length (sm_joint_until m) = sim_joints \<and> length (tr_joint_faults (sm_truth m)) = sim_joints \<and>
     (\<forall>j<sim_joints. tr_joint_faults (sm_truth m) ! j =
        tr_joint_faults (sm_truth m0) ! j + comes_on (sm_joint_was m0 ! j) (now < sm_joint_until m ! j))"

definition part_account :: "rat \<Rightarrow> sim_machine \<Rightarrow> sim_machine \<Rightarrow> bool" where
  "part_account now m0 m \<longleftrightarrow>
     tr_parts (sm_truth m) = tr_parts (sm_truth m0) + (sm_parts m - sm_parts m0) \<and>
     tr_aborts (sm_truth m) = tr_aborts (sm_truth m0) + (sm_aborts m - sm_aborts m0) \<and>
     sm_state m \<in> {''IDLE'', ''RUNNING''} \<and>
     (sm_state m = sm_state m0 \<longrightarrow> sm_parts m = sm_parts m0 \<and> sm_aborts m = sm_aborts m0)"

definition fails_new :: "sim_machine \<Rightarrow> sim_machine \<Rightarrow> bool" where
  "fails_new m0 m \<longleftrightarrow> failed_serial m \<noteq> None \<and> failed_serial m \<noteq> failed_serial m0"

definition command_account :: "rat \<Rightarrow> sim_machine \<Rightarrow> sim_machine \<Rightarrow> bool" where
  "command_account now m0 m \<longleftrightarrow>
     tr_cmd_failures (sm_truth m) = tr_cmd_failures (sm_truth m0) + (if fails_new m0 m then 1 else 0) \<and>
     (fails_new m0 m \<longrightarrow> (\<forall>t. sm_again_at m = Some t \<longrightarrow> now < t) \<and> now < sm_cmd_clear_at m) \<and>
     (sm_state m = ''RUNNING'' \<longrightarrow> sm_cmd_state m \<noteq> sim_rcs_error) \<and>
     (\<forall>t. sm_again_at m = Some t \<longrightarrow> sm_cmd_state m = sim_rcs_error \<and> t \<le> sm_cmd_clear_at m)"

lemmas accounts = same_frame_def estop_account_def joint_account_def part_account_def command_account_def

definition mid_step :: "rat \<Rightarrow> sim_machine \<Rightarrow> sim_machine \<Rightarrow> bool" where
  "mid_step now m0 m \<longleftrightarrow>
     same_frame m0 m \<and> estop_account now m0 m \<and> joint_account now m0 m \<and> part_account now m0 m \<and>
     command_account now m0 m"

lemma mid_stepI:
  "same_frame m0 m \<Longrightarrow> estop_account now m0 m \<Longrightarrow> joint_account now m0 m \<Longrightarrow> part_account now m0 m \<Longrightarrow>
   command_account now m0 m \<Longrightarrow> mid_step now m0 m"
  by (simp add: mid_step_def)

lemma mid_stepD:
  assumes "mid_step now m0 m"
  shows "same_frame m0 m" "estop_account now m0 m" "joint_account now m0 m" "part_account now m0 m"
    "command_account now m0 m"
  using assms by (simp_all add: mid_step_def)

lemma mid_start:
  assumes "sim_ok t m r" "t \<le> now"
  shows "same_frame m m" "joint_account now m m" "part_account now m m" "command_account now m m"
    "\<not> sm_estop_was m \<Longrightarrow> \<not> now < sm_estop_until m" "sm_estop_was m \<Longrightarrow> estop_account now m m"
    "\<not> now < sm_estop_until m \<Longrightarrow> estop_account now m m"
  using assms
  by (auto simp: accounts sim_ok_def comes_on_def fails_new_def failed_serial_def)

lemma step_estop_mid:
  assumes ok: "sim_ok t m r" "t \<le> now" "fair r" and s: "step_estop a now dt quiet (m, r) = (estop, m', r')"
  shows "mid_step now m m'" "drawn_on r r'" "estop \<longleftrightarrow> now < sm_estop_until m'"
    "sm_state m' = sm_state m \<or> estop \<and> sm_state m' = ''IDLE''" "failed_serial m' = failed_serial m"
proof -
  let ?draws = "\<not> quiet \<and> \<not> now < sm_estop_until m \<and> \<not> sm_estop_was m"
  obtain hit r1 where c: "(if ?draws then chance (sa_estop_rate a) dt r else (False, r)) = (hit, r1)"
    by (cases "if ?draws then chance (sa_estop_rate a) dt r else (False, r)")
  have on1: "drawn_on r r1" using c by (auto split: if_splits dest: chance_on)
  note start = mid_start [OF ok(1,2)]
  have same: "mid_step now m m" if "\<not> hit"
    using start by (cases "sm_estop_was m") (auto simp: mid_step_def)
  have all: "mid_step now m m' \<and> drawn_on r r' \<and> (estop \<longleftrightarrow> now < sm_estop_until m') \<and>
    (sm_state m' = sm_state m \<or> estop \<and> sm_state m' = ''IDLE'') \<and> failed_serial m' = failed_serial m"
  proof (cases hit)
    case False
    with s c on1 same show ?thesis by (auto simp: step_estop_def)
  next
    case True
    then have free: "?draws" using c by (auto split: if_splits)
    obtain d r2 where u: "uniform (3/10) 3 r1 = (d, r2)" by (cases "uniform (3/10) 3 r1")
    have "fair r1" using on1 ok(3) drawn_on_facts(1) by simp
    with uniform_ge [OF this _ u] have d: "0 < d" by simp
    have on: "drawn_on r r2" using on1 uniform_on [OF u] drawn_on_trans by blast
    show ?thesis
    proof (cases "sm_state m = ''RUNNING''")
      case True
      with \<open>hit\<close> s c u free d ok(1,2) on show ?thesis
        by (auto simp: step_estop_def sim_abort_def Let_def mid_step_def accounts comes_on_def sim_ok_def
            fails_new_def failed_serial_def sim_codes)
    next
      case False
      with \<open>hit\<close> s c u free d ok(1,2) on start show ?thesis
        by (auto simp: step_estop_def Let_def mid_step_def accounts comes_on_def fails_new_def
            failed_serial_def sim_ok_def)
    qed
  qed
  then show "mid_step now m m'" "drawn_on r r'" "estop \<longleftrightarrow> now < sm_estop_until m'"
    "sm_state m' = sm_state m \<or> estop \<and> sm_state m' = ''IDLE''" "failed_serial m' = failed_serial m"
    by blast+
qed

lemma joint_fault_mid:
  assumes mid: "mid_step now m0 m" and "fair r" and s: "joint_fault now (m, r) = (m', r')"
  shows "mid_step now m0 m'" "drawn_on r r'" "sm_state m' = sm_state m"
    "sm_estop_until m' = sm_estop_until m" "failed_serial m' = failed_serial m" "sm_cmd_state m' = sm_cmd_state m"
proof -
  obtain j0 r1 where j0: "randrange (int sim_joints) r = (j0, r1)" by (cases "randrange (int sim_joints) r")
  with randrange_range [OF \<open>fair r\<close> _ j0] have j: "nat j0 < sim_joints" by (simp add: sim_joints_def nat_less_iff)
  obtain d r2 where u: "uniform (2/10) 2 r1 = (d, r2)" by (cases "uniform (2/10) 2 r1")
  have on: "drawn_on r r1" "drawn_on r1 r2" using randrange_on [OF j0] uniform_on [OF u] by auto
  with \<open>fair r\<close> uniform_ge [OF _ _ u] drawn_on_facts(1) have d: "0 < d" by force
  have "mid_step now m0 m' \<and> drawn_on r r' \<and> sm_state m' = sm_state m \<and>
    sm_estop_until m' = sm_estop_until m \<and> failed_serial m' = failed_serial m \<and> sm_cmd_state m' = sm_cmd_state m"
  proof (cases "sm_joint_until m ! nat j0 \<le> now \<and> \<not> sm_joint_was m ! nat j0")
    case True
    with s j0 u have m': "m' = truly (\<lambda>t. t\<lparr>tr_joint_faults := (tr_joint_faults t)[nat j0 := tr_joint_faults t ! nat j0 + 1]\<rparr>)
        (m\<lparr>sm_joint_until := (sm_joint_until m)[nat j0 := now + d]\<rparr>)" and "r' = r2"
      by (auto simp: joint_fault_def Let_def)
    have "joint_account now m0 m'"
      using mid j d True m'
      by (auto simp: mid_step_def joint_account_def same_frame_def comes_on_def nth_list_update)
    with mid m' \<open>r' = r2\<close> on show ?thesis
      by (auto simp: mid_step_def accounts fails_new_def failed_serial_def intro: drawn_on_trans)
  next
    case False
    with s j0 on mid show ?thesis by (auto simp: joint_fault_def Let_def)
  qed
  then show "mid_step now m0 m'" "drawn_on r r'" "sm_state m' = sm_state m"
    "sm_estop_until m' = sm_estop_until m" "failed_serial m' = failed_serial m" "sm_cmd_state m' = sm_cmd_state m"
    by blast+
qed

lemma fail_command_mid:
  assumes mid: "mid_step now m0 m" and "fair r" and s: "fail_command now (m, r) = (m', r')"
    and idle: "sm_state m \<noteq> ''RUNNING''" and again: "sm_again_at m = None"
    and old: "failed_serial m = failed_serial m0"
  shows "mid_step now m0 m'" "drawn_on r r'" "sm_state m' = sm_state m" "sm_estop_until m' = sm_estop_until m"
    "sm_again_at m' = None" "now + 2 \<le> sm_cmd_clear_at m'" "sm_cmd_state m' = sim_rcs_error"
proof -
  obtain d r1 where u: "uniform 2 20 r = (d, r1)" by (cases "uniform 2 20 r")
  have d: "2 \<le> d" using uniform_ge [OF \<open>fair r\<close> _ u] by simp
  have m': "m' = truly (\<lambda>t. t\<lparr>tr_cmd_failures := tr_cmd_failures t + 1\<rparr>)
      (m\<lparr>sm_cmd_serial := sm_cmd_serial m + 1, sm_cmd_state := sim_rcs_error, sm_cmd_clear_at := now + d\<rparr>)" and "r' = r1"
    using s u by (auto simp: fail_command_def)
  have new: "fails_new m0 m'" and was: "\<not> fails_new m0 m"
    using m' old by (auto simp: fails_new_def failed_serial_def split: if_splits)
  have "command_account now m0 m'"
    using mid_stepD(5) [OF mid] new was d idle again m' by (auto simp: command_account_def)
  with mid m' show "mid_step now m0 m'" by (auto simp: mid_step_def accounts)
  show "drawn_on r r'" using uniform_on [OF u] \<open>r' = r1\<close> by simp
  show "sm_state m' = sm_state m" "sm_estop_until m' = sm_estop_until m"
    "sm_again_at m' = None" "now + 2 \<le> sm_cmd_clear_at m'" "sm_cmd_state m' = sim_rcs_error"
    using m' d again by auto
qed

lemma operator_tries_mid:
  assumes mid: "mid_step now m0 m" and "fair r" and s: "operator_tries now (m, r) = (m', r')"
    and idle: "sm_state m \<noteq> ''RUNNING''" and free: "sm_cmd_state m \<noteq> sim_rcs_error"
    and old: "failed_serial m = failed_serial m0"
  shows "mid_step now m0 m'" "drawn_on r r'" "sm_state m' = sm_state m" "sm_estop_until m' = sm_estop_until m"
    "\<forall>t. sm_again_at m' = Some t \<longrightarrow> now < t"
proof -
  have again: "sm_again_at m = None"
    using mid_stepD(5) [OF mid] free by (auto simp: command_account_def)
  obtain m1 r1 where f: "fail_command now (m, r) = (m1, r1)" by (cases "fail_command now (m, r)")
  note fail = fail_command_mid [OF mid \<open>fair r\<close> f idle again old]
  obtain x r2 where x: "draw r1 = (x, r2)" by (cases "draw r1")
  have m': "m' = (if x < 3/10 then m1\<lparr>sm_again_at := Some (now + 1/2)\<rparr> else m1)" "r' = r2"
    using s f x by (auto simp: operator_tries_def)
  show "mid_step now m0 m'"
    using fail m'(1) by (auto simp: mid_step_def accounts fails_new_def failed_serial_def)
  show "drawn_on r r'" using fail(2) draw_on [OF x] m'(2) drawn_on_trans by blast
  show "sm_state m' = sm_state m" "sm_estop_until m' = sm_estop_until m"
    "\<forall>t. sm_again_at m' = Some t \<longrightarrow> now < t"
    using fail m'(1) by auto
qed

lemma step_faults_mid:
  assumes mid: "mid_step now m0 m" and "fair r" and s: "step_faults a now dt quiet estop (m, r) = (m', r')"
    and old: "failed_serial m = failed_serial m0"
  shows "mid_step now m0 m' \<and> drawn_on r r' \<and> sm_state m' = sm_state m \<and> sm_estop_until m' = sm_estop_until m \<and>
    (failed_serial m' = failed_serial m0 \<or> (\<forall>t. sm_again_at m' = Some t \<longrightarrow> now < t))"
proof (cases "\<not> quiet \<and> sm_state m = ''IDLE'' \<and> \<not> estop \<and> sm_cmd_state m \<noteq> sim_rcs_error")
  case True
  obtain hit r1 where c1: "chance (sa_joint_fault_rate a) dt r = (hit, r1)"
    by (cases "chance (sa_joint_fault_rate a) dt r")
  obtain m1 r2 where j: "(if hit then joint_fault now (m, r1) else (m, r1)) = (m1, r2)"
    by (cases "if hit then joint_fault now (m, r1) else (m, r1)")
  have fair1: "fair r1" using chance_on [OF c1] \<open>fair r\<close> drawn_on_facts(1) by blast
  have m1: "mid_step now m0 m1" "drawn_on r1 r2" "sm_state m1 = sm_state m"
    "sm_estop_until m1 = sm_estop_until m" "failed_serial m1 = failed_serial m" "sm_cmd_state m1 = sm_cmd_state m"
    using j joint_fault_mid [OF mid fair1] mid by (auto split: if_splits)
  have on2: "drawn_on r r2" using chance_on [OF c1] m1(2) drawn_on_trans by blast
  obtain fails r3 where c2: "chance (sa_cmd_error_rate a) dt r2 = (fails, r3)"
    by (cases "chance (sa_cmd_error_rate a) dt r2")
  have on3: "drawn_on r r3" using on2 chance_on [OF c2] drawn_on_trans by blast
  show ?thesis
  proof (cases fails)
    case fails: True
    have t: "operator_tries now (m1, r3) = (m', r')"
      using s True c1 j c2 fails by (simp add: step_faults_def)
    have "fair r3" using on3 \<open>fair r\<close> drawn_on_facts(1) by blast
    from operator_tries_mid [OF m1(1) this t] m1 True old on3 show ?thesis
      by (auto intro: drawn_on_trans)
  next
    case False
    then have "(m', r') = (m1, r3)" using s True c1 j c2 by (simp add: step_faults_def)
    with m1 old on3 show ?thesis by auto
  qed
next
  case False
  with s have "(m', r') = (m, r)" unfolding step_faults_def by (simp split: if_splits)
  with mid old show ?thesis by simp
qed

lemma step_again_mid:
  assumes mid: "mid_step now m0 m" and "fair r" and s: "step_again now estop (m, r) = (m', r')"
    and due: "failed_serial m = failed_serial m0 \<or> (\<forall>t. sm_again_at m = Some t \<longrightarrow> now < t)"
  shows "mid_step now m0 m' \<and> drawn_on r r' \<and> sm_state m' = sm_state m \<and> sm_estop_until m' = sm_estop_until m \<and>
    (\<forall>t. sm_again_at m' = Some t \<longrightarrow> now < t)"
proof (cases "\<exists>t. sm_again_at m = Some t \<and> t \<le> now")
  case True
  then obtain t where t: "sm_again_at m = Some t" "t \<le> now" by blast
  with due have old: "failed_serial m = failed_serial m0" by force
  let ?m1 = "m\<lparr>sm_again_at := None\<rparr>"
  have mid1: "mid_step now m0 ?m1"
    using mid by (auto simp: mid_step_def accounts fails_new_def failed_serial_def)
  show ?thesis
  proof (cases "sm_cmd_state m = sim_rcs_error \<and> \<not> estop")
    case True
    then have f: "fail_command now (?m1, r) = (m', r')" using s t by (simp add: step_again_def)
    have idle: "sm_state m \<noteq> ''RUNNING''" using mid_stepD(5) [OF mid] True by (auto simp: command_account_def)
    have "failed_serial ?m1 = failed_serial m" by (simp add: failed_serial_def)
    with old have "failed_serial ?m1 = failed_serial m0" by simp
    with fail_command_mid [OF mid1 \<open>fair r\<close> f] idle show ?thesis by simp
  next
    case False
    with s t have "(m', r') = (?m1, r)" by (auto simp: step_again_def Let_def)
    with mid1 show ?thesis by simp
  qed
next
  case False
  then have "(m', r') = (m, r)" using s by (auto simp: step_again_def split: option.splits if_splits)
  with mid False show ?thesis by auto
qed

lemma step_clear_mid:
  assumes mid: "mid_step now m0 m" and late: "\<forall>t. sm_again_at m = Some t \<longrightarrow> now < t"
  shows "mid_step now m0 (step_clear now m)" "sm_state (step_clear now m) = sm_state m"
    "sm_estop_until (step_clear now m) = sm_estop_until m"
proof -
  show "mid_step now m0 (step_clear now m)"
  proof (cases "sm_cmd_state m = sim_rcs_error \<and> sm_cmd_clear_at m \<le> now")
    case True
    note command = mid_stepD(5) [OF mid, unfolded command_account_def]
    have "\<not> fails_new m0 m" "sm_again_at m = None"
      using command late True by (force, cases "sm_again_at m") force+
    moreover have "\<not> fails_new m0 (step_clear now m)"
      using True by (simp add: step_clear_def fails_new_def failed_serial_def sim_codes)
    ultimately have "command_account now m0 (step_clear now m)"
      using command True by (simp add: command_account_def step_clear_def sim_codes)
    with mid True show ?thesis by (auto simp: mid_step_def accounts step_clear_def)
  next
    case False
    with mid show ?thesis by (auto simp: step_clear_def)
  qed
qed (simp_all add: step_clear_def)

lemma idle_for_fields:
  assumes "idle_for a now (m, r) = (m', r')"
  shows "drawn_on r r'" "\<exists>w. m' = m\<lparr>sm_next_start := w\<rparr>"
  using assms by (auto simp: idle_for_def split: prod.splits dest: uniform_on)

lemma mid_next_start: "mid_step now m0 (m\<lparr>sm_next_start := w\<rparr>) \<longleftrightarrow> mid_step now m0 m"
  by (simp add: mid_step_def accounts fails_new_def failed_serial_def)

lemma idle_for_mid:
  assumes "mid_step now m0 m" "idle_for a now (m, r) = (m', r')"
  shows "mid_step now m0 m' \<and> drawn_on r r'"
proof -
  from idle_for_fields(2) [OF assms(2)] obtain w where "m' = m\<lparr>sm_next_start := w\<rparr>" by blast
  with assms(1) idle_for_fields(1) [OF assms(2)] show ?thesis by (simp add: mid_next_start)
qed

lemma begin_cycle_fields:
  assumes "begin_cycle a now (m, r) = (m', r')"
  shows "drawn_on r r'"
    "\<exists>len stop. m' = m\<lparr>sm_cmd_serial := sm_cmd_serial m + 1, sm_cmd_state := sim_rcs_exec, sm_state := ''RUNNING'',
                       sm_cycle_start := now, sm_cycle_end := now + len, sm_abort_at := stop\<rparr>"
proof -
  obtain len r1 where len: "uniform (fst (sa_cycle a)) (snd (sa_cycle a)) r = (len, r1)"
    by (cases "uniform (fst (sa_cycle a)) (snd (sa_cycle a)) r")
  obtain aborts r2 where f: "flips True (sa_abort_prob a) r1 = (aborts, r2)"
    by (cases "flips True (sa_abort_prob a) r1")
  have on: "drawn_on r r2" using uniform_on [OF len] flips_on [OF f] drawn_on_trans by blast
  with assms len f show "drawn_on r r'"
    by (auto simp: begin_cycle_def split: if_splits prod.splits dest: uniform_on intro: drawn_on_trans)
  show "\<exists>len stop. m' = m\<lparr>sm_cmd_serial := sm_cmd_serial m + 1, sm_cmd_state := sim_rcs_exec,
      sm_state := ''RUNNING'', sm_cycle_start := now, sm_cycle_end := now + len, sm_abort_at := stop\<rparr>"
    using assms len f by (auto simp: begin_cycle_def split: if_splits prod.splits)
qed

lemma step_cycle_mid:
  assumes mid: "mid_step now m0 m" and s: "step_cycle a now quiet estop (m, r) = (m', r')"
    and state: "sm_state m = sm_state m0 \<or> estop \<and> sm_state m = ''IDLE''"
  shows "mid_step now m0 m' \<and> drawn_on r r'"
proof -
  note command = mid_stepD(5) [OF mid, unfolded command_account_def]
  have quiet_end: "mid_step now m0 (sim_abort m)" "mid_step now m0 (end_part now m)"
    if run: "sm_state m = ''RUNNING''"
  proof -
    from run command have ok: "sm_cmd_state m \<noteq> sim_rcs_error" by simp
    then have none: "sm_again_at m = None" "\<not> fails_new m0 m"
      using command by (auto simp: fails_new_def failed_serial_def)
    from run state have m0: "sm_state m0 = ''RUNNING''" by auto
    show "mid_step now m0 (sim_abort m)"
      using mid run m0 ok none
      by (auto simp: mid_step_def accounts sim_abort_def fails_new_def failed_serial_def sim_codes)
    show "mid_step now m0 (end_part now m)"
      using mid run m0 ok none
      by (auto simp: mid_step_def accounts end_part_def fails_new_def failed_serial_def sim_codes)
  qed
  have begun: "mid_step now m0 m'" "drawn_on r r'"
    if b: "begin_cycle a now (m, r) = (m', r')" and idle: "sm_state m = ''IDLE''" "\<not> estop"
      and ok: "sm_cmd_state m \<noteq> sim_rcs_error"
  proof -
    from idle state have m0: "sm_state m0 = ''IDLE''" "sm_parts m = sm_parts m0" "sm_aborts m = sm_aborts m0"
      using mid by (auto simp: mid_step_def part_account_def)
    have none: "sm_again_at m = None" "\<not> fails_new m0 m"
      using command ok by (auto simp: fails_new_def failed_serial_def)
    show "mid_step now m0 m'"
      using mid begin_cycle_fields(2) [OF b] idle m0 ok none
      by (auto simp: mid_step_def accounts fails_new_def failed_serial_def sim_codes)
    show "drawn_on r r'" using begin_cycle_fields(1) [OF b] .
  qed
  show ?thesis
  proof (cases "sm_state m = ''RUNNING''")
    case True
    then show ?thesis
      using s mid idle_for_mid [OF quiet_end(1) [OF True]] idle_for_mid [OF quiet_end(2) [OF True]]
      by (auto simp: step_cycle_def Let_def split: if_splits)
  next
    case False
    then show ?thesis
      using s mid begun by (auto simp: step_cycle_def Let_def split: if_splits)
  qed
qed

lemma tally_step_mid:
  assumes mid: "mid_step now m0 m" and was: "length (sm_joint_was m0) = sim_joints"
    "length (tr_joint_faults (sm_truth m0)) = sim_joints"
  shows "tally_of (sm_truth m) = tally_step (view_at m0) (view_at (note_faults now m)) (tally_of (sm_truth m0))"
proof -
  note a = mid_stepD [OF mid, unfolded accounts]
  have "tr_joint_faults (sm_truth m) = map2 (+) (tr_joint_faults (sm_truth m0))
      (map2 comes_on (sm_joint_was m0) (map (\<lambda>t. now < t) (sm_joint_until m)))"
    using a was by (intro nth_equalityI) auto
  moreover have "failed_serial (note_faults now m) = failed_serial m"
    by (simp add: note_faults_def failed_serial_def)
  ultimately show ?thesis
    using a by (simp add: tally_of_def tally_step_def view_at_def steps_of_def Let_def fails_new_def note_faults_def)
qed

lemma draws_restart_on:
  "draws_restart a now dt quiet (m, r) = (b, r') \<Longrightarrow> drawn_on r r'"
  by (auto simp: draws_restart_def split: if_splits dest: chance_on)

lemma sim_ok_drawn: "sim_ok t m r \<Longrightarrow> drawn_on r r' \<Longrightarrow> sim_ok t m r'"
  by (auto simp: sim_ok_def drawn_on_facts(2) dest!: drawn_on_facts(3) intro: less_le_trans)

text \<open>A step that restarts nothing: its truth grows by what the views before and after it show.\<close>

lemma sim_step_goes_on:
  assumes ok: "sim_ok t m r" "t \<le> now" "fair r"
    and s: "sim_step a now dt quiet (m, r) = (m', r')"
    and on: "draws_restart a now dt quiet (m, r) = (False, r0)"
  shows "sim_ok now m' r'" "drawn_on r r'" "sm_gate m' = sm_gate m" "sm_name m' = sm_name m"
    "tally_of (sm_truth m') = tally_step (view_at m) (view_at m') (tally_of (sm_truth m))"
    "sm_state m' = sm_state m \<longrightarrow> sm_parts m' = sm_parts m \<and> sm_aborts m' = sm_aborts m"
    "sm_session_id m' = sm_session_id m"
proof -
  have on0: "drawn_on r r0" using draws_restart_on [OF on] .
  then have ok0: "sim_ok t m r0" "fair r0" using ok sim_ok_drawn drawn_on_facts(1) by auto
  obtain estop m1 r1 where e: "step_estop a now dt quiet (m, r0) = (estop, m1, r1)"
    by (cases "step_estop a now dt quiet (m, r0)")
  note E = step_estop_mid [OF ok0(1) ok(2) ok0(2) e]
  have fair1: "fair r1" using E(2) ok0(2) drawn_on_facts(1) by blast
  obtain m2 r2 where f: "step_faults a now dt quiet estop (m1, r1) = (m2, r2)"
    by (cases "step_faults a now dt quiet estop (m1, r1)")
  note F = step_faults_mid [OF E(1) fair1 f E(5)]
  have fair2: "fair r2" using F fair1 drawn_on_facts(1) by blast
  obtain m3 r3 where g: "step_again now estop (m2, r2) = (m3, r3)"
    by (cases "step_again now estop (m2, r2)")
  have G: "mid_step now m m3 \<and> drawn_on r2 r3 \<and> sm_state m3 = sm_state m2 \<and> sm_estop_until m3 = sm_estop_until m2 \<and>
    (\<forall>t. sm_again_at m3 = Some t \<longrightarrow> now < t)"
    by (rule step_again_mid [OF _ fair2 g]) (use F in blast)+
  have C: "mid_step now m (step_clear now m3)" "sm_state (step_clear now m3) = sm_state m3"
    using step_clear_mid [of now m m3] G by auto
  obtain m4 r4 where c: "step_cycle a now quiet estop (step_clear now m3, r3) = (m4, r4)"
    by (cases "step_cycle a now quiet estop (step_clear now m3, r3)")
  have state: "sm_state (step_clear now m3) = sm_state m \<or> estop \<and> sm_state (step_clear now m3) = ''IDLE''"
    using E(4) F G C(2) by auto
  have D: "mid_step now m m4" "drawn_on r3 r4" using step_cycle_mid [OF C(1) c state] by auto
  have m': "m' = note_faults now m4" "r' = r4"
    using s on e f g c by (auto simp: sim_step_def)
  show on': "drawn_on r r'"
    using on0 E(2) F G D(2) m'(2) by (blast intro: drawn_on_trans)
  note a = mid_stepD [OF D(1), unfolded accounts]
  have "0 \<le> now" using ok(1,2) by (auto simp: sim_ok_def)
  moreover have "\<exists>k<rg_used r'. sm_session_id m' = session_hex r' k"
    using ok(1) a(1) on' m'(1) drawn_on_facts(2,3) [OF on']
    by (auto simp: sim_ok_def note_faults_def intro: less_le_trans)
  ultimately show "sim_ok now m' r'"
    using a m'(1) by (auto simp: sim_ok_def note_faults_def)
  show "sm_gate m' = sm_gate m" "sm_name m' = sm_name m" "sm_session_id m' = sm_session_id m"
    "sm_state m' = sm_state m \<longrightarrow> sm_parts m' = sm_parts m \<and> sm_aborts m' = sm_aborts m"
    using a m'(1) by (auto simp: note_faults_def)
  show "tally_of (sm_truth m') = tally_step (view_at m) (view_at m') (tally_of (sm_truth m))"
    using tally_step_mid [OF D(1)] ok(1) m'(1) by (auto simp: sim_ok_def note_faults_def)
qed

lemma sim_step_restarts:
  assumes ok: "sim_ok t m r" "t \<le> now"
    and s: "sim_step a now dt quiet (m, r) = (m', r')"
    and on: "draws_restart a now dt quiet (m, r) = (True, r0)"
    and ids: "inj_on (session_hex r') {..<rg_used r'}"
  shows "sim_ok now m' r'" "drawn_on r r'" "sm_gate m' = gate_init (sa_poll a) (sa_heartbeat a)"
    "sm_name m' = sm_name m" "sm_state m' = ''IDLE''"
    "tally_of (sm_truth m') = tally_step (view_at m) (view_at m') (tally_of (sm_truth m))"
proof -
  have on0: "drawn_on r r0" using draws_restart_on [OF on] .
  obtain w where w: "uniform (fst (sa_idle a)) (snd (sa_idle a)) r0 = (w, r')"
    using s on by (auto simp: sim_step_def new_session_def split: prod.splits)
  have m': "m' = fst (new_session a now (m, r0))" using s on by (simp add: sim_step_def)
  have used: "rg_used r' = Suc (rg_used r0)" using w by (auto simp: uniform_def draw_def)
  have on1: "drawn_on r0 r'" using uniform_on [OF w] .
  show on': "drawn_on r r'" using on0 on1 drawn_on_trans by blast
  have id: "sm_session_id m' = session_hex r' (rg_used r0)"
    using m' w drawn_on_facts(2) [OF on1] by (simp add: new_session_def)
  obtain k where k: "k < rg_used r" "sm_session_id m = session_hex r k" using ok(1) by (auto simp: sim_ok_def)
  have "rg_used r \<le> rg_used r0" using drawn_on_facts(3) [OF on0] .
  with k used have "k \<noteq> rg_used r0" "k < rg_used r'" "rg_used r0 < rg_used r'" by auto
  then have "session_hex r' k \<noteq> session_hex r' (rg_used r0)" using ids by (auto simp: inj_on_def)
  then have new: "sm_session_id m \<noteq> sm_session_id m'" using id k drawn_on_facts(2) [OF on'] by simp
  show "sim_ok now m' r'"
    using ok m' w used id
    by (auto simp: sim_ok_def new_session_def sim_codes map_replicate_const)
  show "sm_gate m' = gate_init (sa_poll a) (sa_heartbeat a)" "sm_name m' = sm_name m" "sm_state m' = ''IDLE''"
    using m' w by (simp_all add: new_session_def)
  have len: "length (sm_joint_was m) = sim_joints" "length (tr_joint_faults (sm_truth m)) = sim_joints"
    using ok(1) by (auto simp: sim_ok_def)
  then have "tr_joint_faults (sm_truth m) =
      map2 (+) (tr_joint_faults (sm_truth m)) (map2 comes_on (sm_joint_was m) (replicate sim_joints False))"
    by (intro nth_equalityI) (auto simp: comes_on_def)
  with new m' w show "tally_of (sm_truth m') = tally_step (view_at m) (view_at m') (tally_of (sm_truth m))"
    by (simp add: tally_of_def tally_step_def view_at_def new_session_def steps_of_def comes_on_def Let_def
        failed_serial_def sim_codes)
qed

subsection \<open>One tick\<close>

definition noted_signature :: "sim_machine \<Rightarrow> fault_sig" where
  "noted_signature m =
     (sm_estop_was m, if sm_estop_was m then sim_state_estop else sim_state_on, False,
      map (\<lambda>b. (b, False)) (sm_joint_was m), failed_serial m)"

text \<open>The gate knows the state and the signature of the last sample and owes no packet.\<close>

definition gate_knows :: "packet_gate \<Rightarrow> string \<Rightarrow> fault_sig \<Rightarrow> bool" where
  "gate_knows g state sig \<longleftrightarrow>
     pg_last_sampled_state g = state \<and> pg_prev_state g = state \<and> pg_last_fault g = Some sig \<and>
     \<not> pg_fault_pending g"

definition gate_fresh :: "packet_gate \<Rightarrow> bool" where
  "gate_fresh g \<longleftrightarrow>
     pg_last_sampled_state g = '''' \<and> pg_prev_state g = '''' \<and> pg_last_fault g = None \<and>
     \<not> pg_idle_sent g \<and> \<not> pg_fault_pending g"

lemma gate_init_fresh: "gate_fresh (gate_init p h)"
  by (simp add: gate_fresh_def gate_init_def)

lemma signature_noted: "sim_ok now m r \<Longrightarrow> sim_signature now m = noted_signature m"
  by (simp add: sim_ok_def sim_signature_def noted_signature_def comp_def)

lemma sim_tick_shape:
  assumes s: "sim_tick row_text now x m = (p, m')"
    and t: "gate_tick now (sm_state m) (Some (sim_signature now m)) (sm_gate m) = (due, g1)"
    and e: "gate_should_send now (sm_state m) False g1 = (send, g2)"
  shows "\<not> due \<Longrightarrow> p = None \<and> m' = m\<lparr>sm_gate := g1\<rparr>"
    and "due \<Longrightarrow> \<not> send \<Longrightarrow> p = None \<and> (\<exists>gc. m' = m\<lparr>sm_gcode := gc, sm_gate := g2\<rparr>)"
    and "due \<Longrightarrow> send \<Longrightarrow> \<exists>gc n j added. m' = m\<lparr>sm_gcode := gc, sm_packet_seq := n, sm_journal := j,
           sm_gate := gate_sent now (sm_state m) g2\<rparr> \<and>
         p = Some (sim_payload now (si_ts x) (si_stat x) (m\<lparr>sm_gcode := gc, sm_packet_seq := n\<rparr>) @ added)"
  using s unfolding sim_tick_def t by (simp_all add: e Let_def) (auto simp: e)

lemma sim_tick_same:
  assumes "sim_tick row_text now x m = (p, m')"
  shows "\<exists>gc n j g. m' = m\<lparr>sm_gcode := gc, sm_packet_seq := n, sm_journal := j, sm_gate := g\<rparr>"
proof -
  obtain due g1 where t: "gate_tick now (sm_state m) (Some (sim_signature now m)) (sm_gate m) = (due, g1)"
    by (cases "gate_tick now (sm_state m) (Some (sim_signature now m)) (sm_gate m)")
  obtain send g2 where e: "gate_should_send now (sm_state m) False g1 = (send, g2)"
    by (cases "gate_should_send now (sm_state m) False g1")
  have one: "m\<lparr>sm_gate := g\<rparr> = m\<lparr>sm_gcode := sm_gcode m, sm_packet_seq := sm_packet_seq m,
      sm_journal := sm_journal m, sm_gate := g\<rparr>"
    and two: "m\<lparr>sm_gcode := gc, sm_gate := g\<rparr> = m\<lparr>sm_gcode := gc, sm_packet_seq := sm_packet_seq m,
      sm_journal := sm_journal m, sm_gate := g\<rparr>" for g gc
    by simp_all
  from sim_tick_shape [OF assms t e] one two show ?thesis by (cases due; cases send) metis+
qed

lemma sim_tick_fields:
  assumes "sim_tick row_text now x m = (p, m')"
  shows "view_at m' = view_at m" "sm_truth m' = sm_truth m" "sm_state m' = sm_state m" "sm_name m' = sm_name m"
    "sim_ok now m' r = sim_ok now m r" "noted_signature m' = noted_signature m"
proof -
  obtain gc n j g where "m' = m\<lparr>sm_gcode := gc, sm_packet_seq := n, sm_journal := j, sm_gate := g\<rparr>"
    using sim_tick_same [OF assms] by blast
  then show "view_at m' = view_at m" "sm_truth m' = sm_truth m" "sm_state m' = sm_state m" "sm_name m' = sm_name m"
    "sim_ok now m' r = sim_ok now m r" "noted_signature m' = noted_signature m"
    by (simp_all add: view_at_def failed_serial_def sim_ok_def noted_signature_def)
qed

lemma gate_tick_facts:
  assumes "gate_tick now state (Some f) g = (due, g1)"
  shows "pg_last_sampled_state g1 = state" "pg_last_fault g1 = Some f" "pg_prev_state g1 = pg_prev_state g"
    "pg_idle_sent g1 = pg_idle_sent g"
    "pg_fault_pending g1 \<longleftrightarrow> pg_fault_pending g \<or> pg_last_fault g \<noteq> None \<and> pg_last_fault g \<noteq> Some f"
    "\<not> due \<longrightarrow> state = pg_last_sampled_state g \<and> \<not> pg_fault_pending g1"
proof -
  have g1: "g1 = snd (gate_tick now state (Some f) g)" "due = fst (gate_tick now state (Some f) g)"
    using assms by auto
  show "pg_last_sampled_state g1 = state" "pg_last_fault g1 = Some f" "pg_prev_state g1 = pg_prev_state g"
    "pg_idle_sent g1 = pg_idle_sent g"
    "pg_fault_pending g1 \<longleftrightarrow> pg_fault_pending g \<or> pg_last_fault g \<noteq> None \<and> pg_last_fault g \<noteq> Some f"
    "\<not> due \<longrightarrow> state = pg_last_sampled_state g \<and> \<not> pg_fault_pending g1"
    unfolding g1 by (auto simp: gate_tick_def Let_def)
qed

lemma gate_should_send_facts:
  assumes "gate_should_send now state False g = (send, g1)"
  shows "pg_last_sampled_state g1 = pg_last_sampled_state g" "pg_last_fault g1 = pg_last_fault g"
    "pg_prev_state g1 = state" "pg_fault_pending g1 = pg_fault_pending g"
    "\<not> send \<longrightarrow> state = pg_prev_state g \<and> \<not> pg_fault_pending g"
proof -
  have g1: "g1 = snd (gate_should_send now state False g)" "send = fst (gate_should_send now state False g)"
    using assms by auto
  show "pg_last_sampled_state g1 = pg_last_sampled_state g" "pg_last_fault g1 = pg_last_fault g"
    "pg_prev_state g1 = state" "pg_fault_pending g1 = pg_fault_pending g"
    "\<not> send \<longrightarrow> state = pg_prev_state g \<and> \<not> pg_fault_pending g"
    unfolding g1 by (auto simp: gate_should_send_def Let_def)
qed

lemma gate_sent_facts:
  "pg_last_sampled_state (gate_sent now state g) = pg_last_sampled_state g"
  "pg_last_fault (gate_sent now state g) = pg_last_fault g"
  "pg_prev_state (gate_sent now state g) = pg_prev_state g" "\<not> pg_fault_pending (gate_sent now state g)"
  by (simp_all add: gate_sent_def Let_def)

text \<open>
  The tick seen from outside: it sends when the gate is new, or the state or the signature has
  changed, and afterwards the gate knows the sample.
\<close>

lemma sim_tick_gate:
  assumes s: "sim_tick row_text now x m = (p, m')" and state: "sm_state m \<in> {''IDLE'', ''RUNNING''}"
    and g: "gate_fresh (sm_gate m) \<or> gate_knows (sm_gate m) old sig"
  shows "gate_knows (sm_gate m') (sm_state m) (sim_signature now m) \<and>
    (p = None \<longrightarrow> gate_knows (sm_gate m) old sig \<and> sm_state m = old \<and> sim_signature now m = sig)"
proof -
  obtain due g1 where t: "gate_tick now (sm_state m) (Some (sim_signature now m)) (sm_gate m) = (due, g1)"
    by (cases "gate_tick now (sm_state m) (Some (sim_signature now m)) (sm_gate m)")
  obtain send g2 where e: "gate_should_send now (sm_state m) False g1 = (send, g2)"
    by (cases "gate_should_send now (sm_state m) False g1")
  have st: "sm_state m \<noteq> ''''" using state by auto
  note shape = sim_tick_shape [OF s t e]
  note tick = gate_tick_facts [OF t] and send = gate_should_send_facts [OF e]
  have knew: "gate_knows (sm_gate m) old sig \<and> sm_state m = old \<and> sim_signature now m = sig" if "\<not> due \<or> \<not> send"
  proof -
    have "\<not> gate_fresh (sm_gate m)"
      using that tick(3,6) send(5) st unfolding gate_fresh_def by metis
    with g have k: "gate_knows (sm_gate m) old sig" by simp
    from that tick(3,5,6) send(5) k show ?thesis unfolding gate_knows_def by (metis option.discI option.inject)
  qed
  have g1: "gate_knows g1 (sm_state m) (sim_signature now m)" if "\<not> due"
    using that tick knew by (simp add: gate_knows_def)
  have g2: "\<not> send \<Longrightarrow> gate_knows g2 (sm_state m) (sim_signature now m)"
    "gate_knows (gate_sent now (sm_state m) g2) (sm_state m) (sim_signature now m)"
    using tick send by (simp_all add: gate_knows_def gate_sent_facts)
  show ?thesis
  proof (cases due)
    case False
    with shape(1) g1 knew show ?thesis by simp
  next
    case True
    show ?thesis
    proof (cases send)
      case True
      with \<open>due\<close> shape(3) g2(2) show ?thesis by force
    next
      case False
      with \<open>due\<close> shape(2) g2(1) knew show ?thesis by force
    qed
  qed
qed

lemma three_joints: "length ts = sim_joints \<Longrightarrow> map (\<lambda>j. f (ts ! j)) [0..<sim_joints] = map f ts"
  by (auto intro!: nth_equalityI)

lemma dict_get_Cons [simp]: "dict_get ((k, v) # d) k' = (if k = k' then v else dict_get d k')"
  by (simp add: dict_get_def)

lemma payload_view:
  assumes "length (sm_joint_until m) = sim_joints"
    "sm_estop_was m = (now < sm_estop_until m)" "sm_joint_was m = map (\<lambda>t. now < t) (sm_joint_until m)"
  shows "view_of (sim_payload now ts st m @ added) = view_at m"
proof -
  let ?p = "sim_payload now ts st m @ added" and ?x = "py_round 4 (50 * progress_pct now m / 100)"
  have get: "dict_get ?p ''session_id'' = PStr (sm_session_id m)" "dict_get ?p ''parts_produced'' = PInt (sm_parts m)"
    "dict_get ?p ''abort_count'' = PInt (sm_aborts m)" "dict_get ?p ''estop'' = PBool (now < sm_estop_until m)"
    "dict_get ?p ''cmd_state'' = PInt (sm_cmd_state m)" "dict_get ?p ''cmd_serial'' = PInt (sm_cmd_serial m)"
    "dict_get ?p ''joints'' = PList (map (\<lambda>j. joint_dict now ?x j (sm_joint_until m ! j)) [0..<sim_joints])"
    by (simp_all only: sim_payload_def Let_def append_Cons dict_get_Cons) simp_all
  have "map (\<lambda>j. truthy (val_get j ''fault'')) (joint_list ?p) = map (\<lambda>t. now < t) (sm_joint_until m)"
    using three_joints [OF assms(1), of "\<lambda>t. now < t"]
    by (simp add: joint_list_def get(7) joint_dict_def val_get_def comp_def)
  with get assms(2,3) show ?thesis
    by (simp add: view_of_def view_at_def int_member_def failed_serial_def)
qed

lemma sim_tick_payload:
  assumes "sim_tick row_text now x m = (Some p, m')" "sim_ok now m r"
  shows "view_of p = view_at m"
proof -
  obtain due g1 where t: "gate_tick now (sm_state m) (Some (sim_signature now m)) (sm_gate m) = (due, g1)"
    by (cases "gate_tick now (sm_state m) (Some (sim_signature now m)) (sm_gate m)")
  obtain send g2 where e: "gate_should_send now (sm_state m) False g1 = (send, g2)"
    by (cases "gate_should_send now (sm_state m) False g1")
  from sim_tick_shape [OF assms(1) t e] obtain gc n added where
    "p = sim_payload now (si_ts x) (si_stat x) (m\<lparr>sm_gcode := gc, sm_packet_seq := n\<rparr>) @ added"
    by (cases due; cases send) auto
  with payload_view [of "m\<lparr>sm_gcode := gc, sm_packet_seq := n\<rparr>"] assms(2)
  show ?thesis by (simp add: sim_ok_def view_at_def failed_serial_def)
qed

subsection \<open>One turn\<close>

text \<open>A machine no packet has come from, and a machine whose packets so far show its truth.\<close>

definition newborn :: "sim_machine \<Rightarrow> bool" where
  "newborn m \<longleftrightarrow>
     sm_parts m = 0 \<and> sm_aborts m = 0 \<and> \<not> sm_estop_was m \<and> sm_joint_was m = replicate sim_joints False \<and>
     failed_serial m = None \<and> tally_of (sm_truth m) = no_tally"

definition truth_shown :: "sim_machine \<Rightarrow> pydict list \<Rightarrow> bool" where
  "truth_shown m ps \<longleftrightarrow>
     ps = [] \<and> gate_fresh (sm_gate m) \<and> newborn m \<or>
     gate_knows (sm_gate m) (sm_state m) (noted_signature m) \<and> tally_packets ps = (view_at m, tally_of (sm_truth m))"

lemma truth_shown_tally: "truth_shown m ps \<Longrightarrow> snd (tally_packets ps) = tally_of (sm_truth m)"
  by (auto simp: truth_shown_def newborn_def tally_packets_def)

lemma tally_packets_snoc:
  "tally_packets (ps @ [p]) =
     (view_of p, tally_step (fst (tally_packets ps)) (view_of p) (snd (tally_packets ps)))"
  by (simp add: tally_packets_def)

lemma tally_step_newborn:
  "newborn m \<Longrightarrow> tally_step nothing_seen v no_tally = tally_step (view_at m) v (tally_of (sm_truth m))"
  by (simp add: newborn_def tally_step_def nothing_seen_def view_at_def steps_of_def Let_def)

lemma tally_step_still:
  assumes "length (pv_joints v) = sim_joints" "length (ta_joint_faults t) = sim_joints"
  shows "tally_step v v t = t"
proof -
  have "map2 (+) (ta_joint_faults t) (map2 comes_on (pv_joints v) (pv_joints v)) = ta_joint_faults t"
    using assms by (intro nth_equalityI) (auto simp: comes_on_def)
  then show ?thesis by (simp add: tally_step_def steps_of_def comes_on_def)
qed

lemma fresh_knows_nothing: "gate_fresh g \<Longrightarrow> \<not> gate_knows g state sig"
  by (auto simp: gate_fresh_def gate_knows_def)

lemma same_view:
  assumes "noted_signature m' = noted_signature m" "sm_session_id m' = sm_session_id m"
    "sm_parts m' = sm_parts m" "sm_aborts m' = sm_aborts m"
  shows "view_at m' = view_at m"
proof -
  have "map fst (map (\<lambda>b. (b, False)) (sm_joint_was m')) = map fst (map (\<lambda>b. (b, False)) (sm_joint_was m))"
    using assms(1) by (simp add: noted_signature_def)
  then have "sm_joint_was m' = sm_joint_was m" by (simp add: comp_def)
  with assms show ?thesis by (simp add: view_at_def noted_signature_def)
qed

text \<open>A step followed by its tick: the packet, when there is one, brings the tally to the new truth.\<close>

lemma tick_shows:
  assumes tick: "sim_tick row_text now x m1 = (p, m')" and ok1: "sim_ok now m1 r1"
    and tally: "tally_of (sm_truth m1) = tally_step (view_at m) (view_at m1) (tally_of (sm_truth m))"
    and shown: "truth_shown m ps" and ok: "sim_ok t m r"
    and gate: "gate_fresh (sm_gate m1) \<or>
      sm_gate m1 = sm_gate m \<and> sm_session_id m1 = sm_session_id m \<and>
      (sm_state m1 = sm_state m \<longrightarrow> sm_parts m1 = sm_parts m \<and> sm_aborts m1 = sm_aborts m)"
  shows "truth_shown m' (ps @ (case p of Some d \<Rightarrow> [d] | None \<Rightarrow> []))"
proof -
  note same = sim_tick_fields [OF tick]
  have state: "sm_state m1 \<in> {''IDLE'', ''RUNNING''}" using ok1 by (auto simp: sim_ok_def)
  have g: "gate_fresh (sm_gate m1) \<or> gate_knows (sm_gate m1) (sm_state m) (noted_signature m)"
    using gate shown by (auto simp: truth_shown_def)
  note after = sim_tick_gate [OF tick state g, unfolded signature_noted [OF ok1]]
  then have knows: "gate_knows (sm_gate m') (sm_state m') (noted_signature m')" by (simp add: same)
  show ?thesis
  proof (cases p)
    case (Some d)
    have v: "view_of d = view_at m'" using sim_tick_payload [OF tick [unfolded Some] ok1] same by simp
    have "tally_step (fst (tally_packets ps)) (view_at m') (snd (tally_packets ps)) = tally_of (sm_truth m')"
      using shown tally tally_step_newborn [of m "view_at m1"]
      by (auto simp: truth_shown_def same tally_packets_def)
    with knows Some v show ?thesis by (simp add: truth_shown_def tally_packets_snoc)
  next
    case None
    with after have k: "gate_knows (sm_gate m1) (sm_state m) (noted_signature m)" "sm_state m1 = sm_state m"
      "noted_signature m1 = noted_signature m" by auto
    with fresh_knows_nothing gate have kept: "sm_gate m1 = sm_gate m" "sm_session_id m1 = sm_session_id m"
      "sm_parts m1 = sm_parts m" "sm_aborts m1 = sm_aborts m" by blast+
    then have v: "view_at m1 = view_at m" using k(3) same_view by blast
    have "tally_of (sm_truth m1) = tally_of (sm_truth m)"
      using tally ok unfolding v
      by (simp add: tally_step_still view_at_def tally_of_def sim_ok_def)
    moreover have "tally_packets ps = (view_at m, tally_of (sm_truth m))"
      using shown k(1) fresh_knows_nothing unfolding kept(1) truth_shown_def by blast
    ultimately show ?thesis using None knows v by (simp add: truth_shown_def same)
  qed
qed

lemma sender_status_on: "sender_status name d (sd, r) = (sd', r') \<Longrightarrow> drawn_on r r'"
  by (auto simp: sender_status_def split: prod.splits bool.splits option.splits
      dest!: flips_on intro: drawn_on_trans)

lemma ids_before:
  assumes "inj_on (session_hex r') {..<rg_used r'}" "drawn_on r r'"
  shows "inj_on (session_hex r) {..<rg_used r}"
proof -
  have "{..<rg_used r} \<subseteq> {..<rg_used r'}" using drawn_on_facts(3) [OF assms(2)] by auto
  with assms show ?thesis by (auto simp: drawn_on_facts(2) [OF assms(2)] intro: inj_on_subset)
qed

text \<open>Whatever a turn does, the generator only moves on.\<close>

lemma ops_on:
  "fail_command now (m, r) = (m', r') \<Longrightarrow> drawn_on r r'"
  "joint_fault now (m, r) = (m', r') \<Longrightarrow> drawn_on r r'"
  "new_session a now (m, r) = (m', r') \<Longrightarrow> drawn_on r r'"
  "step_estop a now dt quiet (m, r) = (e, m', r') \<Longrightarrow> drawn_on r r'"
  "step_cycle a now quiet e (m, r) = (m', r') \<Longrightarrow> drawn_on r r'"
  by (auto simp: fail_command_def joint_fault_def new_session_def step_estop_def step_cycle_def Let_def
      split: prod.splits if_splits bool.splits
      dest: uniform_on chance_on randrange_on idle_for_fields(1) begin_cycle_fields(1) intro: drawn_on_trans)

lemma later_ops_on:
  "operator_tries now (m, r) = (m', r') \<Longrightarrow> drawn_on r r'"
  "step_again now e (m, r) = (m', r') \<Longrightarrow> drawn_on r r'"
  by (auto simp: operator_tries_def step_again_def Let_def
      split: prod.splits if_splits option.splits dest!: ops_on(1) draw_on intro: drawn_on_trans)

lemma step_faults_on: "step_faults a now dt quiet e (m, r) = (m', r') \<Longrightarrow> drawn_on r r'"
  by (auto simp: step_faults_def split: prod.splits if_splits
      dest!: chance_on ops_on(2) later_ops_on(1) intro: drawn_on_trans)

lemma faults_again_on:
  "step_again now e (step_faults a now dt quiet e' (m, r)) = (m', r') \<Longrightarrow> drawn_on r r'"
  by (cases "step_faults a now dt quiet e' (m, r)")
    (auto dest!: later_ops_on(2) step_faults_on intro: drawn_on_trans)

lemma sim_turn_on:
  assumes "sim_turn row_text dumps a now dt quiet x (m, sd, r) = (p, m', sd', r')"
  shows "drawn_on r r'"
proof -
  obtain m1 r1 where step: "sim_step a now dt quiet (m, r) = (m1, r1)" by (cases "sim_step a now dt quiet (m, r)")
  have "drawn_on r r1"
    using step
    by (auto simp: sim_step_def split: prod.splits bool.splits
        dest!: draws_restart_on ops_on(3-5) faults_again_on intro: drawn_on_trans)
  moreover have "drawn_on r1 r'"
    using assms step by (auto simp: sim_turn_def split: prod.splits option.splits dest: sender_status_on)
  ultimately show ?thesis by (rule drawn_on_trans)
qed

lemma sim_turn_shows:
  assumes ok: "sim_ok t m r" "t \<le> now" "fair r" and shown: "truth_shown m ps"
    and s: "sim_turn row_text dumps a now dt quiet x (m, sd, r) = (p, m', sd', r')"
    and ids: "inj_on (session_hex r') {..<rg_used r'}"
  shows "sim_ok now m' r' \<and> drawn_on r r' \<and> sm_name m' = sm_name m \<and>
    truth_shown m' (ps @ (case p of Some d \<Rightarrow> [d] | None \<Rightarrow> []))"
proof -
  obtain m1 r1 where step: "sim_step a now dt quiet (m, r) = (m1, r1)" by (cases "sim_step a now dt quiet (m, r)")
  have tick: "sim_tick row_text now x m1 = (p, m')" and on1: "drawn_on r1 r'"
    using s step by (auto simp: sim_turn_def split: prod.splits option.splits dest: sender_status_on)
  note ids1 = ids_before [OF ids on1]
  obtain b r0 where b: "draws_restart a now dt quiet (m, r) = (b, r0)" by (cases "draws_restart a now dt quiet (m, r)")
  have one: "sim_ok now m1 r1 \<and> drawn_on r r1 \<and> sm_name m1 = sm_name m \<and>
    tally_of (sm_truth m1) = tally_step (view_at m) (view_at m1) (tally_of (sm_truth m)) \<and>
    (gate_fresh (sm_gate m1) \<or>
      sm_gate m1 = sm_gate m \<and> sm_session_id m1 = sm_session_id m \<and>
      (sm_state m1 = sm_state m \<longrightarrow> sm_parts m1 = sm_parts m \<and> sm_aborts m1 = sm_aborts m))"
  proof (cases b)
    case True
    with b have "draws_restart a now dt quiet (m, r) = (True, r0)" by simp
    from sim_step_restarts [OF ok(1,2) step this ids1] show ?thesis
      by (simp add: gate_init_fresh)
  next
    case False
    with b have "draws_restart a now dt quiet (m, r) = (False, r0)" by simp
    from sim_step_goes_on [OF ok step this] show ?thesis by simp
  qed
  then have "truth_shown m' (ps @ (case p of Some d \<Rightarrow> [d] | None \<Rightarrow> []))"
    using tick_shows [OF tick _ _ shown ok(1)] by blast
  with one on1 sim_tick_fields [OF tick] show ?thesis
    by (auto intro: drawn_on_trans sim_ok_drawn)
qed

subsection \<open>The fleet\<close>

lemma parse_decimal: "parse_digits (decimal n) = int n"
proof (induction n rule: decimal.induct)
  case (1 n)
  show ?case
  proof (cases "n < 10")
    case True
    then show ?thesis
      using digit_char [of n] by (simp add: decimal.simps [of n] parse_digits_def)
  next
    case False
    have "int n = 10 * int (n div 10) + int (n mod 10)" by presburger
    moreover have "parse_digits (decimal n) = 10 * parse_digits (decimal (n div 10)) + int (n mod 10)"
      using False digit_char(2) [of "n mod 10"] by (simp add: decimal.simps [of n] parse_digits_snoc)
    ultimately show ?thesis using 1 [OF False] by linarith
  qed
qed

lemma three_digits_inj: "three_digits i = three_digits j \<Longrightarrow> i = j"
proof -
  have "parse_digits (three_digits n) = int n" for n
    by (simp add: three_digits_def parse_padded parse_decimal)
  then show "three_digits i = three_digits j \<Longrightarrow> i = j" by (metis of_nat_eq_iff)
qed

text \<open>The packets of one machine among those of all.\<close>

definition packets_of :: "string \<Rightarrow> (string \<times> pydict) list \<Rightarrow> pydict list" where
  "packets_of name ps = map snd (filter (\<lambda>e. fst e = name) ps)"

lemma packets_of_append [simp]: "packets_of name (ps @ qs) = packets_of name ps @ packets_of name qs"
  by (simp add: packets_of_def)

lemma packets_of_none: "name \<notin> fst ` set ps \<Longrightarrow> packets_of name ps = []"
  by (auto simp: packets_of_def filter_empty_conv)

definition all_shown :: "rat \<Rightarrow> sim_rng \<Rightarrow> (string \<times> pydict) list \<Rightarrow> sim_machine list \<Rightarrow> bool" where
  "all_shown t r ps ms \<longleftrightarrow> (\<forall>m\<in>set ms. sim_ok t m r \<and> truth_shown m (packets_of (sm_name m) ps))"

lemma all_shown_drawn: "all_shown t r ps ms \<Longrightarrow> drawn_on r r' \<Longrightarrow> all_shown t r' ps ms"
  by (auto simp: all_shown_def intro: sim_ok_drawn)

lemma fleet_turns_show:
  assumes "all_shown t r ps ms" "t \<le> now" "fair r" "distinct (map sm_name ms)"
    and "fleet_turns row_text dumps a now dt quiet xs ms (sd, r) = (qs, ms', sd', r')"
    and "inj_on (session_hex r') {..<rg_used r'}"
  shows "all_shown now r' (ps @ qs) ms' \<and> drawn_on r r' \<and> map sm_name ms' = map sm_name ms \<and>
    fst ` set qs \<subseteq> sm_name ` set ms"
  using assms
proof (induction ms arbitrary: sd r qs ms')
  case Nil
  then show ?case by (simp add: all_shown_def)
next
  case (Cons m ms)
  obtain p m1 sd1 r1 where turn: "sim_turn row_text dumps a now dt quiet (xs (sm_name m)) (m, sd, r) = (p, m1, sd1, r1)"
    by (metis prod.exhaust)
  obtain qs1 ms1 sd2 r2 where more: "fleet_turns row_text dumps a now dt quiet xs ms (sd1, r1) = (qs1, ms1, sd2, r2)"
    by (metis prod.exhaust)
  let ?own = "case p of Some d \<Rightarrow> [(sm_name m, d)] | None \<Rightarrow> []"
  have res: "qs = ?own @ qs1" "ms' = m1 # ms1" "sd2 = sd'" "r2 = r'" using Cons.prems(5) turn more by auto
  have on1: "drawn_on r r1" using sim_turn_on [OF turn] .
  have fair1: "fair r1" using on1 Cons.prems(3) drawn_on_facts(1) by blast
  have others: "all_shown t r1 ps ms" "distinct (map sm_name ms)" "sm_name m \<notin> sm_name ` set ms"
    using Cons.prems(1,4) on1 by (auto simp: all_shown_def intro: sim_ok_drawn)
  note tail = Cons.IH [OF others(1) Cons.prems(2) fair1 others(2) more [unfolded res] Cons.prems(6)]
  then have on2: "drawn_on r1 r'" by blast
  have "sim_ok t m r" "truth_shown m (packets_of (sm_name m) ps)" using Cons.prems(1) by (auto simp: all_shown_def)
  with sim_turn_shows [OF _ Cons.prems(2,3) _ turn ids_before [OF Cons.prems(6) on2]]
  have head: "sim_ok now m1 r1" "sm_name m1 = sm_name m"
    "truth_shown m1 (packets_of (sm_name m) ps @ (case p of Some d \<Rightarrow> [d] | None \<Rightarrow> []))" by auto
  have own: "packets_of (sm_name m) (ps @ qs) = packets_of (sm_name m) ps @ (case p of Some d \<Rightarrow> [d] | None \<Rightarrow> [])"
    using packets_of_none [of "sm_name m" qs1] tail others(3)
    by (auto simp: res(1) packets_of_def split: option.split)
  have foreign: "packets_of (sm_name m2) (ps @ qs) = packets_of (sm_name m2) (ps @ qs1)" if "m2 \<in> set ms1" for m2
  proof -
    have "sm_name m2 \<in> sm_name ` set ms" using tail that by (metis image_eqI list.set_map)
    then have "sm_name m2 \<noteq> sm_name m" using others(3) by auto
    then show ?thesis by (simp add: res(1) packets_of_def split: option.split)
  qed
  have "all_shown now r' (ps @ qs) ms'"
    using head own foreign tail sim_ok_drawn [OF head(1) on2] by (auto simp: all_shown_def res(2))
  moreover have "fst ` set qs \<subseteq> sm_name ` set (m # ms)"
    using tail by (auto simp: res(1) split: option.splits)
  ultimately show ?case
    using tail head(2) on1 drawn_on_trans by (simp add: res(2))
qed

lemma write_truth_fields [simp]:
  "fl_machines (write_truth b f) = fl_machines f" "fl_rng (write_truth b f) = fl_rng f"
  by (simp_all add: write_truth_def)

lemma fleet_pass_shows:
  assumes "all_shown t (fl_rng f) ps (fl_machines f)" "t \<le> now" "fair (fl_rng f)" "distinct (map sm_name (fl_machines f))"
    and pass: "fleet_pass row_text dumps a start (now, xs) f = (qs, f')"
    and ids: "inj_on (session_hex (fl_rng f')) {..<rg_used (fl_rng f')}"
  shows "all_shown now (fl_rng f') (ps @ qs) (fl_machines f') \<and> drawn_on (fl_rng f) (fl_rng f') \<and>
    map sm_name (fl_machines f') = map sm_name (fl_machines f)"
proof -
  obtain ms sd r where turns: "fleet_turns row_text dumps a now (now - fl_last f)
      (start + sa_minutes a * 60 \<le> now) xs (fl_machines f) (fl_sender f, fl_rng f) = (qs, ms, sd, r)"
    using pass by (auto simp: fleet_pass_def Let_def split: prod.splits)
  then have f': "fl_machines f' = ms" "fl_rng f' = r"
    using pass by (auto simp: fleet_pass_def Let_def)
  with fleet_turns_show [OF assms(1-4) turns] ids show ?thesis by simp
qed

lemma fleet_turns_on:
  "fleet_turns row_text dumps a now dt quiet xs ms (sd, r) = (ps, ms', sd', r') \<Longrightarrow> drawn_on r r'"
proof (induction ms arbitrary: sd r ps ms')
  case (Cons m ms)
  obtain p m1 sd1 r1 where turn: "sim_turn row_text dumps a now dt quiet (xs (sm_name m)) (m, sd, r) = (p, m1, sd1, r1)"
    by (metis prod.exhaust)
  obtain qs ms1 sd2 r2 where more: "fleet_turns row_text dumps a now dt quiet xs ms (sd1, r1) = (qs, ms1, sd2, r2)"
    by (metis prod.exhaust)
  have res: "sd2 = sd'" "r2 = r'" using Cons.prems turn more by auto
  show ?case using drawn_on_trans [OF sim_turn_on [OF turn] Cons.IH [OF more [unfolded res]]] .
qed simp

lemma fleet_pass_on:
  assumes "fleet_pass row_text dumps a start x f = (qs, f')"
  shows "drawn_on (fl_rng f) (fl_rng f')"
  using assms by (auto simp: fleet_pass_def Let_def split: prod.splits dest: fleet_turns_on)

lemma fleet_run_on:
  "fleet_run row_text dumps a start xs f = (code, qs, f') \<Longrightarrow> drawn_on (fl_rng f) (fl_rng f')"
proof (induction xs arbitrary: f code qs)
  case (Cons x xs)
  obtain qs1 f1 where pass: "fleet_pass row_text dumps a start x f = (qs1, f1)"
    by (cases "fleet_pass row_text dumps a start x f")
  show ?case
  proof (cases "start + sa_minutes a * 60 + sa_settle a \<le> fst x")
    case True
    with Cons.prems show ?thesis by (auto simp: fleet_end_def Let_def)
  next
    case False
    then obtain qs2 where "fleet_run row_text dumps a start xs f1 = (code, qs2, f')"
      using Cons.prems pass by (auto split: prod.splits)
    from drawn_on_trans [OF fleet_pass_on [OF pass] Cons.IH [OF this]] show ?thesis .
  qed
qed (auto simp: fleet_end_def Let_def)

lemma fleet_end_shows:
  assumes "all_shown t (fl_rng f) ps (fl_machines f)"
  shows "\<exists>tf. fl_truth (fleet_end b f) = Some tf \<and> map fst (tf_machines tf) = map sm_name (fl_machines f) \<and>
    (\<forall>(name, truth)\<in>set (tf_machines tf). tally_of truth = snd (tally_packets (packets_of name ps)))"
  using assms
  by (auto simp: fleet_end_def write_truth_def Let_def comp_def all_shown_def truth_shown_tally)

text \<open>At the end of a run every machine's truth, as written to the file, is what its packets show.\<close>

lemma fleet_run_shows:
  assumes "all_shown t (fl_rng f) ps (fl_machines f)" "sorted (t # map fst xs)" "fair (fl_rng f)"
    and "distinct (map sm_name (fl_machines f))"
    and "fleet_run row_text dumps a start xs f = (code, qs, f')"
    and "inj_on (session_hex (fl_rng f')) {..<rg_used (fl_rng f')}"
  shows "\<exists>tf. fl_truth f' = Some tf \<and> map fst (tf_machines tf) = map sm_name (fl_machines f) \<and>
    (\<forall>(name, truth)\<in>set (tf_machines tf). tally_of truth = snd (tally_packets (packets_of name (ps @ qs))))"
  using assms
proof (induction xs arbitrary: t f ps qs code)
  case Nil
  from fleet_end_shows [OF Nil.prems(1)] Nil.prems(5) show ?case by auto
next
  case (Cons x xs)
  show ?case
  proof (cases "start + sa_minutes a * 60 + sa_settle a \<le> fst x")
    case True
    with Cons.prems(5) fleet_end_shows [OF Cons.prems(1)] show ?thesis by auto
  next
    case False
    obtain now inputs where x: "x = (now, inputs)" by (cases x)
    obtain qs1 f1 where pass: "fleet_pass row_text dumps a start (now, inputs) f = (qs1, f1)"
      by (cases "fleet_pass row_text dumps a start (now, inputs) f")
    obtain qs2 where run: "fleet_run row_text dumps a start xs f1 = (code, qs2, f')" and qs: "qs = qs1 @ qs2"
      using Cons.prems(5) False x pass by (auto split: prod.splits)
    note on = fleet_run_on [OF run]
    note step = fleet_pass_shows [OF Cons.prems(1) _ Cons.prems(3,4) pass ids_before [OF Cons.prems(6) on]]
    have "t \<le> now" "sorted (now # map fst xs)" using Cons.prems(2) x by auto
    with step Cons.IH [of now f1 "ps @ qs1" code qs2] run Cons.prems(3,4,6) fleet_pass_on [OF pass] drawn_on_facts(1)
    show ?thesis by (auto simp: qs)
  qed
qed

lemma sim_new_starts:
  assumes s: "sim_new a i now uuid j program r = (m, r')" and t: "0 \<le> t"
  shows "sim_ok t m r'" "truth_shown m []" "sm_name m = sa_prefix a @ three_digits (i + 1)" "drawn_on r r'"
proof -
  obtain serial r1 where serial: "randrange 50 r = (serial, r1)" by (cases "randrange 50 r")
  obtain w r2 where w: "uniform (fst (sa_idle a)) (snd (sa_idle a)) r1 = (w, r2)"
    by (cases "uniform (fst (sa_idle a)) (snd (sa_idle a)) r1")
  have r': "r' = r2" and used: "rg_used r2 = Suc (rg_used r1)"
    using s serial w by (auto simp: sim_new_def new_session_def uniform_def draw_def)
  have on: "drawn_on r1 r2" using uniform_on [OF w] .
  show "drawn_on r r'" using randrange_on [OF serial] on r' drawn_on_trans by blast
  show "sim_ok t m r'"
    using s serial w t used drawn_on_facts(2) [OF on] r'
    by (auto simp: sim_new_def new_session_def sim_ok_def sim_codes map_replicate_const intro!: exI [of _ "rg_used r1"])
  show "sm_name m = sa_prefix a @ three_digits (i + 1)"
    using s serial w by (auto simp: sim_new_def new_session_def)
  show "truth_shown m []"
    using s serial w
    by (auto simp: sim_new_def new_session_def truth_shown_def newborn_def gate_init_fresh failed_serial_def
        sim_codes tally_of_def no_tally_def)
qed

lemma new_machines_start:
  assumes "new_machines a i xs r = (ms, r')" "0 \<le> t"
  shows "all_shown t r' [] ms \<and> map sm_name ms = map (\<lambda>k. sa_prefix a @ three_digits (k + 1)) [i..<i + length xs] \<and>
    drawn_on r r'"
  using assms
proof (induction a i xs r arbitrary: ms rule: new_machines.induct)
  case (2 a i now uuid j program xs r)
  obtain m r1 where m: "sim_new a i now uuid j program r = (m, r1)"
    by (cases "sim_new a i now uuid j program r")
  obtain ms1 r2 where ms: "new_machines a (Suc i) xs r1 = (ms1, r2)" by (cases "new_machines a (Suc i) xs r1")
  with "2.prems" m have res: "ms = m # ms1" "r2 = r'" by auto
  note one = sim_new_starts [OF m "2.prems"(2)]
  note rest_ok = "2.IH" [OF m [symmetric] ms [unfolded res] "2.prems"(2)]
  with one show ?case
    using sim_ok_drawn [OF one(1), of r'] drawn_on_trans [OF one(4), of r']
    using upt_conv_Cons [of i "i + Suc (length xs)"]
    by (simp add: res(1) all_shown_def packets_of_def del: upt_Suc)
qed (simp add: all_shown_def)

lemma check_diff_Nil: "check_diff got t = [] \<longleftrightarrow> got = tally_of t"
  by (auto simp: check_diff_def tally_of_def)

lemma cmd_check_clean:
  "cmd_check tf db = (0, []) \<longleftrightarrow>
     (\<forall>(name, t)\<in>set (tf_machines tf). fst (sim_counts db name) = tally_of t)"
  by (fastforce simp: cmd_check_def Let_def filter_empty_conv check_diff_Nil split: if_splits)

text \<open>
  C25: For every run of the simulator (any draws, any clock), the ground truth that is written can be
  seen in the packets: \<open>check\<close> reports no difference exactly when the dashboard's counts are
  those of a receiver that gets every packet in order. No two faults merge into one, none is
  counted that no packet shows, and a restart loses no part.
\<close>

theorem check_is_exact:
  assumes "fair r" "0 \<le> start" "sorted (start # map fst passes)"
    and run: "fleet_run row_text dumps a start passes (new_fleet a sd start xs r) = (code, ps, f)"
    and ids: "inj_on (session_hex r) {..<rg_used (fl_rng f)}"
  shows "\<exists>tf. fl_truth f = Some tf \<and>
    map fst (tf_machines tf) = map (\<lambda>i. sa_prefix a @ three_digits (i + 1)) [0..<length xs] \<and>
    (\<forall>db. cmd_check tf db = (0, []) \<longleftrightarrow>
       (\<forall>name\<in>fst ` set (tf_machines tf). fst (sim_counts db name) = snd (tally_packets (packets_of name ps))))"
proof -
  obtain ms r1 where new: "new_machines a 0 xs r = (ms, r1)" by (cases "new_machines a 0 xs r")
  let ?f = "new_fleet a sd start xs r"
  have f0: "fl_machines ?f = ms" "fl_rng ?f = r1" using new by (simp_all add: new_fleet_def)
  note born = new_machines_start [OF new \<open>0 \<le> start\<close>]
  have on: "drawn_on r (fl_rng f)"
    using born fleet_run_on [OF run] f0(2) drawn_on_trans by metis
  have fair1: "fair (fl_rng ?f)" using born \<open>fair r\<close> drawn_on_facts(1) f0(2) by metis
  have ids': "inj_on (session_hex (fl_rng f)) {..<rg_used (fl_rng f)}"
    using ids drawn_on_facts(2) [OF on] by simp
  have names: "distinct (map sm_name (fl_machines ?f))"
    using born three_digits_inj by (auto simp: distinct_map inj_on_def f0)
  have shown: "all_shown start (fl_rng ?f) [] (fl_machines ?f)" using born f0 by simp
  from fleet_run_shows [OF shown assms(3) fair1 names run ids'] f0 obtain tf where tf: "fl_truth f = Some tf" "map fst (tf_machines tf) = map sm_name ms"
    "\<forall>(name, truth)\<in>set (tf_machines tf). tally_of truth = snd (tally_packets (packets_of name ps))"
    by auto
  have "cmd_check tf db = (0, []) \<longleftrightarrow>
      (\<forall>name\<in>fst ` set (tf_machines tf). fst (sim_counts db name) = snd (tally_packets (packets_of name ps)))" for db
    using tf(3) by (auto simp: cmd_check_clean split_def)
  with tf born show ?thesis by auto
qed

text \<open>A run of one machine: a cycle from 1 s to 3 s, a part, the end after a minute.\<close>

definition demo_sim_args :: sim_args where
  "demo_sim_args =
     \<lparr>sa_prefix = ''SIM-'', sa_journal_interval = 10, sa_journal_base_port = 6100, sa_poll = 1,
      sa_heartbeat = 30, sa_gcode_resend = 60, sa_cycle = (2, 2), sa_idle = (0, 0), sa_abort_prob = 0,
      sa_estop_rate = 0, sa_joint_fault_rate = 0, sa_cmd_error_rate = 0, sa_restart_rate = 0,
      sa_minutes = 1, sa_settle = 0\<rparr>"

definition demo_rng :: sim_rng where
  "demo_rng = \<lparr>rg_random = (\<lambda>_. 1/2), rg_below = (\<lambda>_ _. 0), rg_hex = padded 16, rg_used = 0\<rparr>"

definition demo_sim_input :: sim_input where
  "demo_sim_input =
     \<lparr>si_ts = 5, si_stat_check = None, si_stat = None, si_gcode_now = 0, si_journal = demo_journal_env\<lparr>je_free := Some 0\<rparr>,
      si_server_alive = True\<rparr>"

definition demo_sim_fleet :: fleet where
  "demo_sim_fleet =
     new_fleet demo_sim_args (sender_new 0 0) 0
       [(0, ''uuid'', journal_start 10 14 100 db_empty demo_journal_env, None)] demo_rng"

definition demo_sim_run :: "int \<times> (string \<times> pydict) list \<times> fleet" where
  "demo_sim_run =
     fleet_run (\<lambda>_. ''{}'') (\<lambda>_. ''{}'') demo_sim_args 0 [(1, \<lambda>_. demo_sim_input), (3, \<lambda>_. demo_sim_input),
       (60, \<lambda>_. demo_sim_input)] demo_sim_fleet"

lemma demo_sim_ends:
  "fst demo_sim_run = 0 \<and> rg_used (fl_rng (snd (snd demo_sim_run))) = 5 \<and>
   map (\<lambda>m. tr_parts (sm_truth m)) (fl_machines (snd (snd demo_sim_run))) = [1]"
  by code_simp

theorem check_is_exact_witness:
  "\<exists>ps f tf. demo_sim_run = (0, ps, f) \<and> fl_truth f = Some tf \<and> map fst (tf_machines tf) = [''SIM-001''] \<and>
    (\<forall>db. cmd_check tf db = (0, []) \<longleftrightarrow>
       (\<forall>name\<in>fst ` set (tf_machines tf). fst (sim_counts db name) = snd (tally_packets (packets_of name ps))))"
proof -
  define ps f where "ps = fst (snd demo_sim_run)" and "f = snd (snd demo_sim_run)"
  then have run: "demo_sim_run = (0, ps, f)" and used: "rg_used (fl_rng f) = 5"
    using demo_sim_ends by (simp_all add: prod_eq_iff)
  have fair: "fair demo_rng" by (simp add: fair_def demo_rng_def)
  have "session_hex demo_rng n = padded 16 n" for n
    by (simp add: session_hex_def demo_rng_def length_padded)
  then have "parse_digits (session_hex demo_rng n) = int n" if "n < 5" for n
    using parse_padded [of n 16] that by simp
  then have ids: "inj_on (session_hex demo_rng) {..<rg_used (fl_rng f)}"
    unfolding used by (intro inj_onI) (metis lessThan_iff of_nat_eq_iff)
  have name: "sa_prefix demo_sim_args @ three_digits (0 + 1) = ''SIM-001''" by code_simp
  from check_is_exact [OF fair order_refl _ run [unfolded demo_sim_run_def demo_sim_fleet_def] ids] name run
  show ?thesis by (intro exI [of _ ps] exI [of _ f]) auto
qed

end
