(* ===== verification/Spec2Isabelle.thy ===== *)
theory Spec2Isabelle
  imports Program_File Cycle_Machine Packet_Gate Gcode_Sender Journal_Server Mes_Forward
    Mes_Outbox Status_Loop Mes_Discovery Packet_Loop Mes_Status Main_Loop Contract_Folder
    Udp_Receiver Agent_Start Service_Answers Mes_Readout Fleet_Truth
begin

text \<open>
  A verified model of the LinuxCNC status agent: a process beside LinuxCNC that samples
  the machine a few times a second, works out cycles and finished parts, sends signed
  UDP status packets to a dashboard, keeps a local history, and (the MES side) stores
  production events durably and forwards them to a site service.

  How the parts interact. \<open>status.py\<close> samples LinuxCNC; each sample drives the cycle
  state machine (\<open>_CycleStateMachine\<close>), which follows the loaded program through
  \<open>program_tracker.py\<close> and accounts for time and parts in \<open>cycle_time_calculator.py\<close>.
  \<open>agent_packets.py\<close> decides which samples become packets, \<open>agent_auth.py\<close> signs them,
  \<open>agent_journal.py\<close> writes them to the history and answers queries about it, and
  \<open>agent_gcode.py\<close> sends the program text in a background thread. Events of the MES side
  start in \<open>agent_mes_link.py\<close>: the loop of \<open>status.py\<close> tells \<open>CycleLink\<close> when a cycle starts
  and ends, a worker thread turns each finished cycle into an event, the contract checker
  (\<open>contracts/mes/v1/validate.py\<close>) accepts or refuses it, and the spool of
  \<open>agent_mes_spool.py\<close> keeps it; from there the forwarder of \<open>agent_mes_forward.py\<close> sends
  it, and \<open>OutboxReader\<close> takes in what MillWright itself left in its outbox. Enrolment
  connects the machine to a site first, and discovery finds the service again when its
  address changes. \<open>agent_net.py\<close> decides through which interface and to which addresses
  packets go, \<open>agent_mes_status.py\<close> shows the operator the state of the MES side, and
  \<open>agent_identity.py\<close> gives the machine its id. All settings come from \<open>load_config\<close>.

  Theories, in the order they build on each other.

  \<^item> \<open>Agent_Prelude\<close>: numbers (Python floats are exact rationals), bounded buffers,
    Latin-1 text, files, the locales \<open>bounded_buffer\<close> and \<open>invariant_machine\<close> that the
    components instantiate. \<open>Py_Value\<close>: JSON and packet values. \<open>Py_Text\<close>: case, search,
    joining. \<open>Py_Regex\<close>: a backtracking matcher for the patterns the agent uses.
  \<^item> \<open>Program_Scan\<close>, \<open>Program_Scanner\<close>, \<open>Program_File\<close>, \<open>Line_Tracker\<close>
    (\<open>program_tracker.py\<close>): what a scan of a G-code file records (the first and last
    executable line, moves, the end word), the scan cache and its background thread, which
    of the files LinuxCNC opens is the program, and following the current line through one
    cycle up to the decision whether the program was completed.
  \<^item> \<open>Cycle_Calculator\<close>, \<open>Cycle_Accounting\<close> (\<open>cycle_time_calculator.py\<close>): every method of
    the calculator over a record with its fields, and the accounting of parts: a ledger
    specification that every call refines, and invariants of every reachable state.
  \<^item> \<open>Cycle_Machine\<close> (\<open>status.py\<close>): IDLE, RUNNING, PAUSED with every guard, driving the
    components above; reachability over any samples and disconnects.
  \<^item> \<open>Packet_Gate\<close>, \<open>Packet_Auth\<close>, \<open>Gcode_Sender\<close>: when packets go out, their signature,
    cutting program text into packets that fit and the sender's worker generations.
  \<^item> \<open>Journal\<close>, \<open>Journal_Server\<close> (\<open>agent_journal.py\<close>): the history database as rows with
    growing numbers, failures and back-off, and the query server with paging (locale
    \<open>paged_log\<close>, interpreted on the real reply), authorisation and replay protection.
  \<^item> \<open>Agent_Identity\<close> (\<open>agent_identity.py\<close>): the id pattern and the file made once.
  \<^item> \<open>Mes_Spool\<close> (\<open>agent_mes_spool.py\<close>): epochs and producer numbers over restarts and
    restored copies, all-or-nothing appends, the waiting events; locale \<open>event_queue\<close>.
  \<^item> \<open>Mes_Enrol\<close>, \<open>Mes_Forward\<close> (\<open>agent_mes_forward.py\<close>): enrolling, in the order of
    everything sent and written, and the forwarder, one \<open>step\<close> at a time, on top of the
    spool; draining the queue is an instance of the locale's rounds.

  \<^item> \<open>Event_Time\<close>, \<open>Contract_Schema\<close>, \<open>Mes_Contract\<close>, \<open>Contract_V1\<close>
    (\<open>contracts/mes/v1/validate.py\<close>): RFC 3339 times, the schema checker as a list of
    problems, against a declarative meaning of the schema keywords, validation, encoding and
    decoding of events, and the envelope and cycle schemas of version 1 themselves.
    \<open>Mes_Contract\<close> instantiates the codec that \<open>Mes_Spool\<close> leaves open.
  \<^item> \<open>Cycle_Link\<close>, \<open>Mes_Outbox\<close> (\<open>agent_mes_link.py\<close>): reading the run file, which run and
    step a cycle belongs to, the queue of finished cycles, the worker that stores them, and
    copying the outbox of MillWright.
  \<^item> \<open>Status_Loop\<close> (\<open>status.py\<close>): one pass of the main loop, the cycle machine and the
    MillWright link together.
  \<^item> \<open>Agent_Config\<close> (\<open>status.py\<close>): built-in defaults, coercion, the flat parser used
    without PyYAML, loading with every failure, \<open>set_config_value\<close> that edits one line, and
    the rate limit of the log.
  \<^item> \<open>Agent_Net\<close>, \<open>Mes_Discovery\<close> (\<open>agent_net.py\<close>, \<open>agent_mes_discovery.py\<close>): IPv4
    addresses as 32-bit words, interfaces, Mesa boards and broadcast addresses, the plan for
    \<open>monitor_interface\<close>, and \<open>UdpSender\<close>, whose sends and whose refresh thread interleave
    freely (\<open>net_step\<close>). \<open>Finder\<close> probes through that sender's targets, takes beacons and
    answers, and what it returns is the \<open>look\<close> of the forwarder in \<open>Mes_Forward\<close>.
  \<^item> \<open>Status_Packet\<close>, \<open>Packet_Loop\<close> (\<open>status.py\<close>): the collectors and the payload, and the
    packet side of one pass of the main loop: the error channel, the gate, the payload with
    the calculator's snapshot, the journal, and the program text.
  \<^item> \<open>Mes_Status\<close> (\<open>agent_mes_status.py\<close>): the operator's readout file, from the thread
    that writes it to the reader that tells a running agent from a stopped or dead one.
  \<^item> \<open>Agent_Runtime\<close>, \<open>Main_Loop\<close> (\<open>agent_runtime.py\<close>, \<open>status.py\<close>): the watch for LinuxCNC's
    processes, the configuration file used, the lock; and the whole main loop, which puts
    \<open>Program_File\<close>, \<open>Status_Loop\<close> and \<open>Packet_Loop\<close> together: what packets say about parts,
    what can end the agent, and what an outage of LinuxCNC leaves behind.
  \<^item> \<open>Agent_Start\<close> (\<open>status.py\<close>, \<open>agent_identity.py\<close>): the mode chosen by the command line,
    every component made from the settings, leftover temporary files, and the identity
    that packets carry from one start to the next.
  \<^item> \<open>Service_Answers\<close> (\<open>agent_mes_forward.py\<close>): the answers of the service during enrolment
    from the bytes on the wire, with PEM and lenient base64 written out: the world that
    \<open>Mes_Enrol\<close> leaves open, and what the fingerprint check does and does not establish.
  \<^item> \<open>Mes_Readout\<close> (\<open>agent_mes_status.py\<close>, \<open>agent_mes_spool.py\<close>): the spool's statistics and
    warning, the link's status, and the lines \<open>--mes-status\<close> prints for the file.
  \<^item> \<open>Fleet_Sim\<close>, \<open>Fleet_Truth\<close> (\<open>tools/fleet_sim.py\<close>): simulated machines on the agent's gate,
    journal and program sender, the run with its ground truth, the sender that loses and
    reorders, and \<open>check\<close>; the truth against what a receiver of all packets counts. Each
    part of a step has its own account (E-stops, joint faults, parts, commands).
  \<^item> \<open>Contract_Folder\<close> (\<open>contracts/mes/v1/validate.py\<close>): loading the contract with the check
    of its schemas' keywords, and the manifest of checksums.
  \<^item> \<open>Udp_Receiver\<close> (\<open>examples/udp_receiver.py\<close>): the demonstration receiver, with the G-code
    stream of \<open>Gcode_Sender\<close> end to end over a network that loses, repeats and reorders.

  Correspondence. A class of the code is a record whose fields carry a prefix (\<open>fw_\<close> for
  \<open>Forwarder\<close>, \<open>sp_\<close> for \<open>Spool\<close>); a method is a function from the state (and what the
  outside world does during the call, an environment record such as \<open>forward_env\<close>) to
  result and new state. Exceptions are values: \<open>None\<close> or the left of a sum where the code
  raises. Clocks, random numbers, fresh identifiers, file system and network outcomes are
  arguments, so every theorem holds for all of them.

  What the lemmas show: for each component the invariant of its state over all calls, the
  functional behaviour on every branch, and the properties that matter to its users, such
  as parts counted exactly once, complete history queries, packets that fit and verify,
  numbers that are never used twice, and events that are neither lost nor acknowledged
  without a receipt.

  Termination and bounds. Every function is total; the paging client of \<open>Journal_Server\<close>
  has fuel that is shown to suffice (one step per row). The schema checker follows
  references between definitions, which the code bounds only by the interpreter's recursion
  limit; the model has that limit as an argument, running out of it is the error \<open>RecursionError\<close>, a
  schema whose references are well founded never does when the limit is high enough, and ten
  nested calls are enough for the schemas of version 1. Integers are unbounded as in
  Python; sizes in bytes are integers.

  Not modelled. Rounding of binary floating point. HMAC-SHA256, TLS, JSON text, UTF-8
  and SQLite are parameters or outcomes (SQLite is rows and a transaction that
  commits or not); so are PyYAML and \<open>repr\<close>. What the \<open>ip\<close> command prints, routing, name
  lookup, sockets and clocks are answers of the environment; so are SHA-256, \<open>flock\<close> and
  \<open>/proc\<close>. Left out: argument parsing, logging, the printed reports (\<open>--check\<close>, \<open>describe\<close>,
  the receiver's screen and the simulator's progress lines), which no other part reads, and
  the fixture generator, which writes the packets of the modelled sender for one fixed text.
  Thread interleaving is modelled where the code depends on it
  (scan and send workers with generations, the queue between the loop and the MES worker);
  log texts are left out.
\<close>

end
